(* ===== verification/Prelude.thy ===== *)
theory Prelude
  imports Main
    "HOL-Library.Word"
    "HOL-Library.List_Lexorder"
    "HOL-Library.Char_ord"
    "HOL-Library.Sublist"
    "HOL-Library.Multiset"
begin

text \<open>
  Shared vocabulary of the development: bytes and Go strings, the result type of fallible
  Go functions, the byte-wise order of keys (Go's \<^verbatim>\<open>bytes.Compare\<close>, Pebble's default
  comparer), and Go maps as association lists. The generic lemmas here are the ones that
  several components use.

  Conventions. A Go \<^verbatim>\<open>[]byte\<close> is a list of 8-bit words, a Go \<^verbatim>\<open>string\<close> is a HOL
  \<^typ>\<open>string\<close> (a HOL character has exactly 256 values, so it is one byte of the Go string),
  \<^verbatim>\<open>uint64\<close> is \<^typ>\<open>64 word\<close>. A slice whose nil-ness the code tests is an option.
  A function that returns an \<^verbatim>\<open>error\<close> returns a sum, \<open>Inl\<close> being the error.
\<close>

section \<open>Named collections\<close>

named_theorems codec_simps \<open>round-trip equations of the byte codecs\<close>
named_theorems key_defs \<open>definitions of key builders and key ranges\<close>
named_theorems ring_simps \<open>token-range membership rewritten to interval arithmetic\<close>

section \<open>Types\<close>

type_synonym byte = "8 word"
type_synonym bytes = "byte list"
type_synonym uint64 = "64 word"
type_synonym uint32 = "32 word"

text \<open>The Go conversion \<^verbatim>\<open>[]byte(s)\<close>.\<close>

definition bytes_of_string :: "string \<Rightarrow> bytes" where
  "bytes_of_string s = map of_char s"

text \<open>The Go conversion \<^verbatim>\<open>string(b)\<close>.\<close>

definition string_of_bytes :: "bytes \<Rightarrow> string" where
  "string_of_bytes b = map (\<lambda>w. char_of (unat w)) b"

lemma unat_of_char_byte [simp]: "unat (of_char c :: byte) = of_char c"
proof -
  have "unat (of_nat (of_char c) :: byte) = of_char c"
    by (simp only: unat_of_nat) (simp add: nat_of_char_less_256)
  then show ?thesis by (simp only: of_nat_of_char)
qed

lemma unat_lt_256 [simp]: "unat (w :: byte) < 256"
  using unsigned_less [of w, where ?'a = nat] by simp

lemma string_of_bytes_of_string [simp]: "string_of_bytes (bytes_of_string s) = s"
  by (simp add: bytes_of_string_def string_of_bytes_def o_def)

lemma bytes_of_string_of_bytes [simp]: "bytes_of_string (string_of_bytes b) = b"
proof -
  have "of_char (char_of (unat w) :: char) = w" for w :: byte
  proof -
    have "of_char (char_of (unat w) :: char) = (of_nat (of_char (char_of (unat w) :: char)) :: byte)"
      by (simp only: of_nat_of_char)
    also have "\<dots> = of_nat (unat w)"
      using unat_lt_256 by simp
    finally show ?thesis by simp
  qed
  then show ?thesis
    by (simp add: bytes_of_string_def string_of_bytes_def o_def)
qed

lemma bytes_of_string_append [simp]:
  "bytes_of_string (s @ t) = bytes_of_string s @ bytes_of_string t"
  by (simp add: bytes_of_string_def)

lemma bytes_of_string_inject [simp]: "bytes_of_string s = bytes_of_string t \<longleftrightarrow> s = t"
  by (metis string_of_bytes_of_string)

lemma length_bytes_of_string [simp]: "length (bytes_of_string s) = length s"
  by (simp add: bytes_of_string_def)

lemma length_string_of_bytes [simp]: "length (string_of_bytes b) = length b"
  by (simp add: string_of_bytes_def)

section \<open>Results of fallible functions\<close>

text \<open>
  \<open>bindr r k\<close> is the Go pattern \<^verbatim>\<open>x, err := r; if err != nil { return ..., err }; k(x)\<close>.
\<close>

fun bindr :: "'e + 'a \<Rightarrow> ('a \<Rightarrow> 'e + 'b) \<Rightarrow> 'e + 'b" where
  "bindr (Inl e) k = Inl e"
| "bindr (Inr x) k = k x"

text \<open>Evaluation treats the continuation like the branch of a case distinction: after the scrutinee.\<close>

lemma bindr_case [code_unfold]: "bindr r k = (case r of Inl e \<Rightarrow> Inl e | Inr x \<Rightarrow> k x)"
  by (cases r) auto

lemma bindr_cong [fundef_cong]:
  "r = r' \<Longrightarrow> (\<And>x. r' = Inr x \<Longrightarrow> k x = k' x) \<Longrightarrow> bindr r k = bindr r' k'"
  by (cases r') auto

lemma bindr_Inr_iff: "bindr r k = Inr y \<longleftrightarrow> (\<exists>x. r = Inr x \<and> k x = Inr y)"
  by (cases r) auto

lemma bindr_Inl_iff:
  "bindr r k = Inl e \<longleftrightarrow> r = Inl e \<or> (\<exists>x. r = Inr x \<and> k x = Inl e)"
  by (cases r) auto

lemma bindr_InrE [elim]:
  assumes "bindr r k = Inr y"
  obtains x where "r = Inr x" and "k x = Inr y"
  using assms by (cases r) auto

text \<open>\<open>wrapr w r\<close> is \<^verbatim>\<open>fmt.Errorf("...: %w", err)\<close> on the error path.\<close>

fun wrapr :: "('e \<Rightarrow> 'f) \<Rightarrow> 'e + 'a \<Rightarrow> 'f + 'a" where
  "wrapr w (Inl e) = Inl (w e)"
| "wrapr w (Inr x) = Inr x"

lemma wrapr_Inr_iff [simp]: "wrapr w r = Inr x \<longleftrightarrow> r = Inr x"
  by (cases r) auto

definition is_ok :: "'e + 'a \<Rightarrow> bool" where
  "is_ok r \<longleftrightarrow> (case r of Inl _ \<Rightarrow> False | Inr _ \<Rightarrow> True)"

lemma is_ok_simps [simp]: "is_ok (Inr x)" "\<not> is_ok (Inl e)"
  by (simp_all add: is_ok_def)

lemma is_ok_iff: "is_ok r \<longleftrightarrow> (\<exists>x. r = Inr x)"
  by (cases r) auto

section \<open>The byte-wise order\<close>

text \<open>
  \<^theory_text>\<open>HOL-Library.List_Lexorder\<close> orders lists lexicographically, a proper prefix first. On
  byte lists this is \<^verbatim>\<open>bytes.Compare\<close>, on strings Go's \<^verbatim>\<open><\<close>.
\<close>

lemma append_less_append_iff [simp]: "(p :: 'a::linorder list) @ a < p @ b \<longleftrightarrow> a < b"
  by (induction p) auto

lemma append_le_append_iff [simp]: "(p :: 'a::linorder list) @ a \<le> p @ b \<longleftrightarrow> a \<le> b"
  by (induction p) auto

lemma le_append_self [simp]: "(p :: 'a::linorder list) \<le> p @ a"
  by (induction p) auto

lemma append_less_self [simp]: "\<not> (p :: 'a::linorder list) @ a < p"
  by (simp add: not_less)

lemma less_append_self [simp]: "(p :: 'a::linorder list) < p @ a \<longleftrightarrow> a \<noteq> []"
  by (cases a) (induction p, auto)+

lemma append_less_same_length:
  fixes a b :: "'a::linorder list"
  assumes "length a = length b"
  shows "a @ s < b @ t \<longleftrightarrow> a < b \<or> (a = b \<and> s < t)"
  using assms by (induction a b rule: list_induct2) auto

text \<open>Equal-length keys followed by any suffix compare like the keys against a bare bound.\<close>

lemma append_less_bound:
  fixes a b :: "'a::linorder list"
  assumes "length a = length b"
  shows "a @ s < b \<longleftrightarrow> a < b"
  using append_less_same_length [OF assms, of s "[]"] by simp

lemma bound_le_append:
  fixes a b :: "'a::linorder list"
  assumes "length a = length b"
  shows "b \<le> a @ s \<longleftrightarrow> b \<le> a"
  using append_less_bound [OF assms, of s] by (simp add: not_less [symmetric])

lemma prefix_le: "prefix p k \<Longrightarrow> (p :: 'a::linorder list) \<le> k"
  by (auto simp: prefix_def)

section \<open>Go maps\<close>

text \<open>
  A Go \<^verbatim>\<open>map[string]V\<close> is an association list. The order of the list stands for the
  iteration order, which Go leaves unspecified: a definition that ranges over a map is
  faithful only if its result does not depend on that order, which is proved where it
  matters. A map in canonical form lists its keys in strictly ascending order. The operations
  work for any ordered type of keys: the key-value store uses them with byte strings.
\<close>

type_synonym 'v gomap = "(string \<times> 'v) list"

definition gomap_canon :: "('k::linorder \<times> 'v) list \<Rightarrow> bool" where
  "gomap_canon m \<longleftrightarrow> sorted_wrt (<) (map fst m)"

text \<open>\<^verbatim>\<open>m[k] = v\<close> on a canonical map.\<close>

fun gomap_put :: "'k::linorder \<Rightarrow> 'v \<Rightarrow> ('k \<times> 'v) list \<Rightarrow> ('k \<times> 'v) list" where
  "gomap_put k v [] = [(k, v)]"
| "gomap_put k v ((k', v') # m) =
     (if k < k' then (k, v) # (k', v') # m
      else if k = k' then (k, v) # m
      else (k', v') # gomap_put k v m)"

lemma map_of_gomap_put:
  "gomap_canon m \<Longrightarrow> map_of (gomap_put k v m) = (map_of m)(k \<mapsto> v)"
proof (induction m)
  case Nil
  then show ?case by simp
next
  case (Cons kv m)
  obtain k' v' where kv: "kv = (k', v')" by (cases kv)
  from Cons.prems have "gomap_canon m" by (simp add: gomap_canon_def)
  with Cons.IH show ?case by (auto simp: kv fun_eq_iff)
qed

lemma keys_gomap_put: "fst ` set (gomap_put k v m) = insert k (fst ` set m)"
  by (induction k v m rule: gomap_put.induct) auto

lemma gomap_canon_put [simp, intro]: "gomap_canon m \<Longrightarrow> gomap_canon (gomap_put k v m)"
proof (induction k v m rule: gomap_put.induct)
  case (1 k v)
  then show ?case by (simp add: gomap_canon_def)
next
  case (2 k v k' v' m)
  from 2(2) have m: "gomap_canon m" and gt: "\<And>x. x \<in> fst ` set m \<Longrightarrow> k' < x"
    by (auto simp: gomap_canon_def)
  show ?case
  proof (cases "k \<le> k'")
    case True
    with 2(2) show ?thesis
      by (auto simp: gomap_canon_def dest: gt intro: less_trans)
  next
    case False
    with 2(1) m have "gomap_canon (gomap_put k v m)" by auto
    moreover have "k' < x" if "x \<in> fst ` set (gomap_put k v m)" for x
      using that False gt by (auto simp: keys_gomap_put)
    ultimately show ?thesis using False by (auto simp: gomap_canon_def)
  qed
qed

text \<open>\<^verbatim>\<open>delete(m, k)\<close>.\<close>

definition gomap_del :: "'k \<Rightarrow> ('k \<times> 'v) list \<Rightarrow> ('k \<times> 'v) list" where
  "gomap_del k m = filter (\<lambda>(k', _). k' \<noteq> k) m"

lemma map_of_gomap_del: "map_of (gomap_del k m) = (map_of m)(k := None)"
  by (induction m) (auto simp: gomap_del_def fun_eq_iff)

lemma gomap_canon_del [simp, intro]: "gomap_canon m \<Longrightarrow> gomap_canon (gomap_del k m)"
  by (induction m) (auto simp: gomap_del_def gomap_canon_def)

lemma gomap_canon_Nil [simp]: "gomap_canon []"
  by (simp add: gomap_canon_def)

lemma gomap_canon_distinct: "gomap_canon m \<Longrightarrow> distinct (map fst m)"
  by (auto simp: gomap_canon_def strict_sorted_iff)

lemma gomap_canon_sort_key: "gomap_canon m \<Longrightarrow> sort_key fst m = m"
  by (simp add: gomap_canon_def strict_sorted_iff sort_key_id_if_sorted)

text \<open>Storing past the largest key appends, which is what decoding a sorted item does.\<close>

lemma gomap_put_snoc:
  "(\<And>x. x \<in> fst ` set m \<Longrightarrow> x < k) \<Longrightarrow> gomap_put k v m = m @ [(k, v)]"
proof (induction k v m rule: gomap_put.induct)
  case (1 k v)
  then show ?case by simp
next
  case (2 k v k' v' m)
  from 2(2) [of k'] have "k' < k" by simp
  then have "\<not> k < k'" and "k \<noteq> k'" by auto
  with 2 show ?case by simp
qed

section \<open>Sorting by a key\<close>

text \<open>
  Go's \<^verbatim>\<open>sort.Slice\<close> is not stable, so its result is determined only up to the order of
  elements with equal keys. With pairwise distinct keys the result is unique; it is
  \<^term>\<open>sort_key\<close>.
\<close>

lemma sort_key_unique:
  fixes f :: "'a \<Rightarrow> 'b::linorder"
  assumes "mset ys = mset xs" and "sorted (map f ys)" and "distinct (map f xs)"
  shows "ys = sort_key f xs"
proof -
  have "inj_on f (set xs)" using assms(3) by (simp add: distinct_map)
  then show ?thesis
    using assms by (metis sort_key_inj_key_eq)
qed

lemma size_list_sort_key [simp]: "size_list g (sort_key f xs) = size_list g xs"
proof -
  have *: "size_list g (insort_key f x ys) = size_list g (x # ys)" for x ys
    by (induction ys) auto
  show ?thesis by (induction xs) (simp_all add: *)
qed

lemma map_of_sort_key:
  assumes "distinct (map fst m)"
  shows "map_of (sort_key fst m) = map_of m"
proof -
  have "distinct (map fst (sort_key fst m))"
    using assms by (metis distinct_map distinct_sort set_sort)
  then show ?thesis
    using assms by (simp add: map_of_inject_set)
qed

lemma sort_key_map_entries:
  "sort_key fst (map (\<lambda>(k, v). (k, f v)) m) = map (\<lambda>(k, v). (k, f v)) (sort_key fst m)"
proof -
  have ins: "insort_key fst (k, f v) (map (\<lambda>(k, v). (k, f v)) m)
          = map (\<lambda>(k, v). (k, f v)) (insort_key fst (k, v) m)" for k v m
    by (induction m) auto
  show ?thesis
  proof (induction m)
    case (Cons e m)
    then show ?case by (cases e) (simp add: ins)
  qed simp
qed

lemma sort_key_idem [simp]: "sort_key f (sort_key f xs) = sort_key f xs"
  by (simp add: sort_key_id_if_sorted)

end
