(* ===== verification/GoBinary.thy ===== *)
theory GoBinary
  imports Prelude
begin

text \<open>
  The parts of Go's standard library that the storage layer builds its byte formats from:
  \<^verbatim>\<open>encoding/binary\<close> (uvarints and big-endian integers) and \<^verbatim>\<open>net/url\<close>'s
  \<^verbatim>\<open>PathEscape\<close>, together with the two interfaces the rest of the development relies on:
  \<open>stream_codec\<close> (a writer and a reader that consumes exactly what was written) and
  \<open>ordered_key\<close> (a fixed-width encoding that preserves order under byte-wise comparison).
\<close>

unbundle bit_operations_syntax

section \<open>Unsigned varints\<close>

text \<open>\<^verbatim>\<open>binary.PutUvarint\<close>: seven bits per byte, least significant group first.\<close>

function PutUvarint :: "uint64 \<Rightarrow> bytes" where
  "PutUvarint x =
     (if 0x80 \<le> x then (ucast x OR 0x80) # PutUvarint (drop_bit 7 x) else [ucast x])"
  by pat_completeness auto
termination
proof (relation "measure unat")
  show "wf (measure (unat :: uint64 \<Rightarrow> nat))" by simp
  fix x :: uint64
  assume "0x80 \<le> x"
  then have "128 \<le> unat x" by (simp add: word_le_nat_alt)
  moreover have "unat (drop_bit 7 x) = unat x div 128"
    by (simp add: drop_bit_eq_div unat_div)
  ultimately show "(drop_bit 7 x, x) \<in> measure unat" by simp
qed

declare PutUvarint.simps [simp del]

text \<open>
  \<^verbatim>\<open>binary.Uvarint\<close>: the value and the number of bytes read; a count that is not
  positive reports a short buffer (0) or an overflow (negative). \<open>i\<close> is the loop index,
  \<open>x\<close> the value so far and \<open>s\<close> the shift.
\<close>

fun Uvarint_loop :: "nat \<Rightarrow> uint64 \<Rightarrow> nat \<Rightarrow> bytes \<Rightarrow> uint64 \<times> int" where
  "Uvarint_loop i x s [] = (0, 0)"
| "Uvarint_loop i x s (b # bs) =
     (if i = 10 then (0, - (int i + 1))
      else if b < 0x80 then
        (if i = 9 \<and> 1 < b then (0, - (int i + 1))
         else (x OR push_bit s (ucast b), int i + 1))
      else Uvarint_loop (Suc i) (x OR push_bit s (ucast (b AND 0x7f))) (s + 7) bs)"

definition Uvarint :: "bytes \<Rightarrow> uint64 \<times> int" where
  "Uvarint p = Uvarint_loop 0 0 0 p"

lemma unat_drop_bit_7: "unat (drop_bit 7 (v :: uint64)) = unat v div 128"
  by (simp add: drop_bit_eq_div unat_div)

lemma length_PutUvarint_bound:
  "unat v < 2 ^ (7 * n) \<Longrightarrow> 0 < n \<Longrightarrow> length (PutUvarint v) \<le> n"
proof (induction v arbitrary: n rule: PutUvarint.induct)
  case (1 v)
  show ?case
  proof (cases "0x80 \<le> v")
    case False
    with \<open>0 < n\<close> show ?thesis by (simp add: PutUvarint.simps [of v])
  next
    case True
    from True have v: "128 \<le> unat v" by (simp add: word_le_nat_alt)
    obtain m where n: "n = Suc m" using \<open>0 < n\<close> by (cases n) auto
    have "0 < m" using 1(2) v by (cases m) (auto simp: n)
    moreover have "unat (drop_bit 7 v) < 2 ^ (7 * m)"
      using 1(2) by (simp add: unat_drop_bit_7 n power_add less_mult_imp_div_less mult.commute)
    ultimately have "length (PutUvarint (drop_bit 7 v)) \<le> m" using 1(1) True by blast
    with True show ?thesis by (simp add: PutUvarint.simps [of v] n)
  qed
qed

text \<open>The ten-byte scratch buffer of \<^verbatim>\<open>appendUvarint\<close> is always long enough.\<close>

lemma length_PutUvarint: "length (PutUvarint v) \<le> 10"
proof (rule length_PutUvarint_bound)
  have "unat v < 2 ^ 64" using unsigned_less [of v, where ?'a = nat] by simp
  also have "\<dots> \<le> 2 ^ (7 * 10)" by simp
  finally show "unat v < 2 ^ (7 * 10)" .
qed simp

lemma PutUvarint_not_Nil [simp]: "PutUvarint v \<noteq> []"
  by (subst PutUvarint.simps) simp

text \<open>A value is the disjoint union of its low seven bits and the rest.\<close>

lemma bit_split_low7:
  fixes v :: uint64 and a b :: byte
  assumes a: "\<And>k. bit a k \<longleftrightarrow> k < 7" and b: "\<And>k. bit b k \<longleftrightarrow> k = 7"
  shows "push_bit s (ucast ((ucast v OR b) AND a)) OR push_bit (s + 7) (drop_bit 7 v) = push_bit s v"
proof (rule bit_word_eqI)
  fix n assume n: "n < LENGTH(64)"
  show "bit (push_bit s (ucast ((ucast v OR b) AND a)) OR push_bit (s + 7) (drop_bit 7 v)) n
          = bit (push_bit s v) n"
  proof (cases "s + 7 \<le> n")
    case True
    then have "7 + (n - (s + 7)) = n - s" by simp
    with True n show ?thesis
      by (auto simp: bit_or_iff bit_and_iff bit_push_bit_iff bit_drop_bit_eq bit_ucast_iff a b)
  next
    case False
    with n show ?thesis
      by (auto simp: bit_or_iff bit_and_iff bit_push_bit_iff bit_drop_bit_eq bit_ucast_iff a b)
  qed
qed

lemma bit_byte_127: "bit (0x7f :: byte) k \<longleftrightarrow> k < 7"
proof -
  have "(0x7f :: byte) = mask 7" by (simp add: mask_eq_exp_minus_1)
  then show ?thesis by (simp only: bit_mask_iff) auto
qed

lemma bit_byte_128: "bit (0x80 :: byte) k \<longleftrightarrow> k = 7"
proof -
  have "(0x80 :: byte) = push_bit 7 1" by simp
  then show ?thesis by (simp only: bit_push_bit_iff) (auto simp: bit_1_iff)
qed

lemmas word_split_low7 = bit_split_low7 [OF bit_byte_127 bit_byte_128]

lemma byte_less_128: "(b :: byte) < 0x80 \<longleftrightarrow> \<not> bit b 7"
proof -
  have "bit b 7 \<longleftrightarrow> odd (unat b div 128)"
    using bit_unsigned_iff [of b 7, where ?'a = nat] by (simp add: bit_iff_odd)
  moreover have "unat b div 128 \<le> 1" using unat_lt_256 [of b] by linarith
  then have "odd (unat b div 128) \<longleftrightarrow> \<not> unat b < 128"
    by (cases "unat b div 128 = 0") (auto simp: le_Suc_eq)
  ultimately show ?thesis by (simp add: word_less_nat_alt)
qed

lemma ucast_small_byte:
  "\<not> (0x80 :: uint64) \<le> v \<Longrightarrow> ucast (ucast v :: byte) = v"
proof -
  assume "\<not> (0x80 :: uint64) \<le> v"
  then have "unat v < 128" by (simp add: word_le_nat_alt)
  then show ?thesis by (simp add: word_unat_eq_iff unsigned_ucast_eq unsigned_take_bit_eq take_bit_nat_eq_self)
qed

text \<open>Reading what was written, in the middle of the loop.\<close>

lemma Uvarint_loop_PutUvarint:
  "i \<le> 9 \<Longrightarrow> unat v < 2 ^ (64 - 7 * i) \<Longrightarrow>
   Uvarint_loop i x (7 * i) (PutUvarint v @ r)
     = (x OR push_bit (7 * i) v, int i + int (length (PutUvarint v)))"
proof (induction v arbitrary: i x rule: PutUvarint.induct)
  case (1 v)
  show ?case
  proof (cases "0x80 \<le> v")
    case False
    then have small: "unat v < 128" by (simp add: word_le_nat_alt)
    have lt: "(ucast v :: byte) < 0x80"
      using small by (simp add: word_less_nat_alt unsigned_ucast_eq unsigned_take_bit_eq take_bit_nat_eq_self)
    have top: "\<not> (i = 9 \<and> 1 < (ucast v :: byte))"
      using 1(3) small by (auto simp: word_less_nat_alt unsigned_ucast_eq unsigned_take_bit_eq take_bit_nat_eq_self)
    have "ucast (ucast v :: byte) = v" by (rule ucast_small_byte [OF False])
    with False lt top 1(2) show ?thesis by (simp add: PutUvarint.simps [of v])
  next
    case True
    then have v: "128 \<le> unat v" by (simp add: word_le_nat_alt)
    have "i \<noteq> 9" using 1(3) v by auto
    with 1(2) have i: "Suc i \<le> 9" by simp
    have "(2::nat) ^ (64 - 7 * i) = 128 * 2 ^ (64 - 7 * Suc i)"
    proof -
      have "64 - 7 * i = 7 + (64 - 7 * Suc i)" using i by simp
      then show ?thesis by (simp only: power_add) simp
    qed
    with 1(3) have "unat (drop_bit 7 v) < 2 ^ (64 - 7 * Suc i)"
      by (simp add: unat_drop_bit_7 less_mult_imp_div_less mult.commute)
    note IH = 1(1) [OF True i this]
    have ge: "\<not> (ucast v OR 0x80 :: byte) < 0x80"
      by (simp only: byte_less_128 bit_or_iff bit_byte_128) simp
    have "push_bit (7 * i) (ucast ((ucast v OR 0x80 :: byte) AND 0x7f)) OR
          push_bit (7 * Suc i) (drop_bit 7 v) = push_bit (7 * i) v"
      using word_split_low7 [of "7 * i" v] by (simp add: add.commute)
    then show ?thesis
      using True ge i IH [of "x OR push_bit (7 * i) (ucast ((ucast v OR 0x80 :: byte) AND 0x7f))"]
      by (simp add: PutUvarint.simps [of v] or.assoc add.commute)
  qed
qed

lemma Uvarint_PutUvarint: "Uvarint (PutUvarint v @ r) = (v, int (length (PutUvarint v)))"
  using Uvarint_loop_PutUvarint [of 0 v 0 r] unsigned_less [of v, where ?'a = nat]
  by (simp add: Uvarint_def)

section \<open>Big-endian integers\<close>

text \<open>\<^verbatim>\<open>binary.BigEndian.PutUint64\<close> and \<^verbatim>\<open>binary.BigEndian.Uint64\<close>.\<close>

definition PutUint64 :: "uint64 \<Rightarrow> bytes" where
  "PutUint64 v =
     [ucast (drop_bit 56 v), ucast (drop_bit 48 v), ucast (drop_bit 40 v), ucast (drop_bit 32 v),
      ucast (drop_bit 24 v), ucast (drop_bit 16 v), ucast (drop_bit 8 v), ucast v]"

definition Uint64 :: "bytes \<Rightarrow> uint64" where
  "Uint64 b =
     ucast (b ! 7) OR push_bit 8 (ucast (b ! 6)) OR push_bit 16 (ucast (b ! 5)) OR
     push_bit 24 (ucast (b ! 4)) OR push_bit 32 (ucast (b ! 3)) OR push_bit 40 (ucast (b ! 2)) OR
     push_bit 48 (ucast (b ! 1)) OR push_bit 56 (ucast (b ! 0))"

text \<open>\<^verbatim>\<open>binary.BigEndian.AppendUint16\<close> (the bytes appended) and \<^verbatim>\<open>binary.BigEndian.Uint16\<close>.\<close>

definition PutUint16 :: "16 word \<Rightarrow> bytes" where
  "PutUint16 v = [ucast (drop_bit 8 v), ucast v]"

definition Uint16 :: "bytes \<Rightarrow> 16 word" where
  "Uint16 b = ucast (b ! 1) OR push_bit 8 (ucast (b ! 0))"

lemma length_PutUint64 [simp]: "length (PutUint64 v) = 8"
  by (simp add: PutUint64_def)

lemma Uint64_PutUint64 [codec_simps]: "Uint64 (PutUint64 v @ r) = v"
proof (rule bit_word_eqI)
  fix n assume "n < LENGTH(64)"
  then have n: "n < 64" by simp
  consider "n < 8" | "8 \<le> n" "n < 16" | "16 \<le> n" "n < 24" | "24 \<le> n" "n < 32"
    | "32 \<le> n" "n < 40" | "40 \<le> n" "n < 48" | "48 \<le> n" "n < 56" | "56 \<le> n" "n < 64"
    using n by linarith
  then show "bit (Uint64 (PutUint64 v @ r)) n = bit v n"
    by cases (auto simp: Uint64_def PutUint64_def bit_or_iff bit_push_bit_iff
        bit_ucast_iff bit_drop_bit_eq)
qed

lemma PutUint64_inject [simp]: "PutUint64 a = PutUint64 b \<longleftrightarrow> a = b"
  using Uint64_PutUint64 [of _ "[]"] by (metis append_Nil2)

text \<open>
  The number a byte list denotes. Byte-wise comparison of equally long lists is comparison
  of these numbers, so big-endian encoding preserves the order of unsigned integers.
\<close>

fun be_val :: "bytes \<Rightarrow> nat" where
  "be_val [] = 0"
| "be_val (b # bs) = unat b * 256 ^ length bs + be_val bs"

lemma be_val_bound: "be_val bs < 256 ^ length bs"
proof (induction bs)
  case Nil
  then show ?case by simp
next
  case (Cons b bs)
  have "unat b * 256 ^ length bs \<le> 255 * 256 ^ length bs"
    using unat_lt_256 [of b] by (intro mult_right_mono) linarith+
  with Cons show ?case unfolding be_val.simps list.size power_Suc add_0_right add_Suc_right
    by linarith
qed

lemma digits_less_iff:
  fixes x y :: nat
  assumes "u < B" and "v < B"
  shows "x * B + u < y * B + v \<longleftrightarrow> x < y \<or> (x = y \<and> u < v)"
proof (cases x y rule: linorder_cases)
  case less
  then have "Suc x * B \<le> y * B" by (intro mult_right_mono) auto
  with less assms show ?thesis by simp
next
  case equal
  then show ?thesis by simp
next
  case greater
  then have "Suc y * B \<le> x * B" by (intro mult_right_mono) auto
  with greater assms show ?thesis by simp
qed

lemma be_val_less_iff:
  "length xs = length ys \<Longrightarrow> be_val xs < be_val ys \<longleftrightarrow> xs < ys"
proof (induction xs ys rule: list_induct2)
  case Nil
  then show ?case by simp
next
  case (Cons x xs y ys)
  have "be_val xs < 256 ^ length xs" and "be_val ys < 256 ^ length xs"
    using be_val_bound [of xs] be_val_bound [of ys] Cons.hyps by simp_all
  then show ?case
    using Cons digits_less_iff
    by (simp add: word_less_nat_alt word_unat_eq_iff)
qed

lemma horner256:
  fixes n :: nat
  assumes "n = q1 * 256 + r0" "q1 = q2 * 256 + r1" "q2 = q3 * 256 + r2" "q3 = q4 * 256 + r3"
    "q4 = q5 * 256 + r4" "q5 = q6 * 256 + r5" "q6 = q7 * 256 + r6"
  shows "q7 * 2 ^ 56 + (r6 * 2 ^ 48 + (r5 * 2 ^ 40 + (r4 * 2 ^ 32 + (r3 * 2 ^ 24 +
    (r2 * 2 ^ 16 + (r1 * 256 + r0)))))) = n"
  unfolding assms by simp

lemma base256_digits:
  fixes n :: nat
  assumes "n < 2 ^ 64"
  shows "n div 2 ^ 56 * 2 ^ 56 + (n div 2 ^ 48 mod 256 * 2 ^ 48 + (n div 2 ^ 40 mod 256 * 2 ^ 40 +
    (n div 2 ^ 32 mod 256 * 2 ^ 32 + (n div 2 ^ 24 mod 256 * 2 ^ 24 +
    (n div 2 ^ 16 mod 256 * 2 ^ 16 + (n div 256 mod 256 * 256 + n mod 256)))))) = n"
proof -
  have step: "n div B = n div (B * 256) * 256 + n div B mod 256" for B :: nat
    by (simp add: div_mult2_eq)
  have s0: "n = n div 256 * 256 + n mod 256" by simp
  from step [of 256] step [of "2 ^ 16"] step [of "2 ^ 24"] step [of "2 ^ 32"] step [of "2 ^ 40"]
    step [of "2 ^ 48"]
  have "n div 256 = n div 2 ^ 16 * 256 + n div 256 mod 256"
    and "n div 2 ^ 16 = n div 2 ^ 24 * 256 + n div 2 ^ 16 mod 256"
    and "n div 2 ^ 24 = n div 2 ^ 32 * 256 + n div 2 ^ 24 mod 256"
    and "n div 2 ^ 32 = n div 2 ^ 40 * 256 + n div 2 ^ 32 mod 256"
    and "n div 2 ^ 40 = n div 2 ^ 48 * 256 + n div 2 ^ 40 mod 256"
    and "n div 2 ^ 48 = n div 2 ^ 56 * 256 + n div 2 ^ 48 mod 256"
    by simp_all
  with s0 show ?thesis by (rule horner256)
qed

lemma be_val_PutUint64: "be_val (PutUint64 v) = unat v"
proof -
  have d: "unat (ucast (drop_bit k v) :: byte) = unat v div 2 ^ k mod 256" for k
  proof -
    have "unat (drop_bit k v) = unat v div 2 ^ k"
      by (simp only: unat_drop_bit_eq) (simp add: drop_bit_eq_div)
    then show ?thesis by (simp add: unsigned_ucast_eq unsigned_take_bit_eq take_bit_eq_mod)
  qed
  have d0: "unat (ucast v :: byte) = unat v mod 256"
    by (simp add: unsigned_ucast_eq unsigned_take_bit_eq take_bit_eq_mod)
  have lt: "unat v < 2 ^ 64" using unsigned_less [of v, where ?'a = nat] by simp
  show ?thesis
    unfolding PutUint64_def be_val.simps d d0
    using base256_digits [OF lt] lt by simp
qed

lemma PutUint64_less_iff [simp]: "PutUint64 a < PutUint64 b \<longleftrightarrow> a < b"
  using be_val_less_iff [of "PutUint64 a" "PutUint64 b"]
  by (simp add: be_val_PutUint64 word_less_nat_alt)

lemma PutUint64_le_iff [simp]: "PutUint64 a \<le> PutUint64 b \<longleftrightarrow> a \<le> b"
  using PutUint64_less_iff [of b a] by (simp only: not_less [symmetric])

section \<open>Path escaping\<close>

text \<open>
  \<^verbatim>\<open>url.PathEscape\<close>: every byte outside the unreserved set of a path segment becomes
  \<^verbatim>\<open>%XX\<close> with upper-case hexadecimal digits.
\<close>

definition shouldEscape :: "char \<Rightarrow> bool" where
  "shouldEscape c \<longleftrightarrow>
     \<not> ((CHR ''a'' \<le> c \<and> c \<le> CHR ''z'') \<or> (CHR ''A'' \<le> c \<and> c \<le> CHR ''Z'') \<or>
        (CHR ''0'' \<le> c \<and> c \<le> CHR ''9'') \<or> c \<in> set ''-_.~$&+:=@'')"

definition upperhex :: "nat \<Rightarrow> char" where
  "upperhex d = (if d < 10 then char_of (48 + d) else char_of (55 + d))"

fun PathEscape :: "string \<Rightarrow> string" where
  "PathEscape [] = []"
| "PathEscape (c # s) =
     (if shouldEscape c
      then CHR ''%'' # upperhex (of_char c div 16) # upperhex (of_char c mod 16) # PathEscape s
      else c # PathEscape s)"

lemma shouldEscape_percent [simp]: "shouldEscape (CHR ''%'')"
  and shouldEscape_slash [simp]: "shouldEscape (CHR ''/'')"
  by (simp_all add: shouldEscape_def less_eq_char_def)

lemma upperhex_inject: "a < 16 \<Longrightarrow> b < 16 \<Longrightarrow> upperhex a = upperhex b \<Longrightarrow> a = b"
  by (auto simp: upperhex_def char_of_eq_iff take_bit_nat_eq_self split: if_splits)

lemma upperhex_slash: "d < 16 \<Longrightarrow> upperhex d \<noteq> CHR ''/''"
  by (auto simp: upperhex_def char_of_eq_iff take_bit_nat_eq_self split: if_splits)

lemma escape_pair_inject:
  assumes "upperhex (of_char c div 16) = upperhex (of_char d div 16)"
    and "upperhex (of_char c mod 16) = upperhex (of_char d mod 16)"
  shows "c = d"
proof -
  have c: "of_char c div 16 < (16::nat)" "of_char d div 16 < (16::nat)"
    using nat_of_char_less_256 [of c] nat_of_char_less_256 [of d] by linarith+
  have "of_char c div 16 = (of_char d div 16 :: nat)"
    using upperhex_inject [OF c assms(1)] .
  moreover have "of_char c mod 16 = (of_char d mod 16 :: nat)"
    using upperhex_inject [OF _ _ assms(2)] by simp
  ultimately have "(of_char c :: nat) = of_char d"
    by (metis div_mult_mod_eq)
  then show ?thesis by simp
qed

lemma PathEscape_inject: "PathEscape s = PathEscape t \<Longrightarrow> s = t"
proof (induction s arbitrary: t)
  case Nil
  then show ?case by (cases t) (auto split: if_splits)
next
  case (Cons c s)
  then obtain d t' where t: "t = d # t'" by (cases t) (auto split: if_splits)
  with Cons.prems have "c = d \<and> PathEscape s = PathEscape t'"
    by (auto split: if_splits dest: escape_pair_inject)
  with Cons.IH t show ?case by simp
qed

lemma PathEscape_no_slash: "CHR ''/'' \<notin> set (PathEscape s)"
proof (induction s)
  case Nil
  then show ?case by simp
next
  case (Cons c s)
  have "of_char c div 16 < (16::nat)" using nat_of_char_less_256 [of c] by linarith
  then have "upperhex (of_char c div 16) \<noteq> CHR ''/''" "upperhex (of_char c mod 16) \<noteq> CHR ''/''"
    by (auto intro!: upperhex_slash)
  with Cons show ?case by (auto simp: eq_commute [of "CHR ''/''"])
qed

section \<open>Interface: writers and readers of a byte stream\<close>

text \<open>
  A codec writes a value and reads it back from the front of a buffer, returning the bytes
  that follow. \<open>ok\<close> delimits the values the format can carry.
\<close>

locale stream_codec =
  fixes put :: "'a \<Rightarrow> bytes"
    and get :: "bytes \<Rightarrow> 'e + ('a \<times> bytes)"
    and ok :: "'a \<Rightarrow> bool"
  assumes get_put: "ok a \<Longrightarrow> get (put a @ r) = Inr (a, r)"
begin

lemma put_prefix_free:
  assumes "ok a" and "ok b" and "put a @ r = put b @ s"
  shows "a = b \<and> r = s"
proof -
  show ?thesis
    using get_put [OF assms(1), of r] unfolding assms(3) get_put [OF assms(2)] by simp
qed

lemma put_inject: "ok a \<Longrightarrow> ok b \<Longrightarrow> put a = put b \<Longrightarrow> a = b"
  using put_prefix_free [of a b "[]" "[]"] by simp

end

text \<open>Reading \<open>n\<close> values in a row: the shape of every counted loop of the item codec.\<close>

fun get_n :: "(bytes \<Rightarrow> 'e + ('a \<times> bytes)) \<Rightarrow> nat \<Rightarrow> bytes \<Rightarrow> 'e + ('a list \<times> bytes)" where
  "get_n g 0 p = Inr ([], p)"
| "get_n g (Suc n) p =
     bindr (g p) (\<lambda>(a, r). bindr (get_n g n r) (\<lambda>(as, r'). Inr (a # as, r')))"

context stream_codec
begin

lemma get_n_concat:
  "(\<And>a. a \<in> set as \<Longrightarrow> ok a) \<Longrightarrow>
   get_n get (length as) (concat (map put as) @ r) = Inr (as, r)"
  by (induction as) (auto simp: get_put)

end

section \<open>Interface: order-preserving fixed-width keys\<close>

text \<open>
  What a time- or sequence-ordered index needs of the encoding of its leading component:
  fixed width and strict monotonicity. Scanning the half-open range up to the encoding of a
  bound then visits exactly the entries whose component is smaller, whatever follows it.
\<close>

locale ordered_key =
  fixes enc :: "'a::linorder \<Rightarrow> bytes" and width :: nat
  assumes enc_width: "length (enc a) = width"
    and enc_less: "enc a < enc b \<longleftrightarrow> a < b"
begin

lemma enc_inject: "enc a = enc b \<Longrightarrow> a = b"
  using enc_less [of a b] enc_less [of b a] by (cases a b rule: linorder_cases) auto

lemma suffix_below: "enc a @ s < enc b \<longleftrightarrow> a < b"
  using append_less_bound [of "enc a" "enc b" s] by (simp add: enc_width enc_less)

lemma in_scan: "base \<le> base @ enc a @ s \<and> base @ enc a @ s < base @ enc b \<longleftrightarrow> a < b"
  by (simp add: suffix_below)

lemma key_order: "base @ enc a @ s < base @ enc b @ t \<longleftrightarrow> a < b \<or> (a = b \<and> s < t)"
  using append_less_same_length [of "enc a" "enc b" s t]
  by (auto simp: enc_width enc_less dest: enc_inject)

end

interpretation be64: ordered_key PutUint64 8
  by unfold_locales simp_all

end
