(* ===== verification/GoStrings.thy ===== *)
theory GoStrings
  imports GoBinary
begin

text \<open>
  The functions of Go's \<^verbatim>\<open>strings\<close> and \<^verbatim>\<open>strconv\<close> that the storage engine uses, and the 16- and
  32-bit big-endian integers of \<^verbatim>\<open>encoding/binary\<close>. A string is the list of its bytes.

  Case conversion is exact on ASCII and on the non-ASCII characters whose other case is ASCII
  (U+0131 and U+017F to upper case, U+0130 and U+212A to lower case); other characters are kept.
  The engine only compares converted strings with ASCII constants, for which this is exact.
\<close>

section \<open>White space\<close>

text \<open>The UTF-8 forms of the characters \<^verbatim>\<open>unicode.IsSpace\<close> accepts.\<close>

definition spaceEncodings :: "string list" where
  "spaceEncodings =
     map (\<lambda>n. [char_of (n :: nat)]) [9, 10, 11, 12, 13, 32] @
     map (\<lambda>n. [char_of (0xC2 :: nat), char_of (n :: nat)]) [0x85, 0xA0] @
     [[char_of (0xE1 :: nat), char_of (0x9A :: nat), char_of (0x80 :: nat)]] @
     map (\<lambda>n. [char_of (0xE2 :: nat), char_of (0x80 :: nat), char_of (n :: nat)]) ([0x80 ..< 0x8B] @ [0xA8, 0xA9, 0xAF]) @
     [[char_of (0xE2 :: nat), char_of (0x81 :: nat), char_of (0x9F :: nat)],
      [char_of (0xE3 :: nat), char_of (0x80 :: nat), char_of (0x80 :: nat)]]"

lemma spaceEncodings_nonempty: "e \<in> set spaceEncodings \<Longrightarrow> e \<noteq> []"
  by (auto simp: spaceEncodings_def)

function stripWith :: "string list \<Rightarrow> string \<Rightarrow> string" where
  "stripWith es v =
     (case find (\<lambda>e. e \<noteq> [] \<and> prefix e v) es of
        None \<Rightarrow> v
      | Some e \<Rightarrow> stripWith es (drop (length e) v))"
  by pat_completeness auto
termination stripWith
proof (relation "measure (\<lambda>(es, v). length v)")
  fix es v e assume "find (\<lambda>e. e \<noteq> [] \<and> prefix e v) es = Some (e :: string)"
  then have "e \<noteq> []" "prefix e v" by (auto simp: find_Some_iff)
  then show "((es, drop (length e) v), es, v) \<in> measure (\<lambda>(es, v). length v)" by (auto simp: prefix_def)
qed simp

declare stripWith.simps [simp del]

definition TrimSpace :: "string \<Rightarrow> string" where
  "TrimSpace v = rev (stripWith (map rev spaceEncodings) (rev (stripWith spaceEncodings v)))"

section \<open>Case\<close>

definition upperChar :: "char \<Rightarrow> char" where
  "upperChar c = (if (97 :: nat) \<le> of_char c \<and> of_char c \<le> (122 :: nat) then char_of (of_char c - 32 :: nat) else c)"

definition lowerChar :: "char \<Rightarrow> char" where
  "lowerChar c = (if (65 :: nat) \<le> of_char c \<and> of_char c \<le> (90 :: nat) then char_of (of_char c + 32 :: nat) else c)"

fun ToUpperStr :: "string \<Rightarrow> string" where
  "ToUpperStr (a # b # s) =
     (if a = char_of (0xC4 :: nat) \<and> b = char_of (0xB1 :: nat) then CHR ''I'' # ToUpperStr s
      else if a = char_of (0xC5 :: nat) \<and> b = char_of (0xBF :: nat) then CHR ''S'' # ToUpperStr s
      else upperChar a # ToUpperStr (b # s))"
| "ToUpperStr [a] = [upperChar a]"
| "ToUpperStr [] = []"

fun ToLowerStr :: "string \<Rightarrow> string" where
  "ToLowerStr (a # b # s) =
     (if a = char_of (0xC4 :: nat) \<and> b = char_of (0xB0 :: nat) then CHR ''i'' # ToLowerStr s
      else if a = char_of (0xE2 :: nat) \<and> b = char_of (0x84 :: nat) \<and> s \<noteq> [] \<and> hd s = char_of (0xAA :: nat)
      then CHR ''k'' # ToLowerStr (tl s)
      else lowerChar a # ToLowerStr (b # s))"
| "ToLowerStr [a] = [lowerChar a]"
| "ToLowerStr [] = []"

section \<open>Decimal numbers\<close>

definition isDecimal :: "char \<Rightarrow> bool" where
  "isDecimal c \<longleftrightarrow> (48 :: nat) \<le> of_char c \<and> of_char c \<le> (57 :: nat)"

fun decimalValue :: "nat \<Rightarrow> string \<Rightarrow> nat" where
  "decimalValue n [] = n"
| "decimalValue n (c # s) = decimalValue (10 * n + (of_char c - 48)) s"

text \<open>\<^verbatim>\<open>strconv.ParseUint(s, 10, 64)\<close>; \<open>None\<close> is an error, of syntax or of range.\<close>

definition ParseUint :: "string \<Rightarrow> uint64 option" where
  "ParseUint s =
     (if s = [] \<or> \<not> list_all isDecimal s \<or> 2 ^ 64 \<le> decimalValue 0 s then None
      else Some (of_nat (decimalValue 0 s)))"

text \<open>\<^verbatim>\<open>strconv.FormatUint(v, 10)\<close>.\<close>

fun formatNat :: "nat \<Rightarrow> string" where
  "formatNat n = (if n < 10 then [char_of (48 + n)] else formatNat (n div 10) @ [char_of (48 + n mod 10)])"

declare formatNat.simps [simp del]

definition FormatUint :: "uint64 \<Rightarrow> string" where
  "FormatUint v = formatNat (unat v)"

lemma isDecimal_digit: "d < 10 \<Longrightarrow> isDecimal (char_of (48 + d)) \<and> of_char (char_of (48 + d) :: char) - 48 = (d :: nat)"
  by (simp add: isDecimal_def)

lemma decimalValue_append: "decimalValue n (s @ [c]) = 10 * decimalValue n s + (of_char c - 48)"
  by (induction s arbitrary: n) simp_all

lemma formatNat_props: "list_all isDecimal (formatNat n) \<and> formatNat n \<noteq> [] \<and> decimalValue 0 (formatNat n) = n"
proof (induction n rule: formatNat.induct)
  case (1 n)
  show ?case
  proof (cases "n < 10")
    case True
    then show ?thesis using isDecimal_digit [of n] by (simp add: formatNat.simps [of n])
  next
    case False
    with 1 isDecimal_digit [of "n mod 10"] show ?thesis
      by (simp add: formatNat.simps [of n] decimalValue_append)
  qed
qed

lemma ParseUint_FormatUint [codec_simps]: "ParseUint (FormatUint v) = Some v"
proof -
  have "unat v < 2 ^ 64" using unsigned_less [of v, where ?'a = nat] by simp
  then show ?thesis using formatNat_props [of "unat v"] by (simp add: ParseUint_def FormatUint_def)
qed

section \<open>Evaluation\<close>

text \<open>Code equations with the characters written out, so that evaluation does no arithmetic on them.\<close>

lemma spaceEncodings_code [code]:
  "spaceEncodings =
     [[CHR 0x09], [CHR 0x0A], [CHR 0x0B], [CHR 0x0C], [CHR 0x0D], [CHR 0x20],
      [CHR 0xC2, CHR 0x85], [CHR 0xC2, CHR 0xA0], [CHR 0xE1, CHR 0x9A, CHR 0x80],
      [CHR 0xE2, CHR 0x80, CHR 0x80], [CHR 0xE2, CHR 0x80, CHR 0x81], [CHR 0xE2, CHR 0x80, CHR 0x82], [CHR 0xE2, CHR 0x80, CHR 0x83],
      [CHR 0xE2, CHR 0x80, CHR 0x84], [CHR 0xE2, CHR 0x80, CHR 0x85], [CHR 0xE2, CHR 0x80, CHR 0x86], [CHR 0xE2, CHR 0x80, CHR 0x87],
      [CHR 0xE2, CHR 0x80, CHR 0x88], [CHR 0xE2, CHR 0x80, CHR 0x89], [CHR 0xE2, CHR 0x80, CHR 0x8A], [CHR 0xE2, CHR 0x80, CHR 0xA8],
      [CHR 0xE2, CHR 0x80, CHR 0xA9], [CHR 0xE2, CHR 0x80, CHR 0xAF], [CHR 0xE2, CHR 0x81, CHR 0x9F], [CHR 0xE3, CHR 0x80, CHR 0x80]]"
  by (simp add: spaceEncodings_def upt_rec_numeral char_of_def bit_Suc_0_iff)

lemma of_char_int: "(of_char c :: int) = int (of_char c)"
  by (rule of_nat_of_char [symmetric])

lemma upperChar_code [code]:
  "upperChar (Char b0 b1 b2 b3 b4 b5 b6 b7) =
     Char b0 b1 b2 b3 b4 (b5 \<and> \<not> (b6 \<and> \<not> b7 \<and> (b0 \<or> b1 \<or> b2 \<or> b3 \<or> b4) \<and> \<not> (b4 \<and> b3 \<and> (b2 \<or> b0 \<and> b1)))) b6 b7"
  unfolding upperChar_def
  by (cases b0; cases b1; cases b2; cases b3; cases b4; cases b5; cases b6; cases b7)
    (simp_all add: of_char_def char_of_def bit_Suc_0_iff)

lemma lowerChar_code [code]:
  "lowerChar (Char b0 b1 b2 b3 b4 b5 b6 b7) =
     Char b0 b1 b2 b3 b4 (b5 \<or> (b6 \<and> \<not> b7 \<and> (b0 \<or> b1 \<or> b2 \<or> b3 \<or> b4) \<and> \<not> (b4 \<and> b3 \<and> (b2 \<or> b0 \<and> b1)))) b6 b7"
  unfolding lowerChar_def
  by (cases b0; cases b1; cases b2; cases b3; cases b4; cases b5; cases b6; cases b7)
    (simp_all add: of_char_def char_of_def bit_Suc_0_iff)

lemma isDecimal_code [code]: "isDecimal c \<longleftrightarrow> (48 :: int) \<le> of_char c \<and> of_char c \<le> (57 :: int)"
  by (simp add: isDecimal_def of_char_int)

lemma case_literals:
  "(char_of (0xC4 :: nat) :: char) = CHR 0xC4" "(char_of (0xB1 :: nat) :: char) = CHR 0xB1"
  "(char_of (0xC5 :: nat) :: char) = CHR 0xC5" "(char_of (0xBF :: nat) :: char) = CHR 0xBF"
  "(char_of (0xB0 :: nat) :: char) = CHR 0xB0" "(char_of (0xE2 :: nat) :: char) = CHR 0xE2"
  "(char_of (0x84 :: nat) :: char) = CHR 0x84" "(char_of (0xAA :: nat) :: char) = CHR 0xAA"
  by (simp_all add: char_of_def bit_Suc_0_iff)

lemma ToUpperStr_code [code]:
  "ToUpperStr (a # b # s) =
     (if a = CHR 0xC4 \<and> b = CHR 0xB1 then CHR ''I'' # ToUpperStr s
      else if a = CHR 0xC5 \<and> b = CHR 0xBF then CHR ''S'' # ToUpperStr s
      else upperChar a # ToUpperStr (b # s))"
  "ToUpperStr [a] = [upperChar a]"
  "ToUpperStr [] = []"
  by (simp_all only: ToUpperStr.simps case_literals)

lemma ToLowerStr_code [code]:
  "ToLowerStr (a # b # s) =
     (if a = CHR 0xC4 \<and> b = CHR 0xB0 then CHR ''i'' # ToLowerStr s
      else if a = CHR 0xE2 \<and> b = CHR 0x84 \<and> s \<noteq> [] \<and> hd s = CHR 0xAA then CHR ''k'' # ToLowerStr (tl s)
      else lowerChar a # ToLowerStr (b # s))"
  "ToLowerStr [a] = [lowerChar a]"
  "ToLowerStr [] = []"
  by (simp_all only: ToLowerStr.simps case_literals)

text \<open>Parsing through integers, whose code is binary.\<close>

fun decimalInt :: "int \<Rightarrow> string \<Rightarrow> int" where
  "decimalInt n [] = n"
| "decimalInt n (c # s) = decimalInt (10 * n + int (of_char c - 48)) s"

lemma decimalInt: "decimalInt (int n) s = int (decimalValue n s)"
proof (induction s arbitrary: n)
  case (Cons c s)
  from Cons [of "10 * n + (of_char c - 48)"] show ?case by simp
qed simp

lemma ParseUint_code [code]:
  "ParseUint s =
     (if s = [] \<or> \<not> list_all isDecimal s then None
      else let v = decimalInt 0 s in if 2 ^ 64 \<le> v then None else Some (word_of_int v))"
  using decimalInt [of 0 s] by (simp add: ParseUint_def Let_def flip: of_nat_le_iff)

section \<open>16- and 32-bit integers\<close>

definition PutUint32 :: "uint32 \<Rightarrow> bytes" where
  "PutUint32 v = [ucast (drop_bit 24 v), ucast (drop_bit 16 v), ucast (drop_bit 8 v), ucast v]"

definition Uint32 :: "bytes \<Rightarrow> uint32" where
  "Uint32 b =
     ucast (b ! 3) OR push_bit 8 (ucast (b ! 2)) OR push_bit 16 (ucast (b ! 1)) OR push_bit 24 (ucast (b ! 0))"

lemma length_PutUint32 [simp]: "length (PutUint32 v) = 4" "length (PutUint16 w) = 2"
  by (simp_all add: PutUint32_def PutUint16_def)

lemma Uint32_PutUint32 [codec_simps]: "Uint32 (PutUint32 v @ r) = v"
proof (rule bit_word_eqI)
  fix n assume "n < LENGTH(32)"
  then consider "n < 8" | "8 \<le> n" "n < 16" | "16 \<le> n" "n < 24" | "24 \<le> n" "n < 32" by force
  then show "bit (Uint32 (PutUint32 v @ r)) n = bit v n"
    by cases (auto simp: Uint32_def PutUint32_def bit_or_iff bit_push_bit_iff bit_ucast_iff bit_drop_bit_eq)
qed

lemma Uint16_PutUint16 [codec_simps]: "Uint16 (PutUint16 v @ r) = v"
proof (rule bit_word_eqI)
  fix n assume "n < LENGTH(16)"
  then consider "n < 8" | "8 \<le> n" "n < 16" by force
  then show "bit (Uint16 (PutUint16 v @ r)) n = bit v n"
    by cases (auto simp: Uint16_def PutUint16_def bit_or_iff bit_push_bit_iff bit_ucast_iff bit_drop_bit_eq)
qed

end
