(* ===== verification/DataModel.thy ===== *)
theory DataModel
  imports GoStrings
begin

text \<open>
  The public data model of \<^verbatim>\<open>pkg/types/types.go\<close>: attribute values, items, key schemas and
  index descriptors.

  \<^verbatim>\<open>AttributeValue\<close> is a flat Go struct of which, as its comment says, only the field
  selected by the tag \<^verbatim>\<open>T\<close> is meaningful; it is a tagged union here, one constructor per
  \<^verbatim>\<open>AttrType\<close> constant, plus \<open>AttrUnknown\<close> for a tag byte outside the declared constants,
  which the codec rejects. A \<^verbatim>\<open>float64\<close> component of a vector is its IEEE-754 bit pattern.
\<close>

datatype AttributeValue =
    AttrNull
  | AttrS string
  | AttrN string
  | AttrB bytes
  | AttrBOOL bool
  | AttrSS "string list"
  | AttrNS "string list"
  | AttrBS "bytes list"
  | AttrL "AttributeValue list"
  | AttrM "(string \<times> AttributeValue) list"
  | AttrVec "uint64 list"
  | AttrUnknown byte

type_synonym Item = "AttributeValue gomap"

text \<open>The tag byte \<^verbatim>\<open>T\<close>.\<close>

fun AttrType :: "AttributeValue \<Rightarrow> byte" where
  "AttrType AttrNull = 0"
| "AttrType (AttrS _) = 1"
| "AttrType (AttrN _) = 2"
| "AttrType (AttrB _) = 3"
| "AttrType (AttrBOOL _) = 4"
| "AttrType (AttrSS _) = 5"
| "AttrType (AttrNS _) = 6"
| "AttrType (AttrBS _) = 7"
| "AttrType (AttrL _) = 8"
| "AttrType (AttrM _) = 9"
| "AttrType (AttrVec _) = 10"
| "AttrType (AttrUnknown t) = t"

record KeySchema =
  ks_PK :: string
  ks_SK :: string

record IndexProjection =
  proj_Mode :: string
  proj_Include :: "string list"

record GSIDescriptor =
  gsi_Name :: string
  gsi_KeySchema :: KeySchema
  gsi_Projection :: IndexProjection
  gsi_Projected :: "string list"

record LSIDescriptor =
  lsi_Name :: string
  lsi_SK :: string
  lsi_Projection :: IndexProjection

text \<open>
  Well-formed values are those a running Go program can hold: a slice of \<open>n\<close> elements of a
  given size has been allocated, so it fits the 2^48-byte address space, nested maps have
  distinct keys (and are in canonical form: the order of the list carries no information in
  Go), and no tag is outside the declared constants.
\<close>

definition slice_fits :: "nat \<Rightarrow> 'a list \<Rightarrow> bool" where
  "slice_fits elemSize xs \<longleftrightarrow> elemSize * length xs \<le> 2 ^ 48"

definition len_fits :: "'a list \<Rightarrow> bool" where
  "len_fits xs \<longleftrightarrow> length xs \<le> 2 ^ 48"

fun av_wf :: "AttributeValue \<Rightarrow> bool" where
  "av_wf AttrNull = True"
| "av_wf (AttrS s) = len_fits s"
| "av_wf (AttrN s) = len_fits s"
| "av_wf (AttrB b) = len_fits b"
| "av_wf (AttrBOOL _) = True"
| "av_wf (AttrSS ss) = (slice_fits 16 ss \<and> list_all len_fits ss)"
| "av_wf (AttrNS ss) = (slice_fits 16 ss \<and> list_all len_fits ss)"
| "av_wf (AttrBS bs) = (slice_fits 24 bs \<and> list_all len_fits bs)"
| "av_wf (AttrL l) = (slice_fits 200 l \<and> list_all av_wf l)"
| "av_wf (AttrM m) =
     (len_fits m \<and> gomap_canon m \<and> list_all (\<lambda>(k, v). len_fits k \<and> av_wf v) m)"
| "av_wf (AttrVec v) = slice_fits 8 v"
| "av_wf (AttrUnknown _) = False"

definition item_wf :: "Item \<Rightarrow> bool" where
  "item_wf item \<longleftrightarrow>
     len_fits item \<and> gomap_canon item \<and> list_all (\<lambda>(k, v). len_fits k \<and> av_wf v) item"

lemma slice_fits_len_fits: "slice_fits n xs \<Longrightarrow> 0 < n \<Longrightarrow> len_fits xs"
  by (cases n) (auto simp: slice_fits_def len_fits_def)

lemma fits_map [simp]: "slice_fits n (map f xs) = slice_fits n xs" "len_fits (map f xs) = len_fits xs"
  by (simp_all add: slice_fits_def len_fits_def)

lemma len_fits_bytes_of_string [simp]: "len_fits (bytes_of_string s) = len_fits s"
  by (simp add: len_fits_def)

lemma unat_length64 [simp]:
  "len_fits xs \<Longrightarrow> unat (of_nat (length xs) :: uint64) = length xs"
  by (simp add: unat_of_nat len_fits_def)

text \<open>
  Two association lists denote the same Go value when their canonical forms agree: entries of
  every map, nested ones included, brought into ascending key order.
\<close>

fun canonAV :: "AttributeValue \<Rightarrow> AttributeValue" where
  "canonAV (AttrL l) = AttrL (map canonAV l)"
| "canonAV (AttrM m) = AttrM (sort_key fst (map (\<lambda>(k, v). (k, canonAV v)) m))"
| "canonAV a = a"

definition canonItem :: "Item \<Rightarrow> Item" where
  "canonItem item = sort_key fst (map (\<lambda>(k, v). (k, canonAV v)) item)"

text \<open>The errors of \<^verbatim>\<open>pkg/types\<close> that key extraction reports, with the attribute's name.\<close>

datatype key_error = ErrMissingKey string | ErrInvalidKeyType

section \<open>Table descriptors\<close>

text \<open>
  The part of \<^verbatim>\<open>TableDescriptor\<close> that the storage engine reads. The fields that only label
  streams, views and global indexes or report memory use are left out.
\<close>

record AttributeDefinition =
  ad_Name :: string
  ad_Type :: string
  ad_VectorDimensions :: int

record NumRange =
  nr_Lo :: uint64
  nr_Hi :: uint64

record SpatialIndexDescriptor =
  sp_Name :: string
  sp_Kind :: string
  sp_Attributes :: "string list"
  sp_Precision :: int
  sp_Ranges :: "NumRange list"

record StreamSpecification =
  ss_StreamEnabled :: bool
  ss_StreamViewType :: string
  ss_RetentionSeconds :: int

record TableDescriptor =
  td_Name :: string
  td_KeySchema :: KeySchema
  td_AttributeDefinitions :: "AttributeDefinition list"
  td_GSIs :: "GSIDescriptor list"
  td_LSIs :: "LSIDescriptor list"
  td_SpatialIndexes :: "SpatialIndexDescriptor list"
  td_StorageClass :: string
  td_TTLAttribute :: string
  td_StreamSpecification :: "StreamSpecification option"

definition AttributeTypeVector :: string where "AttributeTypeVector = ''V''"
definition AttributeTypeCounter :: string where "AttributeTypeCounter = ''COUNTER''"
definition StorageClassDisk :: string where "StorageClassDisk = ''disk''"
definition StorageClassMemory :: string where "StorageClassMemory = ''memory''"
definition StreamViewTypeKeysOnly :: string where "StreamViewTypeKeysOnly = ''KEYS_ONLY''"
definition StreamViewTypeNewImage :: string where "StreamViewTypeNewImage = ''NEW_IMAGE''"
definition StreamViewTypeOldImage :: string where "StreamViewTypeOldImage = ''OLD_IMAGE''"
definition StreamViewTypeNewAndOldImages :: string where "StreamViewTypeNewAndOldImages = ''NEW_AND_OLD_IMAGES''"
definition StreamViewTypeDeltaImage :: string where "StreamViewTypeDeltaImage = ''DELTA_IMAGE''"

definition NormalizeAttributeType :: "string \<Rightarrow> string" where
  "NormalizeAttributeType t = ToUpperStr (TrimSpace t)"

definition IsCounterAttributeType :: "string \<Rightarrow> bool" where
  "IsCounterAttributeType t \<longleftrightarrow> NormalizeAttributeType t = AttributeTypeCounter"

definition NormalizeStreamViewType :: "string \<Rightarrow> string" where
  "NormalizeStreamViewType view = ToUpperStr (TrimSpace view)"

definition IsValidStreamViewType :: "string \<Rightarrow> bool" where
  "IsValidStreamViewType view \<longleftrightarrow>
     NormalizeStreamViewType view \<in> {StreamViewTypeKeysOnly, StreamViewTypeNewImage, StreamViewTypeOldImage,
       StreamViewTypeNewAndOldImages, StreamViewTypeDeltaImage}"

end
