(* ===== verification/ItemCodec.thy ===== *)
theory ItemCodec
  imports DataModel
begin

text \<open>
  The on-disk item format of \<^verbatim>\<open>internal/storage/item_codec.go\<close>: \<open>EncodeItem\<close>,
  \<open>DecodeItem\<close>, \<open>VisitItem\<close>, the attribute codec \<open>appendAttr\<close> / \<open>readAttr\<close> and
  \<open>AttrCanonicalBytes\<close>. The theorems are the round trip through storage for every
  well-formed item, prefix-freeness and injectivity of the encoding, its independence of Go's
  map iteration order, and the agreement of \<open>VisitItem\<close> with \<open>DecodeItem\<close>.

  Errors are values of \<open>codec_error\<close>. \<open>Panic\<close> is the run-time panic of
  \<^verbatim>\<open>make([]T, n)\<close> when \<^verbatim>\<open>n\<close> elements exceed the address space (\<^verbatim>\<open>runtime.makeslice\<close> with
  \<^verbatim>\<open>maxAlloc\<close> = 2^48 on 64-bit Linux): the decoder passes a count read from the buffer to
  \<^verbatim>\<open>make\<close> before it checks that the buffer can hold that many elements. A comparison
  \<^verbatim>\<open>uint64(len(p)) < n\<close> is one of natural numbers, since a Go length is below 2^63.
\<close>

datatype codec_error =
    EncodeNil
  | UnknownAttrType byte
  | ShortBuffer
  | BadMagic
  | UnsupportedVersion byte
  | UvarintInvalid
  | LenBytesShort
  | AttrEmpty
  | BoolShort
  | VecShort
  | AttrNameShort
  | ItemCount codec_error
  | AttrNameLen codec_error
  | InAttr string codec_error
  | Panic

section \<open>Varint helpers\<close>

definition appendUvarint :: "bytes \<Rightarrow> uint64 \<Rightarrow> bytes" where
  "appendUvarint buf v = buf @ PutUvarint v"

definition readUvarint :: "bytes \<Rightarrow> codec_error + (uint64 \<times> bytes)" where
  "readUvarint p =
     (case Uvarint p of (v, n) \<Rightarrow>
        if n \<le> 0 then Inl UvarintInvalid else Inr (v, drop (nat n) p))"

definition readLenBytes :: "bytes \<Rightarrow> codec_error + (bytes \<times> bytes)" where
  "readLenBytes p =
     bindr (readUvarint p) (\<lambda>(n, rest).
       if length rest < unat n then Inl LenBytesShort
       else Inr (take (unat n) rest, drop (unat n) rest))"

text \<open>The pair of appends that writes a length-prefixed string or byte slice.\<close>

definition appendLenBytes :: "bytes \<Rightarrow> bytes \<Rightarrow> bytes" where
  "appendLenBytes buf b = appendUvarint buf (of_nat (length b)) @ b"

section \<open>Encoding\<close>

function (sequential) appendAttr :: "bytes \<Rightarrow> AttributeValue \<Rightarrow> codec_error + bytes"
  and appendAttrs :: "bytes \<Rightarrow> AttributeValue list \<Rightarrow> codec_error + bytes"
  and appendEntries :: "bytes \<Rightarrow> (string \<times> AttributeValue) list \<Rightarrow> codec_error + bytes"
where
  "appendAttr buf AttrNull = Inr (buf @ [0])"
| "appendAttr buf (AttrS s) = Inr (appendLenBytes (buf @ [1]) (bytes_of_string s))"
| "appendAttr buf (AttrN s) = Inr (appendLenBytes (buf @ [2]) (bytes_of_string s))"
| "appendAttr buf (AttrB b) = Inr (appendLenBytes (buf @ [3]) b)"
| "appendAttr buf (AttrBOOL b) = Inr ((buf @ [4]) @ [if b then 1 else 0])"
| "appendAttr buf (AttrSS ss) =
     Inr (foldl appendLenBytes (appendUvarint (buf @ [5]) (of_nat (length ss)))
            (map bytes_of_string ss))"
| "appendAttr buf (AttrNS ss) =
     Inr (foldl appendLenBytes (appendUvarint (buf @ [6]) (of_nat (length ss)))
            (map bytes_of_string ss))"
| "appendAttr buf (AttrBS bs) =
     Inr (foldl appendLenBytes (appendUvarint (buf @ [7]) (of_nat (length bs))) bs)"
| "appendAttr buf (AttrL l) = appendAttrs (appendUvarint (buf @ [8]) (of_nat (length l))) l"
| "appendAttr buf (AttrM m) =
     appendEntries (appendUvarint (buf @ [9]) (of_nat (length m))) (sort_key fst m)"
| "appendAttr buf (AttrVec v) =
     Inr (foldl (\<lambda>b f. b @ PutUint64 f) (appendUvarint (buf @ [10]) (of_nat (length v))) v)"
| "appendAttr buf (AttrUnknown t) = Inl (UnknownAttrType t)"
| "appendAttrs buf [] = Inr buf"
| "appendAttrs buf (a # as) = bindr (appendAttr buf a) (\<lambda>buf'. appendAttrs buf' as)"
| "appendEntries buf [] = Inr buf"
| "appendEntries buf ((k, v) # es) =
     bindr (appendAttr (appendLenBytes buf (bytes_of_string k)) v) (\<lambda>buf'. appendEntries buf' es)"
  by pat_completeness auto
termination
  by (relation "measure (\<lambda>x. case x of Inl (_, av) \<Rightarrow> size av
      | Inr (Inl (_, l)) \<Rightarrow> size_list size l
      | Inr (Inr (_, m)) \<Rightarrow> size_list (size_prod (\<lambda>_. 0) size) m)") auto

definition itemMagic :: "16 word" where
  "itemMagic = 0x4349"

definition itemVersion :: byte where
  "itemVersion = 1"

text \<open>
  The loop of \<^verbatim>\<open>EncodeItem\<close> over the sorted attribute names. \<^term>\<open>sort_key fst\<close> pairs the
  sorted names with their values, which is what the lookups \<^verbatim>\<open>item[n]\<close> give.
\<close>

fun encodeItemAttrs :: "bytes \<Rightarrow> Item \<Rightarrow> codec_error + bytes" where
  "encodeItemAttrs buf [] = Inr buf"
| "encodeItemAttrs buf ((n, v) # es) =
     bindr (wrapr (InAttr n) (appendAttr (appendLenBytes buf (bytes_of_string n)) v))
       (\<lambda>buf'. encodeItemAttrs buf' es)"

definition EncodeItem :: "Item option \<Rightarrow> codec_error + bytes" where
  "EncodeItem item =
     (case item of
        None \<Rightarrow> Inl EncodeNil
      | Some it \<Rightarrow>
          encodeItemAttrs
            (appendUvarint (PutUint16 itemMagic @ [itemVersion]) (of_nat (length it)))
            (sort_key fst it))"

section \<open>Decoding\<close>

text \<open>\<^verbatim>\<open>make([]T, n)\<close> succeeds when \<open>n\<close> elements of the given size fit the address space.\<close>

definition makeslice_ok :: "nat \<Rightarrow> uint64 \<Rightarrow> bool" where
  "makeslice_ok elemSize n \<longleftrightarrow> elemSize * unat n \<le> 2 ^ 48"

fun readVec :: "nat \<Rightarrow> bytes \<Rightarrow> codec_error + (uint64 list \<times> bytes)" where
  "readVec 0 p = Inr ([], p)"
| "readVec (Suc n) p =
     (if length p < 8 then Inl Panic
      else bindr (readVec n (drop 8 p)) (\<lambda>(fs, r). Inr (Uint64 (take 8 p) # fs, r)))"

text \<open>
  \<open>readAttrs n\<close> and \<open>readEntries n m\<close> are the loops of the list and map cases: \<open>n\<close>
  iterations left, \<open>m\<close> the map filled so far. The element sizes are those of
  \<^verbatim>\<open>string\<close> (16), \<^verbatim>\<open>[]byte\<close> (24), \<^verbatim>\<open>AttributeValue\<close> (200) and \<^verbatim>\<open>float64\<close> (8).
\<close>

function (sequential) readAttr :: "bytes \<Rightarrow> codec_error + (AttributeValue \<times> bytes)"
  and readAttrs :: "nat \<Rightarrow> bytes \<Rightarrow> codec_error + (AttributeValue list \<times> bytes)"
  and readEntries :: "nat \<Rightarrow> Item \<Rightarrow> bytes \<Rightarrow> codec_error + (Item \<times> bytes)"
where
  "readAttr [] = Inl AttrEmpty"
| "readAttr (t # p) =
     (if t = 0 then Inr (AttrNull, p)
      else if t = 1 then bindr (readLenBytes p) (\<lambda>(s, rest). Inr (AttrS (string_of_bytes s), rest))
      else if t = 2 then bindr (readLenBytes p) (\<lambda>(s, rest). Inr (AttrN (string_of_bytes s), rest))
      else if t = 3 then bindr (readLenBytes p) (\<lambda>(b, rest). Inr (AttrB b, rest))
      else if t = 4 then
        (case p of [] \<Rightarrow> Inl BoolShort | b # rest \<Rightarrow> Inr (AttrBOOL (b \<noteq> 0), rest))
      else if t = 5 \<or> t = 6 then
        bindr (readUvarint p) (\<lambda>(n, rest).
          if \<not> makeslice_ok 16 n then Inl Panic
          else bindr (get_n readLenBytes (unat n) rest) (\<lambda>(ss, r).
            Inr (if t = 5 then AttrSS (map string_of_bytes ss)
                 else AttrNS (map string_of_bytes ss), r)))
      else if t = 7 then
        bindr (readUvarint p) (\<lambda>(n, rest).
          if \<not> makeslice_ok 24 n then Inl Panic
          else bindr (get_n readLenBytes (unat n) rest) (\<lambda>(bs, r). Inr (AttrBS bs, r)))
      else if t = 8 then
        bindr (readUvarint p) (\<lambda>(n, rest).
          if \<not> makeslice_ok 200 n then Inl Panic
          else bindr (readAttrs (unat n) rest) (\<lambda>(l, r). Inr (AttrL l, r)))
      else if t = 9 then
        bindr (readUvarint p) (\<lambda>(n, rest).
          bindr (readEntries (unat n) [] rest) (\<lambda>(m, r). Inr (AttrM m, r)))
      else if t = 10 then
        bindr (readUvarint p) (\<lambda>(n, rest).
          if length rest < unat (n * 8) then Inl VecShort
          else if \<not> makeslice_ok 8 n then Inl Panic
          else bindr (readVec (unat n) rest) (\<lambda>(fs, r). Inr (AttrVec fs, r)))
      else Inl (UnknownAttrType t))"
| "readAttrs 0 p = Inr ([], p)"
| "readAttrs (Suc n) p =
     bindr (readAttr p) (\<lambda>(v, r). bindr (readAttrs n r) (\<lambda>(vs, r'). Inr (v # vs, r')))"
| "readEntries 0 m p = Inr (m, p)"
| "readEntries (Suc n) m p =
     bindr (readLenBytes p) (\<lambda>(name, r).
       bindr (readAttr r) (\<lambda>(v, r'). readEntries n (gomap_put (string_of_bytes name) v m) r'))"
  by pat_completeness auto

text \<open>Every reader consumes input, which is why decoding terminates on every buffer.\<close>

lemma readUvarint_length: "readUvarint p = Inr (v, r) \<Longrightarrow> length r < length p"
  by (cases p) (auto simp: readUvarint_def Uvarint_def split: prod.splits if_splits)

lemma readLenBytes_length: "readLenBytes p = Inr (b, r) \<Longrightarrow> length r < length p"
  by (auto simp: readLenBytes_def split: if_splits dest!: readUvarint_length elim!: bindr_InrE)

lemma get_n_readLenBytes_length:
  "get_n readLenBytes n p = Inr (bs, r) \<Longrightarrow> length r \<le> length p"
proof (induction n arbitrary: p bs)
  case (Suc n)
  then obtain b q bs' where "readLenBytes p = Inr (b, q)" and "get_n readLenBytes n q = Inr (bs', r)"
    by (auto elim!: bindr_InrE)
  with Suc.IH [of q bs'] show ?case by (auto dest: readLenBytes_length)
qed simp

lemma readVec_length: "readVec n p = Inr (fs, r) \<Longrightarrow> length r \<le> length p"
proof (induction n arbitrary: p fs)
  case (Suc n)
  then obtain fs' where "readVec n (drop 8 p) = Inr (fs', r)"
    by (auto elim!: bindr_InrE split: if_splits)
  with Suc.IH [of "drop 8 p" fs'] show ?case by simp
qed simp

lemmas read_lengths = readUvarint_length readLenBytes_length get_n_readLenBytes_length readVec_length

lemma read_consumes_dom:
  shows "readAttr_readAttrs_readEntries_dom (Inl p) \<Longrightarrow>
           readAttr p = Inr (v, r) \<Longrightarrow> length r < length p"
    and "readAttr_readAttrs_readEntries_dom (Inr (Inl (n, q))) \<Longrightarrow>
           readAttrs n q = Inr (vs, r) \<Longrightarrow> length r \<le> length q"
    and "readAttr_readAttrs_readEntries_dom (Inr (Inr (n, m, q))) \<Longrightarrow>
           readEntries n m q = Inr (m', r) \<Longrightarrow> length r \<le> length q"
proof (induction p and n q and n m q arbitrary: v r and vs r and m' r
    rule: readAttr_readAttrs_readEntries.pinduct)
  case 1
  then show ?case by (simp add: readAttr.psimps)
next
  case (2 t p)
  note IH = 2(2,3) and eq = 2(4) [unfolded readAttr.psimps(2) [OF 2(1)]]
  consider "t \<noteq> 8" "t \<noteq> 9" | "t = 8" | "t = 9" by blast
  then show ?case
  proof cases
    case 1
    with eq show ?thesis
      by (auto split: if_splits list.splits elim!: bindr_InrE dest!: read_lengths)
  next
    case 2
    with eq obtain n rest l where u: "readUvarint p = Inr (n, rest)" "makeslice_ok 200 n"
      and l: "readAttrs (unat n) rest = Inr (l, r)"
      by (auto split: if_splits elim!: bindr_InrE)
    from 2 u l have "length r \<le> length rest" using IH(1) by force
    with u show ?thesis by (auto dest: readUvarint_length)
  next
    case 3
    with eq obtain n rest m where u: "readUvarint p = Inr (n, rest)"
      and m: "readEntries (unat n) [] rest = Inr (m, r)"
      by (auto split: if_splits elim!: bindr_InrE)
    from 3 u m have "length r \<le> length rest" using IH(2) by force
    with u show ?thesis by (auto dest: readUvarint_length)
  qed
next
  case (3 p)
  then show ?case by (simp add: readAttrs.psimps)
next
  case (4 n p)
  from 4(4) obtain v r' vs' where v: "readAttr p = Inr (v, r')" and vs: "readAttrs n r' = Inr (vs', r)"
    by (auto simp: readAttrs.psimps(2) [OF 4(1)] elim!: bindr_InrE)
  have "length r' < length p" using v by (rule 4(2))
  moreover have "length r \<le> length r'" using 4(3) [OF v refl vs] .
  ultimately show ?case by simp
next
  case (5 m p)
  then show ?case by (simp add: readEntries.psimps)
next
  case (6 n m p)
  from 6(4) obtain nm r1 v r2 where nm: "readLenBytes p = Inr (nm, r1)"
    and v: "readAttr r1 = Inr (v, r2)"
    and es: "readEntries n (gomap_put (string_of_bytes nm) v m) r2 = Inr (m', r)"
    by (auto simp: readEntries.psimps(2) [OF 6(1)] elim!: bindr_InrE)
  have "length r1 < length p" using nm by (rule readLenBytes_length)
  moreover have "length r2 < length r1" using 6(2) [OF nm refl v] .
  moreover have "length r \<le> length r2" using 6(3) [OF nm refl v refl es] .
  ultimately show ?case by simp
qed

lemma read_total: "All readAttr_readAttrs_readEntries_dom"
  by (relation "measures [\<lambda>x. case x of Inl p \<Rightarrow> length p
      | Inr (Inl (_, p)) \<Rightarrow> length p | Inr (Inr (_, _, p)) \<Rightarrow> length p,
      \<lambda>x. case x of Inl _ \<Rightarrow> 0 | Inr (Inl (n, _)) \<Rightarrow> Suc n | Inr (Inr (n, _, _)) \<Rightarrow> Suc n]")
    (auto dest!: readUvarint_length readLenBytes_length read_consumes_dom)

termination readAttr
  by (rule read_total)

lemma read_consumes:
  shows "readAttr p = Inr (v, r) \<Longrightarrow> length r < length p"
    and "readAttrs n q = Inr (vs, r) \<Longrightarrow> length r \<le> length q"
    and "readEntries n m q = Inr (m', r) \<Longrightarrow> length r \<le> length q"
  using read_consumes_dom read_total by blast+

declare readAttr.simps(2) [simp del]

definition decodeItemHeader :: "bytes \<Rightarrow> codec_error + (uint64 \<times> bytes)" where
  "decodeItemHeader data =
     (if length data < 4 then Inl ShortBuffer
      else if Uint16 (take 2 data) \<noteq> itemMagic then Inl BadMagic
      else if data ! 2 \<noteq> itemVersion then Inl (UnsupportedVersion (data ! 2))
      else wrapr ItemCount (readUvarint (drop 3 data)))"

definition readItemAttribute :: "bytes \<Rightarrow> codec_error + (string \<times> AttributeValue \<times> bytes)" where
  "readItemAttribute p =
     bindr (wrapr AttrNameLen (readUvarint p)) (\<lambda>(nameLen, rest).
       if length rest < unat nameLen then Inl AttrNameShort
       else (let name = string_of_bytes (take (unat nameLen) rest) in
         bindr (wrapr (InAttr name) (readAttr (drop (unat nameLen) rest)))
           (\<lambda>(av, p'). Inr (name, av, p'))))"

fun decodeItemAttrs :: "nat \<Rightarrow> Item \<Rightarrow> bytes \<Rightarrow> codec_error + Item" where
  "decodeItemAttrs 0 out p = Inr out"
| "decodeItemAttrs (Suc n) out p =
     bindr (readItemAttribute p) (\<lambda>(name, av, rest). decodeItemAttrs n (gomap_put name av out) rest)"

definition DecodeItem :: "bytes \<Rightarrow> codec_error + Item" where
  "DecodeItem data =
     bindr (decodeItemHeader data) (\<lambda>(n, p). decodeItemAttrs (unat n) [] p)"

text \<open>
  \<^verbatim>\<open>VisitItem\<close> with a callback over some state of the caller: the callback returns the new
  state and possibly an error, the visit the final state and the error it stopped with.
\<close>

fun visitItemAttrs ::
  "(string \<Rightarrow> AttributeValue \<Rightarrow> 's \<Rightarrow> 's \<times> 'v option) \<Rightarrow> nat \<Rightarrow> 's \<Rightarrow> bytes
     \<Rightarrow> 's \<times> (codec_error + 'v) option" where
  "visitItemAttrs visit 0 s p = (s, None)"
| "visitItemAttrs visit (Suc n) s p =
     (case readItemAttribute p of
        Inl e \<Rightarrow> (s, Some (Inl e))
      | Inr (name, av, rest) \<Rightarrow>
          (case visit name av s of
             (s', Some err) \<Rightarrow> (s', Some (Inr err))
           | (s', None) \<Rightarrow> visitItemAttrs visit n s' rest))"

definition VisitItem ::
  "bytes \<Rightarrow> (string \<Rightarrow> AttributeValue \<Rightarrow> 's \<Rightarrow> 's \<times> 'v option) \<Rightarrow> 's
     \<Rightarrow> 's \<times> (codec_error + 'v) option" where
  "VisitItem data visit s =
     (case decodeItemHeader data of
        Inl e \<Rightarrow> (s, Some (Inl e))
      | Inr (n, p) \<Rightarrow> visitItemAttrs visit (unat n) s p)"

text \<open>The byte form of a key attribute; only strings, numbers and binaries can be keys.\<close>

fun AttrCanonicalBytes :: "AttributeValue \<Rightarrow> key_error + bytes" where
  "AttrCanonicalBytes (AttrS s) = Inr (bytes_of_string s)"
| "AttrCanonicalBytes (AttrN n) = Inr (bytes_of_string n)"
| "AttrCanonicalBytes (AttrB b) = Inr b"
| "AttrCanonicalBytes _ = Inl ErrInvalidKeyType"

section \<open>The format as a specification\<close>

text \<open>
  The grammar of the format as the source's comment gives it: the bytes of an attribute as a
  function of the value alone.
\<close>

definition lenBytes :: "bytes \<Rightarrow> bytes" where
  "lenBytes b = PutUvarint (of_nat (length b)) @ b"

fun attrBytes :: "AttributeValue \<Rightarrow> bytes" where
  "attrBytes AttrNull = [0]"
| "attrBytes (AttrS s) = 1 # lenBytes (bytes_of_string s)"
| "attrBytes (AttrN s) = 2 # lenBytes (bytes_of_string s)"
| "attrBytes (AttrB b) = 3 # lenBytes b"
| "attrBytes (AttrBOOL b) = [4, if b then 1 else 0]"
| "attrBytes (AttrSS ss) =
     5 # PutUvarint (of_nat (length ss)) @ concat (map lenBytes (map bytes_of_string ss))"
| "attrBytes (AttrNS ss) =
     6 # PutUvarint (of_nat (length ss)) @ concat (map lenBytes (map bytes_of_string ss))"
| "attrBytes (AttrBS bs) = 7 # PutUvarint (of_nat (length bs)) @ concat (map lenBytes bs)"
| "attrBytes (AttrL l) = 8 # PutUvarint (of_nat (length l)) @ concat (map attrBytes l)"
| "attrBytes (AttrM m) =
     9 # PutUvarint (of_nat (length m)) @
     concat (map (\<lambda>(k, v). lenBytes (bytes_of_string k) @ attrBytes v) m)"
| "attrBytes (AttrVec v) = 10 # PutUvarint (of_nat (length v)) @ concat (map PutUint64 v)"
| "attrBytes (AttrUnknown t) = []"

abbreviation entriesBytes :: "Item \<Rightarrow> bytes" where
  "entriesBytes m \<equiv> concat (map (\<lambda>(k, v). lenBytes (bytes_of_string k) @ attrBytes v) m)"

lemma appendLenBytes_eq: "appendLenBytes buf b = buf @ lenBytes b"
  by (simp add: appendLenBytes_def appendUvarint_def lenBytes_def)

lemma foldl_append_eq: "foldl (\<lambda>b x. b @ f x) buf xs = buf @ concat (map f xs)"
  by (induction xs arbitrary: buf) auto

lemma foldl_appendLenBytes: "foldl appendLenBytes buf bs = buf @ concat (map lenBytes bs)"
  using foldl_append_eq [of lenBytes buf bs] by (simp add: appendLenBytes_eq [abs_def])

text \<open>The encoder implements the format.\<close>

lemma append_implements:
  shows "av_wf a \<Longrightarrow> appendAttr buf a = Inr (buf @ attrBytes a)"
    and "list_all av_wf l \<Longrightarrow> appendAttrs buf l = Inr (buf @ concat (map attrBytes l))"
    and "list_all (\<lambda>(k, v). len_fits k \<and> av_wf v) m \<Longrightarrow>
           appendEntries buf m = Inr (buf @ entriesBytes m)"
proof (induction buf a and buf l and buf m rule: appendAttr_appendAttrs_appendEntries.induct)
  case (10 buf m)
  then show ?case by (simp add: gomap_canon_sort_key appendUvarint_def)
qed (simp_all add: appendLenBytes_eq foldl_appendLenBytes foldl_append_eq appendUvarint_def)

lemma encodeItemAttrs_implements:
  "list_all (\<lambda>(k, v). len_fits k \<and> av_wf v) m \<Longrightarrow>
   encodeItemAttrs buf m = Inr (buf @ entriesBytes m)"
  by (induction buf m rule: encodeItemAttrs.induct)
    (auto simp: append_implements appendLenBytes_eq)

section \<open>The readers invert the writers\<close>

lemma readUvarint_put [codec_simps]: "readUvarint (PutUvarint v @ r) = Inr (v, r)"
  by (simp add: readUvarint_def Uvarint_PutUvarint)

interpretation uvar: stream_codec PutUvarint readUvarint "\<lambda>_. True"
  by unfold_locales (simp add: codec_simps)

interpretation lenb: stream_codec lenBytes readLenBytes len_fits
  by unfold_locales (simp add: readLenBytes_def lenBytes_def readUvarint_put)

lemma list_all_setI: "list_all P xs \<Longrightarrow> x \<in> set xs \<Longrightarrow> P x"
  by (simp add: list_all_iff)

lemma get_n_lenBytes [codec_simps]:
  "list_all len_fits bs \<Longrightarrow>
   get_n readLenBytes (length bs) (concat (map lenBytes bs) @ r) = Inr (bs, r)"
  by (rule lenb.get_n_concat) (rule list_all_setI)

lemma readVec_put [codec_simps]:
  "readVec (length fs) (concat (map PutUint64 fs) @ r) = Inr (fs, r)"
proof (induction fs)
  case Nil
  then show ?case by simp
next
  case (Cons f fs)
  have "Uint64 (PutUint64 f) = f" using Uint64_PutUint64 [of f "[]"] by simp
  with Cons show ?case by simp
qed

lemma list_all_map_bytes: "list_all len_fits ss \<Longrightarrow> list_all len_fits (map bytes_of_string ss)"
  by (auto simp: list_all_iff len_fits_def)

lemma makeslice_ok_of: "slice_fits n xs \<Longrightarrow> len_fits xs \<Longrightarrow> makeslice_ok n (of_nat (length xs))"
  by (simp add: makeslice_ok_def slice_fits_def)

lemma readAttrs_inverts:
  "(\<And>a r. a \<in> set l \<Longrightarrow> readAttr (attrBytes a @ r) = Inr (a, r)) \<Longrightarrow>
   readAttrs (length l) (concat (map attrBytes l) @ r) = Inr (l, r)"
  by (induction l) simp_all

lemma gomap_canon_put_last:
  "gomap_canon (m0 @ (k, v) # m) \<Longrightarrow> gomap_put k v m0 = m0 @ [(k, v)]"
  by (rule gomap_put_snoc) (auto simp: gomap_canon_def sorted_wrt_append)

lemma readEntries_inverts:
  "(\<And>k v r. (k, v) \<in> set m \<Longrightarrow> len_fits k \<and> readAttr (attrBytes v @ r) = Inr (v, r)) \<Longrightarrow>
   gomap_canon (m0 @ m) \<Longrightarrow>
   readEntries (length m) m0 (entriesBytes m @ r) = Inr (m0 @ m, r)"
proof (induction m arbitrary: m0)
  case Nil
  then show ?case by simp
next
  case (Cons e m)
  obtain k v where e: "e = (k, v)" by (cases e)
  have k: "len_fits (bytes_of_string k)" using Cons.prems(1) [of k v] by (simp add: e len_fits_def)
  have IH: "readEntries (length m) (m0 @ [(k, v)]) (entriesBytes m @ r) = Inr ((m0 @ [(k, v)]) @ m, r)"
    using Cons.prems by (intro Cons.IH) (auto simp: e)
  have v: "readAttr (attrBytes v @ q) = Inr (v, q)" for q
    using Cons.prems(1) [of k v q] by (simp add: e)
  have "gomap_put k v m0 = m0 @ [(k, v)]"
    using Cons.prems(2) unfolding e by (rule gomap_canon_put_last)
  then show ?case by (simp add: e v lenb.get_put [OF k] IH)
qed

lemma unat_length_times8:
  "slice_fits 8 fs \<Longrightarrow> unat (of_nat (length fs) * 8 :: uint64) = length fs * 8"
proof -
  assume "slice_fits 8 fs"
  then have "length fs * 8 < 2 ^ 64" by (simp add: slice_fits_def)
  moreover have "(of_nat (length fs) * 8 :: uint64) = of_nat (length fs * 8)" by simp
  ultimately show ?thesis by (simp only: unat_of_nat) simp
qed

lemma length_concat_PutUint64: "length (concat (map PutUint64 fs)) = length fs * 8"
  by (induction fs) simp_all

lemmas len_of_slice = slice_fits_len_fits [of 8, simplified] slice_fits_len_fits [of 16, simplified]
  slice_fits_len_fits [of 24, simplified] slice_fits_len_fits [of 200, simplified]

text \<open>The main lemma: every well-formed attribute reads back from the front of a buffer.\<close>

lemma readAttr_attrBytes: "av_wf a \<Longrightarrow> readAttr (attrBytes a @ r) = Inr (a, r)"
proof (induction a arbitrary: r)
  case (AttrSS ss)
  then show ?case
    using get_n_lenBytes [of "map bytes_of_string ss" r]
    by (simp add: readAttr.simps readUvarint_put len_of_slice makeslice_ok_of
        list_all_map_bytes o_def)
next
  case (AttrNS ss)
  then show ?case
    using get_n_lenBytes [of "map bytes_of_string ss" r]
    by (simp add: readAttr.simps readUvarint_put len_of_slice makeslice_ok_of
        list_all_map_bytes o_def)
next
  case (AttrBS bs)
  then show ?case
    by (simp add: readAttr.simps readUvarint_put len_of_slice makeslice_ok_of get_n_lenBytes)
next
  case (AttrL l)
  then have "readAttrs (length l) (concat (map attrBytes l) @ r) = Inr (l, r)"
    by (intro readAttrs_inverts) (auto simp: list_all_iff)
  with AttrL.prems show ?case
    by (simp add: readAttr.simps readUvarint_put len_of_slice makeslice_ok_of)
next
  case (AttrM m)
  then have "readEntries (length m) [] (entriesBytes m @ r) = Inr ([] @ m, r)"
    by (intro readEntries_inverts) (force simp: list_all_iff)+
  with AttrM.prems show ?case by (simp add: readAttr.simps readUvarint_put)
next
  case (AttrVec fs)
  then show ?case
    by (simp add: readAttr.simps readUvarint_put len_of_slice makeslice_ok_of readVec_put
        unat_length_times8 length_concat_PutUint64)
qed (simp_all add: readAttr.simps lenb.get_put)

interpretation attrc: stream_codec attrBytes readAttr av_wf
  by unfold_locales (rule readAttr_attrBytes)

section \<open>Items through storage\<close>

lemma readItemAttribute_inverts:
  assumes "len_fits k" and "av_wf v"
  shows "readItemAttribute (lenBytes (bytes_of_string k) @ attrBytes v @ r) = Inr (k, v, r)"
  using assms
  by (simp add: readItemAttribute_def lenBytes_def readUvarint_put readAttr_attrBytes)

lemma decodeItemAttrs_inverts:
  "list_all (\<lambda>(k, v). len_fits k \<and> av_wf v) m \<Longrightarrow> gomap_canon (m0 @ m) \<Longrightarrow>
   decodeItemAttrs (length m) m0 (entriesBytes m @ r) = Inr (m0 @ m)"
proof (induction m arbitrary: m0)
  case Nil
  then show ?case by simp
next
  case (Cons e m)
  obtain k v where e: "e = (k, v)" by (cases e)
  have "gomap_put k v m0 = m0 @ [(k, v)]"
    using Cons.prems(2) unfolding e by (rule gomap_canon_put_last)
  with Cons show ?case by (simp add: e readItemAttribute_inverts)
qed

definition itemBytes :: "Item \<Rightarrow> bytes" where
  "itemBytes item =
     PutUint16 itemMagic @ [itemVersion] @ PutUvarint (of_nat (length item)) @ entriesBytes item"

lemma EncodeItem_itemBytes: "item_wf item \<Longrightarrow> EncodeItem (Some item) = Inr (itemBytes item)"
  by (simp add: EncodeItem_def item_wf_def gomap_canon_sort_key encodeItemAttrs_implements
      appendUvarint_def itemBytes_def)

lemma decodeItemHeader_itemBytes:
  "decodeItemHeader (itemBytes item @ r) = Inr (of_nat (length item), entriesBytes item @ r)"
proof -
  have "0 < length (PutUvarint (of_nat (length item)))" by simp
  then have "\<not> length (itemBytes item @ r) < 4" by (simp add: itemBytes_def PutUint16_def del: length_greater_0_conv)
  moreover have "Uint16 (take 2 (itemBytes item @ r)) = itemMagic"
    by (simp add: itemBytes_def PutUint16_def Uint16_def itemMagic_def)
  ultimately show ?thesis
    by (simp add: decodeItemHeader_def itemBytes_def PutUint16_def readUvarint_put)
qed

lemma DecodeItem_itemBytes: "item_wf item \<Longrightarrow> DecodeItem (itemBytes item @ r) = Inr item"
  using decodeItemAttrs_inverts [of item "[]" r]
  by (simp add: DecodeItem_def decodeItemHeader_itemBytes item_wf_def)

text \<open>
  C7. Storage round trip: every item a Go program can hold is encoded, and decoding the stored
  bytes (whatever follows them in the buffer) gives the item back.
\<close>

theorem item_roundtrip:
  assumes "item_wf item"
  shows "\<exists>data. EncodeItem (Some item) = Inr data \<and> (\<forall>r. DecodeItem (data @ r) = Inr item)"
  using EncodeItem_itemBytes [OF assms] DecodeItem_itemBytes [OF assms] by blast

theorem item_roundtrip_witness:
  "\<exists>data. EncodeItem (Some [(''id'', AttrS ''a''), (''m'', AttrM [(''x'', AttrBOOL True)])]) = Inr data \<and>
     (\<forall>r. DecodeItem (data @ r) = Inr [(''id'', AttrS ''a''), (''m'', AttrM [(''x'', AttrBOOL True)])])"
  by (rule item_roundtrip) (simp add: item_wf_def len_fits_def gomap_canon_def)

section \<open>Encoding is deterministic\<close>

lemma append_canon:
  shows "appendAttr buf (canonAV a) = appendAttr buf a"
    and "appendAttrs buf (map canonAV l) = appendAttrs buf l"
    and "appendEntries buf (map (\<lambda>(k, v). (k, canonAV v)) m) = appendEntries buf m"
proof (induction buf a and buf l and buf m rule: appendAttr_appendAttrs_appendEntries.induct)
  case (10 buf m)
  then show ?case by (simp add: sort_key_map_entries)
qed (simp_all cong: bindr_cong)

lemma encodeItemAttrs_canon:
  "encodeItemAttrs buf (map (\<lambda>(k, v). (k, canonAV v)) m) = encodeItemAttrs buf m"
  by (induction m arbitrary: buf) (auto simp: append_canon)

lemma EncodeItem_canon: "EncodeItem (Some (canonItem item)) = EncodeItem (Some item)"
  by (simp add: EncodeItem_def canonItem_def sort_key_map_entries encodeItemAttrs_canon)

text \<open>
  Byte-for-byte determinism: the encoding, errors included, depends only on the Go value,
  not on the order in which Go iterates over the item or over any nested map.
\<close>

lemma encode_deterministic:
  assumes "canonItem a = canonItem b"
  shows "EncodeItem (Some a) = EncodeItem (Some b)"
  by (metis EncodeItem_canon assms)

theorem encode_deterministic_witness:
  "EncodeItem (Some [(''b'', AttrNull), (''a'', AttrM [(''y'', AttrNull), (''x'', AttrNull)])])
     = EncodeItem (Some [(''a'', AttrM [(''x'', AttrNull), (''y'', AttrNull)]), (''b'', AttrNull)])"
  by (rule encode_deterministic) (simp add: canonItem_def)

section \<open>What the decoder returns\<close>

lemma get_n_readLenBytes_fits:
  "get_n readLenBytes n p = Inr (bs, r) \<Longrightarrow> len_fits p \<Longrightarrow> length bs = n \<and> list_all len_fits bs"
proof (induction n arbitrary: p bs)
  case (Suc n)
  then obtain b q bs' where b: "readLenBytes p = Inr (b, q)"
    and bs: "get_n readLenBytes n q = Inr (bs', r)" "bs = b # bs'"
    by (auto elim!: bindr_InrE)
  have q: "len_fits q" using readLenBytes_length [OF b] Suc.prems(2) by (simp add: len_fits_def)
  have "len_fits b"
    using b Suc.prems(2) by (auto simp: readLenBytes_def len_fits_def split: if_splits
        elim!: bindr_InrE dest!: readUvarint_length)
  with Suc.IH [OF bs(1) q] bs(2) show ?case by simp
qed simp

lemma readVec_count: "readVec n p = Inr (fs, r) \<Longrightarrow> length fs = n"
  by (induction n arbitrary: p fs) (fastforce split: if_splits elim!: bindr_InrE)+

lemma readLenBytes_fits: "readLenBytes p = Inr (b, r) \<Longrightarrow> len_fits p \<Longrightarrow> len_fits b \<and> len_fits r"
  by (auto simp: readLenBytes_def len_fits_def split: if_splits
        elim!: bindr_InrE dest!: readUvarint_length)

lemma readUvarint_fits: "readUvarint p = Inr (n, r) \<Longrightarrow> len_fits p \<Longrightarrow> len_fits r"
  by (auto simp: len_fits_def dest: readUvarint_length)

lemma len_fits_string_of_bytes [simp]: "len_fits (string_of_bytes b) = len_fits b"
  by (simp add: len_fits_def string_of_bytes_def)

lemma list_all_put:
  "list_all (\<lambda>(k, v). P k v) m \<Longrightarrow> P k v \<Longrightarrow> list_all (\<lambda>(k, v). P k v) (gomap_put k v m)"
  by (induction k v m rule: gomap_put.induct) auto

lemma length_gomap_put: "length (gomap_put k v m) \<le> Suc (length m)"
  by (induction k v m rule: gomap_put.induct) auto

lemma len_fits_less: "len_fits p \<Longrightarrow> length r < length p \<Longrightarrow> len_fits r"
  by (simp add: len_fits_def)

lemma read_wf:
  shows "readAttr p = Inr (v, r) \<Longrightarrow> len_fits p \<Longrightarrow> av_wf v"
    and "readAttrs n q = Inr (vs, r) \<Longrightarrow> len_fits q \<Longrightarrow> length vs = n \<and> list_all av_wf vs"
    and "readEntries n m q = Inr (m', r) \<Longrightarrow> len_fits q \<Longrightarrow> gomap_canon m \<Longrightarrow>
           list_all (\<lambda>(k, v). len_fits k \<and> av_wf v) m \<Longrightarrow>
           gomap_canon m' \<and> list_all (\<lambda>(k, v). len_fits k \<and> av_wf v) m' \<and>
           length m' \<le> length m + length q"
proof (induction p and n q and n m q arbitrary: v r and vs r and m' r
    rule: readAttr_readAttrs_readEntries.induct)
  case 1
  then show ?case by simp
next
  case (2 t p)
  note IH = 2(1,2) and eq = 2(3) [unfolded readAttr.simps]
  have p: "len_fits p" using 2(4) by (simp add: len_fits_def)
  consider "t \<noteq> 8" "t \<noteq> 9" | "t = 8" | "t = 9" by blast
  then show ?case
  proof cases
    case 1
    with eq p show ?thesis
      by (auto split: if_splits list.splits elim!: bindr_InrE
          simp: makeslice_ok_def slice_fits_def list_all_iff
          dest!: readLenBytes_fits readUvarint_fits get_n_readLenBytes_fits readVec_count)
  next
    case 2
    with eq obtain n rest l where u: "readUvarint p = Inr (n, rest)" "makeslice_ok 200 n"
      and l: "readAttrs (unat n) rest = Inr (l, r)" "v = AttrL l"
      by (auto split: if_splits elim!: bindr_InrE)
    have "length l = unat n \<and> list_all av_wf l"
      using 2 u l IH(1) readUvarint_fits [OF u(1) p] by force
    with u l show ?thesis by (simp add: makeslice_ok_def slice_fits_def)
  next
    case 3
    with eq obtain n rest m where u: "readUvarint p = Inr (n, rest)"
      and m: "readEntries (unat n) [] rest = Inr (m, r)" "v = AttrM m"
      by (auto split: if_splits elim!: bindr_InrE)
    have "gomap_canon m \<and> list_all (\<lambda>(k, v). len_fits k \<and> av_wf v) m \<and> length m \<le> length rest"
      using 3 u m IH(2) readUvarint_fits [OF u p] by force
    with m readUvarint_fits [OF u p] show ?thesis by (auto simp: len_fits_def)
  qed
next
  case (3 p)
  then show ?case by simp
next
  case (4 n p)
  from 4(3) obtain v r' vs' where v: "readAttr p = Inr (v, r')"
    and vs: "readAttrs n r' = Inr (vs', r)" "vs = v # vs'"
    by (auto elim!: bindr_InrE)
  have "len_fits r'" using 4(4) read_consumes(1) [OF v] by (rule len_fits_less)
  with 4(1) [OF v 4(4)] 4(2) [OF v refl vs(1)] vs(2) show ?case by simp
next
  case (5 m p)
  then show ?case by simp
next
  case (6 n m p)
  from 6(3) obtain nm r1 v r2 where nm: "readLenBytes p = Inr (nm, r1)"
    and v: "readAttr r1 = Inr (v, r2)"
    and es: "readEntries n (gomap_put (string_of_bytes nm) v m) r2 = Inr (m', r)"
    by (auto elim!: bindr_InrE)
  have r1: "len_fits nm" "len_fits r1" using readLenBytes_fits [OF nm 6(4)] by simp_all
  have r2: "len_fits r2" using r1(2) read_consumes(1) [OF v] by (rule len_fits_less)
  have "av_wf v" using 6(1) [OF nm refl v r1(2)] .
  with r1 6(6) have "list_all (\<lambda>(k, v). len_fits k \<and> av_wf v) (gomap_put (string_of_bytes nm) v m)"
    by (intro list_all_put) auto
  with 6(2) [OF nm refl v refl es r2] 6(5)
  have "gomap_canon m' \<and> list_all (\<lambda>(k, v). len_fits k \<and> av_wf v) m' \<and>
      length m' \<le> length (gomap_put (string_of_bytes nm) v m) + length r2" by blast
  moreover have "length (gomap_put (string_of_bytes nm) v m) + length r2 \<le> length m + length p"
    using length_gomap_put [of "string_of_bytes nm" v m] readLenBytes_length [OF nm]
      read_consumes(1) [OF v] by linarith
  ultimately show ?case by auto
qed

lemma readItemAttribute_wf:
  assumes "readItemAttribute p = Inr (k, v, r)" and p: "len_fits p"
  shows "len_fits k \<and> av_wf v \<and> length r < length p"
proof -
  from assms(1) obtain n rest where u: "readUvarint p = Inr (n, rest)"
    and n: "\<not> length rest < unat n" and k: "k = string_of_bytes (take (unat n) rest)"
    and v: "readAttr (drop (unat n) rest) = Inr (v, r)"
    by (auto simp: readItemAttribute_def Let_def split: if_splits elim!: bindr_InrE)
  have rest: "len_fits rest" "length rest < length p"
    using readUvarint_fits [OF u p] readUvarint_length [OF u] by simp_all
  have "av_wf v" using v rest(1) by (intro read_wf(1) [OF v]) (simp add: len_fits_def)
  with k rest read_consumes(1) [OF v] show ?thesis by (auto simp: len_fits_def)
qed

lemma decodeItemAttrs_wf:
  "decodeItemAttrs n m p = Inr item \<Longrightarrow> len_fits p \<Longrightarrow> gomap_canon m \<Longrightarrow>
   list_all (\<lambda>(k, v). len_fits k \<and> av_wf v) m \<Longrightarrow>
   gomap_canon item \<and> list_all (\<lambda>(k, v). len_fits k \<and> av_wf v) item \<and>
   length item \<le> length m + length p"
proof (induction n arbitrary: m p)
  case (Suc n)
  from Suc.prems(1) obtain k v r where kv: "readItemAttribute p = Inr (k, v, r)"
    and it: "decodeItemAttrs n (gomap_put k v m) r = Inr item"
    by (auto elim!: bindr_InrE)
  note w = readItemAttribute_wf [OF kv Suc.prems(2)]
  have r: "len_fits r" using Suc.prems(2) w by (auto intro: len_fits_less)
  have "list_all (\<lambda>(k, v). len_fits k \<and> av_wf v) (gomap_put k v m)"
    using Suc.prems(4) w by (intro list_all_put) auto
  with Suc.IH [OF it r] Suc.prems(3) length_gomap_put [of k v m] w show ?case by force
qed simp

lemma DecodeItem_wf:
  assumes "DecodeItem data = Inr item" and "len_fits data"
  shows "item_wf item"
proof -
  from assms(1) obtain n p where h: "decodeItemHeader data = Inr (n, p)"
    and it: "decodeItemAttrs (unat n) [] p = Inr item"
    by (auto simp: DecodeItem_def elim!: bindr_InrE)
  have "len_fits p"
    using h assms(2) by (auto simp: decodeItemHeader_def len_fits_def split: if_splits
        dest!: readUvarint_length)
  with decodeItemAttrs_wf [OF it] show ?thesis by (auto simp: item_wf_def len_fits_def)
qed

text \<open>
  Whatever bytes are decoded, a decoded item is well formed (maps canonical, tags known,
  lengths in range), so it can always be written back, and writing it back preserves it.
\<close>

lemma decoded_item_rewrites:
  assumes "DecodeItem data = Inr item" and "len_fits data"
  shows "item_wf item \<and>
    (\<exists>data'. EncodeItem (Some item) = Inr data' \<and> DecodeItem data' = Inr item)"
proof -
  have wf: "item_wf item" using assms by (rule DecodeItem_wf)
  then have "DecodeItem (itemBytes item) = Inr item"
    using DecodeItem_itemBytes [of item "[]"] by simp
  with wf EncodeItem_itemBytes show ?thesis by blast
qed

theorem decoded_item_rewrites_witness:
  "item_wf [(''a'', AttrBOOL True)] \<and>
   (\<exists>data'. EncodeItem (Some [(''a'', AttrBOOL True)]) = Inr data' \<and>
      DecodeItem data' = Inr [(''a'', AttrBOOL True)])"
proof (rule decoded_item_rewrites)
  show "DecodeItem [0x43, 0x49, 1, 1, 1, 97, 4, 7] = Inr [(''a'', AttrBOOL True)]"
    by code_simp
  show "len_fits [0x43, 0x49, 1, 1, 1, 97, 4, 7 :: byte]" by (simp add: len_fits_def)
qed

lemma visitItemAttrs_decode:
  "decodeItemAttrs n m p =
     (case visitItemAttrs (\<lambda>name av m. (gomap_put name av m, None :: 'v option)) n m p of
        (m', None) \<Rightarrow> Inr m'
      | (_, Some (Inl e)) \<Rightarrow> Inl e
      | (_, Some (Inr _)) \<Rightarrow> Inl Panic)"
  by (induction n arbitrary: m p) (auto split: sum.splits prod.splits option.splits)

text \<open>
  C8. \<^verbatim>\<open>VisitItem\<close>, which avoids building the map, is \<^verbatim>\<open>DecodeItem\<close>: a visitor that stores
  each attribute ends with the decoded item, and with the decoder's error otherwise.
\<close>

theorem visit_item_decodes:
  "DecodeItem data =
     (case VisitItem data (\<lambda>name av m. (gomap_put name av m, None :: 'v option)) [] of
        (item, None) \<Rightarrow> Inr item
      | (_, Some (Inl e)) \<Rightarrow> Inl e
      | (_, Some (Inr _)) \<Rightarrow> Inl Panic)"
  by (auto simp: DecodeItem_def VisitItem_def visitItemAttrs_decode [where ?'v = 'v] split: sum.splits prod.splits)

section \<open>Hostile counts\<close>

text \<open>
  A stored count of more list elements than the address space can hold makes the decoder
  panic in \<^verbatim>\<open>make\<close>, whatever follows, instead of reporting a short buffer; so does a vector
  count whose product with 8 wraps around to something the buffer can satisfy.
\<close>

lemma hostile_count_panics:
  "(2 ^ 48 < 200 * unat n \<longrightarrow> readAttr (8 # PutUvarint n @ r) = Inl Panic) \<and>
   (2 ^ 61 \<le> unat n \<and> unat (n * 8) \<le> length r \<longrightarrow>
      readAttr (10 # PutUvarint n @ r) = Inl Panic)"
  by (simp add: readAttr.simps readUvarint_put makeslice_ok_def)

theorem hostile_count_panics_witness:
  "readAttr (8 # PutUvarint 0x2000000000000000 @ []) = Inl Panic \<and>
   readAttr (10 # PutUvarint 0x2000000000000000 @ []) = Inl Panic"
  using hostile_count_panics [of "0x2000000000000000" "[]"] by simp

end
