(* ===== verification/Keys.thy ===== *)
theory Keys
  imports ItemCodec
begin

text \<open>
  The key layout of \<^verbatim>\<open>internal/storage/keys.go\<close>: builders of every key family, the
  half-open ranges that scans use, the parsers of index keys and the codecs of the pointers
  that index entries carry. The theorems say which keys a range covers and which values a
  parser or pointer codec gives back.

  The hash functions come from a third-party package (\<^verbatim>\<open>cespare/xxhash\<close>) and are parameters:
  \<open>Sum64\<close> hashes one buffer, \<open>Digest\<close> is the sum after a sequence of \<^verbatim>\<open>Write\<close> calls.
  Nothing is assumed of them. A range is a pair of a lower and an optional upper bound,
  \<open>None\<close> being Go's nil: Pebble treats a nil upper bound as unbounded.
\<close>

record hasher =
  Sum64 :: "bytes \<Rightarrow> uint64"
  Digest :: "bytes list \<Rightarrow> uint64"

type_synonym key_range = "bytes \<times> bytes option"

text \<open>The keys an iterator with these bounds visits.\<close>

fun in_range :: "key_range \<Rightarrow> bytes \<Rightarrow> bool" where
  "in_range (lower, upper) k =
     (lower \<le> k \<and> (case upper of None \<Rightarrow> True | Some u \<Rightarrow> k < u))"

section \<open>Key prefixes\<close>

definition Namespace :: string where "Namespace = ''cefas/''"
definition pCatalog :: string where "pCatalog = Namespace @ ''catalog/''"
definition pTables :: string where "pTables = Namespace @ ''t/''"
definition pAdmin :: string where "pAdmin = Namespace @ ''admin/''"
definition pInternal :: string where "pInternal = Namespace @ ''internal/''"
definition pPluginIndex :: string where "pPluginIndex = pInternal @ ''plugin-index/''"
definition pMVDesc :: string where "pMVDesc = pInternal @ ''mv/''"
definition pMVCursor :: string where "pMVCursor = pInternal @ ''mv-cursor/''"
definition pServiceLevel :: string where "pServiceLevel = pInternal @ ''service-level/''"
definition pGlobalIndex :: string where "pGlobalIndex = pInternal @ ''global-index/''"
definition pStreams :: string where "pStreams = pAdmin @ ''streams/by-arn/''"
definition pStreamTrim :: string where "pStreamTrim = pAdmin @ ''streams/retention/''"
definition pChangeLog :: string where "pChangeLog = pAdmin @ ''change/log/''"
definition pChangeExpire :: string where "pChangeExpire = pAdmin @ ''change/expire/''"
definition SegPrimary :: string where "SegPrimary = ''/p/''"
definition segGSI :: string where "segGSI = ''/gsi/''"
definition segLSI :: string where "segLSI = ''/lsi/''"
definition segGeo :: string where "segGeo = ''/geo/''"
definition segZorder :: string where "segZorder = ''/zorder/''"
definition segTTL :: string where "segTTL = ''/ttl/''"

lemmas prefix_defs = Namespace_def pCatalog_def pTables_def pAdmin_def pInternal_def
  pPluginIndex_def pMVDesc_def pMVCursor_def pServiceLevel_def pGlobalIndex_def pStreams_def
  pStreamTrim_def pChangeLog_def pChangeExpire_def
  SegPrimary_def segGSI_def segLSI_def segGeo_def segZorder_def segTTL_def

section \<open>Exclusive upper bounds\<close>

text \<open>The loop of \<^verbatim>\<open>prefixUpper\<close>: \<open>Suc i\<close> means position \<open>i\<close> is examined next.\<close>

fun prefixUpperFrom :: "bytes \<Rightarrow> nat \<Rightarrow> bytes option" where
  "prefixUpperFrom u 0 = None"
| "prefixUpperFrom u (Suc i) =
     (if u ! i < 0xff then Some (take (Suc i) (u[i := u ! i + 1])) else prefixUpperFrom u i)"

definition prefixUpper :: "bytes \<Rightarrow> bytes option" where
  "prefixUpper p = prefixUpperFrom p (length p)"

text \<open>The range \<^verbatim>\<open>p, prefixUpper(p)\<close> that the \<^verbatim>\<open>Prefix...\<close> functions return.\<close>

definition prefixRange :: "bytes \<Rightarrow> key_range" where
  "prefixRange p = (p, prefixUpper p)"

lemma byte_ff_max: "\<not> (b :: byte) < 0xff \<longleftrightarrow> b = 0xff"
proof -
  have "unat b = 255 \<longleftrightarrow> \<not> unat b < 255" using unat_lt_256 [of b] by linarith
  then show ?thesis by (simp add: word_less_nat_alt word_unat_eq_iff)
qed

lemma byte_le_ff [simp]: "(b :: byte) \<le> 0xff"
  using byte_ff_max [of b] by (cases "b < 0xff") auto

lemma byte_less_succ: "(b :: byte) < 0xff \<Longrightarrow> c < b + 1 \<longleftrightarrow> c \<le> b"
proof -
  assume "b < 0xff"
  then have "unat (b + 1) = unat b + 1"
    by (simp add: word_less_nat_alt unat_word_ariths)
  then show ?thesis by (simp add: word_less_nat_alt word_le_nat_alt less_Suc_eq_le)
qed

lemma prefixUpperFrom_append:
  "i \<le> length p \<Longrightarrow> prefixUpperFrom (p @ q) i = prefixUpperFrom p i"
  by (induction i) (auto simp: nth_append list_update_append)

lemma prefixUpper_snoc:
  "prefixUpper (p @ [b]) = (if b < 0xff then Some (p @ [b + 1]) else prefixUpper p)"
  by (simp add: prefixUpper_def prefixUpperFrom_append nth_append list_update_append)

lemma prefixUpper_Nil [simp]: "prefixUpper [] = None"
  by (simp add: prefixUpper_def)

lemma le_singleton_ff: "[0xff :: byte] \<le> t \<Longrightarrow> \<exists>t'. t = 0xff # t'"
  using byte_le_ff by (cases t) (auto simp: less_le dest: order.antisym)

lemma Nil_less_iff: "([] :: byte list) < t \<longleftrightarrow> t \<noteq> []"
  by (cases t) auto

lemma singleton_between:
  "(b :: byte) < 0xff \<Longrightarrow> [b] \<le> t \<and> t < [b + 1] \<longleftrightarrow> prefix [b] t"
  by (cases t) (auto simp: byte_less_succ le_less Nil_less_iff)

lemma between_snoc:
  fixes p :: bytes
  assumes "b < 0xff"
  shows "p @ [b] \<le> k \<and> k < p @ [b + 1] \<longleftrightarrow> prefix (p @ [b]) k"
proof (induction p arbitrary: k)
  case Nil
  show ?case using singleton_between [OF assms] by simp
next
  case (Cons x p)
  show ?case
  proof (cases k)
    case Nil
    then show ?thesis by simp
  next
    case (Cons y k')
    with Cons.IH [of k'] show ?thesis by (auto simp: less_le)
  qed
qed

lemma in_range_prefixRange: "in_range (prefixRange p) k \<longleftrightarrow> prefix p k"
proof (induction p rule: rev_induct)
  case Nil
  show ?case by (simp add: prefixRange_def)
next
  case (snoc b p)
  show ?case
  proof (cases "b < 0xff")
    case True
    then show ?thesis using between_snoc [OF True, of p k]
      by (simp add: prefixRange_def prefixUpper_snoc)
  next
    case False
    then have b: "b = 0xff" by (simp add: byte_ff_max)
    have "p @ [0xff] \<le> k \<and> in_range (prefixRange p) k \<longleftrightarrow> prefix (p @ [0xff]) k"
    proof
      assume "p @ [0xff] \<le> k \<and> in_range (prefixRange p) k"
      then have "p @ [0xff] \<le> k" and "prefix p k" using snoc.IH by auto
      then show "prefix (p @ [0xff]) k" by (auto simp: prefix_def dest: le_singleton_ff)
    next
      assume "prefix (p @ [0xff]) k"
      then show "p @ [0xff] \<le> k \<and> in_range (prefixRange p) k"
        using snoc.IH by (auto simp: prefix_def)
    qed
    moreover have "in_range (prefixRange (p @ [b])) k \<longleftrightarrow>
        p @ [0xff] \<le> k \<and> in_range (prefixRange p) k"
      using order_trans [OF le_append_self [of p "[0xff]"], of k]
      by (auto simp: prefixRange_def prefixUpper_snoc b)
    ultimately show ?thesis by (simp add: b)
  qed
qed

section \<open>Change-log keys\<close>

datatype key_parse_error = BadKeyLength | KeyPrefixMismatch

definition KeyChangeLog :: "uint64 \<Rightarrow> bytes" where
  "KeyChangeLog index = bytes_of_string pChangeLog @ PutUint64 index"

definition PrefixChangeLog :: key_range where
  "PrefixChangeLog = prefixRange (bytes_of_string pChangeLog)"

definition ChangeLogIndexFromKey :: "bytes \<Rightarrow> key_parse_error + uint64" where
  "ChangeLogIndexFromKey key =
     (let pre = bytes_of_string pChangeLog in
      if length key \<noteq> length pre + 8 then Inl BadKeyLength
      else if take (length pre) key \<noteq> pre then Inl KeyPrefixMismatch
      else Inr (Uint64 (drop (length pre) key)))"

text \<open>\<^verbatim>\<open>int64\<close> times are 64-bit words read with \<^const>\<open>sint\<close>; \<^verbatim>\<open>uint64(t)\<close> keeps the bits.\<close>

definition KeyChangeLogExpiration :: "uint64 \<Rightarrow> uint64 \<Rightarrow> bytes" where
  "KeyChangeLogExpiration expireUnixNano index =
     bytes_of_string pChangeExpire @ PutUint64 expireUnixNano @ PutUint64 index"

definition PrefixChangeLogExpirationBefore :: "uint64 \<Rightarrow> key_range" where
  "PrefixChangeLogExpirationBefore beforeUnixNano =
     (bytes_of_string pChangeExpire,
      Some (bytes_of_string pChangeExpire @ PutUint64 beforeUnixNano))"

definition ParseChangeLogExpirationKey :: "bytes \<Rightarrow> (uint64 \<times> uint64) option" where
  "ParseChangeLogExpirationKey key =
     (let pre = bytes_of_string pChangeExpire in
      if length key \<noteq> length pre + 16 \<or> \<not> prefix pre key then None
      else (let rest = drop (length pre) key in
            Some (Uint64 (take 8 rest), Uint64 (drop 8 rest))))"

section \<open>Descriptor keys\<close>

definition escapeKeySegment :: "string \<Rightarrow> string" where
  "escapeKeySegment s = PathEscape s"

definition KeyStreamDescriptor :: "string \<Rightarrow> bytes" where
  "KeyStreamDescriptor streamArn = bytes_of_string (pStreams @ escapeKeySegment streamArn)"

definition PrefixStreamDescriptors :: key_range where
  "PrefixStreamDescriptors = prefixRange (bytes_of_string pStreams)"

definition KeyStreamRetention :: "string \<Rightarrow> bytes" where
  "KeyStreamRetention table = bytes_of_string (pStreamTrim @ escapeKeySegment table)"

definition PrefixStreamRetention :: key_range where
  "PrefixStreamRetention = prefixRange (bytes_of_string pStreamTrim)"

definition KeyCatalog :: "string \<Rightarrow> bytes" where
  "KeyCatalog table = bytes_of_string (pCatalog @ table)"

definition PrefixCatalog :: key_range where
  "PrefixCatalog = prefixRange (bytes_of_string pCatalog)"

definition KeyPluginIndexDescriptor :: "string \<Rightarrow> string \<Rightarrow> bytes" where
  "KeyPluginIndexDescriptor table name =
     bytes_of_string (pPluginIndex @ escapeKeySegment table @ ''/'' @ escapeKeySegment name)"

definition PrefixPluginIndexDescriptors :: key_range where
  "PrefixPluginIndexDescriptors = prefixRange (bytes_of_string pPluginIndex)"

definition PrefixPluginIndexTableDescriptors :: "string \<Rightarrow> key_range" where
  "PrefixPluginIndexTableDescriptors table =
     prefixRange (bytes_of_string (pPluginIndex @ escapeKeySegment table @ ''/''))"

definition KeyMaterializedView :: "string \<Rightarrow> bytes" where
  "KeyMaterializedView name = bytes_of_string (pMVDesc @ escapeKeySegment name)"

definition PrefixMaterializedViews :: key_range where
  "PrefixMaterializedViews = prefixRange (bytes_of_string pMVDesc)"

definition KeyMVRefreshCursor :: "string \<Rightarrow> bytes" where
  "KeyMVRefreshCursor name = bytes_of_string (pMVCursor @ escapeKeySegment name)"

definition KeyServiceLevel :: "string \<Rightarrow> bytes" where
  "KeyServiceLevel name = bytes_of_string (pServiceLevel @ escapeKeySegment name)"

definition PrefixServiceLevels :: key_range where
  "PrefixServiceLevels = prefixRange (bytes_of_string pServiceLevel)"

definition KeyGlobalIndex :: "string \<Rightarrow> bytes" where
  "KeyGlobalIndex name = bytes_of_string (pGlobalIndex @ escapeKeySegment name)"

definition PrefixGlobalIndexes :: key_range where
  "PrefixGlobalIndexes = prefixRange (bytes_of_string pGlobalIndex)"

section \<open>Primary keys\<close>

definition TableBase :: "string \<Rightarrow> string" where
  "TableBase table = pTables @ table"

definition pkHash8 :: "hasher \<Rightarrow> bytes \<Rightarrow> bytes" where
  "pkHash8 H serialized = PutUint64 (Sum64 H serialized)"

definition be8 :: "uint64 \<Rightarrow> bytes" where
  "be8 n = PutUint64 n"

abbreviation primaryBase :: "string \<Rightarrow> bytes" where
  "primaryBase table \<equiv> bytes_of_string (TableBase table @ SegPrimary)"

definition KeyPrimary :: "hasher \<Rightarrow> string \<Rightarrow> bytes \<Rightarrow> bytes \<Rightarrow> bytes" where
  "KeyPrimary H table pkSerialized skBytes =
     primaryBase table @ pkHash8 H pkSerialized @ skBytes"

definition PrefixPrimaryAll :: "string \<Rightarrow> key_range" where
  "PrefixPrimaryAll table = prefixRange (primaryBase table)"

definition PrefixTables :: key_range where
  "PrefixTables = prefixRange (bytes_of_string pTables)"

definition PrefixTable :: "string \<Rightarrow> key_range" where
  "PrefixTable table = prefixRange (bytes_of_string (TableBase table @ ''/''))"

text \<open>\<^verbatim>\<open>bytes.Index\<close>: the position of the first occurrence.\<close>

fun bytesIndex :: "bytes \<Rightarrow> bytes \<Rightarrow> nat option" where
  "bytesIndex [] sep = (if sep = [] then Some 0 else None)"
| "bytesIndex (b # bs) sep =
     (if prefix sep (b # bs) then Some 0 else map_option Suc (bytesIndex bs sep))"

definition PrimaryTokenFromKey :: "bytes \<Rightarrow> uint64 option" where
  "PrimaryTokenFromKey key =
     (let pre = bytes_of_string pTables; seg = bytes_of_string SegPrimary in
      if \<not> prefix pre key then None
      else (case bytesIndex (drop (length pre) key) seg of
              None \<Rightarrow> None
            | Some pos \<Rightarrow>
                (let tokenStart = length pre + pos + length seg in
                 if length key < tokenStart + 8 then None
                 else Some (Uint64 (take 8 (drop tokenStart key))))))"

definition PrefixPrimaryByPK :: "hasher \<Rightarrow> string \<Rightarrow> bytes \<Rightarrow> key_range" where
  "PrefixPrimaryByPK H table pkSerialized =
     prefixRange (primaryBase table @ pkHash8 H pkSerialized)"

text \<open>A nil \<^verbatim>\<open>skLow\<close> appends nothing, like an empty one; only \<^verbatim>\<open>skHigh\<close> is tested for nil.\<close>

definition skRange :: "bytes \<Rightarrow> bytes \<Rightarrow> bytes option \<Rightarrow> key_range" where
  "skRange p skLow skHigh =
     (p @ skLow, case skHigh of None \<Rightarrow> prefixUpper p | Some hi \<Rightarrow> Some (p @ hi))"

definition RangePrimaryBySK :: "hasher \<Rightarrow> string \<Rightarrow> bytes \<Rightarrow> bytes \<Rightarrow> bytes option \<Rightarrow> key_range" where
  "RangePrimaryBySK H table pkSerialized skLow skHigh =
     skRange (primaryBase table @ pkHash8 H pkSerialized) skLow skHigh"

section \<open>Secondary-index keys\<close>

abbreviation indexBase :: "string \<Rightarrow> string \<Rightarrow> string \<Rightarrow> bytes" where
  "indexBase table seg idxName \<equiv> bytes_of_string (TableBase table @ seg @ idxName @ ''/'')"

definition primaryDisambiguator :: "hasher \<Rightarrow> bytes \<Rightarrow> bytes \<Rightarrow> bytes" where
  "primaryDisambiguator H primaryPK primarySK = PutUint64 (Digest H [primaryPK, [0], primarySK])"

definition KeyGSI :: "hasher \<Rightarrow> string \<Rightarrow> string \<Rightarrow> bytes \<Rightarrow> bytes \<Rightarrow> bytes \<Rightarrow> bytes \<Rightarrow> bytes" where
  "KeyGSI H table idxName gsiPK gsiSK primaryPK primarySK =
     indexBase table segGSI idxName @ pkHash8 H gsiPK @ gsiSK @
     primaryDisambiguator H primaryPK primarySK"

definition PrefixGSIByPK :: "hasher \<Rightarrow> string \<Rightarrow> string \<Rightarrow> bytes \<Rightarrow> key_range" where
  "PrefixGSIByPK H table idxName gsiPK =
     prefixRange (indexBase table segGSI idxName @ pkHash8 H gsiPK)"

definition RangeGSIBySK ::
  "hasher \<Rightarrow> string \<Rightarrow> string \<Rightarrow> bytes \<Rightarrow> bytes \<Rightarrow> bytes option \<Rightarrow> key_range" where
  "RangeGSIBySK H table idxName gsiPK skLow skHigh =
     skRange (indexBase table segGSI idxName @ pkHash8 H gsiPK) skLow skHigh"

definition KeyLSI :: "hasher \<Rightarrow> string \<Rightarrow> string \<Rightarrow> bytes \<Rightarrow> bytes \<Rightarrow> bytes \<Rightarrow> bytes" where
  "KeyLSI H table idxName primaryPK lsiSK primarySK =
     indexBase table segLSI idxName @ pkHash8 H primaryPK @ lsiSK @ primarySK"

definition PrefixLSIByPK :: "hasher \<Rightarrow> string \<Rightarrow> string \<Rightarrow> bytes \<Rightarrow> key_range" where
  "PrefixLSIByPK H table idxName primaryPK =
     prefixRange (indexBase table segLSI idxName @ pkHash8 H primaryPK)"

definition RangeLSIBySK ::
  "hasher \<Rightarrow> string \<Rightarrow> string \<Rightarrow> bytes \<Rightarrow> bytes \<Rightarrow> bytes option \<Rightarrow> key_range" where
  "RangeLSIBySK H table idxName primaryPK skLow skHigh =
     skRange (indexBase table segLSI idxName @ pkHash8 H primaryPK) skLow skHigh"

definition KeyTTL :: "hasher \<Rightarrow> string \<Rightarrow> uint64 \<Rightarrow> bytes \<Rightarrow> bytes \<Rightarrow> bytes" where
  "KeyTTL H table expireUnix primaryPK primarySK =
     bytes_of_string (TableBase table @ segTTL) @ be8 expireUnix @ pkHash8 H primaryPK @ primarySK"

definition PrefixTTLBefore :: "string \<Rightarrow> uint64 \<Rightarrow> key_range" where
  "PrefixTTLBefore table before =
     (bytes_of_string (TableBase table @ segTTL),
      Some (bytes_of_string (TableBase table @ segTTL) @ be8 before))"

definition ParseTTLKey :: "string \<Rightarrow> bytes \<Rightarrow> (bytes \<times> bytes) option" where
  "ParseTTLKey table key =
     (let pre = bytes_of_string (TableBase table @ segTTL) in
      if length key < length pre + 8 + 8 \<or> take (length pre) key \<noteq> pre then None
      else (let rest = drop (length pre + 8) key in Some (take 8 rest, drop 8 rest)))"

definition KeyGeo :: "hasher \<Rightarrow> string \<Rightarrow> string \<Rightarrow> string \<Rightarrow> bytes \<Rightarrow> bytes \<Rightarrow> bytes" where
  "KeyGeo H table idxName geohash primaryPK primarySK =
     indexBase table segGeo idxName @ bytes_of_string geohash @
     primaryDisambiguator H primaryPK primarySK"

definition PrefixGeoCell :: "string \<Rightarrow> string \<Rightarrow> string \<Rightarrow> key_range" where
  "PrefixGeoCell table idxName cellPrefix =
     prefixRange (indexBase table segGeo idxName @ bytes_of_string cellPrefix)"

definition KeyZorder :: "hasher \<Rightarrow> string \<Rightarrow> string \<Rightarrow> bytes \<Rightarrow> bytes \<Rightarrow> bytes \<Rightarrow> bytes" where
  "KeyZorder H table idxName mortonBytes primaryPK primarySK =
     indexBase table segZorder idxName @ mortonBytes @ primaryDisambiguator H primaryPK primarySK"

definition RangeZorder :: "string \<Rightarrow> string \<Rightarrow> bytes \<Rightarrow> bytes \<Rightarrow> key_range" where
  "RangeZorder table idxName low high =
     (indexBase table segZorder idxName @ low,
      prefixUpper (indexBase table segZorder idxName @ high @ replicate 8 0xff))"

section \<open>Index pointers\<close>

definition projMarkerInclude :: byte where "projMarkerInclude = 0xFE"
definition projMarkerAll :: byte where "projMarkerAll = 0xFD"

datatype pointer_error =
    PointerEmpty
  | PKLen codec_error
  | PKShort
  | SKLen codec_error
  | SKShort
  | ItemLen codec_error
  | ItemShort

definition EncodeGSIPointer :: "bytes \<Rightarrow> bytes \<Rightarrow> bytes" where
  "EncodeGSIPointer primaryPK primarySK =
     appendUvarint (appendUvarint [] (of_nat (length primaryPK)) @ primaryPK)
       (of_nat (length primarySK)) @ primarySK"

definition DecodeGSIPointer :: "bytes \<Rightarrow> pointer_error + (bytes \<times> bytes)" where
  "DecodeGSIPointer data =
     bindr (wrapr PKLen (readUvarint data)) (\<lambda>(n, rest).
       if length rest < unat n then Inl PKShort
       else bindr (wrapr SKLen (readUvarint (drop (unat n) rest))) (\<lambda>(m, rest').
         if length rest' < unat m then Inl SKShort
         else Inr (take (unat n) rest, take (unat m) rest')))"

definition EncodeProjectedPointer :: "bytes \<Rightarrow> bytes \<Rightarrow> string \<Rightarrow> bytes \<Rightarrow> bytes" where
  "EncodeProjectedPointer primaryPK primarySK mode projected =
     (let body = \<lambda>marker.
        appendUvarint
          (appendUvarint
            (appendUvarint [marker] (of_nat (length primaryPK)) @ primaryPK)
            (of_nat (length primarySK)) @ primarySK)
          (of_nat (length projected)) @ projected
      in if mode = ''INCLUDE'' then body projMarkerInclude
         else if mode = ''ALL'' then body projMarkerAll
         else EncodeGSIPointer primaryPK primarySK)"

text \<open>The result lists \<^verbatim>\<open>primaryPK, primarySK, projectedBytes, mode\<close>; \<open>None\<close> is nil.\<close>

definition DecodeProjectedPointer ::
  "bytes \<Rightarrow> pointer_error + (bytes \<times> bytes \<times> bytes option \<times> string)" where
  "DecodeProjectedPointer data =
     (case data of
        [] \<Rightarrow> Inl PointerEmpty
      | marker # rest \<Rightarrow>
          (if marker \<noteq> projMarkerInclude \<and> marker \<noteq> projMarkerAll then
             bindr (DecodeGSIPointer data) (\<lambda>(pk, sk). Inr (pk, sk, None, ''KEYS_ONLY''))
           else
             bindr (wrapr PKLen (readUvarint rest)) (\<lambda>(n, r1).
               if length r1 < unat n then Inl PKShort
               else bindr (wrapr SKLen (readUvarint (drop (unat n) r1))) (\<lambda>(m, r2).
                 if length r2 < unat m then Inl SKShort
                 else bindr (wrapr ItemLen (readUvarint (drop (unat m) r2))) (\<lambda>(q, r3).
                   if length r3 < unat q then Inl ItemShort
                   else Inr (take (unat n) r1, take (unat m) r2, Some (take (unat q) r3),
                             if marker = projMarkerInclude then ''INCLUDE'' else ''ALL''))))))"

end
