(* ===== verification/KeyRanges.thy ===== *)
theory KeyRanges
  imports Keys
begin

text \<open>
  What the scans of the storage layer visit. Each theorem relates a range of
  \<^verbatim>\<open>internal/storage/keys.go\<close> to the keys its builders produce: prefix scans, sort-key
  ranges inside a partition, time-ordered sweeps, and the separation of tables.
\<close>

section \<open>Shared facts\<close>

lemma PutUint64_Uint64: "length b = 8 \<Longrightarrow> PutUint64 (Uint64 b) = b"
proof -
  assume "length b = 8"
  then obtain b0 b1 b2 b3 b4 b5 b6 b7 where b: "b = [b0, b1, b2, b3, b4, b5, b6, b7]"
    by (auto simp: length_Suc_conv numeral_eq_Suc)
  have "ucast (drop_bit (8 * k) (Uint64 b)) = b ! (7 - k)" if "k < 8" for k
  proof (rule bit_word_eqI)
    fix n assume "n < LENGTH(8)"
    then have n: "n < 8" by simp
    from that have "k = 0 \<or> k = 1 \<or> k = 2 \<or> k = 3 \<or> k = 4 \<or> k = 5 \<or> k = 6 \<or> k = 7" by linarith
    then show "bit (ucast (drop_bit (8 * k) (Uint64 b)) :: byte) n = bit (b ! (7 - k)) n"
      using n by (elim disjE) (auto simp: Uint64_def b bit_or_iff bit_push_bit_iff
        bit_ucast_iff bit_drop_bit_eq dest: bit_imp_le_length)
  qed
  from this [of 0] this [of 1] this [of 2] this [of 3] this [of 4] this [of 5] this [of 6] this [of 7]
  show ?thesis by (simp add: PutUint64_def b)
qed

lemma bytes_of_string_Cons [simp]: "bytes_of_string (c # s) = of_char c # bytes_of_string s"
  by (simp add: bytes_of_string_def)

lemma bytes_of_string_Nil [simp]: "bytes_of_string [] = []"
  by (simp add: bytes_of_string_def)

lemma prefix_same_length_append:
  "length a = length b \<Longrightarrow> prefix a (b @ t) \<longleftrightarrow> a = b"
  by (metis append_eq_append_conv prefix_def prefix_append same_prefix_prefix append.right_neutral prefix_order.refl)

lemma length_pkHash8 [simp]: "length (pkHash8 H pk) = 8"
  by (simp add: pkHash8_def)

lemma pkHash8_inject [simp]: "pkHash8 H a = pkHash8 H b \<longleftrightarrow> Sum64 H a = Sum64 H b"
  by (simp add: pkHash8_def)

lemma length_primaryDisambiguator [simp]: "length (primaryDisambiguator H a b) = 8"
  by (simp add: primaryDisambiguator_def)

text \<open>
  The exclusive upper bound is exact: the keys in the range that \<^verbatim>\<open>prefixUpper\<close> closes are
  precisely the keys with that prefix, also when trailing bytes are 0xff and when no bound
  exists (the nil case).
\<close>

lemma prefix_scan_exact: "in_range (prefixRange p) k \<longleftrightarrow> prefix p k"
  by (rule in_range_prefixRange)

section \<open>Sort-key ranges inside a partition\<close>

text \<open>
  A partition is a byte prefix of fixed length followed by the sort key. Against a key of
  another partition the bounds fail already on the prefix.
\<close>

lemma skRange_same: "in_range (skRange p lo hi) (p @ sk) \<longleftrightarrow>
    lo \<le> sk \<and> (case hi of None \<Rightarrow> True | Some h \<Rightarrow> sk < h)"
proof (cases hi)
  case None
  have "in_range (prefixRange p) (p @ sk)" by (simp add: in_range_prefixRange)
  with None show ?thesis by (simp add: skRange_def prefixRange_def)
qed (simp add: skRange_def)

lemma append_le_same_length:
  fixes a b :: bytes
  assumes "length a = length b"
  shows "a @ s \<le> b @ t \<longleftrightarrow> a < b \<or> (a = b \<and> s \<le> t)"
  using append_less_same_length [of b a t s] assms by (auto simp: not_less [symmetric])

lemma skRange_other:
  assumes "length p = length q" and "p \<noteq> q"
  shows "\<not> in_range (skRange p lo hi) (q @ sk)"
proof
  assume r: "in_range (skRange p lo hi) (q @ sk)"
  then have "p @ lo \<le> q @ sk" by (simp add: skRange_def)
  with assms have less: "p < q" by (simp add: append_le_same_length)
  show False
  proof (cases hi)
    case (Some h)
    with r have "q @ sk < p @ h" by (simp add: skRange_def)
    with assms less show False by (auto simp: append_less_same_length)
  next
    case None
    from less have "p \<le> q @ sk" using append_le_same_length [OF assms(1), of "[]" sk] by simp
    with None r have "in_range (prefixRange p) (q @ sk)" by (simp add: skRange_def prefixRange_def)
    then show False using assms by (simp add: in_range_prefixRange prefix_same_length_append)
  qed
qed

lemma skRange_partition:
  assumes "length p = length q"
  shows "in_range (skRange p lo hi) (q @ sk) \<longleftrightarrow>
    q = p \<and> lo \<le> sk \<and> (case hi of None \<Rightarrow> True | Some h \<Rightarrow> sk < h)"
  using skRange_same skRange_other [OF assms] by metis

text \<open>
  C9. A primary-key range query visits, among all rows of the table, exactly those whose
  partition hash equals the queried one and whose sort key lies in \<open>[skLow, skHigh)\<close>;
  a nil \<^verbatim>\<open>skHigh\<close> leaves the range open above.
\<close>

theorem primary_range_exact:
  "in_range (RangePrimaryBySK H table pk lo hi) (KeyPrimary H table pk' sk) \<longleftrightarrow>
     Sum64 H pk' = Sum64 H pk \<and> lo \<le> sk \<and> (case hi of None \<Rightarrow> True | Some h \<Rightarrow> sk < h)"
  using skRange_partition [of "primaryBase table @ pkHash8 H pk" "primaryBase table @ pkHash8 H pk'"
      lo hi sk]
  by (simp add: RangePrimaryBySK_def KeyPrimary_def)

text \<open>
  A range over a global secondary index visits exactly the entries of the queried index
  partition whose index sort key lies in \<open>[skLow, skHigh)\<close>, provided that key is as long as
  both bounds.
\<close>

lemma gsi_range_exact_fixed_width:
  assumes "length lo = length gsk" and "length hi = length gsk"
  shows "in_range (RangeGSIBySK H table idx g lo (Some hi)) (KeyGSI H table idx g' gsk pk sk) \<longleftrightarrow>
     Sum64 H g' = Sum64 H g \<and> lo \<le> gsk \<and> gsk < hi"
  using skRange_partition [of "indexBase table segGSI idx @ pkHash8 H g"
      "indexBase table segGSI idx @ pkHash8 H g'" lo "Some hi" "gsk @ primaryDisambiguator H pk sk"]
  by (simp add: RangeGSIBySK_def KeyGSI_def append_less_bound bound_le_append assms)

theorem gsi_range_exact_fixed_width_witness:
  "in_range (RangeGSIBySK \<lparr>Sum64 = (\<lambda>_. 7), Digest = (\<lambda>_. 9)\<rparr> ''t'' ''i'' [1] [5] (Some [7]))
     (KeyGSI \<lparr>Sum64 = (\<lambda>_. 7), Digest = (\<lambda>_. 9)\<rparr> ''t'' ''i'' [1] [6] [2] [3]) \<longleftrightarrow>
   (7 :: uint64) = 7 \<and> [5 :: byte] \<le> [6] \<and> [6 :: byte] < [7]"
  using gsi_range_exact_fixed_width [of "[5]" "[6]" "[7]" "\<lparr>Sum64 = (\<lambda>_. 7), Digest = (\<lambda>_. 9)\<rparr>"
      "''t''" "''i''" "[1]" "[1]" "[2]" "[3]"]
  by simp

text \<open>
  Without equal lengths the index range is not the documented one: an entry whose sort key
  is a proper prefix of the upper bound lies in \<open>[skLow, skHigh)\<close>, yet the scan misses it
  whenever the 8-byte disambiguator that follows it sorts at or above the rest of the bound.
\<close>

lemma gsi_range_misses_prefix_keys:
  assumes "rest \<noteq> []" and "rest \<le> primaryDisambiguator H pk sk"
  shows "gsk < gsk @ rest \<and>
    \<not> in_range (RangeGSIBySK H table idx g lo (Some (gsk @ rest))) (KeyGSI H table idx g gsk pk sk)"
  using assms by (simp add: RangeGSIBySK_def KeyGSI_def skRange_def not_less)

theorem gsi_range_misses_prefix_keys_witness:
  "[97] < [97 :: byte, 98] \<and>
   \<not> in_range (RangeGSIBySK \<lparr>Sum64 = (\<lambda>_. 0), Digest = (\<lambda>_. 0xC000000000000000)\<rparr> ''t'' ''i'' [1] [97]
          (Some [97, 98]))
        (KeyGSI \<lparr>Sum64 = (\<lambda>_. 0), Digest = (\<lambda>_. 0xC000000000000000)\<rparr> ''t'' ''i'' [1] [97] [2] [3])"
  using gsi_range_misses_prefix_keys [of "[98]" "\<lparr>Sum64 = (\<lambda>_. 0), Digest = (\<lambda>_. 0xC000000000000000)\<rparr>"
      "[2]" "[3]" "[97]" "''t''" "''i''" "[1]" "[97]"]
  by (simp add: primaryDisambiguator_def PutUint64_def)

text \<open>
  Local-index keys are ambiguous: the index sort key and the item's own sort key are
  concatenated without a separator, so two different items of one partition can own the same
  index key (the later write then overwrites the earlier item's entry).
\<close>

lemma lsi_key_ambiguous:
  "KeyLSI H table idx pk (a @ b) c = KeyLSI H table idx pk a (b @ c)"
  by (simp add: KeyLSI_def)

section \<open>Separation of tables\<close>

lemma of_char_byte_inject [simp]: "(of_char c :: byte) = of_char d \<longleftrightarrow> c = d"
  using bytes_of_string_inject [of "[c]" "[d]"] by auto

lemma of_char_slash [simp]: "of_char c = (0x2f :: byte) \<longleftrightarrow> c = CHR ''/''"
  "(0x2f :: byte) = of_char c \<longleftrightarrow> c = CHR ''/''"
  using bytes_of_string_inject [of "[c]" "''/''"] by auto

lemma prefix_slash_free:
  assumes "CHR ''/'' \<notin> set a" and "CHR ''/'' \<notin> set b"
  shows "prefix (bytes_of_string a @ [0x2f]) (bytes_of_string b @ 0x2f # t) \<longleftrightarrow> a = b"
  using assms
proof (induction a arbitrary: b)
  case Nil
  then show ?case by (cases b) auto
next
  case (Cons c a)
  then show ?case by (cases b) auto
qed

definition table_key :: "string \<Rightarrow> bytes \<Rightarrow> bytes" where
  "table_key table rest = bytes_of_string (TableBase table) @ 0x2f # rest"

lemma table_key_KeyPrimary:
  "KeyPrimary H table pk sk = table_key table (bytes_of_string ''p/'' @ pkHash8 H pk @ sk)"
  by (simp add: KeyPrimary_def table_key_def SegPrimary_def)

lemma in_PrefixTable:
  assumes "CHR ''/'' \<notin> set t" and "CHR ''/'' \<notin> set u"
  shows "in_range (PrefixTable t) (table_key u rest) \<longleftrightarrow> t = u"
  using prefix_slash_free [OF assms]
  by (simp add: PrefixTable_def in_range_prefixRange table_key_def TableBase_def)

text \<open>
  Tables with slash-free names are separated: the range of a table holds the rows of that
  table and none of another's.
\<close>

lemma tables_separated:
  assumes "CHR ''/'' \<notin> set t" and "CHR ''/'' \<notin> set u"
  shows "in_range (PrefixTable t) (KeyPrimary H u pk sk) \<longleftrightarrow> t = u"
  using in_PrefixTable [OF assms] by (simp add: table_key_KeyPrimary)

theorem tables_separated_witness:
  "\<not> in_range (PrefixTable ''a'') (KeyPrimary \<lparr>Sum64 = (\<lambda>_. 0), Digest = (\<lambda>_. 0)\<rparr> ''ab'' [1] [2])"
  using tables_separated [of "''a''" "''ab''" "\<lparr>Sum64 = (\<lambda>_. 0), Digest = (\<lambda>_. 0)\<rparr>" "[1]" "[2]"]
  by simp

text \<open>
  Nothing in the key builder escapes a slash in a table name: every row of the table named
  \<open>t @ ''/p''\<close> lies in the range that \<^verbatim>\<open>ScanTable\<close> reads for the table \<open>t\<close>.
\<close>

lemma slash_in_table_name_leaks:
  "in_range (PrefixPrimaryAll t) (KeyPrimary H (t @ ''/p'') pk sk)"
  by (simp add: PrefixPrimaryAll_def in_range_prefixRange KeyPrimary_def TableBase_def SegPrimary_def)

section \<open>Time-ordered sweeps\<close>


lemma sint_less_iff_nonneg:
  fixes a b :: uint64
  assumes "0 \<le> sint a" and "0 \<le> sint b"
  shows "sint a < sint b \<longleftrightarrow> a < b"
proof -
  have "uint w = sint w" if "0 \<le> sint w" for w :: uint64
    using that sint_lt [of w] by (simp add: uint_sint take_bit_int_eq_self)
  with assms show ?thesis by (simp add: word_less_def)
qed

text \<open>
  The change-log cleaner's range up to a time visits exactly the expiration pointers of
  earlier records, for times not before 1970 (the encoding compares the bits as unsigned), and
  parsing a pointer gives back its time and log index.
\<close>

lemma changelog_expiration_exact:
  assumes "0 \<le> sint expire" and "0 \<le> sint before"
  shows "(in_range (PrefixChangeLogExpirationBefore before) (KeyChangeLogExpiration expire index)
            \<longleftrightarrow> sint expire < sint before) \<and>
     ParseChangeLogExpirationKey (KeyChangeLogExpiration expire index) = Some (expire, index)"
proof -
  have u: "Uint64 (PutUint64 v) = v" for v using Uint64_PutUint64 [of v "[]"] by simp
  show ?thesis
    using be64.in_scan [of "bytes_of_string pChangeExpire" expire "PutUint64 index" before]
    by (simp add: PrefixChangeLogExpirationBefore_def KeyChangeLogExpiration_def u
        ParseChangeLogExpirationKey_def sint_less_iff_nonneg assms Let_def)
qed

theorem changelog_expiration_exact_witness:
  "(in_range (PrefixChangeLogExpirationBefore 20) (KeyChangeLogExpiration 10 3)
      \<longleftrightarrow> sint (10 :: uint64) < sint (20 :: uint64)) \<and>
   ParseChangeLogExpirationKey (KeyChangeLogExpiration 10 3) = Some (10, 3)"
  by (rule changelog_expiration_exact) simp_all

text \<open>
  Change-log keys: parsing inverts building, accepts nothing but built keys, and the key
  order is the order of the log.
\<close>

lemma changelog_keys:
  "(ChangeLogIndexFromKey key = Inr i \<longleftrightarrow> key = KeyChangeLog i) \<and>
   (KeyChangeLog i < KeyChangeLog j \<longleftrightarrow> i < j) \<and> in_range PrefixChangeLog (KeyChangeLog i)"
proof -
  have parse: "ChangeLogIndexFromKey (KeyChangeLog i) = Inr i"
    using Uint64_PutUint64 [of i "[]"] by (simp add: ChangeLogIndexFromKey_def KeyChangeLog_def Let_def)
  have build: "key = KeyChangeLog i" if "ChangeLogIndexFromKey key = Inr i"
  proof -
    let ?pre = "bytes_of_string pChangeLog"
    from that have "length key = length ?pre + 8" and "take (length ?pre) key = ?pre"
      and i: "Uint64 (drop (length ?pre) key) = i"
      by (simp_all add: ChangeLogIndexFromKey_def Let_def split: if_splits)
    then have "PutUint64 i = drop (length ?pre) key"
      by (auto intro: PutUint64_Uint64)
    with \<open>take (length ?pre) key = ?pre\<close> show ?thesis
      by (metis KeyChangeLog_def append_take_drop_id)
  qed
  show ?thesis
    using parse build by (auto simp: KeyChangeLog_def PrefixChangeLog_def in_range_prefixRange)
qed

section \<open>Spatial cells and descriptor keys\<close>

lemma suffix_8_le_ff: "length (d :: bytes) = 8 \<Longrightarrow> d \<le> replicate 8 0xff"
proof -
  have "length d = n \<Longrightarrow> d \<le> replicate n 0xff" for n and d :: bytes
  proof (induction n arbitrary: d)
    case (Suc n)
    then obtain b e where "d = b # e" and "length e = n" by (auto simp: length_Suc_conv)
    with Suc.IH [of e] byte_le_ff [of b] show ?case by (auto simp: le_less)
  qed simp
  then show "length d = 8 \<Longrightarrow> d \<le> replicate 8 0xff" by blast
qed

lemma below_prefixUpper:
  "(case prefixUpper q of None \<Rightarrow> True | Some u \<Rightarrow> k < u) \<longleftrightarrow> k < q \<or> prefix q k"
proof (cases "q \<le> k")
  case True
  then show ?thesis using in_range_prefixRange [of q k] by (auto simp: prefixRange_def not_less)
next
  case False
  then have "k < q" by simp
  moreover have "q \<le> u" if "prefixUpper q = Some u" for u
    using in_range_prefixRange [of q q] that by (auto simp: prefixRange_def)
  ultimately show ?thesis by (auto split: option.splits intro: less_le_trans)
qed

text \<open>
  The bounding range of a Z-order scan visits exactly the entries whose Morton code lies
  between the two corners, both inclusive, when codes and corners have one width: padding the
  upper corner with 0xff bytes covers every disambiguator.
\<close>

lemma zorder_range_exact:
  assumes "length low = length m" and "length high = length m"
  shows "in_range (RangeZorder table idx low high) (KeyZorder H table idx m pk sk) \<longleftrightarrow>
    low \<le> m \<and> m \<le> high"
proof -
  let ?b = "indexBase table segZorder idx" and ?d = "primaryDisambiguator H pk sk"
  let ?f = "replicate 8 (0xff :: byte)"
  have "?b @ low \<le> ?b @ m @ ?d \<longleftrightarrow> low \<le> m"
    by (simp only: append_le_append_iff) (rule bound_le_append, simp add: assms)
  moreover have "?b @ m @ ?d < ?b @ high @ ?f \<or> prefix (?b @ high @ ?f) (?b @ m @ ?d) \<longleftrightarrow> m \<le> high"
  proof -
    have "prefix (high @ ?f) (m @ ?d) \<longleftrightarrow> high = m \<and> ?d = ?f"
      using prefix_same_length_append [of "high @ ?f" "m @ ?d" "[]"] assms by auto
    then show ?thesis
      using append_less_same_length [of m high ?d ?f] assms suffix_8_le_ff [of ?d]
      by (auto simp: le_less)
  qed
  ultimately show ?thesis
    unfolding RangeZorder_def KeyZorder_def in_range.simps below_prefixUpper by simp
qed

theorem zorder_range_exact_witness:
  "in_range (RangeZorder ''t'' ''z'' [1, 0] [2, 9])
     (KeyZorder \<lparr>Sum64 = (\<lambda>_. 0), Digest = (\<lambda>_. 5)\<rparr> ''t'' ''z'' [2, 9] [1] [])"
  using zorder_range_exact [of "[1, 0]" "[2, 9]" "[2, 9]" "''t''" "''z''"
      "\<lparr>Sum64 = (\<lambda>_. 0), Digest = (\<lambda>_. 5)\<rparr>" "[1]" "[]"]
  by simp

text \<open>
  Plugin-index descriptors of a table are found by its prefix scan and no descriptor of
  another table is, whatever characters the names hold, and distinct (table, name) pairs have
  distinct keys: both segments are percent-escaped.
\<close>

lemma plugin_descriptor_keys:
  "(in_range (PrefixPluginIndexTableDescriptors t) (KeyPluginIndexDescriptor u n) \<longleftrightarrow> t = u) \<and>
   (KeyPluginIndexDescriptor t m = KeyPluginIndexDescriptor u n \<longleftrightarrow> t = u \<and> m = n)"
proof -
  have esc: "prefix (bytes_of_string (PathEscape a) @ [0x2f])
      (bytes_of_string (PathEscape b) @ 0x2f # r) \<longleftrightarrow> a = b" for a b r
    using prefix_slash_free [OF PathEscape_no_slash PathEscape_no_slash]
    by (metis PathEscape_inject)
  have range: "in_range (PrefixPluginIndexTableDescriptors a) (KeyPluginIndexDescriptor b n) \<longleftrightarrow> a = b"
    for a b n
    using esc by (simp add: PrefixPluginIndexTableDescriptors_def KeyPluginIndexDescriptor_def
        in_range_prefixRange escapeKeySegment_def)
  have "m = n" if "KeyPluginIndexDescriptor t m = KeyPluginIndexDescriptor t n"
    using that by (simp add: KeyPluginIndexDescriptor_def escapeKeySegment_def PathEscape_inject)
  with range show ?thesis by metis
qed

section \<open>Tokens read back from primary keys\<close>

lemma bytesIndex_first_slash:
  assumes "CHR ''/'' \<notin> set t"
  shows "bytesIndex (bytes_of_string t @ bytes_of_string (CHR ''/'' # s) @ r)
      (bytes_of_string (CHR ''/'' # s)) = Some (length t)"
  using assms
proof (induction t)
  case Nil
  have "prefix (bytes_of_string (CHR ''/'' # s)) (bytes_of_string (CHR ''/'' # s) @ r)" by simp
  then show ?case by (cases "bytes_of_string (CHR ''/'' # s) @ r") (simp_all del: prefix_code)
next
  case (Cons c t)
  then show ?case by auto
qed

text \<open>
  The shard token a key-range split reads from a stored row is the hash the writer routed
  the row by, for every table whose name has no slash.
\<close>

lemma primary_token_from_key:
  assumes "CHR ''/'' \<notin> set table"
  shows "PrimaryTokenFromKey (KeyPrimary H table pk sk) = Some (Sum64 H pk)"
proof -
  have "bytesIndex (bytes_of_string table @ bytes_of_string SegPrimary @ r) (bytes_of_string SegPrimary)
      = Some (length table)" for r
    using bytesIndex_first_slash [OF assms, of "''p/''" r] by (simp add: SegPrimary_def)
  then show ?thesis
    using Uint64_PutUint64 [of "Sum64 H pk" "[]"]
    by (simp add: PrimaryTokenFromKey_def KeyPrimary_def TableBase_def pkHash8_def Let_def)
qed

section \<open>Index pointers\<close>

lemma DecodeGSIPointer_EncodeGSIPointer:
  assumes "len_fits pk" and "len_fits sk"
  shows "DecodeGSIPointer (EncodeGSIPointer pk sk @ r) = Inr (pk, sk)"
  using assms
  by (simp add: DecodeGSIPointer_def EncodeGSIPointer_def appendUvarint_def readUvarint_put)

text \<open>The lengths whose varint starts with one of the two marker bytes.\<close>

definition marker_collision :: "nat \<Rightarrow> bool" where
  "marker_collision n \<longleftrightarrow> 128 \<le> n \<and> (n mod 128 = 125 \<or> n mod 128 = 126)"

lemma or_128_eq_iff:
  fixes c k :: byte
  shows "c OR 0x80 = k OR 0x80 \<longleftrightarrow> unat c mod 128 = unat k mod 128"
proof -
  have "c OR 0x80 = k OR 0x80 \<longleftrightarrow> take_bit 7 c = take_bit 7 k"
  proof
    assume eq: "c OR 0x80 = k OR 0x80"
    have "bit c n = bit k n" if "n < 7" for n
      using arg_cong [OF eq, of "\<lambda>w. bit w n"] that by (simp only: bit_or_iff bit_byte_128) simp
    then show "take_bit 7 c = take_bit 7 k"
      by (intro bit_word_eqI) (auto simp: bit_take_bit_iff)
  next
    assume eq: "take_bit 7 c = take_bit 7 k"
    have "bit c n = bit k n" if "n < 7" for n
      using arg_cong [OF eq, of "\<lambda>w. bit w n"] that by (simp add: bit_take_bit_iff)
    then show "c OR 0x80 = k OR 0x80"
      by (intro bit_word_eqI) (simp only: bit_or_iff bit_byte_128, auto simp: less_Suc_eq numeral_eq_Suc)
  qed
  then show ?thesis
    by (simp only: word_unat_eq_iff unsigned_take_bit_eq) (simp add: take_bit_eq_mod)
qed

lemma hd_PutUvarint_marker:
  assumes "n < 2 ^ 64"
  shows "hd (PutUvarint (of_nat n)) \<in> {projMarkerInclude, projMarkerAll} \<longleftrightarrow> marker_collision n"
proof -
  have u: "unat (of_nat n :: uint64) = n" using assms by (simp add: unat_of_nat)
  have c: "unat (ucast (of_nat n :: uint64) :: byte) = n mod 256"
    using assms by (simp add: unsigned_ucast_eq unsigned_take_bit_eq take_bit_eq_mod u)
  have m: "n mod 256 mod 128 = n mod 128" by (simp add: mod_mod_cancel)
  have "ucast (of_nat n :: uint64) OR 0x80 = (0xFD :: byte) \<longleftrightarrow> n mod 128 = 125"
    using or_128_eq_iff [of "ucast (of_nat n :: uint64)" "0xFD"] by (simp add: c m)
  moreover have "ucast (of_nat n :: uint64) OR 0x80 = (0xFE :: byte) \<longleftrightarrow> n mod 128 = 126"
    using or_128_eq_iff [of "ucast (of_nat n :: uint64)" "0xFE"] by (simp add: c m)
  moreover have "ucast (of_nat n :: uint64) \<noteq> (0xFD :: byte) \<and> ucast (of_nat n :: uint64) \<noteq> (0xFE :: byte)"
    if "n < 128" using that by (auto simp: word_unat_eq_iff c)
  moreover have "(0x80 :: uint64) \<le> of_nat n \<longleftrightarrow> 128 \<le> n" by (simp add: word_le_nat_alt u)
  ultimately show ?thesis
    by (auto simp: PutUvarint.simps [of "of_nat n"] marker_collision_def projMarkerInclude_def
        projMarkerAll_def)
qed

text \<open>
  An INCLUDE or ALL index entry gives back the primary key, the projected bytes and its
  mode, for every key and projection.
\<close>

lemma projected_pointer_roundtrip:
  assumes "len_fits pk" and "len_fits sk" and "len_fits projected" and "mode \<in> {''INCLUDE'', ''ALL''}"
  shows "DecodeProjectedPointer (EncodeProjectedPointer pk sk mode projected)
    = Inr (pk, sk, Some projected, mode)"
  using assms
  by (auto simp: DecodeProjectedPointer_def EncodeProjectedPointer_def Let_def appendUvarint_def
      readUvarint_put projMarkerInclude_def projMarkerAll_def)

theorem projected_pointer_roundtrip_witness:
  "DecodeProjectedPointer (EncodeProjectedPointer [1, 2] [3] ''ALL'' [9, 9])
    = Inr ([1, 2], [3], Some [9, 9], ''ALL'')"
  by (rule projected_pointer_roundtrip) (simp_all add: len_fits_def)

text \<open>
  A KEYS_ONLY index entry gives back its primary key exactly when the length of the
  partition key is not one whose varint starts with a marker byte (253, 254, 381, ...): for
  those lengths the decoder takes the entry for a projected one.
\<close>

lemma keys_only_pointer_roundtrip_iff:
  assumes "len_fits pk" and "len_fits sk"
  shows "DecodeProjectedPointer (EncodeProjectedPointer pk sk ''KEYS_ONLY'' projected)
      = Inr (pk, sk, None, ''KEYS_ONLY'') \<longleftrightarrow> \<not> marker_collision (length pk)"
proof -
  obtain h t where ht: "PutUvarint (of_nat (length pk)) = h # t"
    by (cases "PutUvarint (of_nat (length pk))") (simp_all add: PutUvarint.simps split: if_splits)
  have enc: "EncodeProjectedPointer pk sk ''KEYS_ONLY'' projected
      = h # t @ pk @ PutUvarint (of_nat (length sk)) @ sk"
    by (simp add: EncodeProjectedPointer_def EncodeGSIPointer_def appendUvarint_def ht)
  have dec: "DecodeGSIPointer (h # t @ pk @ PutUvarint (of_nat (length sk)) @ sk) = Inr (pk, sk)"
    using DecodeGSIPointer_EncodeGSIPointer [OF assms, of "[]"]
    by (simp add: EncodeGSIPointer_def appendUvarint_def ht)
  have "length pk < 2 ^ 64" using assms by (simp add: len_fits_def)
  from hd_PutUvarint_marker [OF this]
  have col: "marker_collision (length pk) \<longleftrightarrow> h = projMarkerInclude \<or> h = projMarkerAll"
    by (simp add: ht)
  show ?thesis
    unfolding enc DecodeProjectedPointer_def list.case col
    by (auto simp: dec bindr_Inr_iff split: if_splits)
qed

theorem keys_only_pointer_roundtrip_iff_witness:
  "DecodeProjectedPointer (EncodeProjectedPointer (replicate 253 7) [3] ''KEYS_ONLY'' [])
      \<noteq> Inr (replicate 253 7, [3], None, ''KEYS_ONLY'')"
  using keys_only_pointer_roundtrip_iff [of "replicate 253 7" "[3]" "[]"]
  by (simp add: len_fits_def marker_collision_def)

end
