(* ===== verification/SecondaryIndex.thy ===== *)
theory SecondaryIndex
  imports KeyRanges
begin

text \<open>
  Secondary-index maintenance: \<^verbatim>\<open>internal/storage/gsi.go\<close> and \<^verbatim>\<open>internal/storage/lsi.go\<close>. A
  write of an item plans the index mutations that move every index from the prior item to the
  next one; the storage writer applies them in the batch of the primary write.

  A nil item is \<open>None\<close>. An entry is the pair of its key and value; the key builders never
  return nil, so \<open>None\<close> is the sparse case. The interface \<open>secondary_index\<close> states what the
  planner promises; it is interpreted for global and for local indexes.
\<close>

section \<open>Operations\<close>

datatype IndexOp = IndexOpSet bytes bytes | IndexOpDelete bytes

datatype index_error =
    MissingKeyName string
  | PriorErr string index_error
  | NextErr string index_error
  | IndexAttr string key_error
  | PrimaryMissing string
  | PrimaryAttr string key_error

fun BytesEqualFrom :: "bytes \<Rightarrow> bytes \<Rightarrow> bool" where
  "BytesEqualFrom (x # a) (y # b) = (if x \<noteq> y then False else BytesEqualFrom a b)"
| "BytesEqualFrom _ _ = True"

definition BytesEqual :: "bytes \<Rightarrow> bytes \<Rightarrow> bool" where
  "BytesEqual a b = (if length a \<noteq> length b then False else BytesEqualFrom a b)"

text \<open>The loop that copies the listed attributes an item has.\<close>

fun includeSubset :: "Item \<Rightarrow> string list \<Rightarrow> Item \<Rightarrow> Item" where
  "includeSubset item [] sub = sub"
| "includeSubset item (attr # attrs) sub =
     includeSubset item attrs
       (case map_of item attr of Some v \<Rightarrow> gomap_put attr v sub | None \<Rightarrow> sub)"

definition buildIndexPointer :: "Item \<Rightarrow> bytes \<Rightarrow> bytes \<Rightarrow> IndexProjection \<Rightarrow> bytes" where
  "buildIndexPointer item primaryPK primarySK p =
     (if proj_Mode p = ''INCLUDE'' then
        (case EncodeItem (Some (includeSubset item (proj_Include p) [])) of
           Inl _ \<Rightarrow> EncodeGSIPointer primaryPK primarySK
         | Inr enc \<Rightarrow> EncodeProjectedPointer primaryPK primarySK ''INCLUDE'' enc)
      else if proj_Mode p = ''ALL'' then
        (case EncodeItem (Some item) of
           Inl _ \<Rightarrow> EncodeGSIPointer primaryPK primarySK
         | Inr enc \<Rightarrow> EncodeProjectedPointer primaryPK primarySK ''ALL'' enc)
      else EncodeGSIPointer primaryPK primarySK)"

text \<open>The canonical bytes of the item's own key, the second half of both entry builders.\<close>

definition primaryKeyBytes :: "KeySchema \<Rightarrow> Item \<Rightarrow> index_error + (bytes \<times> bytes)" where
  "primaryKeyBytes ks item =
     (case map_of item (ks_PK ks) of
        None \<Rightarrow> Inl (PrimaryMissing (ks_PK ks))
      | Some pkAttr \<Rightarrow>
          bindr (wrapr (PrimaryAttr (ks_PK ks)) (AttrCanonicalBytes pkAttr)) (\<lambda>pk.
            if ks_SK ks = '''' then Inr (pk, [])
            else (case map_of item (ks_SK ks) of
                    None \<Rightarrow> Inl (PrimaryMissing (ks_SK ks))
                  | Some skAttr \<Rightarrow>
                      bindr (wrapr (PrimaryAttr (ks_SK ks)) (AttrCanonicalBytes skAttr)) (\<lambda>sk.
                        Inr (pk, sk)))))"

text \<open>The index's own sort key: absent attribute means the item is not indexed.\<close>

definition gsiSortKey :: "GSIDescriptor \<Rightarrow> Item \<Rightarrow> index_error + bytes option" where
  "gsiSortKey g item =
     (if ks_SK (gsi_KeySchema g) = '''' then Inr (Some [])
      else (case map_of item (ks_SK (gsi_KeySchema g)) of
              None \<Rightarrow> Inr None
            | Some skAttr \<Rightarrow>
                bindr (wrapr (IndexAttr (ks_SK (gsi_KeySchema g))) (AttrCanonicalBytes skAttr))
                  (\<lambda>sk. Inr (Some sk))))"

definition gsiEntry :: "hasher \<Rightarrow> string \<Rightarrow> GSIDescriptor \<Rightarrow> KeySchema \<Rightarrow> Item option \<Rightarrow>
    index_error + (bytes \<times> bytes) option" where
  "gsiEntry H table g ks itemOpt =
     (case itemOpt of
        None \<Rightarrow> Inr None
      | Some item \<Rightarrow>
          (case map_of item (ks_PK (gsi_KeySchema g)) of
             None \<Rightarrow> Inr None
           | Some gsiPKAttr \<Rightarrow>
               bindr (wrapr (IndexAttr (ks_PK (gsi_KeySchema g))) (AttrCanonicalBytes gsiPKAttr)) (\<lambda>gpk.
               bindr (gsiSortKey g item) (\<lambda>gskOpt.
                 case gskOpt of
                   None \<Rightarrow> Inr None
                 | Some gsk \<Rightarrow>
                     bindr (primaryKeyBytes ks item) (\<lambda>(pk, sk).
                       Inr (Some (KeyGSI H table (gsi_Name g) gpk gsk pk sk,
                                  buildIndexPointer item pk sk (gsi_Projection g))))))))"

definition lsiEntry :: "hasher \<Rightarrow> string \<Rightarrow> LSIDescriptor \<Rightarrow> KeySchema \<Rightarrow> Item option \<Rightarrow>
    index_error + (bytes \<times> bytes) option" where
  "lsiEntry H table l ks itemOpt =
     (case itemOpt of
        None \<Rightarrow> Inr None
      | Some item \<Rightarrow>
          (case map_of item (lsi_SK l) of
             None \<Rightarrow> Inr None
           | Some skAttr \<Rightarrow>
               bindr (wrapr (IndexAttr (lsi_SK l)) (AttrCanonicalBytes skAttr)) (\<lambda>lsk.
               bindr (primaryKeyBytes ks item) (\<lambda>(pk, sk).
                 Inr (Some (KeyLSI H table (lsi_Name l) pk lsk sk,
                            buildIndexPointer item pk sk (lsi_Projection l)))))))"

text \<open>The tail of the loop body: equal keys emit nothing, otherwise delete then set.\<close>

definition moveEntry :: "(bytes \<times> bytes) option \<Rightarrow> (bytes \<times> bytes) option \<Rightarrow> IndexOp list" where
  "moveEntry prior next =
     (case (prior, next) of
        (Some (pk, _), Some (nk, nv)) \<Rightarrow>
          if BytesEqual pk nk then [] else [IndexOpDelete pk, IndexOpSet nk nv]
      | (Some (pk, _), None) \<Rightarrow> [IndexOpDelete pk]
      | (None, Some (nk, nv)) \<Rightarrow> [IndexOpSet nk nv]
      | (None, None) \<Rightarrow> [])"

fun PlanGSIFrom :: "hasher \<Rightarrow> string \<Rightarrow> KeySchema \<Rightarrow> Item option \<Rightarrow> Item option \<Rightarrow>
    GSIDescriptor list \<Rightarrow> IndexOp list \<Rightarrow> index_error + IndexOp list" where
  "PlanGSIFrom H table ks prior next [] ops = Inr ops"
| "PlanGSIFrom H table ks prior next (g # gsis) ops =
     (if ks_PK (gsi_KeySchema g) = '''' then Inl (MissingKeyName (gsi_Name g))
      else
        bindr (wrapr (PriorErr (gsi_Name g)) (gsiEntry H table g ks prior)) (\<lambda>p.
        bindr (wrapr (NextErr (gsi_Name g)) (gsiEntry H table g ks next)) (\<lambda>n.
          PlanGSIFrom H table ks prior next gsis (ops @ moveEntry p n))))"

definition PlanGSI :: "hasher \<Rightarrow> string \<Rightarrow> KeySchema \<Rightarrow> GSIDescriptor list \<Rightarrow> Item option \<Rightarrow>
    Item option \<Rightarrow> index_error + IndexOp list" where
  "PlanGSI H table ks gsis prior next = PlanGSIFrom H table ks prior next gsis []"

fun PlanLSIFrom :: "hasher \<Rightarrow> string \<Rightarrow> KeySchema \<Rightarrow> Item option \<Rightarrow> Item option \<Rightarrow>
    LSIDescriptor list \<Rightarrow> IndexOp list \<Rightarrow> index_error + IndexOp list" where
  "PlanLSIFrom H table ks prior next [] ops = Inr ops"
| "PlanLSIFrom H table ks prior next (l # lsis) ops =
     (if lsi_SK l = '''' then Inl (MissingKeyName (lsi_Name l))
      else
        bindr (wrapr (PriorErr (lsi_Name l)) (lsiEntry H table l ks prior)) (\<lambda>p.
        bindr (wrapr (NextErr (lsi_Name l)) (lsiEntry H table l ks next)) (\<lambda>n.
          PlanLSIFrom H table ks prior next lsis (ops @ moveEntry p n))))"

definition PlanLSI :: "hasher \<Rightarrow> string \<Rightarrow> KeySchema \<Rightarrow> LSIDescriptor list \<Rightarrow> Item option \<Rightarrow>
    Item option \<Rightarrow> index_error + IndexOp list" where
  "PlanLSI H table ks lsis prior next = PlanLSIFrom H table ks prior next lsis []"

lemma BytesEqual_iff [simp]: "BytesEqual a b \<longleftrightarrow> a = b"
proof -
  have "length a = length b \<Longrightarrow> BytesEqualFrom a b \<longleftrightarrow> a = b"
    by (induction a b rule: list_induct2) auto
  then show ?thesis by (auto simp: BytesEqual_def)
qed

section \<open>What a plan does to the store\<close>

text \<open>The part of a Pebble batch that concerns us: point sets and deletes on a key-value map.\<close>

type_synonym kv = "bytes \<rightharpoonup> bytes"

fun applyIndexOp :: "kv \<Rightarrow> IndexOp \<Rightarrow> kv" where
  "applyIndexOp kv (IndexOpSet k v) = kv(k \<mapsto> v)"
| "applyIndexOp kv (IndexOpDelete k) = kv(k := None)"

definition applyIndexOps :: "IndexOp list \<Rightarrow> kv \<Rightarrow> kv" where
  "applyIndexOps ops kv = foldl applyIndexOp kv ops"

lemma applyIndexOps_simps [simp]:
  "applyIndexOps [] kv = kv"
  "applyIndexOps (op # ops) kv = applyIndexOps ops (applyIndexOp kv op)"
  "applyIndexOps (a @ b) kv = applyIndexOps b (applyIndexOps a kv)"
  by (simp_all add: applyIndexOps_def)

text \<open>The specification: the entries an item contributes to a list of indexes.\<close>

definition entry_map :: "('d \<Rightarrow> Item option \<Rightarrow> 'e + (bytes \<times> bytes) option) \<Rightarrow> 'd list \<Rightarrow> Item option \<Rightarrow> kv" where
  "entry_map entry ds item =
     map_of (List.map_filter (\<lambda>d. case entry d item of Inr (Some e) \<Rightarrow> Some e | _ \<Rightarrow> None) ds)"

definition same_primary :: "KeySchema \<Rightarrow> Item option \<Rightarrow> Item option \<Rightarrow> bool" where
  "same_primary ks a b \<longleftrightarrow>
     (case (a, b) of
        (Some i, Some j) \<Rightarrow> primaryKeyBytes ks i = primaryKeyBytes ks j
      | _ \<Rightarrow> True)"

definition keys_only :: "IndexProjection \<Rightarrow> bool" where
  "keys_only p \<longleftrightarrow> proj_Mode p \<noteq> ''INCLUDE'' \<and> proj_Mode p \<noteq> ''ALL''"

definition slash_free :: "string \<Rightarrow> bool" where
  "slash_free s \<longleftrightarrow> CHR ''/'' \<notin> set s"

section \<open>Interface: a family of secondary indexes\<close>

text \<open>
  What the write path relies on: entries of an index lie under the index's own key prefix,
  prefixes of differently named indexes have no key in common, the value of a keys-only entry
  depends on the primary key alone, and a successful plan is the sequence of the moves of the
  single indexes.
\<close>

definition ok_entry :: "'e + 'a option \<Rightarrow> 'a option" where
  "ok_entry r = (case r of Inr x \<Rightarrow> x | Inl _ \<Rightarrow> None)"

lemma ok_entry_simps [simp]: "ok_entry (Inr x) = x" "ok_entry (Inl e) = None"
  by (simp_all add: ok_entry_def)

lemma entry_map_Nil [simp]: "entry_map entry [] item = Map.empty"
  by (simp add: entry_map_def List.map_filter_def)

lemma entry_map_Cons:
  "entry_map entry (d # ds) item =
     (case ok_entry (entry d item) of None \<Rightarrow> entry_map entry ds item
      | Some (k, v) \<Rightarrow> (entry_map entry ds item)(k \<mapsto> v))"
  by (auto simp: entry_map_def List.map_filter_def ok_entry_def split: sum.splits option.splits)

lemma entry_map_SomeD:
  "entry_map entry ds item k = Some v \<Longrightarrow> \<exists>d\<in>set ds. entry d item = Inr (Some (k, v))"
  by (induction ds)
    (auto simp: entry_map_Cons ok_entry_def split: sum.splits option.splits if_splits)

lemma apply_moveEntry:
  assumes "\<And>k v. p = Some (k, v) \<Longrightarrow> kv k = Some v"
    and "\<And>k v v'. p = Some (k, v) \<Longrightarrow> n = Some (k, v') \<Longrightarrow> v = v'"
  shows "applyIndexOps (moveEntry p n) kv x =
    (if \<exists>v. n = Some (x, v) then map_option snd n else if \<exists>v. p = Some (x, v) then None else kv x)"
proof (cases p)
  case None
  then show ?thesis by (cases n) (auto simp: moveEntry_def)
next
  case (Some a)
  obtain k v where a: "a = (k, v)" by (cases a)
  from assms(1) [of k v] have kv: "kv k = Some v" by (simp add: Some a)
  show ?thesis
  proof (cases n)
    case None
    then show ?thesis by (auto simp: moveEntry_def Some a)
  next
    case (Some b)
    obtain k' v' where b: "b = (k', v')" by (cases b)
    have "k' = k \<Longrightarrow> v' = v" using assms(2) [of k v v'] by (simp add: \<open>p = Some a\<close> a Some b)
    then show ?thesis using kv by (auto simp: moveEntry_def \<open>p = Some a\<close> a Some b)
  qed
qed

locale secondary_index =
  fixes entry :: "'h \<Rightarrow> string \<Rightarrow> 'd \<Rightarrow> KeySchema \<Rightarrow> Item option \<Rightarrow> 'e + (bytes \<times> bytes) option"
    and plan :: "'h \<Rightarrow> string \<Rightarrow> KeySchema \<Rightarrow> 'd list \<Rightarrow> Item option \<Rightarrow> Item option \<Rightarrow>
      'p + IndexOp list"
    and name :: "'d \<Rightarrow> string"
    and projection :: "'d \<Rightarrow> IndexProjection"
    and base :: "string \<Rightarrow> 'd \<Rightarrow> bytes"
  assumes entry_base: "entry H t d ks i = Inr (Some (k, v)) \<Longrightarrow> prefix (base t d) k"
    and base_apart: "slash_free (name a) \<Longrightarrow> slash_free (name b) \<Longrightarrow> prefix (base t a) k \<Longrightarrow>
      prefix (base t b) k \<Longrightarrow> name a = name b"
    and entry_value: "entry H t d ks i = Inr (Some (k, v)) \<Longrightarrow> entry H t d ks j = Inr (Some (k', v')) \<Longrightarrow>
      keys_only (projection d) \<Longrightarrow> same_primary ks i j \<Longrightarrow> v = v'"
    and plan_Inr: "plan H t ks ds p n = Inr ops \<Longrightarrow>
      ops = concat (map (\<lambda>d. moveEntry (ok_entry (entry H t d ks p)) (ok_entry (entry H t d ks n))) ds)"
begin

lemma other_base:
  assumes "entry_map (\<lambda>d. entry H t d ks) ds i k = Some v" and "d \<notin> set ds"
    and "slash_free (name d)" and "\<And>e. e \<in> set ds \<Longrightarrow> slash_free (name e) \<and> name e \<noteq> name d"
  shows "\<not> prefix (base t d) k"
proof -
  from entry_map_SomeD [OF assms(1)] obtain e where "e \<in> set ds" "entry H t e ks i = Inr (Some (k, v))"
    by blast
  with entry_base base_apart [of d e] assms(3,4) show ?thesis by metis
qed

lemma moves_refine:
  assumes "distinct (map name ds)" and "list_all (\<lambda>d. slash_free (name d) \<and> keys_only (projection d)) ds"
    and "same_primary ks p n" and "entry_map (\<lambda>d. entry H t d ks) ds p \<subseteq>\<^sub>m kv"
  shows "applyIndexOps (concat (map (\<lambda>d. moveEntry (ok_entry (entry H t d ks p))
        (ok_entry (entry H t d ks n))) ds)) kv
    = (kv |` (- dom (entry_map (\<lambda>d. entry H t d ks) ds p))) ++ entry_map (\<lambda>d. entry H t d ks) ds n"
  using assms(1,2,4)
proof (induction ds arbitrary: kv)
  case Nil
  then show ?case by simp
next
  case (Cons d ds)
  let ?E = "entry_map (\<lambda>d. entry H t d ks)"
  let ?p = "ok_entry (entry H t d ks p)" and ?n = "ok_entry (entry H t d ks n)"
  let ?kv = "applyIndexOps (moveEntry ?p ?n) kv"
  have mem: "entry H t d ks i = Inr (Some (k, v))" if "ok_entry (entry H t d ks i) = Some (k, v)" for i k v
    using that by (simp add: ok_entry_def split: sum.splits)
  have away: "\<not> prefix (base t d) k" if "?E ds i k = Some v" for i k v
  proof (rule other_base [OF that])
    show "d \<notin> set ds" using Cons.prems(1) by auto
    show "slash_free (name d)" using Cons.prems(2) by simp
    show "slash_free (name e) \<and> name e \<noteq> name d" if "e \<in> set ds" for e
      using that Cons.prems(1,2) by (auto simp: list_all_iff image_iff)
  qed
  have here: "prefix (base t d) k" if "ok_entry (entry H t d ks i) = Some (k, v)" for i k v
    using entry_base [OF mem [OF that]] .
  have move: "?kv x = (if \<exists>v. ?n = Some (x, v) then map_option snd ?n
      else if \<exists>v. ?p = Some (x, v) then None else kv x)" for x
  proof (rule apply_moveEntry)
    fix k v assume "?p = Some (k, v)"
    then have "?E (d # ds) p k = Some v" by (simp add: entry_map_Cons)
    then show "kv k = Some v" using Cons.prems(3) by (metis domI map_le_def)
  next
    fix k v v' assume "?p = Some (k, v)" and "?n = Some (k, v')"
    then show "v = v'" using entry_value [OF mem mem] Cons.prems(2) assms(3) by auto
  qed
  have "?E ds p \<subseteq>\<^sub>m ?kv"
  proof (unfold map_le_def, intro ballI)
    fix k assume "k \<in> dom (?E ds p)"
    then obtain v where v: "?E ds p k = Some v" by blast
    have not: "ok_entry (entry H t d ks i) \<noteq> Some (k, w)" for i w using away [OF v] here by blast
    then have "?E (d # ds) p k = ?E ds p k"
      by (auto simp: entry_map_Cons split: option.splits)
    then show "?E ds p k = ?kv k"
      using Cons.prems(3) v not by (simp add: move) (metis domI map_le_def)
  qed
  with Cons.IH [of ?kv] Cons.prems
  have IH: "applyIndexOps (concat (map (\<lambda>d. moveEntry (ok_entry (entry H t d ks p))
        (ok_entry (entry H t d ks n))) ds)) ?kv = (?kv |` (- dom (?E ds p))) ++ ?E ds n"
    by simp
  have "((?kv |` (- dom (?E ds p))) ++ ?E ds n) x
      = ((kv |` (- dom (?E (d # ds) p))) ++ ?E (d # ds) n) x" for x
  proof (cases "prefix (base t d) x")
    case True
    then have "?E ds p x = None" and "?E ds n x = None" using away by (meson not_Some_eq)+
    then show ?thesis
      by (auto simp: move map_add_def restrict_map_def entry_map_Cons split: option.splits)
  next
    case False
    then have not: "ok_entry (entry H t d ks i) \<noteq> Some (x, w)" for i w using here by blast
    have "?kv x = kv x" by (simp add: move not)
    moreover have "?E (d # ds) i x = ?E ds i x" for i
      using not [of i] by (auto simp: entry_map_Cons split: option.splits)
    ultimately show ?thesis by (auto simp: map_add_def restrict_map_def domIff split: option.split)
  qed
  with IH show ?case by (auto simp: fun_eq_iff)
qed

lemma plan_refines:
  assumes "plan H t ks ds p n = Inr ops"
    and "distinct (map name ds)" and "list_all (\<lambda>d. slash_free (name d) \<and> keys_only (projection d)) ds"
    and "same_primary ks p n" and "entry_map (\<lambda>d. entry H t d ks) ds p \<subseteq>\<^sub>m kv"
  shows "applyIndexOps ops kv
    = (kv |` (- dom (entry_map (\<lambda>d. entry H t d ks) ds p))) ++ entry_map (\<lambda>d. entry H t d ks) ds n"
  using moves_refine [OF assms(2-5)] plan_Inr [OF assms(1)] by simp

end

section \<open>Global and local indexes provide the interface\<close>

lemma PlanGSIFrom_Inr:
  "PlanGSIFrom H t ks p n ds ops0 = Inr ops \<Longrightarrow>
     ops = ops0 @ concat (map (\<lambda>d. moveEntry (ok_entry (gsiEntry H t d ks p))
                                  (ok_entry (gsiEntry H t d ks n))) ds)"
  by (induction ds arbitrary: ops0) (fastforce elim!: bindr_InrE split: if_splits)+

lemma PlanLSIFrom_Inr:
  "PlanLSIFrom H t ks p n ds ops0 = Inr ops \<Longrightarrow>
     ops = ops0 @ concat (map (\<lambda>d. moveEntry (ok_entry (lsiEntry H t d ks p))
                                  (ok_entry (lsiEntry H t d ks n))) ds)"
  by (induction ds arbitrary: ops0) (fastforce elim!: bindr_InrE split: if_splits)+

lemma primaryKeyBytes_same:
  "same_primary ks (Some i) (Some j) \<Longrightarrow> primaryKeyBytes ks i = primaryKeyBytes ks j"
  by (simp add: same_primary_def)

lemma buildIndexPointer_keys_only:
  "keys_only p \<Longrightarrow> buildIndexPointer item pk sk p = EncodeGSIPointer pk sk"
  by (simp add: keys_only_def buildIndexPointer_def)

lemma gsiEntry_SomeE:
  assumes "gsiEntry H t g ks i = Inr (Some (k, v))"
  obtains item gpk gsk pk sk where "i = Some item" and "primaryKeyBytes ks item = Inr (pk, sk)"
    and "k = KeyGSI H t (gsi_Name g) gpk gsk pk sk" and "v = buildIndexPointer item pk sk (gsi_Projection g)"
  using assms
  by (auto simp: gsiEntry_def split: option.splits elim!: bindr_InrE)

lemma lsiEntry_SomeE:
  assumes "lsiEntry H t l ks i = Inr (Some (k, v))"
  obtains item lsk pk sk where "i = Some item" and "primaryKeyBytes ks item = Inr (pk, sk)"
    and "k = KeyLSI H t (lsi_Name l) pk lsk sk" and "v = buildIndexPointer item pk sk (lsi_Projection l)"
  using assms
  by (auto simp: lsiEntry_def split: option.splits elim!: bindr_InrE)

lemma indexBase_apart:
  assumes "slash_free a" and "slash_free b" and "prefix (indexBase t seg a) k" and "prefix (indexBase t seg b) k"
  shows "a = b"
proof -
  from assms(3,4) obtain r s where "bytes_of_string a @ 0x2f # r = bytes_of_string b @ 0x2f # s"
    by (auto simp: prefix_def)
  then have "prefix (bytes_of_string a @ [0x2f]) (bytes_of_string b @ 0x2f # s)"
    by (metis append_Cons append_Nil append_assoc prefixI)
  with prefix_slash_free [of a b s] assms(1,2) show ?thesis by (simp add: slash_free_def)
qed

interpretation gsi: secondary_index gsiEntry PlanGSI gsi_Name gsi_Projection "\<lambda>t g. indexBase t segGSI (gsi_Name g)"
proof
  fix H t d ks i k v
  assume "gsiEntry H t d ks i = Inr (Some (k, v))"
  then show "prefix (indexBase t segGSI (gsi_Name d)) k"
    by (rule gsiEntry_SomeE) (simp add: KeyGSI_def)
next
  fix a b t k
  assume "slash_free (gsi_Name a)" "slash_free (gsi_Name b)"
    "prefix (indexBase t segGSI (gsi_Name a)) k" "prefix (indexBase t segGSI (gsi_Name b)) k"
  then show "gsi_Name a = gsi_Name b" by (rule indexBase_apart)
next
  fix H t d ks i k v j k' v'
  assume "gsiEntry H t d ks i = Inr (Some (k, v))" "gsiEntry H t d ks j = Inr (Some (k', v'))"
    and "keys_only (gsi_Projection d)" "same_primary ks i j"
  then show "v = v'"
    by (auto elim!: gsiEntry_SomeE dest!: primaryKeyBytes_same simp: buildIndexPointer_keys_only)
next
  fix H t ks ds p n ops
  assume "PlanGSI H t ks ds p n = Inr ops"
  then show "ops = concat (map (\<lambda>d. moveEntry (ok_entry (gsiEntry H t d ks p))
      (ok_entry (gsiEntry H t d ks n))) ds)"
    using PlanGSIFrom_Inr unfolding PlanGSI_def by fastforce
qed

interpretation lsi: secondary_index lsiEntry PlanLSI lsi_Name lsi_Projection "\<lambda>t l. indexBase t segLSI (lsi_Name l)"
proof
  fix H t d ks i k v
  assume "lsiEntry H t d ks i = Inr (Some (k, v))"
  then show "prefix (indexBase t segLSI (lsi_Name d)) k"
    by (rule lsiEntry_SomeE) (simp add: KeyLSI_def)
next
  fix a b t k
  assume "slash_free (lsi_Name a)" "slash_free (lsi_Name b)"
    "prefix (indexBase t segLSI (lsi_Name a)) k" "prefix (indexBase t segLSI (lsi_Name b)) k"
  then show "lsi_Name a = lsi_Name b" by (rule indexBase_apart)
next
  fix H t d ks i k v j k' v'
  assume "lsiEntry H t d ks i = Inr (Some (k, v))" "lsiEntry H t d ks j = Inr (Some (k', v'))"
    and "keys_only (lsi_Projection d)" "same_primary ks i j"
  then show "v = v'"
    by (auto elim!: lsiEntry_SomeE dest!: primaryKeyBytes_same simp: buildIndexPointer_keys_only)
next
  fix H t ks ds p n ops
  assume "PlanLSI H t ks ds p n = Inr ops"
  then show "ops = concat (map (\<lambda>d. moveEntry (ok_entry (lsiEntry H t d ks p))
      (ok_entry (lsiEntry H t d ks n))) ds)"
    using PlanLSIFrom_Inr unfolding PlanLSI_def by fastforce
qed

section \<open>Properties\<close>

text \<open>A small table for the examples: rows keyed by \<open>id\<close>, indexed by \<open>city\<close>.\<close>

definition demo_hasher :: hasher where
  "demo_hasher = \<lparr>Sum64 = (\<lambda>b. of_nat (be_val b)), Digest = (\<lambda>bs. of_nat (be_val (concat bs)))\<rparr>"

definition demo_gsi :: "string \<Rightarrow> GSIDescriptor" where
  "demo_gsi mode = \<lparr>gsi_Name = ''by_city'', gsi_KeySchema = \<lparr>ks_PK = ''city'', ks_SK = ''''\<rparr>,
     gsi_Projection = \<lparr>proj_Mode = mode, proj_Include = []\<rparr>, gsi_Projected = []\<rparr>"

definition demo_lsi :: LSIDescriptor where
  "demo_lsi = \<lparr>lsi_Name = ''by_city'', lsi_SK = ''city'',
     lsi_Projection = \<lparr>proj_Mode = ''KEYS_ONLY'', proj_Include = []\<rparr>\<rparr>"

definition demo_schema :: KeySchema where
  "demo_schema = \<lparr>ks_PK = ''id'', ks_SK = ''''\<rparr>"

definition demo_item :: "string \<Rightarrow> string \<Rightarrow> Item" where
  "demo_item city note = [(''city'', AttrS city), (''id'', AttrS ''7''), (''note'', AttrS note)]"

lemmas demo_defs = demo_gsi_def demo_lsi_def demo_schema_def demo_item_def gsiEntry_def lsiEntry_def
  gsiSortKey_def primaryKeyBytes_def

text \<open>
  C11. Applying a plan of the global indexes turns the entries of the prior item into exactly
  the entries of the next one and touches no other key: for keys-only indexes with distinct,
  slash-free names, when prior and next are versions of one row.
\<close>

theorem plan_gsi_refines:
  assumes "PlanGSI H table ks gsis prior next = Inr ops"
    and "distinct (map gsi_Name gsis)"
    and "list_all (\<lambda>g. slash_free (gsi_Name g) \<and> keys_only (gsi_Projection g)) gsis"
    and "same_primary ks prior next"
    and "entry_map (\<lambda>g. gsiEntry H table g ks) gsis prior \<subseteq>\<^sub>m kv"
  shows "applyIndexOps ops kv
    = (kv |` (- dom (entry_map (\<lambda>g. gsiEntry H table g ks) gsis prior)))
        ++ entry_map (\<lambda>g. gsiEntry H table g ks) gsis next"
  using assms by (rule gsi.plan_refines)

theorem plan_gsi_refines_witness:
  "\<exists>ops. PlanGSI demo_hasher ''t'' demo_schema [demo_gsi ''KEYS_ONLY''] None
        (Some (demo_item ''rome'' ''x'')) = Inr ops \<and> ops \<noteq> [] \<and>
     applyIndexOps ops Map.empty
       = entry_map (\<lambda>g. gsiEntry demo_hasher ''t'' g demo_schema) [demo_gsi ''KEYS_ONLY'']
           (Some (demo_item ''rome'' ''x''))"
proof -
  have none: "entry_map (\<lambda>g. gsiEntry demo_hasher ''t'' g demo_schema) gs None = Map.empty" for gs
    by (induction gs) (simp_all add: entry_map_Cons gsiEntry_def)
  obtain k v where e: "gsiEntry demo_hasher ''t'' (demo_gsi ''KEYS_ONLY'') demo_schema
      (Some (demo_item ''rome'' ''x'')) = Inr (Some (k, v))"
    by (simp add: demo_defs)
  have plan: "PlanGSI demo_hasher ''t'' demo_schema [demo_gsi ''KEYS_ONLY''] None
        (Some (demo_item ''rome'' ''x'')) = Inr [IndexOpSet k v]"
    using e by (simp add: PlanGSI_def moveEntry_def gsiEntry_def [where itemOpt = None]) (simp add: demo_gsi_def)
  show ?thesis
    using plan_gsi_refines [OF plan, of Map.empty] plan
    by (simp add: none demo_gsi_def slash_free_def keys_only_def same_primary_def)
qed

text \<open>
  The same refinement for local secondary indexes.
\<close>

lemma plan_lsi_refines:
  assumes "PlanLSI H table ks lsis prior next = Inr ops"
    and "distinct (map lsi_Name lsis)"
    and "list_all (\<lambda>l. slash_free (lsi_Name l) \<and> keys_only (lsi_Projection l)) lsis"
    and "same_primary ks prior next"
    and "entry_map (\<lambda>l. lsiEntry H table l ks) lsis prior \<subseteq>\<^sub>m kv"
  shows "applyIndexOps ops kv
    = (kv |` (- dom (entry_map (\<lambda>l. lsiEntry H table l ks) lsis prior)))
        ++ entry_map (\<lambda>l. lsiEntry H table l ks) lsis next"
  using assms by (rule lsi.plan_refines)

theorem plan_lsi_refines_witness:
  "\<exists>ops. PlanLSI demo_hasher ''t'' demo_schema [demo_lsi] None
        (Some (demo_item ''rome'' ''x'')) = Inr ops \<and> ops \<noteq> [] \<and>
     applyIndexOps ops Map.empty
       = entry_map (\<lambda>l. lsiEntry demo_hasher ''t'' l demo_schema) [demo_lsi]
           (Some (demo_item ''rome'' ''x''))"
proof -
  have none: "entry_map (\<lambda>l. lsiEntry demo_hasher ''t'' l demo_schema) ls None = Map.empty" for ls
    by (induction ls) (simp_all add: entry_map_Cons lsiEntry_def)
  obtain k v where e: "lsiEntry demo_hasher ''t'' demo_lsi demo_schema
      (Some (demo_item ''rome'' ''x'')) = Inr (Some (k, v))"
    by (simp add: demo_defs)
  have plan: "PlanLSI demo_hasher ''t'' demo_schema [demo_lsi] None
        (Some (demo_item ''rome'' ''x'')) = Inr [IndexOpSet k v]"
    using e by (simp add: PlanLSI_def moveEntry_def lsiEntry_def [where itemOpt = None]) (simp add: demo_lsi_def)
  show ?thesis
    using plan_lsi_refines [OF plan, of Map.empty] plan
    by (simp add: none demo_lsi_def slash_free_def keys_only_def same_primary_def)
qed

text \<open>
  An update that leaves the index key alone plans no operation at all, also when the
  projected value changes: the stored copy of an INCLUDE or ALL index goes stale.
\<close>

lemma gsi_projection_goes_stale:
  assumes "ks_PK (gsi_KeySchema g) \<noteq> ''''"
    and "gsiEntry H table g ks prior = Inr (Some (k, v))"
    and "gsiEntry H table g ks next = Inr (Some (k, v'))"
  shows "PlanGSI H table ks [g] prior next = Inr []"
  using assms by (simp add: PlanGSI_def moveEntry_def)

theorem gsi_projection_goes_stale_witness:
  "PlanGSI demo_hasher ''t'' demo_schema [demo_gsi ''ALL'']
      (Some (demo_item ''rome'' ''old'')) (Some (demo_item ''rome'' ''new'')) = Inr [] \<and>
   gsiEntry demo_hasher ''t'' (demo_gsi ''ALL'') demo_schema (Some (demo_item ''rome'' ''old'')) \<noteq>
   gsiEntry demo_hasher ''t'' (demo_gsi ''ALL'') demo_schema (Some (demo_item ''rome'' ''new''))"
proof -
  let ?old = "buildIndexPointer (demo_item ''rome'' ''old'') (bytes_of_string ''7'') [] (gsi_Projection (demo_gsi ''ALL''))"
  let ?new = "buildIndexPointer (demo_item ''rome'' ''new'') (bytes_of_string ''7'') [] (gsi_Projection (demo_gsi ''ALL''))"
  let ?k = "KeyGSI demo_hasher ''t'' ''by_city'' (bytes_of_string ''rome'') [] (bytes_of_string ''7'') []"
  have old: "gsiEntry demo_hasher ''t'' (demo_gsi ''ALL'') demo_schema (Some (demo_item ''rome'' ''old''))
      = Inr (Some (?k, ?old))"
    by (simp add: demo_defs)
  have new: "gsiEntry demo_hasher ''t'' (demo_gsi ''ALL'') demo_schema (Some (demo_item ''rome'' ''new''))
      = Inr (Some (?k, ?new))"
    by (simp add: demo_defs)
  have "?old \<noteq> ?new" by code_simp
  with gsi_projection_goes_stale [OF _ old new] old new show ?thesis
    by (simp add: demo_gsi_def)
qed

end
