(* ===== verification/Morton.thy ===== *)
theory Morton
  imports GoStrings
begin

text \<open>
  The Z-order keys of \<^verbatim>\<open>internal/spatial/zorder.go\<close>: bit interleaving of up to four 32-bit
  dimensions, its inverse, and the key range that a box query scans. The conversion of a
  coordinate to a dimension (\<^verbatim>\<open>Normalize\<close>) is floating-point arithmetic and not modelled here.
\<close>

datatype morton_error = NoDims | TooManyDims nat | BadDimCount int | BadKeyLength nat | InvalidBox

definition MaxZDims :: nat where "MaxZDims = 4"

text \<open>
  The inner loop over the dimensions at bit position \<open>p\<close>: \<open>out\<close> is the buffer written so far,
  \<open>di\<close> the index of the first remaining dimension.
\<close>

definition setOutBit :: "nat \<Rightarrow> bytes \<Rightarrow> bytes" where
  "setOutBit outBit out =
     out[outBit div 8 := out ! (outBit div 8) OR push_bit (7 - outBit mod 8) 1]"

fun mortonDims :: "nat \<Rightarrow> nat \<Rightarrow> nat \<Rightarrow> uint32 list \<Rightarrow> bytes \<Rightarrow> bytes" where
  "mortonDims p base di [] out = out"
| "mortonDims p base di (dim # dims) out =
     mortonDims p base (Suc di) dims
       (if drop_bit p dim AND 1 = 1 then setOutBit (base + di) out else out)"

text \<open>The outer loop, \<open>p\<close> counting down from 31.\<close>

fun mortonFrom :: "nat \<Rightarrow> uint32 list \<Rightarrow> bytes \<Rightarrow> bytes" where
  "mortonFrom 0 dims out = out"
| "mortonFrom (Suc p) dims out = mortonFrom p dims (mortonDims p ((31 - p) * length dims) 0 dims out)"

definition EncodeMorton :: "uint32 list \<Rightarrow> morton_error + bytes" where
  "EncodeMorton dims =
     (if dims = [] then Inl NoDims
      else if MaxZDims < length dims then Inl (TooManyDims (length dims))
      else Inr (mortonFrom 32 dims (replicate (32 * length dims div 8) 0)))"

fun unmortonDims :: "bytes \<Rightarrow> nat \<Rightarrow> nat \<Rightarrow> nat \<Rightarrow> nat \<Rightarrow> uint32 list \<Rightarrow> uint32 list" where
  "unmortonDims key p base 0 di out = out"
| "unmortonDims key p base (Suc left) di out =
     unmortonDims key p base left (Suc di)
       (if drop_bit (7 - (base + di) mod 8) (key ! ((base + di) div 8)) AND 1 = 1
        then out[di := out ! di OR push_bit p 1] else out)"

fun unmortonFrom :: "nat \<Rightarrow> bytes \<Rightarrow> nat \<Rightarrow> uint32 list \<Rightarrow> uint32 list" where
  "unmortonFrom 0 key d out = out"
| "unmortonFrom (Suc p) key d out = unmortonFrom p key d (unmortonDims key p ((31 - p) * d) d 0 out)"

definition DecodeMorton :: "bytes \<Rightarrow> int \<Rightarrow> morton_error + uint32 list" where
  "DecodeMorton key d =
     (if d \<le> 0 \<or> int MaxZDims < d then Inl (BadDimCount d)
      else if int (length key) \<noteq> 32 * d div 8 then Inl (BadKeyLength (length key))
      else Inr (unmortonFrom 32 key (nat d) (replicate (nat d) 0)))"

record ZBBox =
  zb_Lo :: "uint32 list"
  zb_Hi :: "uint32 list"

definition Valid :: "ZBBox \<Rightarrow> bool" where
  "Valid b \<longleftrightarrow> zb_Lo b \<noteq> [] \<and> length (zb_Lo b) = length (zb_Hi b) \<and>
     list_all (\<lambda>(l, h). \<not> h < l) (zip (zb_Lo b) (zb_Hi b))"

definition ZContains :: "ZBBox \<Rightarrow> uint32 list \<Rightarrow> bool" where
  "ZContains b point \<longleftrightarrow> length point = length (zb_Lo b) \<and>
     (\<forall>i<length point. \<not> (point ! i < zb_Lo b ! i \<or> zb_Hi b ! i < point ! i))"

definition MortonRange :: "ZBBox \<Rightarrow> morton_error + (bytes \<times> bytes)" where
  "MortonRange box =
     (if \<not> Valid box then Inl InvalidBox
      else bindr (EncodeMorton (zb_Lo box)) (\<lambda>low. bindr (EncodeMorton (zb_Hi box)) (\<lambda>high. Inr (low, high))))"

section \<open>The bits of a key\<close>

text \<open>Bit \<open>j\<close> of a buffer, counted from the most significant bit of the first byte.\<close>

definition obit :: "bytes \<Rightarrow> nat \<Rightarrow> bool" where
  "obit out j \<longleftrightarrow> bit (out ! (j div 8)) (7 - j mod 8)"

lemma and_one_bit: "drop_bit p x AND 1 = 1 \<longleftrightarrow> bit x p" for x :: "'a::len word"
  by (simp add: and_one_eq bit_iff_odd_drop_bit odd_iff_mod_2_eq_one)

lemma length_setOutBit [simp]: "length (setOutBit i out) = length out"
  by (simp add: setOutBit_def)

lemma obit_setOutBit:
  assumes "i < 8 * length out" and "j < 8 * length out"
  shows "obit (setOutBit i out) j \<longleftrightarrow> j = i \<or> obit out j"
proof -
  have i: "i div 8 < length out" using assms by (simp add: less_mult_imp_div_less mult.commute)
  show ?thesis
  proof (cases "j div 8 = i div 8")
    case True
    then have eq: "j = i \<longleftrightarrow> 7 - j mod 8 = 7 - i mod 8"
      using mod_less_divisor [of 8 i] mod_less_divisor [of 8 j] div_mult_mod_eq [of i 8] div_mult_mod_eq [of j 8]
      by linarith
    have "bit (push_bit (7 - i mod 8) (1 :: byte)) (7 - j mod 8) \<longleftrightarrow> 7 - j mod 8 = 7 - i mod 8"
      by (auto simp: bit_exp_iff)
    then show ?thesis using True i eq by (auto simp: obit_def setOutBit_def bit_or_iff)
  next
    case False
    then have "j \<noteq> i" by auto
    with False show ?thesis by (simp add: obit_def setOutBit_def)
  qed
qed

lemma mortonDims_bits:
  "base + di + length dims \<le> 8 * length out \<Longrightarrow>
     length (mortonDims p base di dims out) = length out \<and>
     (\<forall>j < 8 * length out. obit (mortonDims p base di dims out) j \<longleftrightarrow>
        obit out j \<or> (\<exists>k<length dims. j = base + di + k \<and> bit (dims ! k) p))"
proof (induction dims arbitrary: di out)
  case (Cons dim dims)
  let ?out = "if drop_bit p dim AND 1 = 1 then setOutBit (base + di) out else out"
  have len: "length ?out = length out" by simp
  from Cons.IH [of "Suc di" ?out] Cons.prems
  have IH: "length (mortonDims p base (Suc di) dims ?out) = length out"
    "\<And>j. j < 8 * length out \<Longrightarrow> obit (mortonDims p base (Suc di) dims ?out) j \<longleftrightarrow>
       obit ?out j \<or> (\<exists>k<length dims. j = base + Suc di + k \<and> bit (dims ! k) p)"
    by (simp_all add: len)
  have "obit ?out j \<longleftrightarrow> obit out j \<or> (j = base + di \<and> bit dim p)" if "j < 8 * length out" for j
    using that Cons.prems by (auto simp: obit_setOutBit and_one_bit)
  moreover have "(\<exists>k<Suc (length dims). j = base + di + k \<and> bit ((dim # dims) ! k) p) \<longleftrightarrow>
      (j = base + di \<and> bit dim p) \<or> (\<exists>k<length dims. j = base + Suc di + k \<and> bit (dims ! k) p)" for j
    by (auto simp: Ex_less_Suc2)
  ultimately show ?case using IH by auto
qed simp

lemma mortonFrom_bits:
  "n \<le> 32 \<Longrightarrow> 32 * length dims = 8 * length out \<Longrightarrow>
     length (mortonFrom n dims out) = length out \<and>
     (\<forall>j < 8 * length out. obit (mortonFrom n dims out) j \<longleftrightarrow>
        obit out j \<or> (\<exists>p<n. \<exists>k<length dims. j = (31 - p) * length dims + k \<and> bit (dims ! k) p))"
proof (induction n arbitrary: out)
  case (Suc p)
  let ?out = "mortonDims p ((31 - p) * length dims) 0 dims out"
  have "(31 - p) * length dims + length dims \<le> 32 * length dims"
  proof -
    have "32 - p = Suc (31 - p)" using Suc.prems(1) by simp
    then have "(31 - p) * length dims + length dims = (32 - p) * length dims" by simp
    also have "\<dots> \<le> 32 * length dims" by (rule mult_le_mono1) simp
    finally show ?thesis .
  qed
  with mortonDims_bits [of "(31 - p) * length dims" 0 dims out p] Suc.prems
  have out: "length ?out = length out" "\<And>j. j < 8 * length out \<Longrightarrow> obit ?out j \<longleftrightarrow>
      obit out j \<or> (\<exists>k<length dims. j = (31 - p) * length dims + k \<and> bit (dims ! k) p)"
    by simp_all
  with Suc.IH [of ?out] Suc.prems show ?case by (auto simp: less_Suc_eq)
qed simp

text \<open>Output bit \<open>j\<close> is bit \<open>31 - j div D\<close> of dimension \<open>j mod D\<close>.\<close>

lemma EncodeMorton_bits:
  assumes "EncodeMorton dims = Inr key"
  shows "length key = 4 * length dims" "0 < length dims" "length dims \<le> 4"
    "j < 32 * length dims \<Longrightarrow> obit key j \<longleftrightarrow> bit (dims ! (j mod length dims)) (31 - j div length dims)"
proof -
  from assms have key: "key = mortonFrom 32 dims (replicate (4 * length dims) 0)" and
    d: "0 < length dims" "length dims \<le> 4"
    by (auto simp: EncodeMorton_def MaxZDims_def split: if_splits)
  show "0 < length dims" "length dims \<le> 4" using d by auto
  let ?z = "replicate (4 * length dims) 0 :: bytes"
  have z: "length key = 4 * length dims" "\<And>j. j < 32 * length dims \<Longrightarrow> obit key j \<longleftrightarrow>
      obit ?z j \<or> (\<exists>p<32. \<exists>k<length dims. j = (31 - p) * length dims + k \<and> bit (dims ! k) p)"
    using mortonFrom_bits [of 32 dims ?z] unfolding key by simp_all
  show "length key = 4 * length dims" by (rule z)
  assume j: "j < 32 * length dims"
  have "\<not> obit ?z j" using j by (auto simp: obit_def nth_replicate less_mult_imp_div_less)
  have q: "j div length dims < 32" using j d by (simp add: less_mult_imp_div_less)
  show "obit key j \<longleftrightarrow> bit (dims ! (j mod length dims)) (31 - j div length dims)"
  proof
    assume "obit key j"
    then obtain p k where pk: "p < 32" "k < length dims" "j = (31 - p) * length dims + k" "bit (dims ! k) p"
      using z(2) [OF j] \<open>\<not> obit ?z j\<close> by blast
    then have "j mod length dims = k" "j div length dims = 31 - p" using d by simp_all
    with pk show "bit (dims ! (j mod length dims)) (31 - j div length dims)" by simp
  next
    assume b: "bit (dims ! (j mod length dims)) (31 - j div length dims)"
    have "j = (31 - (31 - j div length dims)) * length dims + j mod length dims" using q by simp
    moreover have "31 - j div length dims < 32" "j mod length dims < length dims" using d by simp_all
    ultimately show "obit key j" using z(2) [OF j] b by blast
  qed
qed


section \<open>Decoding inverts encoding\<close>

lemma unmortonDims_bits:
  "di + left \<le> length out \<Longrightarrow>
     length (unmortonDims key p base left di out) = length out \<and>
     (\<forall>i<length out. \<forall>q<32. bit (unmortonDims key p base left di out ! i) q \<longleftrightarrow>
        bit (out ! i) q \<or> (di \<le> i \<and> i < di + left \<and> q = p \<and> obit key (base + i)))"
proof (induction left arbitrary: di out)
  case (Suc left)
  let ?out = "if drop_bit (7 - (base + di) mod 8) (key ! ((base + di) div 8)) AND 1 = 1
        then out[di := out ! di OR push_bit p 1] else out"
  have len: "length ?out = length out" by simp
  have "bit (?out ! i) q \<longleftrightarrow> bit (out ! i) q \<or> (i = di \<and> q = p \<and> obit key (base + i))"
    if "i < length out" "q < 32" for i q
    using that Suc.prems
    by (cases "i = di") (auto simp: and_one_bit obit_def nth_list_update bit_or_iff bit_exp_iff)
  with Suc.IH [of "Suc di" ?out] Suc.prems show ?case by (auto simp: len)
qed auto

lemma unmortonFrom_bits:
  "n \<le> 32 \<Longrightarrow>
     length (unmortonFrom n key (length out) out) = length out \<and>
     (\<forall>i<length out. \<forall>q<32. bit (unmortonFrom n key (length out) out ! i) q \<longleftrightarrow>
        bit (out ! i) q \<or> (q < n \<and> obit key ((31 - q) * length out + i)))"
proof (induction n arbitrary: out)
  case (Suc p)
  let ?out = "unmortonDims key p ((31 - p) * length out) (length out) 0 out"
  have out: "length ?out = length out" "\<And>i q. i < length out \<Longrightarrow> q < 32 \<Longrightarrow> bit (?out ! i) q \<longleftrightarrow>
      bit (out ! i) q \<or> (q = p \<and> obit key ((31 - p) * length out + i))"
    using unmortonDims_bits [of 0 "length out" out key p "(31 - p) * length out"] by simp_all
  with Suc.IH [of ?out] Suc.prems show ?case by (auto simp: less_Suc_eq)
qed simp

text \<open>
  A Z-order key determines its dimensions: decoding the key of one to four dimensions gives
  them back.
\<close>

lemma morton_roundtrip:
  assumes "EncodeMorton dims = Inr key"
  shows "DecodeMorton key (int (length dims)) = Inr dims"
proof -
  note enc = EncodeMorton_bits [OF assms]
  let ?z = "replicate (length dims) 0 :: uint32 list"
  have len: "length (unmortonFrom 32 key (length dims) ?z) = length dims"
    and bits: "\<And>i q. i < length dims \<Longrightarrow> q < 32 \<Longrightarrow> bit (unmortonFrom 32 key (length dims) ?z ! i) q \<longleftrightarrow>
      obit key ((31 - q) * length dims + i)"
    using unmortonFrom_bits [of 32 key ?z] by simp_all
  have "unmortonFrom 32 key (length dims) ?z = dims"
  proof (rule nth_equalityI)
    fix i assume "i < length (unmortonFrom 32 key (length dims) ?z)"
    then have i: "i < length dims" by (simp add: len)
    show "unmortonFrom 32 key (length dims) ?z ! i = dims ! i"
    proof (rule bit_word_eqI)
      fix q assume "q < LENGTH(32)"
      then have q: "q < 32" by simp
      have "(31 - q) * length dims + i < (31 - q) * length dims + length dims" using i by simp
      also have "\<dots> = Suc (31 - q) * length dims" by simp
      also have "\<dots> \<le> 32 * length dims" by (rule mult_le_mono1) simp
      finally have less: "(31 - q) * length dims + i < 32 * length dims" .
      have "((31 - q) * length dims + i) div length dims = 31 - q" using i by (metis div_nat_eqI mult.commute le_add1 mult_Suc_right nat_add_left_cancel_less add.commute)
      with less have "obit key ((31 - q) * length dims + i) \<longleftrightarrow> bit (dims ! i) q" using enc(4) [OF less] i q by simp
      then show "bit (unmortonFrom 32 key (length dims) ?z ! i) q = bit (dims ! i) q" by (simp add: bits i q)
    qed
  qed (simp add: len)
  then show ?thesis using enc(1-3) by (simp add: DecodeMorton_def MaxZDims_def)
qed

theorem morton_roundtrip_witness:
  "\<exists>key. EncodeMorton [5, 0xFFFFFFFF, 1] = Inr key \<and> DecodeMorton key 3 = Inr [5, 0xFFFFFFFF, 1]"
proof -
  obtain key where k: "EncodeMorton [5, 0xFFFFFFFF, 1] = Inr key" by (simp add: EncodeMorton_def MaxZDims_def)
  with morton_roundtrip [OF k] show ?thesis by simp
qed

section \<open>Key order follows the component-wise order\<close>

text \<open>Two words that agree above bit \<open>p\<close> are ordered by bit \<open>p\<close>.\<close>

lemma word_less_at_bit:
  fixes x y :: "'a::len word"
  assumes hi: "\<And>r. p < r \<Longrightarrow> bit x r = bit y r" and "\<not> bit x p" and "bit y p"
  shows "x < y"
proof -
  have "drop_bit (Suc p) x = drop_bit (Suc p) y" by (rule bit_eqI) (simp add: bit_drop_bit_eq hi)
  then have "unat (drop_bit (Suc p) x) = unat (drop_bit (Suc p) y)" by simp
  then have eq: "unat x div 2 ^ Suc p = unat y div 2 ^ Suc p"
    by (metis unat_drop_bit_eq drop_bit_eq_div)
  have x: "even (unat x div 2 ^ p)" and y: "odd (unat y div 2 ^ p)"
    using assms(2,3) by (metis bit_iff_odd bit_unsigned_iff bit_imp_le_length possible_bit_nat)+
  have "unat x div 2 ^ p div 2 = unat y div 2 ^ p div 2"
    using eq by (metis div_mult2_eq power_Suc2)
  with x y have "unat x div 2 ^ p < unat y div 2 ^ p"
    using div_mult_mod_eq [of "unat x div 2 ^ p" 2] div_mult_mod_eq [of "unat y div 2 ^ p" 2]
    by (simp add: even_iff_mod_2_eq_zero odd_iff_mod_2_eq_one)
  then have "unat x < unat y" by (metis div_le_mono not_le)
  then show ?thesis by (simp add: word_less_nat_alt)
qed

lemma word_le_bits:
  fixes x y :: "'a::len word"
  assumes "\<And>q. (\<And>r. q < r \<Longrightarrow> bit x r = bit y r) \<Longrightarrow> bit x q \<Longrightarrow> bit y q"
  shows "x \<le> y"
proof (cases "x = y")
  case False
  let ?D = "{r. bit x r \<noteq> bit y r}"
  have fin: "finite ?D" by (rule finite_subset [of _ "{..<LENGTH('a)}"]) (auto dest: bit_imp_le_length)
  moreover from False have "?D \<noteq> {}" by (auto simp: bit_eq_iff)
  ultimately have in_D: "Max ?D \<in> ?D" by (rule Max_in)
  have hi: "bit x r = bit y r" if "Max ?D < r" for r
    using Max_ge [OF fin, of r] that by auto
  have imp: "bit x (Max ?D) \<Longrightarrow> bit y (Max ?D)" by (rule assms) (rule hi)
  with in_D have "\<not> bit x (Max ?D)" "bit y (Max ?D)" by auto
  with hi have "x < y" by (rule word_less_at_bit)
  then show ?thesis by simp
qed simp

lemma obit_Cons:
  "j < 8 \<Longrightarrow> obit (x # xs) j = bit x (7 - j)" "obit (x # xs) (8 + j) = obit xs j"
proof -
  have "(8 + j) div 8 = Suc (j div 8)" by simp
  then show "obit (x # xs) (8 + j) = obit xs j" by (simp only: obit_def mod_add_self1 nth_Cons_Suc)
qed (simp add: obit_def)

text \<open>Buffers are ordered by the first output bit on which they differ.\<close>

lemma bytes_le_obit:
  "length a = length b \<Longrightarrow>
    (\<And>j. j < 8 * length a \<Longrightarrow> (\<And>i. i < j \<Longrightarrow> obit a i = obit b i) \<Longrightarrow> obit a j \<Longrightarrow> obit b j) \<Longrightarrow> a \<le> b"
proof (induction a b rule: list_induct2)
  case (Cons x xs y ys)
  have "x \<le> y"
  proof (rule word_le_bits)
    fix q assume hi: "\<And>r. q < r \<Longrightarrow> bit x r = bit y r" and x: "bit x q"
    then have q: "q < 8" using bit_imp_le_length [of x q] by simp
    have "obit (x # xs) (7 - q) \<Longrightarrow> obit (y # ys) (7 - q)"
    proof (rule Cons.prems)
      fix i assume "i < 7 - q"
      then show "obit (x # xs) i = obit (y # ys) i" using hi [of "7 - i"] by (simp add: obit_Cons)
    qed simp_all
    then show "bit y q" using x q by (simp add: obit_Cons)
  qed
  moreover have "xs \<le> ys" if "x = y"
  proof (rule Cons.IH)
    fix j assume j: "j < 8 * length xs" "\<And>i. i < j \<Longrightarrow> obit xs i = obit ys i" "obit xs j"
    have "obit (y # ys) (8 + j)"
    proof (rule Cons.prems)
      fix i assume "i < 8 + j"
      then show "obit (x # xs) i = obit (y # ys) i"
        using j(2) [of "i - 8"] that obit_Cons(2) [of x xs "i - 8"] obit_Cons(2) [of y ys "i - 8"]
        by (cases "i < 8") (simp_all add: obit_Cons(1))
    qed (use j in \<open>simp_all add: obit_Cons\<close>)
    then show "obit ys j" by (simp add: obit_Cons)
  qed
  ultimately show ?case by (auto simp: Cons_le_Cons)
qed simp

lemma EncodeMorton_mono:
  assumes "EncodeMorton as = Inr a" and "EncodeMorton bs = Inr b" and len: "length as = length bs"
    and le: "\<And>i. i < length as \<Longrightarrow> as ! i \<le> bs ! i"
  shows "a \<le> b"
proof (rule bytes_le_obit)
  note a = EncodeMorton_bits [OF assms(1)] and b = EncodeMorton_bits [OF assms(2)]
  show "length a = length b" using a(1) b(1) len by simp
  fix j assume j: "j < 8 * length a" and same: "\<And>i. i < j \<Longrightarrow> obit a i = obit b i" and "obit a j"
  define D k p where "D = length as" and "k = j mod D" and "p = 31 - j div D"
  have j32: "j < 32 * D" and D: "0 < D" using j a(1,2) by (simp_all add: D_def)
  then have q: "j div D < 32" and k: "k < D" by (simp_all add: less_mult_imp_div_less k_def)
  have j_eq: "j = (31 - p) * D + k" using q by (simp add: p_def k_def)
  have pos: "obit a i = bit (as ! (i mod D)) (31 - i div D)" "obit b i = bit (bs ! (i mod D)) (31 - i div D)"
    if "i < 32 * D" for i using a(4) b(4) len that by (simp_all add: D_def)
  have bitk: "bit (as ! k) p" using \<open>obit a j\<close> pos(1) [OF j32] by (simp add: k_def p_def)
  show "obit b j"
  proof (rule ccontr)
    assume "\<not> obit b j"
    then have "\<not> bit (bs ! k) p" using pos(2) [OF j32] by (simp add: k_def p_def)
    moreover have "bit (bs ! k) r = bit (as ! k) r" if "p < r" for r
    proof (cases "r < 32")
      case True
      let ?i = "(31 - r) * D + k"
      have "31 - r < 31 - p" using that True by simp
      then have lt: "?i < j" unfolding j_eq using D by simp
      have "?i div D = 31 - r" "?i mod D = k" using k D by simp_all
      then show ?thesis using same [OF lt] pos [of ?i] lt j32 True by simp
    qed (auto dest: bit_imp_le_length)
    ultimately have "bs ! k < as ! k" using bitk word_less_at_bit by blast
    with le [of k] k show False by (simp add: D_def)
  qed
qed

text \<open>
  A box query misses nothing: the Z-order key of every point inside a box lies in the inclusive
  key range that \<^verbatim>\<open>MortonRange\<close> returns for the box.
\<close>

lemma morton_range_covers_box:
  assumes "MortonRange box = Inr (low, high)" and "ZContains box pt"
  shows "\<exists>key. EncodeMorton pt = Inr key \<and> low \<le> key \<and> key \<le> high"
proof -
  from assms(1) have lo: "EncodeMorton (zb_Lo box) = Inr low" and hi: "EncodeMorton (zb_Hi box) = Inr high"
    and v: "Valid box" by (auto simp: MortonRange_def split: if_splits elim!: bindr_InrE)
  from assms(2) have len: "length pt = length (zb_Lo box)" and
    c: "\<And>i. i < length pt \<Longrightarrow> zb_Lo box ! i \<le> pt ! i \<and> pt ! i \<le> zb_Hi box ! i"
    by (auto simp: ZContains_def not_less)
  from lo len obtain key where key: "EncodeMorton pt = Inr key"
    by (cases "pt = []") (auto simp: EncodeMorton_def split: if_splits)
  have "low \<le> key" by (rule EncodeMorton_mono [OF lo key]) (use len c in simp_all)
  moreover have "key \<le> high" by (rule EncodeMorton_mono [OF key hi]) (use len v c in \<open>simp_all add: Valid_def\<close>)
  ultimately show ?thesis using key by blast
qed

theorem morton_range_covers_box_witness:
  "\<exists>low high key. MortonRange \<lparr>zb_Lo = [2, 3], zb_Hi = [7, 9]\<rparr> = Inr (low, high) \<and>
     EncodeMorton [5, 9] = Inr key \<and> low \<le> key \<and> key \<le> high"
proof -
  let ?box = "\<lparr>zb_Lo = [2, 3], zb_Hi = [7, 9]\<rparr>"
  obtain low high where r: "MortonRange ?box = Inr (low, high)"
    by (simp add: MortonRange_def Valid_def EncodeMorton_def MaxZDims_def)
  have "ZContains ?box [5, 9]" by (simp add: ZContains_def less_Suc_eq_0_disj all_conj_distrib)
  with morton_range_covers_box [OF r this] r show ?thesis by blast
qed

end
