(* ===== verification/ChangeRecords.thy ===== *)
theory ChangeRecords
  imports KeyRanges
begin

text \<open>
  Change-log records: their creation (\<^verbatim>\<open>internal/storage/adapter/pebble/changelog.go\<close>) and their
  binary format (\<^verbatim>\<open>changelog_codec.go\<close>). Every write appends one record, which streams, materialised
  views and followers read back.

  \<^verbatim>\<open>int64\<close> and \<^verbatim>\<open>int32\<close> fields are words, read as signed numbers where the code compares them. A nil
  item is \<open>None\<close>. The reader of records in the older JSON format is the parameter \<open>json\<close>.
\<close>

type_synonym int64 = "64 word"

record ChangeRecord =
  cr_Index :: uint64
  cr_SequenceNumber :: string
  cr_UnixNano :: int64
  cr_Op :: string
  cr_Table :: string
  cr_Key :: "Item option"
  cr_Item :: "Item option"
  cr_StreamRecord :: bool
  cr_EventName :: string
  cr_OldItem :: "Item option"
  cr_NewItem :: "Item option"
  cr_StreamViewType :: string
  cr_SizeBytes :: int64
  cr_BatchID :: string
  cr_SeqInBatch :: "32 word"
  cr_OpKind :: string

definition ChangePut :: string where "ChangePut = ''put''"
definition ChangeDelete :: string where "ChangeDelete = ''delete''"
definition ChangeEventInsert :: string where "ChangeEventInsert = ''INSERT''"
definition ChangeEventModify :: string where "ChangeEventModify = ''MODIFY''"
definition ChangeEventRemove :: string where "ChangeEventRemove = ''REMOVE''"

lemmas change_consts = ChangePut_def ChangeDelete_def ChangeEventInsert_def ChangeEventModify_def
  ChangeEventRemove_def

definition zeroRecord :: ChangeRecord where
  "zeroRecord = \<lparr>cr_Index = 0, cr_SequenceNumber = [], cr_UnixNano = 0, cr_Op = [], cr_Table = [], cr_Key = None,
     cr_Item = None, cr_StreamRecord = False, cr_EventName = [], cr_OldItem = None, cr_NewItem = None,
     cr_StreamViewType = [], cr_SizeBytes = 0, cr_BatchID = [], cr_SeqInBatch = 0, cr_OpKind = []\<rparr>"

section \<open>The binary format\<close>

datatype change_error =
    UnknownOp string
  | UnknownEventName string
  | EmptyPayload
  | BadJSON
  | UnknownFormat byte
  | ShortHeader
  | UnknownOpByte byte
  | UnknownEventByte byte
  | ShortString
  | ShortItem
  | ShortSize
  | ShortSeq
  | BadUvarint
  | ItemCodec codec_error
  | InField string change_error
  | TableRequired

definition changeFmtBinaryV1 :: byte where "changeFmtBinaryV1 = 2"
definition opPutByte :: byte where "opPutByte = of_char (CHR ''p'')"
definition opDeleteByte :: byte where "opDeleteByte = of_char (CHR ''d'')"
definition evNone :: byte where "evNone = 0"
definition evInsert :: byte where "evInsert = of_char (CHR ''I'')"
definition evModify :: byte where "evModify = of_char (CHR ''M'')"
definition evRemove :: byte where "evRemove = of_char (CHR ''R'')"

definition flagSeqNum :: "16 word" where "flagSeqNum = push_bit 0 1"
definition flagItem :: "16 word" where "flagItem = push_bit 1 1"
definition flagStreamRecord :: "16 word" where "flagStreamRecord = push_bit 2 1"
definition flagOldItem :: "16 word" where "flagOldItem = push_bit 3 1"
definition flagNewItem :: "16 word" where "flagNewItem = push_bit 4 1"
definition flagStreamViewType :: "16 word" where "flagStreamViewType = push_bit 5 1"
definition flagSizeBytes :: "16 word" where "flagSizeBytes = push_bit 6 1"
definition flagKey :: "16 word" where "flagKey = push_bit 7 1"
definition flagBatchID :: "16 word" where "flagBatchID = push_bit 8 1"
definition flagSeqInBatch :: "16 word" where "flagSeqInBatch = push_bit 9 1"
definition flagOpKind :: "16 word" where "flagOpKind = push_bit 10 1"

lemmas flag_defs = flagSeqNum_def flagItem_def flagStreamRecord_def flagOldItem_def flagNewItem_def
  flagStreamViewType_def flagSizeBytes_def flagKey_def flagBatchID_def flagSeqInBatch_def flagOpKind_def

definition hasFlag :: "16 word \<Rightarrow> 16 word \<Rightarrow> bool" where
  "hasFlag flags f \<longleftrightarrow> flags AND f \<noteq> 0"

definition setFlag :: "bool \<Rightarrow> 16 word \<Rightarrow> 16 word \<Rightarrow> 16 word" where
  "setFlag c f flags = (if c then flags OR f else flags)"

definition changeFlags :: "ChangeRecord \<Rightarrow> 16 word" where
  "changeFlags rec =
     setFlag (cr_OpKind rec \<noteq> []) flagOpKind
     (setFlag (cr_SeqInBatch rec \<noteq> 0) flagSeqInBatch
     (setFlag (cr_BatchID rec \<noteq> []) flagBatchID
     (setFlag (cr_Key rec \<noteq> None) flagKey
     (setFlag (cr_SizeBytes rec \<noteq> 0) flagSizeBytes
     (setFlag (cr_StreamViewType rec \<noteq> []) flagStreamViewType
     (setFlag (cr_NewItem rec \<noteq> None) flagNewItem
     (setFlag (cr_OldItem rec \<noteq> None) flagOldItem
     (setFlag (cr_StreamRecord rec) flagStreamRecord
     (setFlag (cr_Item rec \<noteq> None) flagItem
     (setFlag (cr_SequenceNumber rec \<noteq> []) flagSeqNum 0))))))))))"

definition opByte :: "string \<Rightarrow> change_error + byte" where
  "opByte op = (if op = ChangePut then Inr opPutByte else if op = ChangeDelete then Inr opDeleteByte
     else Inl (UnknownOp op))"

definition eventByte :: "string \<Rightarrow> change_error + byte" where
  "eventByte ev = (if ev = [] then Inr evNone else if ev = ChangeEventInsert then Inr evInsert
     else if ev = ChangeEventModify then Inr evModify else if ev = ChangeEventRemove then Inr evRemove
     else Inl (UnknownEventName ev))"

definition appendLenString :: "bytes \<Rightarrow> string \<Rightarrow> bytes" where
  "appendLenString dst s = dst @ PutUvarint (of_nat (length s)) @ bytes_of_string s"

definition appendItem :: "bytes \<Rightarrow> Item option \<Rightarrow> change_error + bytes" where
  "appendItem dst item =
     bindr (wrapr ItemCodec (EncodeItem item)) (\<lambda>enc. Inr (dst @ PutUvarint (of_nat (length enc)) @ enc))"

text \<open>\<^verbatim>\<open>if flags&flagX != 0 { dst, err = appendItem(dst, ...) }\<close>.\<close>

definition appendItemIf :: "bool \<Rightarrow> string \<Rightarrow> Item option \<Rightarrow> bytes \<Rightarrow> change_error + bytes" where
  "appendItemIf c field item dst = (if c then wrapr (InField field) (appendItem dst item) else Inr dst)"

definition appendIf :: "bool \<Rightarrow> (bytes \<Rightarrow> bytes) \<Rightarrow> bytes \<Rightarrow> bytes" where
  "appendIf c f dst = (if c then f dst else dst)"

definition encodeChangeRecord :: "bytes \<Rightarrow> ChangeRecord \<Rightarrow> change_error + bytes" where
  "encodeChangeRecord dst rec =
     bindr (opByte (cr_Op rec)) (\<lambda>op.
     bindr (eventByte (cr_EventName rec)) (\<lambda>ev.
       let flags = changeFlags rec;
           dst1 = dst @ [changeFmtBinaryV1] @ PutUint64 (cr_Index rec) @ PutUint64 (cr_UnixNano rec) @ [op] @
                  PutUint16 flags @ [ev];
           dst2 = appendLenString dst1 (cr_Table rec);
           dst3 = appendIf (hasFlag flags flagSeqNum) (\<lambda>d. appendLenString d (cr_SequenceNumber rec)) dst2;
           dst4 = appendIf (hasFlag flags flagStreamViewType) (\<lambda>d. appendLenString d (cr_StreamViewType rec)) dst3;
           dst5 = appendIf (hasFlag flags flagSizeBytes) (\<lambda>d. d @ PutUint64 (cr_SizeBytes rec)) dst4
       in bindr (appendItemIf (hasFlag flags flagKey) ''key'' (cr_Key rec) dst5) (\<lambda>dst6.
          bindr (appendItemIf (hasFlag flags flagItem) ''item'' (cr_Item rec) dst6) (\<lambda>dst7.
          bindr (appendItemIf (hasFlag flags flagOldItem) ''old item'' (cr_OldItem rec) dst7) (\<lambda>dst8.
          bindr (appendItemIf (hasFlag flags flagNewItem) ''new item'' (cr_NewItem rec) dst8) (\<lambda>dst9.
            let dst10 = appendIf (hasFlag flags flagBatchID) (\<lambda>d. appendLenString d (cr_BatchID rec)) dst9;
                dst11 = appendIf (hasFlag flags flagSeqInBatch) (\<lambda>d. d @ PutUint32 (cr_SeqInBatch rec)) dst10;
                dst12 = appendIf (hasFlag flags flagOpKind) (\<lambda>d. appendLenString d (cr_OpKind rec)) dst11
            in Inr dst12))))))"

definition readUvarintLocal :: "bytes \<Rightarrow> change_error + (uint64 \<times> bytes)" where
  "readUvarintLocal p =
     (case Uvarint p of (v, n) \<Rightarrow> if n \<le> 0 then Inl BadUvarint else Inr (v, drop (nat n) p))"

definition readLenString :: "bytes \<Rightarrow> change_error + (string \<times> bytes)" where
  "readLenString p =
     bindr (readUvarintLocal p) (\<lambda>(n, rest).
       if length rest < unat n then Inl ShortString
       else Inr (string_of_bytes (take (unat n) rest), drop (unat n) rest))"

definition readItem :: "bytes \<Rightarrow> change_error + (Item \<times> bytes)" where
  "readItem p =
     bindr (readUvarintLocal p) (\<lambda>(n, rest).
       if length rest < unat n then Inl ShortItem
       else bindr (wrapr ItemCodec (DecodeItem (take (unat n) rest))) (\<lambda>item. Inr (item, drop (unat n) rest)))"

definition readOp :: "byte \<Rightarrow> change_error + string" where
  "readOp b = (if b = opPutByte then Inr ChangePut else if b = opDeleteByte then Inr ChangeDelete
     else Inl (UnknownOpByte b))"

definition readEvent :: "byte \<Rightarrow> change_error + string" where
  "readEvent b = (if b = evNone then Inr [] else if b = evInsert then Inr ChangeEventInsert
     else if b = evModify then Inr ChangeEventModify else if b = evRemove then Inr ChangeEventRemove
     else Inl (UnknownEventByte b))"

text \<open>An optional field: \<open>zero\<close> is what the field keeps when its flag is not set.\<close>

definition readIf :: "bool \<Rightarrow> string \<Rightarrow> 'a \<Rightarrow> (bytes \<Rightarrow> change_error + ('a \<times> bytes)) \<Rightarrow> bytes \<Rightarrow>
    change_error + ('a \<times> bytes)" where
  "readIf c field zero read p = (if c then wrapr (InField field) (read p) else Inr (zero, p))"

definition readUint64 :: "bytes \<Rightarrow> change_error + (uint64 \<times> bytes)" where
  "readUint64 p = (if length p < 8 then Inl ShortSize else Inr (Uint64 (take 8 p), drop 8 p))"

definition readUint32 :: "bytes \<Rightarrow> change_error + (uint32 \<times> bytes)" where
  "readUint32 p = (if length p < 4 then Inl ShortSeq else Inr (Uint32 (take 4 p), drop 4 p))"

definition readSomeItem :: "bytes \<Rightarrow> change_error + (Item option \<times> bytes)" where
  "readSomeItem p = bindr (readItem p) (\<lambda>(item, r). Inr (Some item, r))"

definition decodeChangeRecordBinaryV1 :: "bytes \<Rightarrow> change_error + ChangeRecord" where
  "decodeChangeRecordBinaryV1 p =
     (if length p < 8 + 8 + 1 + 2 + 1 then Inl ShortHeader
      else
        bindr (readOp (p ! 16)) (\<lambda>op.
        let flags = Uint16 (take 2 (drop 17 p)) in
        bindr (readEvent (p ! 19)) (\<lambda>ev.
        bindr (wrapr (InField ''table'') (readLenString (drop 20 p))) (\<lambda>(table, p1).
        bindr (readIf (hasFlag flags flagSeqNum) ''seq'' [] readLenString p1) (\<lambda>(seq, p2).
        bindr (readIf (hasFlag flags flagStreamViewType) ''view'' [] readLenString p2) (\<lambda>(view, p3).
        bindr (readIf (hasFlag flags flagSizeBytes) ''size'' 0 readUint64 p3) (\<lambda>(size, p4).
        bindr (readIf (hasFlag flags flagKey) ''key'' None readSomeItem p4) (\<lambda>(key, p5).
        bindr (readIf (hasFlag flags flagItem) ''item'' None readSomeItem p5) (\<lambda>(item, p6).
        bindr (readIf (hasFlag flags flagOldItem) ''old item'' None readSomeItem p6) (\<lambda>(old, p7).
        bindr (readIf (hasFlag flags flagNewItem) ''new item'' None readSomeItem p7) (\<lambda>(new, p8).
        bindr (readIf (hasFlag flags flagBatchID) ''batch id'' [] readLenString p8) (\<lambda>(batch, p9).
        bindr (readIf (hasFlag flags flagSeqInBatch) ''seq in batch'' 0 readUint32 p9) (\<lambda>(sib, p10).
        bindr (readIf (hasFlag flags flagOpKind) ''op kind'' [] readLenString p10) (\<lambda>(kind, _).
          Inr \<lparr>cr_Index = Uint64 (take 8 p), cr_SequenceNumber = seq, cr_UnixNano = Uint64 (take 8 (drop 8 p)),
               cr_Op = op, cr_Table = table, cr_Key = key, cr_Item = item,
               cr_StreamRecord = hasFlag flags flagStreamRecord, cr_EventName = ev, cr_OldItem = old,
               cr_NewItem = new, cr_StreamViewType = view, cr_SizeBytes = size, cr_BatchID = batch,
               cr_SeqInBatch = sib, cr_OpKind = kind\<rparr>))))))))))))))"

definition decodeChangeRecord :: "(bytes \<Rightarrow> ChangeRecord option) \<Rightarrow> bytes \<Rightarrow> change_error + ChangeRecord" where
  "decodeChangeRecord json raw =
     (case raw of
        [] \<Rightarrow> Inl EmptyPayload
      | b # p \<Rightarrow>
          if b = changeFmtBinaryV1 then decodeChangeRecordBinaryV1 p
          else if b = of_char (CHR ''{'')
          then (case json raw of None \<Rightarrow> Inl BadJSON | Some rec \<Rightarrow> Inr rec)
          else Inl (UnknownFormat b))"


section \<open>The format round-trips\<close>

lemma flag_bit: "f = push_bit k 1 \<Longrightarrow> k < 16 \<Longrightarrow> hasFlag flags f \<longleftrightarrow> bit flags k" for f :: "16 word"
  by (simp add: hasFlag_def bit_iff_and_push_bit_not_eq_0)

lemma bit_setFlag: "f = push_bit k 1 \<Longrightarrow> k < 16 \<Longrightarrow> n < 16 \<Longrightarrow>
    bit (setFlag c f flags) n \<longleftrightarrow> (c \<and> n = k) \<or> bit flags n" for f :: "16 word"
  by (auto simp: setFlag_def bit_or_iff bit_exp_iff)

lemma changeFlags_flags:
  "hasFlag (changeFlags rec) flagSeqNum \<longleftrightarrow> cr_SequenceNumber rec \<noteq> []"
  "hasFlag (changeFlags rec) flagItem \<longleftrightarrow> cr_Item rec \<noteq> None"
  "hasFlag (changeFlags rec) flagStreamRecord \<longleftrightarrow> cr_StreamRecord rec"
  "hasFlag (changeFlags rec) flagOldItem \<longleftrightarrow> cr_OldItem rec \<noteq> None"
  "hasFlag (changeFlags rec) flagNewItem \<longleftrightarrow> cr_NewItem rec \<noteq> None"
  "hasFlag (changeFlags rec) flagStreamViewType \<longleftrightarrow> cr_StreamViewType rec \<noteq> []"
  "hasFlag (changeFlags rec) flagSizeBytes \<longleftrightarrow> cr_SizeBytes rec \<noteq> 0"
  "hasFlag (changeFlags rec) flagKey \<longleftrightarrow> cr_Key rec \<noteq> None"
  "hasFlag (changeFlags rec) flagBatchID \<longleftrightarrow> cr_BatchID rec \<noteq> []"
  "hasFlag (changeFlags rec) flagSeqInBatch \<longleftrightarrow> cr_SeqInBatch rec \<noteq> 0"
  "hasFlag (changeFlags rec) flagOpKind \<longleftrightarrow> cr_OpKind rec \<noteq> []"
  by (simp_all add: changeFlags_def flag_defs [THEN flag_bit] flag_defs [THEN bit_setFlag])

lemma readUvarintLocal_put [codec_simps]: "readUvarintLocal (PutUvarint v @ r) = Inr (v, r)"
  by (simp add: readUvarintLocal_def Uvarint_PutUvarint)

definition lenString :: "string \<Rightarrow> bytes" where
  "lenString s = PutUvarint (of_nat (length s)) @ bytes_of_string s"

definition someItemBytes :: "Item option \<Rightarrow> bytes" where
  "someItemBytes item = (case item of None \<Rightarrow> [] | Some it \<Rightarrow> PutUvarint (of_nat (length (itemBytes it))) @ itemBytes it)"

definition item_fits :: "Item option \<Rightarrow> bool" where
  "item_fits item \<longleftrightarrow> (case item of None \<Rightarrow> True | Some it \<Rightarrow> item_wf it \<and> len_fits (itemBytes it))"

interpretation lens: stream_codec lenString readLenString len_fits
  by unfold_locales (simp add: readLenString_def lenString_def readUvarintLocal_put)

interpretation u64: stream_codec PutUint64 readUint64 "\<lambda>_. True"
  by unfold_locales (use Uint64_PutUint64 [of _ "[]"] in \<open>simp add: readUint64_def\<close>)

interpretation u32: stream_codec PutUint32 readUint32 "\<lambda>_. True"
  by unfold_locales (use Uint32_PutUint32 [of _ "[]"] in \<open>simp add: readUint32_def\<close>)

interpretation citem: stream_codec someItemBytes readSomeItem "\<lambda>item. item \<noteq> None \<and> item_fits item"
proof
  fix a r assume "a \<noteq> None \<and> item_fits a"
  then obtain it where a: "a = Some it" "item_wf it" "len_fits (itemBytes it)" by (auto simp: item_fits_def)
  with DecodeItem_itemBytes [of it "[]"] show "readSomeItem (someItemBytes a @ r) = Inr (a, r)"
    by (simp add: readSomeItem_def readItem_def someItemBytes_def readUvarintLocal_put)
qed


text \<open>The bytes of an optional field.\<close>

definition opt :: "bool \<Rightarrow> bytes \<Rightarrow> bytes" where
  "opt c b = (if c then b else [])"

definition recordTail :: "ChangeRecord \<Rightarrow> bytes" where
  "recordTail rec =
     lenString (cr_Table rec) @
     opt (cr_SequenceNumber rec \<noteq> []) (lenString (cr_SequenceNumber rec)) @
     opt (cr_StreamViewType rec \<noteq> []) (lenString (cr_StreamViewType rec)) @
     opt (cr_SizeBytes rec \<noteq> 0) (PutUint64 (cr_SizeBytes rec)) @
     opt (cr_Key rec \<noteq> None) (someItemBytes (cr_Key rec)) @
     opt (cr_Item rec \<noteq> None) (someItemBytes (cr_Item rec)) @
     opt (cr_OldItem rec \<noteq> None) (someItemBytes (cr_OldItem rec)) @
     opt (cr_NewItem rec \<noteq> None) (someItemBytes (cr_NewItem rec)) @
     opt (cr_BatchID rec \<noteq> []) (lenString (cr_BatchID rec)) @
     opt (cr_SeqInBatch rec \<noteq> 0) (PutUint32 (cr_SeqInBatch rec)) @
     opt (cr_OpKind rec \<noteq> []) (lenString (cr_OpKind rec))"

definition record_wf :: "ChangeRecord \<Rightarrow> bool" where
  "record_wf rec \<longleftrightarrow>
     cr_Op rec \<in> {ChangePut, ChangeDelete} \<and>
     cr_EventName rec \<in> {[], ChangeEventInsert, ChangeEventModify, ChangeEventRemove} \<and>
     list_all len_fits [cr_Table rec, cr_SequenceNumber rec, cr_StreamViewType rec, cr_BatchID rec, cr_OpKind rec] \<and>
     list_all item_fits [cr_Key rec, cr_Item rec, cr_OldItem rec, cr_NewItem rec]"

definition opByteOf :: "string \<Rightarrow> byte" where
  "opByteOf op = (if op = ChangePut then opPutByte else opDeleteByte)"

definition eventByteOf :: "string \<Rightarrow> byte" where
  "eventByteOf ev = (if ev = [] then evNone else if ev = ChangeEventInsert then evInsert
     else if ev = ChangeEventModify then evModify else evRemove)"

lemma op_event_bytes:
  "op \<in> {ChangePut, ChangeDelete} \<Longrightarrow> opByte op = Inr (opByteOf op) \<and> readOp (opByteOf op) = Inr op"
  "ev \<in> {[], ChangeEventInsert, ChangeEventModify, ChangeEventRemove} \<Longrightarrow>
     eventByte ev = Inr (eventByteOf ev) \<and> readEvent (eventByteOf ev) = Inr ev"
  by (auto simp: opByte_def opByteOf_def readOp_def eventByte_def eventByteOf_def readEvent_def change_consts
      opPutByte_def opDeleteByte_def evNone_def evInsert_def evModify_def evRemove_def)

lemma appendLenString_eq: "appendLenString dst s = dst @ lenString s"
  by (simp add: appendLenString_def lenString_def)

lemma appendIf_eq: "appendIf c (\<lambda>d. d @ b) dst = dst @ opt c b"
  by (simp add: appendIf_def opt_def)

lemma appendItemIf_eq:
  assumes "item_fits item"
  shows "appendItemIf (item \<noteq> None) field item dst = Inr (dst @ opt (item \<noteq> None) (someItemBytes item))"
proof (cases item)
  case (Some it)
  with assms have "EncodeItem item = Inr (itemBytes it)" by (simp add: item_fits_def EncodeItem_itemBytes)
  with Some show ?thesis by (simp add: appendItemIf_def appendItem_def opt_def someItemBytes_def)
qed (simp add: appendItemIf_def opt_def)

lemma encode_bytes:
  assumes "record_wf rec"
  shows "encodeChangeRecord dst rec =
    Inr (dst @ [changeFmtBinaryV1] @ PutUint64 (cr_Index rec) @ PutUint64 (cr_UnixNano rec) @ [opByteOf (cr_Op rec)] @
      PutUint16 (changeFlags rec) @ [eventByteOf (cr_EventName rec)] @ recordTail rec)"
proof -
  have items: "item_fits (cr_Key rec)" "item_fits (cr_Item rec)" "item_fits (cr_OldItem rec)" "item_fits (cr_NewItem rec)"
    using assms by (simp_all add: record_wf_def)
  have "opByte (cr_Op rec) = Inr (opByteOf (cr_Op rec))" "eventByte (cr_EventName rec) = Inr (eventByteOf (cr_EventName rec))"
    using assms op_event_bytes by (simp_all add: record_wf_def)
  then show ?thesis
    by (simp add: encodeChangeRecord_def Let_def appendLenString_eq appendIf_eq changeFlags_flags recordTail_def
        appendItemIf_eq items del: not_None_eq)
qed

lemma readIf_opt:
  assumes "c \<longleftrightarrow> b \<noteq> zero" and "c \<Longrightarrow> read (put b @ r) = Inr (b, r)"
  shows "readIf c field zero read (opt c (put b) @ r) = Inr (b, r)"
  using assms by (auto simp: readIf_def opt_def)

lemma readIf_string: "len_fits s \<Longrightarrow> readIf (s \<noteq> []) field [] readLenString (opt (s \<noteq> []) (lenString s) @ r) = Inr (s, r)"
  by (rule readIf_opt) (simp_all add: lens.get_put)

lemma readIf_item: "item_fits i \<Longrightarrow>
    readIf (i \<noteq> None) field None readSomeItem (opt (i \<noteq> None) (someItemBytes i) @ r) = Inr (i, r)"
  by (rule readIf_opt) (simp_all add: citem.get_put)

lemma readIf_u64: "readIf (v \<noteq> 0) field 0 readUint64 (opt (v \<noteq> 0) (PutUint64 v) @ r) = Inr (v, r)"
  by (rule readIf_opt) (simp_all add: u64.get_put)

lemma readIf_u32: "readIf (v \<noteq> 0) field 0 readUint32 (opt (v \<noteq> 0) (PutUint32 v) @ r) = Inr (v, r)"
  by (rule readIf_opt) (simp_all add: u32.get_put)

lemma decode_header:
  fixes a b :: uint64 and f :: "16 word" and x y :: byte and t :: bytes
  defines "h \<equiv> PutUint64 a @ PutUint64 b @ [x] @ PutUint16 f @ [y] @ t"
  shows "length h = 20 + length t" "Uint64 (take 8 h) = a" "Uint64 (take 8 (drop 8 h)) = b" "h ! 16 = x"
    "Uint16 (take 2 (drop 17 h)) = f" "h ! 19 = y" "drop 20 h = t"
  using Uint64_PutUint64 [of a "[]"] Uint64_PutUint64 [of b "[]"] Uint16_PutUint16 [of f "[]"]
  by (simp_all add: h_def nth_append)


lemma decode_bytes:
  assumes "record_wf rec"
  shows "decodeChangeRecordBinaryV1 (PutUint64 (cr_Index rec) @ PutUint64 (cr_UnixNano rec) @ [opByteOf (cr_Op rec)] @
      PutUint16 (changeFlags rec) @ [eventByteOf (cr_EventName rec)] @ recordTail rec) = Inr rec"
proof -
  have wf: "len_fits (cr_Table rec)" "len_fits (cr_SequenceNumber rec)" "len_fits (cr_StreamViewType rec)"
    "len_fits (cr_BatchID rec)" "len_fits (cr_OpKind rec)"
    "item_fits (cr_Key rec)" "item_fits (cr_Item rec)" "item_fits (cr_OldItem rec)" "item_fits (cr_NewItem rec)"
    using assms by (simp_all add: record_wf_def)
  have oe: "readOp (opByteOf (cr_Op rec)) = Inr (cr_Op rec)" "readEvent (eventByteOf (cr_EventName rec)) = Inr (cr_EventName rec)"
    using assms op_event_bytes by (simp_all add: record_wf_def)
  note strs = readIf_string [OF wf(2)] readIf_string [OF wf(3)] readIf_string [OF wf(4)] readIf_string [OF wf(5), of _ "[]", simplified]
  show ?thesis
    unfolding decodeChangeRecordBinaryV1_def decode_header Let_def
    by (simp add: oe recordTail_def lens.get_put wf changeFlags_flags strs readIf_u64 readIf_u32 readIf_item
        del: not_None_eq)
qed

text \<open>
  C25. A change record survives the log: encoding never fails on a record the engine can build
  (a known operation and event, items and strings that fit in memory), and decoding the bytes
  gives every field back, absent items as absent.
\<close>

theorem change_record_roundtrip:
  assumes "record_wf rec"
  shows "\<exists>raw. encodeChangeRecord [] rec = Inr raw \<and> decodeChangeRecord json raw = Inr rec"
  using encode_bytes [OF assms, of "[]"] decode_bytes [OF assms] by (simp add: decodeChangeRecord_def)

theorem change_record_roundtrip_witness:
  "\<exists>raw. encodeChangeRecord [] (zeroRecord\<lparr>cr_Index := 7, cr_Op := ''put'', cr_Table := ''t'', cr_Key := Some [(''id'', AttrS ''a'')],
       cr_EventName := ''INSERT'', cr_SeqInBatch := 3\<rparr>) = Inr raw \<and>
     decodeChangeRecord (\<lambda>_. None) raw = Inr (zeroRecord\<lparr>cr_Index := 7, cr_Op := ''put'', cr_Table := ''t'',
       cr_Key := Some [(''id'', AttrS ''a'')], cr_EventName := ''INSERT'', cr_SeqInBatch := 3\<rparr>)"
proof (rule change_record_roundtrip)
  have "length (itemBytes [(''id'', AttrS ''a'')]) < 100" by code_simp
  then have "len_fits (itemBytes [(''id'', AttrS ''a'')])" by (simp add: len_fits_def)
  moreover have "item_wf [(''id'', AttrS ''a'')]" by (simp add: item_wf_def len_fits_def gomap_canon_def)
  ultimately show "record_wf (zeroRecord\<lparr>cr_Index := 7, cr_Op := ''put'', cr_Table := ''t'', cr_Key := Some [(''id'', AttrS ''a'')],
       cr_EventName := ''INSERT'', cr_SeqInBatch := 3\<rparr>)"
    by (simp add: record_wf_def zeroRecord_def change_consts item_fits_def) (simp add: len_fits_def)
qed


section \<open>Creation of records\<close>

text \<open>
  Go's \<^verbatim>\<open>==\<close> on \<^verbatim>\<open>float64\<close> values, given by their bit patterns: a NaN equals nothing, the two zeros
  are equal.
\<close>

definition float64_isNaN :: "uint64 \<Rightarrow> bool" where
  "float64_isNaN w \<longleftrightarrow> 0x7FF0000000000000 < w AND 0x7FFFFFFFFFFFFFFF"

definition float64_eq :: "uint64 \<Rightarrow> uint64 \<Rightarrow> bool" where
  "float64_eq a b \<longleftrightarrow> \<not> float64_isNaN a \<and> \<not> float64_isNaN b \<and>
     (a = b \<or> (a AND 0x7FFFFFFFFFFFFFFF = 0 \<and> b AND 0x7FFFFFFFFFFFFFFF = 0))"

definition float64SlicesEqual :: "uint64 list \<Rightarrow> uint64 list \<Rightarrow> bool" where
  "float64SlicesEqual a b \<longleftrightarrow> length a = length b \<and> list_all (\<lambda>(x, y). float64_eq x y) (zip a b)"

function (sequential) attributeValuesEqual :: "AttributeValue \<Rightarrow> AttributeValue \<Rightarrow> bool" where
  "attributeValuesEqual (AttrL a) (AttrL b) \<longleftrightarrow>
     length a = length b \<and> list_all (\<lambda>(x, y). attributeValuesEqual x y) (zip a b)"
| "attributeValuesEqual (AttrM a) (AttrM b) \<longleftrightarrow>
     length a = length b \<and>
     list_all (\<lambda>(k, av). case map_of b k of None \<Rightarrow> False | Some bv \<Rightarrow> attributeValuesEqual av bv) a"
| "attributeValuesEqual (AttrVec a) (AttrVec b) \<longleftrightarrow> float64SlicesEqual a b"
| "attributeValuesEqual a b \<longleftrightarrow> a = b"
  by pat_completeness auto
termination attributeValuesEqual
proof (relation "measure (\<lambda>(a, b). size a)")
  fix a b :: "AttributeValue list" and z x y assume z: "z \<in> set (zip a b)" "(x, y) = z"
  then have "x \<in> set a" using set_zip_leftD [of x y a b] by simp
  then have "size x \<le> size_list size a" by (rule size_list_estimation') simp
  then show "((x, y), AttrL a, AttrL b) \<in> measure (\<lambda>(a, b). size a)" by simp
next
  fix a b :: "(string \<times> AttributeValue) list" and z k av bv assume "z \<in> set a" "(k, av) = z"
  then have "size av \<le> size_list (size_prod (\<lambda>_. 0) size) a" by (intro size_list_estimation' [of z]) auto
  then show "((av, bv), AttrM a, AttrM b) \<in> measure (\<lambda>(a, b). size a)" by simp
qed simp

definition deltaImageItem :: "Item option \<Rightarrow> Item option \<Rightarrow> Item option" where
  "deltaImageItem oldItem newItem =
     (case newItem of
        None \<Rightarrow> None
      | Some new \<Rightarrow>
          (case oldItem of
             None \<Rightarrow> Some new
           | Some old \<Rightarrow>
               Some (sort_key fst
                 (filter (\<lambda>(k, nv). case map_of old k of None \<Rightarrow> True | Some ov \<Rightarrow> \<not> attributeValuesEqual ov nv) new @
                  map (\<lambda>(k, _). (k, AttrNull)) (filter (\<lambda>(k, _). map_of new k = None) old)))))"

definition deriveOpKind :: "string \<Rightarrow> Item option \<Rightarrow> string" where
  "deriveOpKind op oldItem =
     (if op = ChangePut then (if oldItem = None then ChangeEventInsert else ChangeEventModify)
      else if op = ChangeDelete then ChangeEventRemove else [])"

definition streamRecordIncludesOldImage :: "string \<Rightarrow> string \<Rightarrow> bool" where
  "streamRecordIncludesOldImage view event \<longleftrightarrow>
     event \<noteq> ChangeEventInsert \<and> view \<in> {StreamViewTypeOldImage, StreamViewTypeNewAndOldImages}"

definition streamRecordIncludesNewImage :: "string \<Rightarrow> string \<Rightarrow> bool" where
  "streamRecordIncludesNewImage view event \<longleftrightarrow>
     event \<noteq> ChangeEventRemove \<and>
     view \<in> {StreamViewTypeNewImage, StreamViewTypeNewAndOldImages, StreamViewTypeDeltaImage}"

text \<open>The event of a record, \<open>None\<close> where the function returns early.\<close>

definition streamEvent :: "string \<Rightarrow> Item option \<Rightarrow> string option" where
  "streamEvent op oldItem =
     (if op = ChangePut then Some (if oldItem = None then ChangeEventInsert else ChangeEventModify)
      else if op = ChangeDelete then (if oldItem = None then None else Some ChangeEventRemove)
      else None)"

definition applyStreamRecordFields ::
  "TableDescriptor \<Rightarrow> ChangeRecord \<Rightarrow> Item option \<Rightarrow> Item option \<Rightarrow> ChangeRecord" where
  "applyStreamRecordFields td rec oldItem newItem =
     (case td_StreamSpecification td of
        None \<Rightarrow> rec
      | Some spec \<Rightarrow>
          if \<not> ss_StreamEnabled spec then rec
          else
            (let view0 = NormalizeStreamViewType (ss_StreamViewType spec);
                 view = (if view0 = [] then StreamViewTypeNewAndOldImages else view0)
             in if \<not> IsValidStreamViewType view then rec
                else
                  (case streamEvent (cr_Op rec) oldItem of
                     None \<Rightarrow> rec
                   | Some event \<Rightarrow>
                       rec\<lparr>cr_EventName := event,
                           cr_OldItem := (if streamRecordIncludesOldImage view event then oldItem else cr_OldItem rec),
                           cr_NewItem :=
                             (if view = StreamViewTypeDeltaImage \<and> event = ChangeEventModify
                              then deltaImageItem oldItem newItem
                              else if streamRecordIncludesNewImage view event then newItem else cr_NewItem rec),
                           cr_StreamRecord := True, cr_StreamViewType := view\<rparr>)))"

definition newChangeRecord ::
  "TableDescriptor \<Rightarrow> string \<Rightarrow> Item option \<Rightarrow> Item option \<Rightarrow> Item option \<Rightarrow> ChangeRecord" where
  "newChangeRecord td op key oldItem newItem =
     applyStreamRecordFields td
       (zeroRecord\<lparr>cr_Op := op, cr_Table := td_Name td, cr_Key := key, cr_OpKind := deriveOpKind op oldItem,
          cr_Item := (if op = ChangePut then newItem else None)\<rparr>) oldItem newItem"

text \<open>The size estimate of a stream record.\<close>

fun estimateAttrSize :: "AttributeValue \<Rightarrow> int" where
  "estimateAttrSize (AttrS s) = 8 + int (length s)"
| "estimateAttrSize (AttrN s) = 8 + int (length s)"
| "estimateAttrSize (AttrB b) = 8 + int (length b)"
| "estimateAttrSize (AttrSS ss) = 8 + sum_list (map (\<lambda>s. int (length s) + 3) ss)"
| "estimateAttrSize (AttrNS ss) = 8 + sum_list (map (\<lambda>s. int (length s) + 3) ss)"
| "estimateAttrSize (AttrBS bs) = 8 + sum_list (map (\<lambda>b. int (length b) + 3) bs)"
| "estimateAttrSize (AttrL l) = 8 + sum_list (map estimateAttrSize l)"
| "estimateAttrSize (AttrM m) = 8 + sum_list (map (\<lambda>(k, v). int (length k) + 4 + estimateAttrSize v) m)"
| "estimateAttrSize (AttrVec v) = 8 + int (length v) * 9"
| "estimateAttrSize _ = 8"

definition estimateItemSize :: "Item option \<Rightarrow> int" where
  "estimateItemSize item =
     (case item of
        None \<Rightarrow> 0
      | Some it \<Rightarrow>
          if it = [] then 0
          else 2 + sum_list (map (\<lambda>(k, v). int (length k) + 4 + estimateAttrSize v + 1) it))"

definition estimateChangeRecordSize :: "ChangeRecord \<Rightarrow> int64" where
  "estimateChangeRecordSize rec =
     word_of_int (16 + int (length (cr_SequenceNumber rec) + length (cr_EventName rec) + length (cr_Table rec) +
         length (cr_StreamViewType rec)) +
       estimateItemSize (cr_Key rec) + estimateItemSize (cr_OldItem rec) + estimateItemSize (cr_NewItem rec))"

text \<open>When a record expires: the configured retention, or the table's own in seconds when positive.\<close>

definition maxUnixNano :: int64 where
  "maxUnixNano = 0x7FFFFFFFFFFFFFFF"

definition streamRetentionForTable :: "int64 \<Rightarrow> (string \<Rightarrow> int64) option \<Rightarrow> string \<Rightarrow> int64" where
  "streamRetentionForTable retention resolver table =
     (case resolver of
        None \<Rightarrow> retention
      | Some secs \<Rightarrow> if 0 < sint (secs table) then secs table * 1000000000 else retention)"

definition changeLogExpireUnixNano :: "int64 \<Rightarrow> (string \<Rightarrow> int64) option \<Rightarrow> ChangeRecord \<Rightarrow> int64 option" where
  "changeLogExpireUnixNano retention0 resolver rec =
     (let retention = streamRetentionForTable retention0 resolver (cr_Table rec) in
      if sint retention \<le> 0 \<or> sint (cr_UnixNano rec) \<le> 0 then None
      else if sint (maxUnixNano - retention) < sint (cr_UnixNano rec) then Some maxUnixNano
      else Some (cr_UnixNano rec + retention))"


section \<open>Properties of records\<close>

text \<open>
  What a subscriber does with a delta: a Null-typed entry says that the attribute is gone, any
  other entry is the new value, and the rest is kept.
\<close>

definition applyDelta :: "Item \<Rightarrow> Item \<Rightarrow> string \<Rightarrow> AttributeValue option" where
  "applyDelta old delta k =
     (case map_of delta k of
        None \<Rightarrow> map_of old k
      | Some v \<Rightarrow> if v = AttrNull then None else Some v)"

lemma map_of_deltaImage:
  assumes "gomap_canon old" and "gomap_canon new" and "deltaImageItem (Some old) (Some new) = Some d"
  shows "map_of d k =
    (case map_of new k of
       Some nv \<Rightarrow> (case map_of old k of None \<Rightarrow> Some nv | Some ov \<Rightarrow> if attributeValuesEqual ov nv then None else Some nv)
     | None \<Rightarrow> if map_of old k = None then None else Some AttrNull)"
proof -
  let ?P = "\<lambda>(k, nv). case map_of old k of None \<Rightarrow> True | Some ov \<Rightarrow> \<not> attributeValuesEqual ov nv"
  let ?chg = "filter ?P new"
  let ?rem = "map (\<lambda>(k, _). (k, AttrNull)) (filter (\<lambda>(k, _). map_of new k = None) old)"
  have d: "d = sort_key fst (?chg @ ?rem)" using assms(3) by (simp add: deltaImageItem_def)
  have dist: "distinct (map fst old)" "distinct (map fst new)" using assms(1,2) gomap_canon_distinct by auto
  have chg: "map_of ?chg k = (case map_of new k of None \<Rightarrow> None | Some nv \<Rightarrow> if ?P (k, nv) then Some nv else None)" for k
    using dist(2) by (induction new) (force split: option.splits if_splits dest: map_of_SomeD)+
  have rem: "map_of ?rem k = (if map_of new k = None \<and> map_of old k \<noteq> None then Some AttrNull else None)" for k
    by (induction old) (auto split: option.splits if_splits)
  have "fst ` set ?chg \<inter> fst ` set ?rem = {}" by (force simp: map_of_eq_None_iff)
  moreover have "distinct (map fst ?chg)" "distinct (map fst ?rem)"
    using dist by (auto simp: distinct_map_filter o_def split_def)
  ultimately have "distinct (map fst (?chg @ ?rem))" by (simp only: map_append distinct_append set_map simp_thms)
  then have "map_of d k = map_of (?chg @ ?rem) k" unfolding d by (simp add: map_of_sort_key)
  then show ?thesis by (simp add: chg rem map_add_def split: option.splits)
qed

text \<open>
  A delta image is enough: applying it to the old item gives every attribute of the new one,
  up to what the engine regards as the same value, and no other. The one exception is excluded
  by hypothesis: an attribute that changes to the Null type looks like a removed one.
\<close>

lemma delta_image_reconstructs:
  assumes "gomap_canon old" and "gomap_canon new" and "deltaImageItem (Some old) (Some new) = Some d"
    and "\<And>k. map_of new k = Some AttrNull \<Longrightarrow> map_of old k = Some AttrNull"
  shows "case map_of new k of
      None \<Rightarrow> applyDelta old d k = None
    | Some v \<Rightarrow> \<exists>v'. applyDelta old d k = Some v' \<and> (v' = v \<or> attributeValuesEqual v' v)"
proof (cases "map_of new k")
  case None
  then show ?thesis using map_of_deltaImage [OF assms(1-3), of k] by (simp add: applyDelta_def)
next
  case (Some v)
  then show ?thesis
    using map_of_deltaImage [OF assms(1-3), of k] assms(4) [of k]
    by (cases "map_of old k") (auto simp: applyDelta_def)
qed

lemma null_marker_ambiguous:
  "deltaImageItem (Some [(''a'', AttrS ''x'')]) (Some [(''a'', AttrNull)]) =
   deltaImageItem (Some [(''a'', AttrS ''x'')]) (Some [])"
  by (simp add: deltaImageItem_def)

theorem delta_image_reconstructs_witness:
  "\<exists>d. deltaImageItem (Some [(''a'', AttrS ''x''), (''b'', AttrN ''1'')]) (Some [(''a'', AttrS ''y'')]) = Some d \<and>
     applyDelta [(''a'', AttrS ''x''), (''b'', AttrN ''1'')] d ''b'' = None"
proof -
  obtain d where d: "deltaImageItem (Some [(''a'', AttrS ''x''), (''b'', AttrN ''1'')]) (Some [(''a'', AttrS ''y'')]) = Some d"
    by (simp add: deltaImageItem_def)
  have "case map_of [(''a'', AttrS ''y'')] ''b'' of None \<Rightarrow> applyDelta [(''a'', AttrS ''x''), (''b'', AttrN ''1'')] d ''b'' = None
    | Some v \<Rightarrow> \<exists>v'. applyDelta [(''a'', AttrS ''x''), (''b'', AttrN ''1'')] d ''b'' = Some v' \<and> (v' = v \<or> attributeValuesEqual v' v)"
    by (rule delta_image_reconstructs [OF _ _ d]) (auto simp: gomap_canon_def split: if_splits)
  with d show ?thesis by simp
qed

lemma sint_add_ok:
  fixes a b :: int64
  shows "- (2 ^ 63) \<le> sint a + sint b \<Longrightarrow> sint a + sint b < 2 ^ 63 \<Longrightarrow> sint (a + b) = sint a + sint b"
    and "- (2 ^ 63) \<le> sint a - sint b \<Longrightarrow> sint a - sint b < 2 ^ 63 \<Longrightarrow> sint (a - b) = sint a - sint b"
  by (simp_all add: sint_word_ariths signed_take_bit_int_eq_self)

text \<open>
  C26. The expiry of a record saturates instead of wrapping: it is the record's time plus the
  retention when that is a valid time, and the largest time otherwise, so it is never earlier
  than the record.
\<close>

theorem expiry_saturates:
  assumes "changeLogExpireUnixNano retention resolver rec = Some t"
  shows "sint t = min (2 ^ 63 - 1) (sint (cr_UnixNano rec) + sint (streamRetentionForTable retention resolver (cr_Table rec)))
    \<and> sint (cr_UnixNano rec) \<le> sint t"
proof -
  define r n where "r = streamRetentionForTable retention resolver (cr_Table rec)" and "n = cr_UnixNano rec"
  have pos: "0 < sint r" "0 < sint n"
    and t: "t = (if sint (maxUnixNano - r) < sint n then maxUnixNano else n + r)"
    using assms by (auto simp: changeLogExpireUnixNano_def Let_def r_def n_def split: if_splits)
  have range: "sint r < 2 ^ 63" "sint n < 2 ^ 63"
    using sint_lt [of r] sint_lt [of n] by simp_all
  have max: "sint maxUnixNano = 2 ^ 63 - 1" by (simp add: maxUnixNano_def)
  have "sint (maxUnixNano - r) = sint maxUnixNano - sint r"
    using pos range max by (intro sint_add_ok(2)) simp_all
  then have sub: "sint (maxUnixNano - r) = 2 ^ 63 - 1 - sint r" by (simp add: max)
  show ?thesis
  proof (cases "sint (maxUnixNano - r) < sint n")
    case True
    with t have "sint t = 2 ^ 63 - 1" by (simp add: max)
    with True sub range show ?thesis unfolding r_def [symmetric] n_def [symmetric] by simp
  next
    case False
    with sub pos have "sint (n + r) = sint n + sint r" by (intro sint_add_ok(1)) simp_all
    with False sub t pos show ?thesis unfolding r_def [symmetric] n_def [symmetric] by simp
  qed
qed

theorem expiry_saturates_witness:
  "\<exists>t. changeLogExpireUnixNano 100 None (zeroRecord\<lparr>cr_UnixNano := maxUnixNano - 5\<rparr>) = Some t \<and> sint t = 2 ^ 63 - 1"
proof -
  have e: "changeLogExpireUnixNano 100 None (zeroRecord\<lparr>cr_UnixNano := maxUnixNano - 5\<rparr>) = Some maxUnixNano" by code_simp
  have "sint (maxUnixNano - 5) = 2 ^ 63 - 6" by code_simp
  with expiry_saturates [OF e] e show ?thesis by (simp add: streamRetentionForTable_def zeroRecord_def)
qed

end
