(* ===== verification/RowPlan.thy ===== *)
theory RowPlan
  imports SecondaryIndex Morton ChangeRecords
begin

text \<open>
  The index entries of a row: spatial indexes (\<^verbatim>\<open>internal/storage/adapter/pebble/spatial.go\<close>) and the
  TTL pointer (\<^verbatim>\<open>ttl.go\<close>) beside the global and local secondary indexes, and the plan that moves all
  four from one version of a row to the next.

  A \<^verbatim>\<open>float64\<close> is its bit pattern. The functions that compute with floating-point numbers
  (\<^verbatim>\<open>strconv.ParseFloat\<close>, \<^verbatim>\<open>spatial.EncodeGeohash\<close>, \<^verbatim>\<open>ZRange.Normalize\<close>) are fields of a record of
  parameters; nothing is assumed about them.
\<close>

section \<open>Spatial indexes\<close>

record float_env =
  ParseFloat :: "string \<Rightarrow> uint64 option"
  EncodeGeohash :: "uint64 \<Rightarrow> uint64 \<Rightarrow> int \<Rightarrow> string option"
  Normalize :: "NumRange \<Rightarrow> uint64 \<Rightarrow> uint32"

type_synonym spatial_env = "hasher \<times> float_env"

datatype spatial_error =
    NotNumeric string
  | BadNumber string
  | SpatialPrimary index_error
  | SpatialAttr string spatial_error
  | GeohashFailed
  | MortonFailed morton_error
  | UnknownSpatialKind string
  | InvalidSpatial string
  | SpatialPrior string spatial_error
  | SpatialNext string spatial_error
  | SpatialInvalid string spatial_error

definition SpatialKindGeohash :: string where "SpatialKindGeohash = ''geohash''"
definition SpatialKindZorder :: string where "SpatialKindZorder = ''zorder''"
definition MinPrecision :: int where "MinPrecision = 1"
definition MaxPrecision :: int where "MaxPrecision = 12"

lemmas spatial_consts = SpatialKindGeohash_def SpatialKindZorder_def MinPrecision_def MaxPrecision_def

text \<open>An absent attribute is \<open>Inr None\<close>.\<close>

definition numericAttr :: "float_env \<Rightarrow> Item \<Rightarrow> string \<Rightarrow> spatial_error + uint64 option" where
  "numericAttr F item name =
     (case map_of item name of
        None \<Rightarrow> Inr None
      | Some (AttrN n) \<Rightarrow> (case ParseFloat F n of None \<Rightarrow> Inl (BadNumber name) | Some v \<Rightarrow> Inr (Some v))
      | Some _ \<Rightarrow> Inl (NotNumeric name))"

definition validateSpatial :: "SpatialIndexDescriptor \<Rightarrow> spatial_error + unit" where
  "validateSpatial idx =
     (if sp_Kind idx = SpatialKindGeohash then
        (if length (sp_Attributes idx) \<noteq> 2 then Inl (InvalidSpatial ''geohash attributes'')
         else if sp_Precision idx < MinPrecision \<or> MaxPrecision < sp_Precision idx
         then Inl (InvalidSpatial ''geohash precision'')
         else Inr ())
      else if sp_Kind idx = SpatialKindZorder then
        (if length (sp_Attributes idx) = 0 \<or> MaxZDims < length (sp_Attributes idx)
         then Inl (InvalidSpatial ''zorder attributes'')
         else if length (sp_Ranges idx) \<noteq> length (sp_Attributes idx)
         then Inl (InvalidSpatial ''zorder ranges'')
         else Inr ())
      else Inl (InvalidSpatial (sp_Kind idx)))"

text \<open>
  The loop over the dimensions; \<open>Inr None\<close> when one is absent. It runs after
  \<^verbatim>\<open>validateSpatial\<close>, so there is a range for every attribute.
\<close>

fun zorderDims :: "float_env \<Rightarrow> Item \<Rightarrow> string list \<Rightarrow> NumRange list \<Rightarrow> spatial_error + uint32 list option" where
  "zorderDims F item (attr # attrs) (r # rs) =
     bindr (wrapr (SpatialAttr attr) (numericAttr F item attr)) (\<lambda>vOpt.
       case vOpt of
         None \<Rightarrow> Inr None
       | Some v \<Rightarrow> bindr (zorderDims F item attrs rs) (\<lambda>rest. Inr (map_option (\<lambda>ds. Normalize F r v # ds) rest)))"
| "zorderDims F item _ _ = Inr (Some [])"

definition spatialEntry :: "spatial_env \<Rightarrow> string \<Rightarrow> SpatialIndexDescriptor \<Rightarrow> KeySchema \<Rightarrow> Item option \<Rightarrow>
    spatial_error + (bytes \<times> bytes) option" where
  "spatialEntry HF table idx ks itemOpt =
     (case itemOpt of
        None \<Rightarrow> Inr None
      | Some item \<Rightarrow>
          bindr (wrapr SpatialPrimary (primaryKeyBytes ks item)) (\<lambda>(pk, sk).
            let val = EncodeGSIPointer pk sk in
            if sp_Kind idx = SpatialKindGeohash then
              bindr (wrapr (SpatialAttr (sp_Attributes idx ! 0)) (numericAttr (snd HF) item (sp_Attributes idx ! 0))) (\<lambda>lat.
              bindr (wrapr (SpatialAttr (sp_Attributes idx ! 1)) (numericAttr (snd HF) item (sp_Attributes idx ! 1))) (\<lambda>lon.
                case (lat, lon) of
                  (Some la, Some lo) \<Rightarrow>
                    (case EncodeGeohash (snd HF) la lo (sp_Precision idx) of
                       None \<Rightarrow> Inl GeohashFailed
                     | Some h \<Rightarrow> Inr (Some (KeyGeo (fst HF) table (sp_Name idx) h pk sk, val)))
                | _ \<Rightarrow> Inr None))
            else if sp_Kind idx = SpatialKindZorder then
              bindr (zorderDims (snd HF) item (sp_Attributes idx) (sp_Ranges idx)) (\<lambda>dimsOpt.
                case dimsOpt of
                  None \<Rightarrow> Inr None
                | Some dims \<Rightarrow>
                    bindr (wrapr MortonFailed (EncodeMorton dims)) (\<lambda>mortonBytes.
                      Inr (Some (KeyZorder (fst HF) table (sp_Name idx) mortonBytes pk sk, val))))
            else Inl (UnknownSpatialKind (sp_Kind idx))))"

fun planSpatialFrom :: "spatial_env \<Rightarrow> string \<Rightarrow> KeySchema \<Rightarrow> Item option \<Rightarrow> Item option \<Rightarrow>
    SpatialIndexDescriptor list \<Rightarrow> IndexOp list \<Rightarrow> spatial_error + IndexOp list" where
  "planSpatialFrom HF table ks prior next [] ops = Inr ops"
| "planSpatialFrom HF table ks prior next (idx # indexes) ops =
     bindr (wrapr (SpatialInvalid (sp_Name idx)) (validateSpatial idx)) (\<lambda>_.
     bindr (wrapr (SpatialPrior (sp_Name idx)) (spatialEntry HF table idx ks prior)) (\<lambda>p.
     bindr (wrapr (SpatialNext (sp_Name idx)) (spatialEntry HF table idx ks next)) (\<lambda>n.
       planSpatialFrom HF table ks prior next indexes (ops @ moveEntry p n))))"

definition planSpatial :: "spatial_env \<Rightarrow> string \<Rightarrow> KeySchema \<Rightarrow> SpatialIndexDescriptor list \<Rightarrow> Item option \<Rightarrow>
    Item option \<Rightarrow> spatial_error + IndexOp list" where
  "planSpatial HF table ks indexes prior next = planSpatialFrom HF table ks prior next indexes []"

section \<open>TTL pointers\<close>

datatype ttl_error =
    TTLNotNumeric string
  | TTLParse string string
  | TTLPrimary index_error
  | TTLPrior ttl_error
  | TTLNext ttl_error

definition ttlKey :: "hasher \<Rightarrow> string \<Rightarrow> KeySchema \<Rightarrow> string \<Rightarrow> Item option \<Rightarrow> ttl_error + bytes option" where
  "ttlKey H table ks ttlAttr itemOpt =
     (case itemOpt of
        None \<Rightarrow> Inr None
      | Some item \<Rightarrow>
          (case map_of item ttlAttr of
             None \<Rightarrow> Inr None
           | Some (AttrN n) \<Rightarrow>
               (case ParseUint n of
                  None \<Rightarrow> Inl (TTLParse ttlAttr n)
                | Some expire \<Rightarrow>
                    if expire = 0 then Inr None
                    else bindr (wrapr TTLPrimary (primaryKeyBytes ks item)) (\<lambda>(pk, sk).
                      Inr (Some (KeyTTL H table expire pk sk))))
           | Some _ \<Rightarrow> Inl (TTLNotNumeric ttlAttr)))"

definition planTTL :: "hasher \<Rightarrow> string \<Rightarrow> KeySchema \<Rightarrow> string \<Rightarrow> Item option \<Rightarrow> Item option \<Rightarrow>
    ttl_error + IndexOp list" where
  "planTTL H table ks ttlAttr prior next =
     (if ttlAttr = '''' then Inr []
      else
        bindr (wrapr TTLPrior (ttlKey H table ks ttlAttr prior)) (\<lambda>priorKey.
        bindr (wrapr TTLNext (ttlKey H table ks ttlAttr next)) (\<lambda>nextKey.
          Inr (moveEntry (map_option (\<lambda>k. (k, [])) priorKey) (map_option (\<lambda>k. (k, [])) nextKey)))))"

text \<open>The pointer as an index entry with an empty value, and the plan for a list of attributes.\<close>

definition ttlEntry :: "hasher \<Rightarrow> string \<Rightarrow> string \<Rightarrow> KeySchema \<Rightarrow> Item option \<Rightarrow>
    ttl_error + (bytes \<times> bytes) option" where
  "ttlEntry H table attr ks item =
     (if attr = '''' then Inr None
      else bindr (ttlKey H table ks attr item) (\<lambda>k. Inr (map_option (\<lambda>k. (k, [])) k)))"

fun planTTLs :: "hasher \<Rightarrow> string \<Rightarrow> KeySchema \<Rightarrow> string list \<Rightarrow> Item option \<Rightarrow> Item option \<Rightarrow>
    ttl_error + IndexOp list" where
  "planTTLs H table ks [] prior next = Inr []"
| "planTTLs H table ks (a # as) prior next =
     bindr (planTTL H table ks a prior next) (\<lambda>ops.
     bindr (planTTLs H table ks as prior next) (\<lambda>rest. Inr (ops @ rest)))"

section \<open>Both provide the interface of an index\<close>

abbreviation spatialBase :: "string \<Rightarrow> SpatialIndexDescriptor \<Rightarrow> bytes" where
  "spatialBase t idx \<equiv> indexBase t (if sp_Kind idx = SpatialKindGeohash then segGeo else segZorder) (sp_Name idx)"

abbreviation ttlBase :: "string \<Rightarrow> bytes" where
  "ttlBase t \<equiv> bytes_of_string (TableBase t @ segTTL)"

definition pointerProjection :: IndexProjection where
  "pointerProjection = \<lparr>proj_Mode = ''KEYS_ONLY'', proj_Include = []\<rparr>"

lemma keys_only_pointer [simp]: "keys_only pointerProjection"
  by (simp add: keys_only_def pointerProjection_def)

lemma spatialEntry_SomeE:
  assumes "spatialEntry HF t idx ks i = Inr (Some (k, v))"
  obtains item pk sk cell where "i = Some item" and "primaryKeyBytes ks item = Inr (pk, sk)"
    and "k = spatialBase t idx @ cell @ primaryDisambiguator (fst HF) pk sk" and "v = EncodeGSIPointer pk sk"
  using assms
  by (auto simp: spatialEntry_def Let_def KeyGeo_def KeyZorder_def spatial_consts
      split: option.splits prod.splits if_splits elim!: bindr_InrE)

lemma ttlEntry_SomeE:
  assumes "ttlEntry H t a ks i = Inr (Some (k, v))"
  obtains item pk sk expire where "i = Some item" and "primaryKeyBytes ks item = Inr (pk, sk)"
    and "k = KeyTTL H t expire pk sk" and "v = []"
  using assms
  by (auto simp: ttlEntry_def ttlKey_def split: option.splits AttributeValue.splits if_splits elim!: bindr_InrE)

lemma planSpatialFrom_Inr:
  "planSpatialFrom HF t ks p n ds ops0 = Inr ops \<Longrightarrow>
     ops = ops0 @ concat (map (\<lambda>d. moveEntry (ok_entry (spatialEntry HF t d ks p))
                                  (ok_entry (spatialEntry HF t d ks n))) ds)"
  by (induction ds arbitrary: ops0) (fastforce elim!: bindr_InrE)+

lemma planTTLs_Inr:
  "planTTLs H t ks ds p n = Inr ops \<Longrightarrow>
     ops = concat (map (\<lambda>d. moveEntry (ok_entry (ttlEntry H t d ks p)) (ok_entry (ttlEntry H t d ks n))) ds)"
proof (induction ds arbitrary: ops)
  case (Cons a as)
  then obtain x y where "planTTL H t ks a p n = Inr x" "planTTLs H t ks as p n = Inr y" "ops = x @ y"
    by (auto elim!: bindr_InrE)
  moreover from this(1) have "x = moveEntry (ok_entry (ttlEntry H t a ks p)) (ok_entry (ttlEntry H t a ks n))"
    by (auto simp: planTTL_def ttlEntry_def moveEntry_def [of None None] split: if_splits elim!: bindr_InrE)
  ultimately show ?case using Cons.IH by simp
qed simp

lemma prefix_bytes_of_string [simp]: "prefix (bytes_of_string x) (bytes_of_string y) \<longleftrightarrow> prefix x y"
proof
  assume "prefix (bytes_of_string x) (bytes_of_string y)"
  then obtain z where "bytes_of_string y = bytes_of_string x @ bytes_of_string (string_of_bytes z)"
    by (auto simp: prefix_def)
  then have "y = x @ string_of_bytes z" by (simp only: bytes_of_string_append [symmetric] bytes_of_string_inject)
  then show "prefix x y" by simp
qed (auto simp: prefix_def)

text \<open>Keys under two segments of a table have no key in common unless one segment extends the other.\<close>

lemma seg_apart:
  assumes "prefix (bytes_of_string (TableBase t @ s)) k" and "prefix (bytes_of_string (TableBase t @ s')) k"
  shows "prefix s s' \<or> prefix s' s"
proof -
  from prefix_same_cases [OF assms] have "prefix (TableBase t @ s) (TableBase t @ s') \<or> prefix (TableBase t @ s') (TableBase t @ s)"
    by (simp only: prefix_bytes_of_string)
  then show ?thesis by simp
qed

interpretation sp: secondary_index spatialEntry planSpatial sp_Name "\<lambda>_. pointerProjection" spatialBase
proof
  fix HF t d ks i k v
  assume "spatialEntry HF t d ks i = Inr (Some (k, v))"
  then show "prefix (spatialBase t d) k" by (rule spatialEntry_SomeE) simp
next
  fix a b t k
  assume s: "slash_free (sp_Name a)" "slash_free (sp_Name b)" and k: "prefix (spatialBase t a) k" "prefix (spatialBase t b) k"
  from seg_apart [OF k] have "sp_Kind a = SpatialKindGeohash \<longleftrightarrow> sp_Kind b = SpatialKindGeohash"
    by (auto simp: segGeo_def segZorder_def split: if_splits)
  with s k show "sp_Name a = sp_Name b" by (auto intro: indexBase_apart split: if_splits)
next
  fix HF t d ks i k v j k' v'
  assume "spatialEntry HF t d ks i = Inr (Some (k, v))" "spatialEntry HF t d ks j = Inr (Some (k', v'))"
    and "same_primary ks i j"
  then show "v = v'" by (auto elim!: spatialEntry_SomeE dest!: primaryKeyBytes_same)
next
  fix HF t ks ds p n ops
  assume "planSpatial HF t ks ds p n = Inr ops"
  then show "ops = concat (map (\<lambda>d. moveEntry (ok_entry (spatialEntry HF t d ks p))
      (ok_entry (spatialEntry HF t d ks n))) ds)"
    using planSpatialFrom_Inr unfolding planSpatial_def by fastforce
qed

interpretation ttl: secondary_index ttlEntry planTTLs "\<lambda>_. ''''" "\<lambda>_. pointerProjection" "\<lambda>t _. ttlBase t"
proof
  fix H t d ks i k v
  assume "ttlEntry H t d ks i = Inr (Some (k, v))"
  then show "prefix (ttlBase t) k" by (rule ttlEntry_SomeE) (simp add: KeyTTL_def)
next
  fix H t d ks i k v j k' v'
  assume "ttlEntry H t d ks i = Inr (Some (k, v))" "ttlEntry H t d ks j = Inr (Some (k', v'))"
  then show "v = v'" by (auto elim!: ttlEntry_SomeE)
next
  fix H t ks ds p n ops
  assume "planTTLs H t ks ds p n = Inr ops"
  then show "ops = concat (map (\<lambda>d. moveEntry (ok_entry (ttlEntry H t d ks p)) (ok_entry (ttlEntry H t d ks n))) ds)"
    by (rule planTTLs_Inr)
qed simp

section \<open>All indexes of a row\<close>

datatype row_error =
    PlanGSIErr index_error
  | PlanLSIErr index_error
  | PlanSpatialErr spatial_error
  | PlanTTLErr ttl_error

text \<open>The four planning calls that every write path makes, in their order.\<close>

definition planRow :: "spatial_env \<Rightarrow> TableDescriptor \<Rightarrow> Item option \<Rightarrow> Item option \<Rightarrow> row_error + IndexOp list" where
  "planRow HF td prior next =
     bindr (wrapr PlanGSIErr (PlanGSI (fst HF) (td_Name td) (td_KeySchema td) (td_GSIs td) prior next)) (\<lambda>gsiOps.
     bindr (wrapr PlanLSIErr (PlanLSI (fst HF) (td_Name td) (td_KeySchema td) (td_LSIs td) prior next)) (\<lambda>lsiOps.
     bindr (wrapr PlanSpatialErr (planSpatial HF (td_Name td) (td_KeySchema td) (td_SpatialIndexes td) prior next)) (\<lambda>spatialOps.
     bindr (wrapr PlanTTLErr (planTTL (fst HF) (td_Name td) (td_KeySchema td) (td_TTLAttribute td) prior next)) (\<lambda>ttlOps.
       Inr (gsiOps @ lsiOps @ spatialOps @ ttlOps)))))"

text \<open>The specification: everything a row contributes to the indexes of its table.\<close>

definition gsi_entries :: "hasher \<Rightarrow> TableDescriptor \<Rightarrow> Item option \<Rightarrow> kv" where
  "gsi_entries H td = entry_map (\<lambda>d. gsiEntry H (td_Name td) d (td_KeySchema td)) (td_GSIs td)"

definition lsi_entries :: "hasher \<Rightarrow> TableDescriptor \<Rightarrow> Item option \<Rightarrow> kv" where
  "lsi_entries H td = entry_map (\<lambda>d. lsiEntry H (td_Name td) d (td_KeySchema td)) (td_LSIs td)"

definition spatial_entries :: "spatial_env \<Rightarrow> TableDescriptor \<Rightarrow> Item option \<Rightarrow> kv" where
  "spatial_entries HF td = entry_map (\<lambda>d. spatialEntry HF (td_Name td) d (td_KeySchema td)) (td_SpatialIndexes td)"

definition ttl_entries :: "hasher \<Rightarrow> TableDescriptor \<Rightarrow> Item option \<Rightarrow> kv" where
  "ttl_entries H td = entry_map (\<lambda>d. ttlEntry H (td_Name td) d (td_KeySchema td)) [td_TTLAttribute td]"

definition row_entries :: "spatial_env \<Rightarrow> TableDescriptor \<Rightarrow> Item option \<Rightarrow> kv" where
  "row_entries HF td item =
     gsi_entries (fst HF) td item ++ lsi_entries (fst HF) td item ++ spatial_entries HF td item ++
     ttl_entries (fst HF) td item"

text \<open>
  The tables for which index maintenance is exact: indexes have distinct names without a slash and
  store keys only (an INCLUDE or ALL projection can go stale).
\<close>

definition indexes_ok :: "TableDescriptor \<Rightarrow> bool" where
  "indexes_ok td \<longleftrightarrow>
     distinct (map gsi_Name (td_GSIs td)) \<and>
     list_all (\<lambda>g. slash_free (gsi_Name g) \<and> keys_only (gsi_Projection g)) (td_GSIs td) \<and>
     distinct (map lsi_Name (td_LSIs td)) \<and>
     list_all (\<lambda>l. slash_free (lsi_Name l) \<and> keys_only (lsi_Projection l)) (td_LSIs td) \<and>
     distinct (map sp_Name (td_SpatialIndexes td)) \<and>
     list_all (\<lambda>s. slash_free (sp_Name s)) (td_SpatialIndexes td)"

text \<open>The key regions of a table. No key lies in two of them.\<close>

definition in_seg :: "string \<Rightarrow> string \<Rightarrow> bytes \<Rightarrow> bool" where
  "in_seg t seg k \<longleftrightarrow> prefix (bytes_of_string (TableBase t @ seg)) k"

lemma in_seg_append: "prefix (bytes_of_string (TableBase t @ seg @ rest)) k \<Longrightarrow> in_seg t seg k"
  unfolding in_seg_def by (metis append_assoc bytes_of_string_append append_prefixD)

lemma segs_apart:
  assumes "in_seg t s k" and "in_seg t s' k" and "s \<in> {SegPrimary, segGSI, segLSI, segGeo, segZorder, segTTL}"
    and "s' \<in> {SegPrimary, segGSI, segLSI, segGeo, segZorder, segTTL}"
  shows "s = s'"
proof -
  have "prefix s s' \<or> prefix s' s" using seg_apart assms(1,2) unfolding in_seg_def by blast
  with assms(3,4) show ?thesis
    by (auto simp: SegPrimary_def segGSI_def segLSI_def segGeo_def segZorder_def segTTL_def)
qed

lemma gsi_entries_seg: "gsi_entries H td i k = Some v \<Longrightarrow> in_seg (td_Name td) segGSI k"
  unfolding gsi_entries_def by (drule entry_map_SomeD) (blast dest: gsi.entry_base in_seg_append)

lemma lsi_entries_seg: "lsi_entries H td i k = Some v \<Longrightarrow> in_seg (td_Name td) segLSI k"
  unfolding lsi_entries_def by (drule entry_map_SomeD) (blast dest: lsi.entry_base in_seg_append)

lemma spatial_entries_seg:
  "spatial_entries HF td i k = Some v \<Longrightarrow> in_seg (td_Name td) segGeo k \<or> in_seg (td_Name td) segZorder k"
  unfolding spatial_entries_def
  by (drule entry_map_SomeD) (auto dest!: sp.entry_base dest: in_seg_append split: if_splits)

lemma ttl_entries_seg: "ttl_entries H td i k = Some v \<Longrightarrow> in_seg (td_Name td) segTTL k"
  unfolding ttl_entries_def by (drule entry_map_SomeD) (auto dest!: ttl.entry_base simp: in_seg_def)

lemmas entries_seg = gsi_entries_seg lsi_entries_seg spatial_entries_seg ttl_entries_seg

definition index_segs :: "string set" where
  "index_segs = {segGSI, segLSI, segGeo, segZorder, segTTL}"

lemma entries_apart:
  "dom (gsi_entries H td i) \<inter> dom (lsi_entries H' td j) = {}"
  "dom (gsi_entries H td i) \<inter> dom (spatial_entries HF td j) = {}"
  "dom (gsi_entries H td i) \<inter> dom (ttl_entries H' td j) = {}"
  "dom (lsi_entries H td i) \<inter> dom (spatial_entries HF td j) = {}"
  "dom (lsi_entries H td i) \<inter> dom (ttl_entries H' td j) = {}"
  "dom (spatial_entries HF td i) \<inter> dom (ttl_entries H' td j) = {}"
proof -
  have ne: "segGSI \<noteq> segLSI" "segGSI \<noteq> segGeo" "segGSI \<noteq> segZorder" "segGSI \<noteq> segTTL" "segLSI \<noteq> segGeo"
    "segLSI \<noteq> segZorder" "segLSI \<noteq> segTTL" "segGeo \<noteq> segTTL" "segZorder \<noteq> segTTL"
    by (simp_all add: segGSI_def segLSI_def segGeo_def segZorder_def segTTL_def)
  note apart = segs_apart [of "td_Name td"]
  show "dom (gsi_entries H td i) \<inter> dom (lsi_entries H' td j) = {}"
    using apart [of segGSI _ segLSI] ne by (blast dest: entries_seg)
  show "dom (gsi_entries H td i) \<inter> dom (spatial_entries HF td j) = {}"
    using apart [of segGSI _ segGeo] apart [of segGSI _ segZorder] ne by (blast dest: entries_seg)
  show "dom (gsi_entries H td i) \<inter> dom (ttl_entries H' td j) = {}"
    using apart [of segGSI _ segTTL] ne by (blast dest: entries_seg)
  show "dom (lsi_entries H td i) \<inter> dom (spatial_entries HF td j) = {}"
    using apart [of segLSI _ segGeo] apart [of segLSI _ segZorder] ne by (blast dest: entries_seg)
  show "dom (lsi_entries H td i) \<inter> dom (ttl_entries H' td j) = {}"
    using apart [of segLSI _ segTTL] ne by (blast dest: entries_seg)
  show "dom (spatial_entries HF td i) \<inter> dom (ttl_entries H' td j) = {}"
    using apart [of segGeo _ segTTL] apart [of segZorder _ segTTL] ne by (blast dest: entries_seg)
qed

text \<open>Moves of index families with disjoint entries compose.\<close>

lemma compose_moves:
  assumes "\<And>kv. P \<subseteq>\<^sub>m kv \<Longrightarrow> applyIndexOps a kv = (kv |` (- dom P)) ++ N"
    and "\<And>kv. P' \<subseteq>\<^sub>m kv \<Longrightarrow> applyIndexOps b kv = (kv |` (- dom P')) ++ N'"
    and "dom P \<inter> dom P' = {}" "dom N \<inter> dom P' = {}" "dom P \<inter> dom N' = {}"
    and "P ++ P' \<subseteq>\<^sub>m kv"
  shows "applyIndexOps (a @ b) kv = (kv |` (- dom (P ++ P'))) ++ (N ++ N')"
proof -
  have P: "P \<subseteq>\<^sub>m kv"
  proof (unfold map_le_def, intro ballI)
    fix x assume x: "x \<in> dom P"
    then have "P' x = None" using assms(3) by (auto simp: domIff)
    then have "(P ++ P') x = P x" by (simp add: map_add_def)
    moreover have "x \<in> dom (P ++ P')" using x by simp
    ultimately show "P x = kv x" using assms(6) unfolding map_le_def by simp
  qed
  let ?kv = "(kv |` (- dom P)) ++ N"
  have P': "P' \<subseteq>\<^sub>m ?kv"
  proof (unfold map_le_def, intro ballI)
    fix x assume x: "x \<in> dom P'"
    then have "P x = None" "N x = None" using assms(3,4) by (auto simp: domIff)
    then have "?kv x = kv x" by (simp add: map_add_def restrict_map_def domIff)
    moreover have "(P ++ P') x = P' x" using x by (auto simp: map_add_def split: option.splits)
    moreover have "x \<in> dom (P ++ P')" using x by simp
    ultimately show "P' x = ?kv x" using assms(6) unfolding map_le_def by simp
  qed
  have "applyIndexOps (a @ b) kv = (?kv |` (- dom P')) ++ N'" by (simp add: assms(1) [OF P] assms(2) [OF P'])
  also have "\<dots> = (kv |` (- dom (P ++ P'))) ++ (N ++ N')"
  proof
    fix x
    have "N' x \<noteq> None \<Longrightarrow> P x = None" "N x \<noteq> None \<Longrightarrow> P' x = None" "P x \<noteq> None \<Longrightarrow> P' x = None"
      using assms(3-5) by (auto simp: domIff)
    then show "((?kv |` (- dom P')) ++ N') x = ((kv |` (- dom (P ++ P'))) ++ (N ++ N')) x"
      by (cases "N' x"; cases "P x"; cases "P' x"; cases "N x") (simp_all add: map_add_def restrict_map_def domIff)
  qed
  finally show ?thesis .
qed

lemma planRow_refines:
  assumes "planRow HF td prior next = Inr ops" and ok: "indexes_ok td"
    and same: "same_primary (td_KeySchema td) prior next" and "row_entries HF td prior \<subseteq>\<^sub>m kv"
  shows "applyIndexOps ops kv = (kv |` (- dom (row_entries HF td prior))) ++ row_entries HF td next"
proof -
  let ?H = "fst HF" and ?t = "td_Name td" and ?ks = "td_KeySchema td"
  from assms(1) obtain g l s t where
    g: "PlanGSI ?H ?t ?ks (td_GSIs td) prior next = Inr g" and
    l: "PlanLSI ?H ?t ?ks (td_LSIs td) prior next = Inr l" and
    s: "planSpatial HF ?t ?ks (td_SpatialIndexes td) prior next = Inr s" and
    t: "planTTL ?H ?t ?ks (td_TTLAttribute td) prior next = Inr t" and
    ops: "ops = g @ l @ s @ t"
    by (auto simp: planRow_def elim!: bindr_InrE)
  have ts: "planTTLs ?H ?t ?ks [td_TTLAttribute td] prior next = Inr t" using t by simp
  let ?G = "gsi_entries ?H td" and ?L = "lsi_entries ?H td" and ?S = "spatial_entries HF td" and ?T = "ttl_entries ?H td"
  have gk: "applyIndexOps g kv = (kv |` (- dom (?G prior))) ++ ?G next" if "?G prior \<subseteq>\<^sub>m kv" for kv
    using gsi.plan_refines [OF g _ _ same] that ok by (simp add: gsi_entries_def indexes_ok_def)
  have lk: "applyIndexOps l kv = (kv |` (- dom (?L prior))) ++ ?L next" if "?L prior \<subseteq>\<^sub>m kv" for kv
    using lsi.plan_refines [OF l _ _ same] that ok by (simp add: lsi_entries_def indexes_ok_def)
  have sk: "applyIndexOps s kv = (kv |` (- dom (?S prior))) ++ ?S next" if "?S prior \<subseteq>\<^sub>m kv" for kv
    using sp.plan_refines [OF s _ _ same] that ok by (simp add: spatial_entries_def indexes_ok_def)
  have tk: "applyIndexOps t kv = (kv |` (- dom (?T prior))) ++ ?T next" if "?T prior \<subseteq>\<^sub>m kv" for kv
    using ttl.plan_refines [OF ts _ _ same] that by (simp add: ttl_entries_def slash_free_def)
  have st: "applyIndexOps (s @ t) kv = (kv |` (- dom (?S prior ++ ?T prior))) ++ (?S next ++ ?T next)"
    if "?S prior ++ ?T prior \<subseteq>\<^sub>m kv" for kv
    by (rule compose_moves [OF sk tk _ _ _ that]) (simp_all only: entries_apart)
  have lst: "applyIndexOps (l @ s @ t) kv
      = (kv |` (- dom (?L prior ++ (?S prior ++ ?T prior)))) ++ (?L next ++ (?S next ++ ?T next))"
    if "?L prior ++ (?S prior ++ ?T prior) \<subseteq>\<^sub>m kv" for kv
    by (rule compose_moves [OF lk st _ _ _ that]) (simp_all only: entries_apart dom_map_add Int_Un_distrib sup_bot.right_neutral)
  have "applyIndexOps (g @ l @ s @ t) kv
      = (kv |` (- dom (?G prior ++ (?L prior ++ (?S prior ++ ?T prior))))) ++ (?G next ++ (?L next ++ (?S next ++ ?T next)))"
  proof (rule compose_moves [OF gk lst])
    show "?G prior ++ (?L prior ++ (?S prior ++ ?T prior)) \<subseteq>\<^sub>m kv"
      using assms(4) by (simp add: row_entries_def map_add_assoc)
  qed (simp_all only: entries_apart dom_map_add Int_Un_distrib sup_bot.right_neutral)
  then show ?thesis by (simp add: ops row_entries_def map_add_assoc)
qed

lemma entry_map_empty: "(\<And>d. e d i = Inr None) \<Longrightarrow> entry_map e ds i = Map.empty"
  by (induction ds) (simp_all add: entry_map_Cons)

lemma row_entries_None [simp]: "row_entries HF td None = Map.empty"
proof -
  have "gsi_entries H td None = Map.empty" "lsi_entries H td None = Map.empty"
    "spatial_entries HF td None = Map.empty" "ttl_entries H td None = Map.empty" for H
    unfolding gsi_entries_def lsi_entries_def spatial_entries_def ttl_entries_def
    by (rule entry_map_empty, simp add: gsiEntry_def lsiEntry_def spatialEntry_def ttlEntry_def ttlKey_def)+
  then show ?thesis by (simp add: row_entries_def)
qed

text \<open>An index entry is never a primary key.\<close>

lemma row_entries_not_primary: "row_entries HF td i k = Some v \<Longrightarrow> \<not> in_seg (td_Name td) SegPrimary k"
proof
  assume "row_entries HF td i k = Some v" and p: "in_seg (td_Name td) SegPrimary k"
  then obtain s where "s \<in> index_segs" "in_seg (td_Name td) s k"
    by (auto simp: row_entries_def map_add_Some_iff index_segs_def dest: entries_seg)
  with p segs_apart [of "td_Name td" SegPrimary k s] have "s = SegPrimary" by (auto simp: index_segs_def)
  with \<open>s \<in> index_segs\<close> show False
    by (auto simp: index_segs_def SegPrimary_def segGSI_def segLSI_def segGeo_def segZorder_def segTTL_def)
qed

end
