(* ===== verification/Condition.thy ===== *)
theory Condition
  imports ItemCodec
begin

text \<open>
  Condition expressions of \<^verbatim>\<open>internal/storage/condition.go\<close>: the tokenizer, the recursive
  descent parser, and evaluation against an item.

  The tokenizer works on the runes of the source (\<^verbatim>\<open>[]rune(src)\<close>), so a source is a list of
  runes here. The Unicode classes it consults are the record \<open>unicode\<close>, a parameter: nothing
  is assumed of it except, in the round-trip theorem, its values on ASCII. The parser state
  \<^verbatim>\<open>tokens, pos\<close> is the list of the tokens from \<^verbatim>\<open>pos\<close> on. A nil item behaves like an empty
  map in every lookup and is the empty item.
\<close>

type_synonym rune = nat

record unicode =
  IsSpace :: "rune \<Rightarrow> bool"
  IsLetter :: "rune \<Rightarrow> bool"
  IsDigit :: "rune \<Rightarrow> bool"
  ToUpper :: "rune \<Rightarrow> rune"

text \<open>The UTF-8 bytes of a rune, as the conversion \<^verbatim>\<open>string(runes)\<close> writes them.\<close>

definition EncodeRune :: "rune \<Rightarrow> string" where
  "EncodeRune r =
     (if r < 0x80 then [char_of r]
      else if r < 0x800 then [char_of (0xC0 + r div 64), char_of (0x80 + r mod 64)]
      else if 0x10FFFF < r \<or> (0xD800 \<le> r \<and> r \<le> 0xDFFF) then
        [char_of (0xEF :: nat), char_of (0xBF :: nat), char_of (0xBD :: nat)]
      else if r < 0x10000 then
        [char_of (0xE0 + r div 4096), char_of (0x80 + r div 64 mod 64), char_of (0x80 + r mod 64)]
      else
        [char_of (0xF0 + r div 262144), char_of (0x80 + r div 4096 mod 64),
         char_of (0x80 + r div 64 mod 64), char_of (0x80 + r mod 64)])"

definition string_of_runes :: "rune list \<Rightarrow> string" where
  "string_of_runes rs = concat (map EncodeRune rs)"

definition runes :: "string \<Rightarrow> rune list" where
  "runes s = map of_char s"

datatype cond_error =
    BindMissingName nat
  | UnexpectedCharacter rune nat
  | UnexpectedToken string
  | ExpectedToken string
  | UnexpectedEnd
  | ExpectedOperator
  | UnsupportedOperator string
  | ExpectedOperand
  | NotAnOperand string
  | BindNotProvided string
  | CannotCompare byte byte
  | CompareUnsupported byte
  | UnknownOperator string
  | TokenizeErr cond_error

section \<open>Tokens\<close>

datatype tokenKind =
    tIdent | tBind | tLParen | tRParen | tComma | tEq | tNeq | tLt | tLte | tGt | tGte
  | tAnd | tOr | tNot | tBetween | tAttrExists | tAttrNotExists

record token =
  kind :: tokenKind
  lit :: string

definition mkToken :: "tokenKind \<Rightarrow> string \<Rightarrow> token" where
  "mkToken k s = \<lparr>kind = k, lit = s\<rparr>"

definition isWordRune :: "unicode \<Rightarrow> rune \<Rightarrow> bool" where
  "isWordRune U c \<longleftrightarrow> IsLetter U c \<or> IsDigit U c \<or> c = of_char (CHR ''_'')"

text \<open>The \<^verbatim>\<open>switch strings.ToUpper(word)\<close>.\<close>

definition wordKind :: "unicode \<Rightarrow> rune list \<Rightarrow> tokenKind" where
  "wordKind U word =
     (let up = map (ToUpper U) word in
      if up = runes ''AND'' then tAnd
      else if up = runes ''OR'' then tOr
      else if up = runes ''NOT'' then tNot
      else if up = runes ''BETWEEN'' then tBetween
      else if up = runes ''ATTRIBUTE_EXISTS'' then tAttrExists
      else if up = runes ''ATTRIBUTE_NOT_EXISTS'' then tAttrNotExists
      else tIdent)"

text \<open>One iteration of the loop: the token it appends, if any, and the runes it leaves.\<close>

definition nextToken ::
  "unicode \<Rightarrow> nat \<Rightarrow> rune \<Rightarrow> rune list \<Rightarrow> cond_error + (token option \<times> rune list)" where
  "nextToken U i c rest =
     (if IsSpace U c then Inr (None, rest)
      else if c = of_char (CHR ''('') then Inr (Some (mkToken tLParen ''(''), rest)
      else if c = of_char (CHR '')'') then Inr (Some (mkToken tRParen '')''), rest)
      else if c = of_char (CHR '','') then Inr (Some (mkToken tComma '',''), rest)
      else if c = of_char (CHR ''='') then Inr (Some (mkToken tEq ''=''), rest)
      else if c = of_char (CHR ''<'') then
        (if rest \<noteq> [] \<and> hd rest = of_char (CHR ''='') then Inr (Some (mkToken tLte ''<=''), tl rest)
         else if rest \<noteq> [] \<and> hd rest = of_char (CHR ''>'') then Inr (Some (mkToken tNeq ''<>''), tl rest)
         else Inr (Some (mkToken tLt ''<''), rest))
      else if c = of_char (CHR ''>'') then
        (if rest \<noteq> [] \<and> hd rest = of_char (CHR ''='') then Inr (Some (mkToken tGte ''>=''), tl rest)
         else Inr (Some (mkToken tGt ''>''), rest))
      else if c = of_char (CHR '':'') then
        (let name = takeWhile (isWordRune U) rest in
         if name = [] then Inl (BindMissingName i)
         else Inr (Some (mkToken tBind (string_of_runes name)), dropWhile (isWordRune U) rest))
      else if IsLetter U c \<or> c = of_char (CHR ''_'') then
        (let word = takeWhile (isWordRune U) (c # rest) in
         Inr (Some (mkToken (wordKind U word) (string_of_runes word)),
              dropWhile (isWordRune U) (c # rest)))
      else Inl (UnexpectedCharacter c i))"

lemma nextToken_shorter:
  "nextToken U i c rest = Inr (t, r) \<Longrightarrow> length r \<le> length rest"
proof -
  have dw: "length (dropWhile P xs) \<le> length xs" for P and xs :: "rune list"
    by (simp add: length_dropWhile_le)
  show "nextToken U i c rest = Inr (t, r) \<Longrightarrow> length r \<le> length rest"
    using dw [of "isWordRune U" rest]
    by (auto simp: nextToken_def Let_def isWordRune_def split: if_splits)
qed

function tokenizeFrom :: "unicode \<Rightarrow> nat \<Rightarrow> rune list \<Rightarrow> cond_error + token list" where
  "tokenizeFrom U i [] = Inr []"
| "tokenizeFrom U i (c # rest) =
     bindr (nextToken U i c rest) (\<lambda>(t, r).
       bindr (tokenizeFrom U (i + (length (c # rest) - length r)) r) (\<lambda>out.
         Inr (case t of None \<Rightarrow> out | Some tok \<Rightarrow> tok # out)))"
  by pat_completeness auto
termination
  by (relation "measure (\<lambda>(U, i, rs). length rs)") (auto dest: nextToken_shorter)

definition tokenize :: "unicode \<Rightarrow> rune list \<Rightarrow> cond_error + token list" where
  "tokenize U src = tokenizeFrom U 0 src"

section \<open>Syntax trees\<close>

datatype operand = opAttr string | opBind string

datatype node =
    existsNode string bool
  | notNode node
  | boolNode string node node
  | cmpNode string operand operand
  | betweenNode operand operand operand

section \<open>Parser\<close>

definition expect :: "tokenKind \<Rightarrow> string \<Rightarrow> token list \<Rightarrow> cond_error + (token \<times> token list)" where
  "expect k want toks =
     (case toks of
        [] \<Rightarrow> Inl (ExpectedToken want)
      | t # rest \<Rightarrow> if kind t \<noteq> k then Inl (ExpectedToken want) else Inr (t, rest))"

definition parseOperand :: "token list \<Rightarrow> cond_error + (operand \<times> token list)" where
  "parseOperand toks =
     (case toks of
        [] \<Rightarrow> Inl ExpectedOperand
      | t # rest \<Rightarrow>
          (case kind t of
             tIdent \<Rightarrow> Inr (opAttr (lit t), rest)
           | tBind \<Rightarrow> Inr (opBind (lit t), rest)
           | _ \<Rightarrow> Inl (NotAnOperand (lit t))))"

definition parseExists :: "bool \<Rightarrow> token list \<Rightarrow> cond_error + (node \<times> token list)" where
  "parseExists negate toks =
     bindr (expect tLParen ''('' toks) (\<lambda>(_, r1).
     bindr (expect tIdent ''attribute name'' r1) (\<lambda>(idt, r2).
     bindr (expect tRParen '')'' r2) (\<lambda>(_, r3).
       Inr (existsNode (lit idt) negate, r3))))"

definition parseComparison :: "token list \<Rightarrow> cond_error + (node \<times> token list)" where
  "parseComparison toks =
     bindr (parseOperand toks) (\<lambda>(left, r1).
       case r1 of
         [] \<Rightarrow> Inl ExpectedOperator
       | op # r2 \<Rightarrow>
           if kind op = tBetween then
             bindr (parseOperand r2) (\<lambda>(lo, r3).
             bindr (expect tAnd ''AND'' r3) (\<lambda>(_, r4).
             bindr (parseOperand r4) (\<lambda>(hi, r5).
               Inr (betweenNode left lo hi, r5))))
           else if kind op \<in> {tEq, tNeq, tLt, tLte, tGt, tGte} then
             bindr (parseOperand r2) (\<lambda>(right, r3). Inr (cmpNode (lit op) left right, r3))
           else Inl (UnsupportedOperator (lit op)))"

lemma expect_length: "expect k w toks = Inr (t, r) \<Longrightarrow> length r < length toks"
  by (auto simp: expect_def split: list.splits if_splits)

lemma parseOperand_length: "parseOperand toks = Inr (t, r) \<Longrightarrow> length r < length toks"
  by (auto simp: parseOperand_def split: list.splits tokenKind.splits)

lemma parseExists_length: "parseExists neg toks = Inr (n, r) \<Longrightarrow> length r < length toks"
  by (auto simp: parseExists_def elim!: bindr_InrE dest!: expect_length)

lemma parseComparison_length: "parseComparison toks = Inr (n, r) \<Longrightarrow> length r < length toks"
  by (auto simp: parseComparison_def elim!: bindr_InrE dest!: expect_length parseOperand_length
      split: list.splits if_splits)

lemmas parse_lengths = expect_length parseOperand_length parseExists_length parseComparison_length

text \<open>\<open>parseOrLoop\<close> and \<open>parseAndLoop\<close> are the \<^verbatim>\<open>for\<close> loops, \<open>left\<close> the node built so far.\<close>

function (sequential) parseOr :: "token list \<Rightarrow> cond_error + (node \<times> token list)"
  and parseOrLoop :: "node \<Rightarrow> token list \<Rightarrow> cond_error + (node \<times> token list)"
  and parseAnd :: "token list \<Rightarrow> cond_error + (node \<times> token list)"
  and parseAndLoop :: "node \<Rightarrow> token list \<Rightarrow> cond_error + (node \<times> token list)"
  and parseNot :: "token list \<Rightarrow> cond_error + (node \<times> token list)"
  and parsePrimary :: "token list \<Rightarrow> cond_error + (node \<times> token list)"
where
  "parseOr toks = bindr (parseAnd toks) (\<lambda>(left, r). parseOrLoop left r)"
| "parseOrLoop left [] = Inr (left, [])"
| "parseOrLoop left (t # r) =
     (if kind t \<noteq> tOr then Inr (left, t # r)
      else bindr (parseAnd r) (\<lambda>(right, r'). parseOrLoop (boolNode ''OR'' left right) r'))"
| "parseAnd toks = bindr (parseNot toks) (\<lambda>(left, r). parseAndLoop left r)"
| "parseAndLoop left [] = Inr (left, [])"
| "parseAndLoop left (t # r) =
     (if kind t \<noteq> tAnd then Inr (left, t # r)
      else bindr (parseNot r) (\<lambda>(right, r'). parseAndLoop (boolNode ''AND'' left right) r'))"
| "parseNot [] = parsePrimary []"
| "parseNot (t # r) =
     (if kind t = tNot then bindr (parseNot r) (\<lambda>(inner, r'). Inr (notNode inner, r'))
      else parsePrimary (t # r))"
| "parsePrimary [] = Inl UnexpectedEnd"
| "parsePrimary (t # r) =
     (if kind t = tLParen then
        bindr (parseOr r) (\<lambda>(inner, r1).
        bindr (expect tRParen '')'' r1) (\<lambda>(_, r2). Inr (inner, r2)))
      else if kind t = tAttrExists \<or> kind t = tAttrNotExists then
        parseExists (kind t = tAttrNotExists) r
      else parseComparison (t # r))"
  by pat_completeness auto

text \<open>Every parser consumes at least a token, and the loops none or more.\<close>

lemma parse_consumes_dom:
  shows "parseOr_parseOrLoop_parseAnd_parseAndLoop_parseNot_parsePrimary_dom (Inl (Inl toks)) \<Longrightarrow>
           parseOr toks = Inr (n, r) \<Longrightarrow> length r < length toks"
    and "parseOr_parseOrLoop_parseAnd_parseAndLoop_parseNot_parsePrimary_dom (Inl (Inr (Inl (left, toks)))) \<Longrightarrow>
           parseOrLoop left toks = Inr (n, r) \<Longrightarrow> length r \<le> length toks"
    and "parseOr_parseOrLoop_parseAnd_parseAndLoop_parseNot_parsePrimary_dom (Inl (Inr (Inr toks))) \<Longrightarrow>
           parseAnd toks = Inr (n, r) \<Longrightarrow> length r < length toks"
    and "parseOr_parseOrLoop_parseAnd_parseAndLoop_parseNot_parsePrimary_dom (Inr (Inl (left, toks))) \<Longrightarrow>
           parseAndLoop left toks = Inr (n, r) \<Longrightarrow> length r \<le> length toks"
    and "parseOr_parseOrLoop_parseAnd_parseAndLoop_parseNot_parsePrimary_dom (Inr (Inr (Inl toks))) \<Longrightarrow>
           parseNot toks = Inr (n, r) \<Longrightarrow> length r < length toks"
    and "parseOr_parseOrLoop_parseAnd_parseAndLoop_parseNot_parsePrimary_dom (Inr (Inr (Inr toks))) \<Longrightarrow>
           parsePrimary toks = Inr (n, r) \<Longrightarrow> length r < length toks"
proof (induction toks and left toks and toks and left toks and toks and toks
    arbitrary: n r and n r and n r and n r and n r and n r
    rule: parseOr_parseOrLoop_parseAnd_parseAndLoop_parseNot_parsePrimary.pinduct)
  case (1 toks)
  from 1(4) obtain l q where a: "parseAnd toks = Inr (l, q)" and b: "parseOrLoop l q = Inr (n, r)"
    by (auto simp: parseOr.psimps [OF 1(1)] elim!: bindr_InrE)
  from 1(2) [OF a] 1(3) [OF a refl b] show ?case by simp
next
  case (2 left)
  then show ?case by (simp add: parseOrLoop.psimps)
next
  case (3 left t r0)
  show ?case
  proof (cases "kind t = tOr")
    case True
    with 3(4) obtain l q where a: "parseAnd r0 = Inr (l, q)"
      and b: "parseOrLoop (boolNode ''OR'' left l) q = Inr (n, r)"
      by (auto simp: parseOrLoop.psimps(2) [OF 3(1)] elim!: bindr_InrE)
    from 3(2) [OF _ a] 3(3) [OF _ a refl b] True show ?thesis by simp
  qed (use 3(4) in \<open>simp add: parseOrLoop.psimps(2) [OF 3(1)]\<close>)
next
  case (4 toks)
  from 4(4) obtain l q where a: "parseNot toks = Inr (l, q)" and b: "parseAndLoop l q = Inr (n, r)"
    by (auto simp: parseAnd.psimps [OF 4(1)] elim!: bindr_InrE)
  from 4(2) [OF a] 4(3) [OF a refl b] show ?case by simp
next
  case (5 left)
  then show ?case by (simp add: parseAndLoop.psimps)
next
  case (6 left t r0)
  show ?case
  proof (cases "kind t = tAnd")
    case True
    with 6(4) obtain l q where a: "parseNot r0 = Inr (l, q)"
      and b: "parseAndLoop (boolNode ''AND'' left l) q = Inr (n, r)"
      by (auto simp: parseAndLoop.psimps(2) [OF 6(1)] elim!: bindr_InrE)
    from 6(2) [OF _ a] 6(3) [OF _ a refl b] True show ?thesis by simp
  qed (use 6(4) in \<open>simp add: parseAndLoop.psimps(2) [OF 6(1)]\<close>)
next
  case 7
  then show ?case by (simp add: parseNot.psimps)
next
  case (8 t r0)
  show ?case
  proof (cases "kind t = tNot")
    case True
    with 8(4) obtain m where "parseNot r0 = Inr (m, r)"
      by (auto simp: parseNot.psimps(2) [OF 8(1)] elim!: bindr_InrE)
    with 8(2) True show ?thesis by fastforce
  next
    case False
    with 8(3,4) show ?thesis by (simp add: parseNot.psimps(2) [OF 8(1)])
  qed
next
  case 9
  then show ?case by (simp add: parsePrimary.psimps)
next
  case (10 t r0)
  show ?case
  proof (cases "kind t = tLParen")
    case True
    with 10(3) obtain m q x where a: "parseOr r0 = Inr (m, q)" and "expect tRParen '')'' q = Inr (x, r)"
      by (auto simp: parsePrimary.psimps(2) [OF 10(1)] elim!: bindr_InrE)
    with 10(2) [OF True a] show ?thesis by (auto dest: expect_length)
  qed (use 10(3) in \<open>auto simp: parsePrimary.psimps(2) [OF 10(1)] split: if_splits
        dest: parseExists_length parseComparison_length\<close>)
qed

lemma parse_total: "All parseOr_parseOrLoop_parseAnd_parseAndLoop_parseNot_parsePrimary_dom"
  by (relation "measures [\<lambda>x. case x of Inl (Inl t) \<Rightarrow> length t | Inl (Inr (Inl (_, t))) \<Rightarrow> length t
      | Inl (Inr (Inr t)) \<Rightarrow> length t | Inr (Inl (_, t)) \<Rightarrow> length t
      | Inr (Inr (Inl t)) \<Rightarrow> length t | Inr (Inr (Inr t)) \<Rightarrow> length t,
      \<lambda>x. case x of Inl (Inl t) \<Rightarrow> 5 | Inl (Inr (Inl (_, t))) \<Rightarrow> 4
      | Inl (Inr (Inr t)) \<Rightarrow> 3 | Inr (Inl (_, t)) \<Rightarrow> 2
      | Inr (Inr (Inl t)) \<Rightarrow> 1 | Inr (Inr (Inr t)) \<Rightarrow> (0 :: nat)]")
    (auto dest!: parse_consumes_dom)

termination parseOr
  by (rule parse_total)

declare parseOr.simps [simp del] parseAnd.simps [simp del]

text \<open>A condition is \<open>None\<close> for the nil root, which \<^verbatim>\<open>EmptyCondition\<close> has.\<close>

type_synonym Condition = "node option"

definition EmptyCondition :: Condition where
  "EmptyCondition = None"

definition IsZero :: "Condition \<Rightarrow> bool" where
  "IsZero c \<longleftrightarrow> c = None"

definition ParseCondition :: "unicode \<Rightarrow> rune list \<Rightarrow> cond_error + Condition" where
  "ParseCondition U src =
     (if list_all (IsSpace U) src then Inr EmptyCondition
      else bindr (wrapr TokenizeErr (tokenize U src)) (\<lambda>toks.
        bindr (parseOr toks) (\<lambda>(root, rest).
          case rest of [] \<Rightarrow> Inr (Some root) | t # _ \<Rightarrow> Inl (UnexpectedToken (lit t)))))"

section \<open>Evaluation\<close>

text \<open>\<^verbatim>\<open>strings.Compare\<close> and \<^verbatim>\<open>boolToInt\<close>.\<close>

definition stringsCompare :: "string \<Rightarrow> string \<Rightarrow> int" where
  "stringsCompare a b = (if a = b then 0 else if a < b then - 1 else 1)"

definition boolToInt :: "bool \<Rightarrow> int" where
  "boolToInt b = (if b then 1 else 0)"

text \<open>The loop runs to the shorter length.\<close>

fun commonPrefixCmp :: "bytes \<Rightarrow> bytes \<Rightarrow> int" where
  "commonPrefixCmp (x # a) (y # b) =
     (if x < y then - 1 else if y < x then 1 else commonPrefixCmp a b)"
| "commonPrefixCmp [] b = 0"
| "commonPrefixCmp (x # a) [] = 0"

definition bytesCompare :: "bytes \<Rightarrow> bytes \<Rightarrow> int" where
  "bytesCompare a b =
     (if length a < length b \<and> commonPrefixCmp a b = 0 then - 1
      else if length b < length a \<and> commonPrefixCmp a b = 0 then 1
      else commonPrefixCmp a b)"

fun compareAV :: "AttributeValue \<Rightarrow> AttributeValue \<Rightarrow> cond_error + int" where
  "compareAV a b =
     (if AttrType a \<noteq> AttrType b then Inl (CannotCompare (AttrType a) (AttrType b))
      else
        (case (a, b) of
           (AttrS x, AttrS y) \<Rightarrow> Inr (stringsCompare x y)
         | (AttrN x, AttrN y) \<Rightarrow> Inr (stringsCompare x y)
         | (AttrB x, AttrB y) \<Rightarrow> Inr (bytesCompare x y)
         | (AttrBOOL x, AttrBOOL y) \<Rightarrow>
             Inr (if boolToInt x < boolToInt y then - 1 else if boolToInt y < boolToInt x then 1 else 0)
         | _ \<Rightarrow> Inl (CompareUnsupported (AttrType a))))"

declare compareAV.simps [simp del]

text \<open>An attribute that the item lacks resolves to \<open>None\<close>; a missing bind is an error.\<close>

fun resolve :: "operand \<Rightarrow> Item \<Rightarrow> Item \<Rightarrow> cond_error + AttributeValue option" where
  "resolve (opAttr name) item binds = Inr (map_of item name)"
| "resolve (opBind name) item binds =
     (case map_of binds name of None \<Rightarrow> Inl (BindNotProvided name) | Some av \<Rightarrow> Inr (Some av))"

text \<open>The zero \<^verbatim>\<open>AttributeValue\<close> that an absent attribute leaves behind has the Null tag.\<close>

definition orZero :: "AttributeValue option \<Rightarrow> AttributeValue" where
  "orZero v = (case v of None \<Rightarrow> AttrNull | Some av \<Rightarrow> av)"

definition applyOp :: "string \<Rightarrow> int \<Rightarrow> cond_error + bool" where
  "applyOp op c =
     (if op = ''='' then Inr (c = 0)
      else if op = ''<>'' then Inr (c \<noteq> 0)
      else if op = ''<'' then Inr (c < 0)
      else if op = ''<='' then Inr (c \<le> 0)
      else if op = ''>'' then Inr (0 < c)
      else if op = ''>='' then Inr (0 \<le> c)
      else Inl (UnknownOperator op))"

primrec eval :: "node \<Rightarrow> Item \<Rightarrow> Item \<Rightarrow> cond_error + bool" where
  "eval (existsNode attr negate) item b =
     Inr (if negate then map_of item attr = None else map_of item attr \<noteq> None)"
| "eval (notNode inner) item b = bindr (eval inner item b) (\<lambda>v. Inr (\<not> v))"
| "eval (boolNode op l r) item b =
     bindr (eval l item b) (\<lambda>lv.
       if op = ''AND'' \<and> \<not> lv then Inr False
       else if op = ''OR'' \<and> lv then Inr True
       else eval r item b)"
| "eval (cmpNode op l r) item b =
     bindr (resolve l item b) (\<lambda>lv.
     bindr (resolve r item b) (\<lambda>rv.
       if lv = None \<or> rv = None then Inr False
       else bindr (compareAV (the lv) (the rv)) (applyOp op)))"
| "eval (betweenNode v lo hi) item b =
     bindr (resolve v item b) (\<lambda>vv.
       if vv = None then Inr False
       else
         bindr (resolve lo item b) (\<lambda>lv.
         bindr (resolve hi item b) (\<lambda>hv.
         bindr (compareAV (the vv) (orZero lv)) (\<lambda>cl.
         bindr (compareAV (the vv) (orZero hv)) (\<lambda>ch.
           Inr (0 \<le> cl \<and> ch \<le> 0))))))"

definition Evaluate :: "Condition \<Rightarrow> Item \<Rightarrow> Item \<Rightarrow> cond_error + bool" where
  "Evaluate c item binds = (case c of None \<Rightarrow> Inr True | Some root \<Rightarrow> eval root item binds)"

section \<open>Comparison is the byte-wise order\<close>

lemma commonPrefixCmp_zero: "commonPrefixCmp a b = 0 \<longleftrightarrow> prefix a b \<or> prefix b a"
  by (induction a b rule: commonPrefixCmp.induct) auto

lemma bytesCompare_order:
  "bytesCompare a b = (if a = b then 0 else if a < b then - 1 else 1)"
proof (induction a b rule: commonPrefixCmp.induct)
  case (1 x a y b)
  then show ?case by (auto simp: bytesCompare_def split: if_splits)
next
  case (2 b)
  then show ?case by (cases b) (auto simp: bytesCompare_def)
next
  case (3 x a)
  then show ?case by (auto simp: bytesCompare_def)
qed

text \<open>The values a comparison orders: strings and numbers by their text, binaries, booleans.\<close>

fun compare_key :: "AttributeValue \<Rightarrow> (byte \<times> bytes) option" where
  "compare_key (AttrS s) = Some (1, bytes_of_string s)"
| "compare_key (AttrN s) = Some (2, bytes_of_string s)"
| "compare_key (AttrB b) = Some (3, b)"
| "compare_key (AttrBOOL b) = Some (4, if b then [1] else [0])"
| "compare_key _ = None"

lemma of_char_byte_less: "(of_char c :: byte) < of_char d \<longleftrightarrow> c < d"
  by (simp add: word_less_nat_alt less_char_def)

lemma of_char_byte_eq: "(of_char c :: byte) = of_char d \<longleftrightarrow> c = d"
  by (metis unat_of_char_byte of_char_eq_iff)

lemma bytes_of_string_less: "bytes_of_string s < bytes_of_string t \<longleftrightarrow> s < t"
proof (induction s arbitrary: t)
  case Nil
  then show ?case by (cases t) (simp_all add: bytes_of_string_def)
next
  case (Cons c s)
  then show ?case
    by (cases t) (simp_all add: bytes_of_string_def of_char_byte_less of_char_byte_eq)
qed

lemma compareAV_Inr:
  "compareAV a b = Inr c \<longleftrightarrow>
     (\<exists>t x y. compare_key a = Some (t, x) \<and> compare_key b = Some (t, y) \<and>
        c = (if x = y then 0 else if x < y then - 1 else 1))"
  by (cases a; cases b) (auto simp: compareAV.simps stringsCompare_def bytesCompare_order bytes_of_string_less boolToInt_def)

lemma compare_key_inject: "compare_key a = Some k \<Longrightarrow> compare_key b = Some k \<Longrightarrow> a = b"
  by (cases a; cases b) (auto split: if_splits)

text \<open>
  Comparison of attribute values is a total order on each comparable type: swapping the
  arguments flips the sign, zero means the values are identical, and \<open>\<le>\<close> is transitive
  (and strict as soon as one step is).
\<close>

lemma compare_total_order:
  assumes "compareAV a b = Inr c1" and "compareAV b d = Inr c2"
  shows "compareAV b a = Inr (- c1) \<and> (c1 = 0 \<longleftrightarrow> a = b) \<and>
    (c1 \<le> 0 \<and> c2 \<le> 0 \<longrightarrow> (\<exists>c\<le>0. compareAV a d = Inr c \<and> (c = 0 \<longrightarrow> c1 = 0 \<and> c2 = 0)))"
proof -
  from assms obtain t x y z where keys: "compare_key a = Some (t, x)" "compare_key b = Some (t, y)"
      "compare_key d = Some (t, z)"
    and c: "c1 = (if x = y then 0 else if x < y then - 1 else 1)"
      "c2 = (if y = z then 0 else if y < z then - 1 else 1)"
    unfolding compareAV_Inr by auto
  have "compareAV b a = Inr (- c1)" unfolding compareAV_Inr using keys c by auto
  moreover have "c1 = 0 \<longleftrightarrow> a = b" using keys c compare_key_inject [of a _ b] by auto
  moreover have "\<exists>c\<le>0. compareAV a d = Inr c \<and> (c = 0 \<longrightarrow> c1 = 0 \<and> c2 = 0)" if "c1 \<le> 0" "c2 \<le> 0"
  proof (intro exI conjI)
    show "compareAV a d = Inr (if x = z then 0 else if x < z then - 1 else 1)"
      unfolding compareAV_Inr using keys by auto
  qed (use that c in \<open>auto split: if_splits\<close>)
  ultimately show ?thesis by blast
qed

theorem compare_total_order_witness:
  "compareAV (AttrS ''b'') (AttrS ''a'') = Inr 1 \<and>
   (\<exists>c\<le>0. compareAV (AttrS ''a'') (AttrS ''c'') = Inr c)"
proof -
  have "compareAV (AttrS ''a'') (AttrS ''b'') = Inr (- 1)" "compareAV (AttrS ''b'') (AttrS ''c'') = Inr (- 1)"
    by (simp_all add: compareAV.simps stringsCompare_def less_char_def)
  from compare_total_order [OF this] show ?thesis by auto
qed

text \<open>Numbers compare as text, so even canonical decimals of different length misorder.\<close>

lemma numbers_compare_as_text: "compareAV (AttrN ''10'') (AttrN ''9'') = Inr (- 1)"
  by (simp add: compareAV.simps stringsCompare_def less_char_def)

section \<open>Well-formed syntax trees\<close>

fun node_wf :: "node \<Rightarrow> bool" where
  "node_wf (existsNode _ _) = True"
| "node_wf (notNode n) = node_wf n"
| "node_wf (boolNode op l r) = ((op = ''AND'' \<or> op = ''OR'') \<and> node_wf l \<and> node_wf r)"
| "node_wf (cmpNode op _ _) = (op \<in> {''='', ''<>'', ''<'', ''<='', ''>'', ''>=''})"
| "node_wf (betweenNode _ _ _) = True"

definition token_wf :: "token \<Rightarrow> bool" where
  "token_wf t \<longleftrightarrow>
     (kind t \<in> {tEq, tNeq, tLt, tLte, tGt, tGte} \<longrightarrow> lit t \<in> {''='', ''<>'', ''<'', ''<='', ''>'', ''>=''})"

lemma wordKind_not_op: "wordKind U w \<notin> {tEq, tNeq, tLt, tLte, tGt, tGte}"
  by (simp add: wordKind_def Let_def)

lemma nextToken_wf: "nextToken U i c rest = Inr (Some t, r) \<Longrightarrow> token_wf t"
  using wordKind_not_op [of U]
  by (auto simp: nextToken_def token_wf_def mkToken_def Let_def split: if_splits)

lemma tokenizeFrom_wf: "tokenizeFrom U i rs = Inr toks \<Longrightarrow> list_all token_wf toks"
proof (induction U i rs arbitrary: toks rule: tokenizeFrom.induct)
  case (2 U i c rest)
  from 2(2) obtain t r out where t: "nextToken U i c rest = Inr (t, r)"
    and out: "tokenizeFrom U (i + (length (c # rest) - length r)) r = Inr out"
    and toks: "toks = (case t of None \<Rightarrow> out | Some tok \<Rightarrow> tok # out)"
    by (auto elim!: bindr_InrE)
  from 2(1) [OF t refl out] t toks show ?case by (auto split: option.splits dest: nextToken_wf)
qed simp

lemma parseExists_wf:
  "parseExists neg toks = Inr (n, r) \<Longrightarrow> list_all token_wf toks \<Longrightarrow> node_wf n \<and> list_all token_wf r"
  by (auto simp: parseExists_def expect_def elim!: bindr_InrE split: list.splits if_splits)

lemma parseOperand_wf:
  "parseOperand toks = Inr (n, r) \<Longrightarrow> list_all token_wf toks \<Longrightarrow> list_all token_wf r"
  by (auto simp: parseOperand_def split: list.splits tokenKind.splits)

lemma expect_wf: "expect k w toks = Inr (t, r) \<Longrightarrow> list_all token_wf toks \<Longrightarrow> list_all token_wf r"
  by (auto simp: expect_def split: list.splits if_splits)

lemma parseComparison_wf:
  assumes "parseComparison toks = Inr (n, r)" and "list_all token_wf toks"
  shows "node_wf n \<and> list_all token_wf r"
proof -
  from assms(1) obtain left r1 where l1: "parseOperand toks = Inr (left, r1)"
    unfolding parseComparison_def by (elim bindr_InrE) auto
  with assms(1) obtain op r2 where "r1 = op # r2"
    by (cases r1) (simp_all add: parseComparison_def)
  with l1 have left: "parseOperand toks = Inr (left, op # r2)" by simp
  have wf: "token_wf op" "list_all token_wf r2" using parseOperand_wf [OF left assms(2)] by simp_all
  show ?thesis
  proof (cases "kind op = tBetween")
    case True
    with assms(1) left obtain lo r3 x r4 hi where p: "parseOperand r2 = Inr (lo, r3)"
      "expect tAnd ''AND'' r3 = Inr (x, r4)" "parseOperand r4 = Inr (hi, r)" and n: "n = betweenNode left lo hi"
      by (auto simp: parseComparison_def elim!: bindr_InrE)
    have "list_all token_wf r"
      by (rule parseOperand_wf [OF p(3) expect_wf [OF p(2) parseOperand_wf [OF p(1) wf(2)]]])
    with n show ?thesis by simp
  next
    case False
    with assms(1) left obtain right where "kind op \<in> {tEq, tNeq, tLt, tLte, tGt, tGte}"
      "parseOperand r2 = Inr (right, r)" "n = cmpNode (lit op) left right"
      by (auto simp: parseComparison_def elim!: bindr_InrE split: if_splits)
    moreover from this(2) wf(2) have "list_all token_wf r" by (rule parseOperand_wf)
    ultimately show ?thesis using wf(1) by (simp add: token_wf_def)
  qed
qed

lemma parse_wf:
  shows "parseOr toks = Inr (n, r) \<Longrightarrow> list_all token_wf toks \<Longrightarrow> node_wf n \<and> list_all token_wf r"
    and "parseOrLoop left toks = Inr (n, r) \<Longrightarrow> list_all token_wf toks \<Longrightarrow> node_wf left \<Longrightarrow>
           node_wf n \<and> list_all token_wf r"
    and "parseAnd toks = Inr (n, r) \<Longrightarrow> list_all token_wf toks \<Longrightarrow> node_wf n \<and> list_all token_wf r"
    and "parseAndLoop left toks = Inr (n, r) \<Longrightarrow> list_all token_wf toks \<Longrightarrow> node_wf left \<Longrightarrow>
           node_wf n \<and> list_all token_wf r"
    and "parseNot toks = Inr (n, r) \<Longrightarrow> list_all token_wf toks \<Longrightarrow> node_wf n \<and> list_all token_wf r"
    and "parsePrimary toks = Inr (n, r) \<Longrightarrow> list_all token_wf toks \<Longrightarrow> node_wf n \<and> list_all token_wf r"
proof (induction toks and left toks and toks and left toks and toks and toks
    arbitrary: n r and n r and n r and n r and n r and n r
    rule: parseOr_parseOrLoop_parseAnd_parseAndLoop_parseNot_parsePrimary.induct)
  case (1 toks)
  from 1(3) obtain l q where a: "parseAnd toks = Inr (l, q)" and b: "parseOrLoop l q = Inr (n, r)"
    by (auto simp: parseOr.simps [of toks] elim!: bindr_InrE)
  from 1(1) [OF a 1(4)] 1(2) [OF a refl b] show ?case by simp
next
  case (3 left t r0)
  show ?case
  proof (cases "kind t = tOr")
    case True
    with 3(3) obtain l q where a: "parseAnd r0 = Inr (l, q)"
      and b: "parseOrLoop (boolNode ''OR'' left l) q = Inr (n, r)"
      by (auto elim!: bindr_InrE)
    from 3(1) [OF _ a] 3(2) [OF _ a refl b] True 3(4,5) show ?thesis by simp
  qed (use 3(3-) in simp)
next
  case (4 toks)
  from 4(3) obtain l q where a: "parseNot toks = Inr (l, q)" and b: "parseAndLoop l q = Inr (n, r)"
    by (auto simp: parseAnd.simps [of toks] elim!: bindr_InrE)
  from 4(1) [OF a 4(4)] 4(2) [OF a refl b] show ?case by simp
next
  case (6 left t r0)
  show ?case
  proof (cases "kind t = tAnd")
    case True
    with 6(3) obtain l q where a: "parseNot r0 = Inr (l, q)"
      and b: "parseAndLoop (boolNode ''AND'' left l) q = Inr (n, r)"
      by (auto elim!: bindr_InrE)
    from 6(1) [OF _ a] 6(2) [OF _ a refl b] True 6(4,5) show ?thesis by simp
  qed (use 6(3-) in simp)
next
  case (8 t r0)
  show ?case
  proof (cases "kind t = tNot")
    case True
    with 8(3) obtain m where m: "parseNot r0 = Inr (m, r)" "n = notNode m"
      by (auto elim!: bindr_InrE)
    with 8(1) [OF True m(1)] 8(4) show ?thesis by simp
  qed (use 8(2-) in simp)
next
  case (10 t r0)
  show ?case
  proof (cases "kind t = tLParen")
    case True
    with 10(2) obtain q x where a: "parseOr r0 = Inr (n, q)" and x: "expect tRParen '')'' q = Inr (x, r)"
      by (auto elim!: bindr_InrE)
    with 10(1) [OF True a] 10(3) expect_wf [OF x] show ?thesis by simp
  qed (use 10(2-) parseExists_wf [of _ r0 n r] parseComparison_wf [of "t # r0" n r] in
      \<open>auto split: if_splits\<close>)
qed simp_all

lemma applyOp_known:
  "op \<in> {''='', ''<>'', ''<'', ''<='', ''>'', ''>=''} \<Longrightarrow> applyOp op c \<noteq> Inl (UnknownOperator x)"
  by (auto simp: applyOp_def)

lemma compareAV_not_unknown: "compareAV a b \<noteq> Inl (UnknownOperator x)"
  by (cases a; cases b) (simp_all add: compareAV.simps)

lemma resolve_not_unknown: "resolve o' item b \<noteq> Inl (UnknownOperator x)"
  by (cases o') (auto split: option.splits)

lemma eval_not_unknown: "node_wf n \<Longrightarrow> eval n item b \<noteq> Inl (UnknownOperator x)"
proof (induction n)
  case (cmpNode op l r)
  with applyOp_known compareAV_not_unknown resolve_not_unknown show ?case
    by (auto simp: bindr_Inl_iff)
next
  case (betweenNode v lo hi)
  show ?case
    using compareAV_not_unknown resolve_not_unknown
    by (auto simp: bindr_Inl_iff)
qed (auto simp: bindr_Inl_iff)

text \<open>
  A parsed condition is well-formed, so evaluating it never reaches the
  \<^verbatim>\<open>unknown comparison operator\<close> branch, whatever the source, the item and the binds.
\<close>

lemma parsed_condition_known_operators:
  assumes "ParseCondition U src = Inr c"
  shows "list_all node_wf (case c of None \<Rightarrow> [] | Some n \<Rightarrow> [n]) \<and>
    Evaluate c item binds \<noteq> Inl (UnknownOperator op)"
proof (cases c)
  case None
  then show ?thesis by (simp add: Evaluate_def)
next
  case (Some n)
  with assms obtain toks where "tokenize U src = Inr toks" and "parseOr toks = Inr (n, [])"
    by (auto simp: ParseCondition_def EmptyCondition_def elim!: bindr_InrE split: if_splits list.splits)
  then have "node_wf n" using parse_wf(1) tokenizeFrom_wf by (metis tokenize_def)
  with eval_not_unknown show ?thesis by (simp add: Some Evaluate_def)
qed

section \<open>Laws of evaluation\<close>

text \<open>
  De Morgan's law and double negation hold for evaluation with its errors and its
  short-circuiting: both sides give the same truth value or the same error.
\<close>

lemma eval_de_morgan:
  "eval (notNode (boolNode ''AND'' l r)) item b = eval (boolNode ''OR'' (notNode l) (notNode r)) item b \<and>
   eval (notNode (boolNode ''OR'' l r)) item b = eval (boolNode ''AND'' (notNode l) (notNode r)) item b \<and>
   eval (notNode (notNode l)) item b = eval l item b"
  by (cases "eval l item b"; cases "eval r item b") auto

lemma compareAV_orZero: "compareAV v (orZero w) = Inr c \<Longrightarrow> w \<noteq> None"
  by (cases w) (auto simp: orZero_def compareAV_Inr)

text \<open>
  Where a BETWEEN has a value and its lower bound is bound, it agrees with the conjunction of its two comparisons. (The
  converse fails: a bound that names an absent attribute is an error in BETWEEN and plain
  false in the comparison.)
\<close>

lemma between_is_conjunction:
  assumes "eval (betweenNode v lo hi) item b = Inr x" and "is_ok (resolve lo item b)"
  shows "eval (boolNode ''AND'' (cmpNode ''>='' v lo) (cmpNode ''<='' v hi)) item b = Inr x"
proof -
  from assms obtain vv where v: "resolve v item b = Inr vv" by (auto elim!: bindr_InrE)
  show ?thesis
  proof (cases vv)
    case None
    with assms v show ?thesis
      by (cases "resolve lo item b")
        (auto elim!: bindr_InrE)
  next
    case (Some a)
    with assms v obtain lv hv cl ch where "resolve lo item b = Inr lv" "resolve hi item b = Inr hv"
      and c: "compareAV a (orZero lv) = Inr cl" "compareAV a (orZero hv) = Inr ch"
      and "x = (0 \<le> cl \<and> ch \<le> 0)"
      by (auto elim!: bindr_InrE)
    with compareAV_orZero [OF c(1)] compareAV_orZero [OF c(2)] v Some show ?thesis
      by (auto simp: orZero_def applyOp_def)
  qed
qed

theorem between_is_conjunction_witness:
  "eval (boolNode ''AND'' (cmpNode ''>='' (opAttr ''v'') (opBind ''a'')) (cmpNode ''<='' (opAttr ''v'') (opBind ''c'')))
     [(''v'', AttrS ''b'')] [(''a'', AttrS ''a''), (''c'', AttrS ''c'')] = Inr True"
  by (rule between_is_conjunction)
    (simp_all add: compareAV.simps stringsCompare_def orZero_def less_char_def)

lemma between_missing_bound_errors:
  assumes "map_of item a = Some v" and "map_of item lo = None"
  shows "\<not> is_ok (eval (betweenNode (opAttr a) (opAttr lo) (opAttr hi)) item b) \<and>
    eval (cmpNode ''>='' (opAttr a) (opAttr lo)) item b = Inr False"
proof -
  have "\<not> is_ok (compareAV v AttrNull)" by (cases v) (simp_all add: compareAV.simps)
  then show ?thesis using assms
    by (cases "compareAV v AttrNull") (auto simp: orZero_def)
qed

section \<open>Printing and parsing\<close>

text \<open>
  The grammar of the source comment, read as a printer: alternatives of lower precedence are
  put in parentheses.
\<close>

definition operandToken :: "operand \<Rightarrow> token" where
  "operandToken o' = (case o' of opAttr n \<Rightarrow> mkToken tIdent n | opBind n \<Rightarrow> mkToken tBind n)"

definition opKind :: "string \<Rightarrow> tokenKind" where
  "opKind op = (if op = ''='' then tEq else if op = ''<>'' then tNeq else if op = ''<'' then tLt
     else if op = ''<='' then tLte else if op = ''>'' then tGt else tGte)"

function (sequential) printOr :: "node \<Rightarrow> token list"
  and printAnd :: "node \<Rightarrow> token list"
  and printNot :: "node \<Rightarrow> token list"
where
  "printOr (boolNode op l r) =
     (if op = ''OR'' then printOr l @ mkToken tOr ''OR'' # printAnd r else printAnd (boolNode op l r))"
| "printOr n = printAnd n"
| "printAnd (boolNode op l r) =
     (if op = ''AND'' then printAnd l @ mkToken tAnd ''AND'' # printNot r
      else printNot (boolNode op l r))"
| "printAnd n = printNot n"
| "printNot (notNode n) = mkToken tNot ''NOT'' # printNot n"
| "printNot (existsNode a neg) =
     [if neg then mkToken tAttrNotExists ''attribute_not_exists'' else mkToken tAttrExists ''attribute_exists'',
      mkToken tLParen ''('', mkToken tIdent a, mkToken tRParen '')'']"
| "printNot (cmpNode op l r) = [operandToken l, mkToken (opKind op) op, operandToken r]"
| "printNot (betweenNode v lo hi) =
     [operandToken v, mkToken tBetween ''BETWEEN'', operandToken lo, mkToken tAnd ''AND'', operandToken hi]"
| "printNot (boolNode op l r) =
     mkToken tLParen ''('' #
     (if op = ''OR'' then printOr l @ mkToken tOr ''OR'' # printAnd r
      else printAnd l @ mkToken tAnd ''AND'' # printNot r) @ [mkToken tRParen '')'']"
  by pat_completeness auto
termination
  by (relation "measures [\<lambda>x. case x of Inl n \<Rightarrow> size n | Inr (Inl n) \<Rightarrow> size n | Inr (Inr n) \<Rightarrow> size n,
      \<lambda>x. case x of Inl _ \<Rightarrow> 2 | Inr (Inl _) \<Rightarrow> 1 | Inr (Inr _) \<Rightarrow> 0]") auto

lemma mkToken_sel [simp]: "kind (mkToken k s) = k" "lit (mkToken k s) = s"
  by (simp_all add: mkToken_def)

lemma kind_operandToken [simp]: "kind (operandToken o') = (case o' of opAttr _ \<Rightarrow> tIdent | opBind _ \<Rightarrow> tBind)"
  by (cases o') (simp_all add: operandToken_def)

lemma parseOperand_token [simp]: "parseOperand (operandToken o' # r) = Inr (o', r)"
  by (cases o') (simp_all add: operandToken_def parseOperand_def)

lemma expect_token [simp]: "expect k w (mkToken k s # r) = Inr (mkToken k s, r)"
  by (simp add: expect_def)

lemma operand_not_prefix_op:
  "kind (operandToken o') \<noteq> tNot" "kind (operandToken o') \<noteq> tLParen"
  "kind (operandToken o') \<noteq> tAttrExists" "kind (operandToken o') \<noteq> tAttrNotExists"
  by (cases o', simp_all)+

lemma parse_print_cmp:
  assumes "op \<in> {''='', ''<>'', ''<'', ''<='', ''>'', ''>=''}"
  shows "parseNot (printNot (cmpNode op l q) @ r) = Inr (cmpNode op l q, r)"
proof -
  have "opKind op \<in> {tEq, tNeq, tLt, tLte, tGt, tGte}" "opKind op \<noteq> tBetween" by (simp_all add: opKind_def)
  then show ?thesis using operand_not_prefix_op [of l] by (auto simp: parseComparison_def)
qed

definition not_and :: "token list \<Rightarrow> bool" where
  "not_and r \<longleftrightarrow> (case r of [] \<Rightarrow> True | t # _ \<Rightarrow> kind t \<noteq> tAnd)"

lemma parseAndLoop_stop: "not_and r \<Longrightarrow> parseAndLoop n r = Inr (n, r)"
  by (cases r) (simp_all add: not_and_def)

lemma not_and_Cons [simp]: "not_and (t # r) \<longleftrightarrow> kind t \<noteq> tAnd"
  by (simp add: not_and_def)

lemma parse_print:
  shows "node_wf n \<Longrightarrow> not_and r \<Longrightarrow> parseOr (printOr n @ r) = parseOrLoop n r"
    and "node_wf n \<Longrightarrow> parseAnd (printAnd n @ r) = parseAndLoop n r"
    and "node_wf n \<Longrightarrow> parseNot (printNot n @ r) = Inr (n, r)"
proof (induction n and n and n arbitrary: r and r and r rule: printOr_printAnd_printNot.induct)
  case (1 op l q)
  show ?case
  proof (cases "op = ''OR''")
    case True
    with 1 show ?thesis by (simp add: parseAndLoop_stop)
  next
    case False
    with 1 show ?thesis by (simp add: parseOr.simps parseAndLoop_stop)
  qed
next
  case (3 op l q)
  then show ?case by (cases "op = ''AND''") (simp_all add: parseAnd.simps)
next
  case (9 op l q)
  show ?case
  proof (cases "op = ''OR''")
    case True
    with 9 show ?thesis by (simp add: parseAndLoop_stop)
  next
    case False
    with 9(3,4,5) show ?thesis by (simp add: parseOr.simps parseAndLoop_stop)
  qed
next
  case (7 op l q)
  then show ?case using parse_print_cmp by simp
next
  case (8 v lo hi)
  then show ?case using operand_not_prefix_op [of v] by (auto simp: parseComparison_def)
qed (simp_all add: parseOr.simps parseAnd.simps parseAndLoop_stop parseExists_def)

section \<open>From characters and back\<close>

text \<open>What is used of the Unicode tables: their values on ASCII.\<close>

definition asciiLetter :: "char \<Rightarrow> bool" where
  "asciiLetter c \<longleftrightarrow> (CHR ''A'' \<le> c \<and> c \<le> CHR ''Z'') \<or> (CHR ''a'' \<le> c \<and> c \<le> CHR ''z'')"

definition asciiDigit :: "char \<Rightarrow> bool" where
  "asciiDigit c \<longleftrightarrow> CHR ''0'' \<le> c \<and> c \<le> CHR ''9''"

definition asciiUpper :: "char \<Rightarrow> char" where
  "asciiUpper c = (if CHR ''a'' \<le> c \<and> c \<le> CHR ''z'' then char_of (of_char c - (32 :: nat)) else c)"

definition asciiWord :: "char \<Rightarrow> bool" where
  "asciiWord c \<longleftrightarrow> asciiLetter c \<or> asciiDigit c \<or> c = CHR ''_''"

definition ascii_tables :: "unicode \<Rightarrow> bool" where
  "ascii_tables U \<longleftrightarrow>
     (\<forall>c. (of_char c :: nat) < 128 \<longrightarrow>
        IsSpace U (of_char c) = (c = CHR '' '' \<or> (CHR 0x09 \<le> c \<and> c \<le> CHR 0x0D)) \<and>
        IsLetter U (of_char c) = asciiLetter c \<and> IsDigit U (of_char c) = asciiDigit c \<and>
        ToUpper U (of_char c) = of_char (asciiUpper c))"

text \<open>How a token is written: a bind variable with its colon, everything else as its text.\<close>

definition spell :: "token \<Rightarrow> string" where
  "spell t = (if kind t = tBind then CHR '':'' # lit t else lit t)"

definition render :: "token list \<Rightarrow> rune list" where
  "render toks = runes (concat (map (\<lambda>t. spell t @ '' '') toks))"

definition reserved_words :: "string list" where
  "reserved_words = [''AND'', ''OR'', ''NOT'', ''BETWEEN'', ''ATTRIBUTE_EXISTS'', ''ATTRIBUTE_NOT_EXISTS'']"

definition ident_ok :: "string \<Rightarrow> bool" where
  "ident_ok s \<longleftrightarrow> s \<noteq> [] \<and> list_all asciiWord s \<and> \<not> asciiDigit (hd s) \<and> map asciiUpper s \<notin> set reserved_words"

definition token_ok :: "token \<Rightarrow> bool" where
  "token_ok t =
     (case kind t of
        tIdent \<Rightarrow> ident_ok (lit t)
      | tBind \<Rightarrow> lit t \<noteq> [] \<and> list_all asciiWord (lit t)
      | tLParen \<Rightarrow> lit t = ''('' | tRParen \<Rightarrow> lit t = '')'' | tComma \<Rightarrow> lit t = '',''
      | tEq \<Rightarrow> lit t = ''='' | tNeq \<Rightarrow> lit t = ''<>'' | tLt \<Rightarrow> lit t = ''<'' | tLte \<Rightarrow> lit t = ''<=''
      | tGt \<Rightarrow> lit t = ''>'' | tGte \<Rightarrow> lit t = ''>='' | tAnd \<Rightarrow> lit t = ''AND'' | tOr \<Rightarrow> lit t = ''OR''
      | tNot \<Rightarrow> lit t = ''NOT'' | tBetween \<Rightarrow> lit t = ''BETWEEN''
      | tAttrExists \<Rightarrow> lit t = ''attribute_exists''
      | tAttrNotExists \<Rightarrow> lit t = ''attribute_not_exists'')"

lemma runes_simps [simp]: "runes [] = []" "runes (c # s) = of_char c # runes s"
  "runes (s @ t) = runes s @ runes t"
  by (simp_all add: runes_def)

lemma runes_inject [simp]: "runes s = runes t \<longleftrightarrow> s = t"
  by (simp add: runes_def inj_map_eq_map inj_def)

lemma asciiWord_lt: "asciiWord c \<Longrightarrow> (of_char c :: nat) < 128"
  by (auto simp: asciiWord_def asciiLetter_def asciiDigit_def less_eq_char_def)

lemma string_of_runes_runes: "list_all asciiWord s \<Longrightarrow> string_of_runes (runes s) = s"
  by (induction s) (auto simp: string_of_runes_def EncodeRune_def dest: asciiWord_lt)

lemma ascii_isWordRune:
  "ascii_tables U \<Longrightarrow> (of_char c :: nat) < 128 \<Longrightarrow> isWordRune U (of_char c) = asciiWord c"
  using of_char_eq_iff [of c "CHR ''_''", where ?'a = nat]
  by (simp add: ascii_tables_def isWordRune_def asciiWord_def)

lemma asciiWord_isWordRune: "ascii_tables U \<Longrightarrow> asciiWord c \<Longrightarrow> isWordRune U (of_char c)"
  by (simp add: ascii_isWordRune asciiWord_lt)

lemma ascii_wordKind:
  assumes "ascii_tables U" and "list_all asciiWord s"
  shows "wordKind U (runes s) =
    (let up = map asciiUpper s in
      if up = ''AND'' then tAnd else if up = ''OR'' then tOr else if up = ''NOT'' then tNot
      else if up = ''BETWEEN'' then tBetween else if up = ''ATTRIBUTE_EXISTS'' then tAttrExists
      else if up = ''ATTRIBUTE_NOT_EXISTS'' then tAttrNotExists else tIdent)"
proof -
  have "map (ToUpper U) (runes s) = runes (map asciiUpper s)"
    using assms(2) by (induction s) (auto simp: assms(1) [unfolded ascii_tables_def] dest: asciiWord_lt)
  then show ?thesis unfolding wordKind_def Let_def by (simp only: runes_inject)
qed

lemma takeWhile_word:
  assumes "ascii_tables U" and "list_all asciiWord s"
  shows "takeWhile (isWordRune U) (runes s @ 32 # r) = runes s"
    and "dropWhile (isWordRune U) (runes s @ 32 # r) = 32 # r"
proof -
  have "\<not> isWordRune U 32"
    using ascii_isWordRune [OF assms(1), of "CHR '' ''"]
    by (simp add: asciiWord_def asciiLetter_def asciiDigit_def less_eq_char_def)
  then show "takeWhile (isWordRune U) (runes s @ 32 # r) = runes s"
    and "dropWhile (isWordRune U) (runes s @ 32 # r) = 32 # r"
    using assms(2)
    by (induction s) (simp_all add: asciiWord_isWordRune [OF assms(1)])
qed

lemma nextToken_word:
  assumes U: "ascii_tables U" and s: "list_all asciiWord (c # s)" and c: "\<not> asciiDigit c"
  shows "nextToken U i (of_char c) (runes s @ 32 # r)
    = Inr (Some (mkToken (wordKind U (runes (c # s))) (c # s)), 32 # r)"
proof -
  from s have lt: "(of_char c :: nat) < 128" by (auto dest: asciiWord_lt)
  from s c have lc: "asciiLetter c \<or> c = CHR ''_''" by (auto simp: asciiWord_def)
  then have sp: "\<not> (c = CHR '' '' \<or> (CHR 0x09 \<le> c \<and> c \<le> CHR 0x0D))"
    and ne: "(of_char c :: nat) \<notin> {40, 41, 44, 58, 60, 61, 62}"
    by (auto simp: asciiLetter_def less_eq_char_def)
  have "\<not> IsSpace U (of_char c)" and "IsLetter U (of_char c) \<or> (of_char c :: nat) = of_char (CHR ''_'')"
    using U lt sp lc by (auto simp: ascii_tables_def)
  moreover have "takeWhile (isWordRune U) (of_char c # runes s @ 32 # r) = runes (c # s)"
    and "dropWhile (isWordRune U) (of_char c # runes s @ 32 # r) = 32 # r"
    using takeWhile_word [OF U s, of r] by simp_all
  ultimately show ?thesis
    using ne string_of_runes_runes [OF s] unfolding nextToken_def Let_def by simp
qed

lemma ascii_space:
  assumes "ascii_tables U"
  shows "IsSpace U 32" and "r \<in> {40, 41, 44, 58, 60, 61, 62} \<Longrightarrow> \<not> IsSpace U r"
proof -
  have *: "IsSpace U (of_char c) = (c = CHR '' '' \<or> (CHR 0x09 \<le> c \<and> c \<le> CHR 0x0D))"
    if "(of_char c :: nat) < 128" for c
    using assms that by (simp add: ascii_tables_def)
  from * [of "CHR '' ''"] show "IsSpace U 32" by simp
  show "r \<in> {40, 41, 44, 58, 60, 61, 62} \<Longrightarrow> \<not> IsSpace U r"
    using * [of "CHR ''(''"] * [of "CHR '')''"] * [of "CHR '',''"] * [of "CHR '':''"] * [of "CHR ''<''"]
      * [of "CHR ''=''"] * [of "CHR ''>''"]
    by (auto simp: less_eq_char_def)
qed

lemma token_eta: "t = mkToken (kind t) (lit t)" for t :: token
  by (cases t) (simp add: mkToken_def)

lemma nextToken_bind:
  assumes "ascii_tables U" and "list_all asciiWord s" and "s \<noteq> []"
  shows "nextToken U i 58 (runes s @ 32 # r) = Inr (Some (mkToken tBind s), 32 # r)"
  using takeWhile_word [OF assms(1,2), of r] string_of_runes_runes [OF assms(2)] assms(3)
    ascii_space(2) [OF assms(1), of 58] runes_inject [of s "[]"]
  by (simp add: nextToken_def Let_def del: runes_inject)

lemma nextToken_punct:
  assumes "ascii_tables U" and "token_ok t" and "spell t = c # s"
    and "kind t \<in> {tLParen, tRParen, tComma, tEq, tNeq, tLt, tLte, tGt, tGte}"
  shows "nextToken U i (of_char c) (runes s @ 32 # r) = Inr (Some t, 32 # r)"
  using assms(2-4) token_eta [of t] ascii_space(2) [OF assms(1), of 40] ascii_space(2) [OF assms(1), of 41]
    ascii_space(2) [OF assms(1), of 44] ascii_space(2) [OF assms(1), of 60]
    ascii_space(2) [OF assms(1), of 61] ascii_space(2) [OF assms(1), of 62]
  by (cases "kind t") (auto simp: spell_def nextToken_def token_ok_def)

lemma nextToken_keyword:
  assumes "ascii_tables U" and "token_ok t" and "spell t = c # s"
    and "kind t \<in> {tAnd, tOr, tNot, tBetween, tAttrExists, tAttrNotExists}"
  shows "nextToken U i (of_char c) (runes s @ 32 # r) = Inr (Some t, 32 # r)"
proof -
  have cs: "lit t = c # s" using assms(3,4) by (auto simp: spell_def)
  have w: "list_all asciiWord (lit t)" and d: "\<not> asciiDigit (hd (lit t))"
    using assms(2,4)
    by (auto simp: token_ok_def asciiWord_def asciiLetter_def asciiDigit_def less_eq_char_def)
  have "wordKind U (runes (lit t)) = kind t"
    unfolding ascii_wordKind [OF assms(1) w] using assms(2,4)
    by (auto simp: token_ok_def asciiUpper_def less_eq_char_def Let_def char_of_eq_iff take_bit_eq_mod)
  with w d show ?thesis
    using nextToken_word [OF assms(1), of c s i r] token_eta [of t] unfolding cs by simp
qed

lemma nextToken_spell:
  assumes "ascii_tables U" and "token_ok t" and "spell t = c # s"
  shows "nextToken U i (of_char c) (runes s @ 32 # r) = Inr (Some t, 32 # r)"
proof (cases "kind t = tIdent")
  case True
  with assms have id: "ident_ok (c # s)" and l: "lit t = c # s" by (simp_all add: spell_def token_ok_def)
  then have w: "list_all asciiWord (c # s)" "\<not> asciiDigit c" by (simp_all add: ident_ok_def)
  have "wordKind U (runes (c # s)) = tIdent"
    unfolding ascii_wordKind [OF assms(1) w(1)] using id by (auto simp: ident_ok_def reserved_words_def Let_def)
  with nextToken_word [OF assms(1) w] token_eta [of t] l True show ?thesis by simp
next
  case False
  show ?thesis
  proof (cases "kind t = tBind")
    case True
    with assms have "c = CHR '':''" "lit t = s" "s \<noteq> []" "list_all asciiWord s" by (auto simp: spell_def token_ok_def)
    with nextToken_bind [OF assms(1)] token_eta [of t] True show ?thesis by simp
  next
    case not_bind: False
    with False have "kind t \<in> {tLParen, tRParen, tComma, tEq, tNeq, tLt, tLte, tGt, tGte} \<or>
      kind t \<in> {tAnd, tOr, tNot, tBetween, tAttrExists, tAttrNotExists}"
      by (cases "kind t") simp_all
    with nextToken_punct [OF assms] nextToken_keyword [OF assms] show ?thesis by blast
  qed
qed

lemma spell_nonempty: "token_ok t \<Longrightarrow> spell t \<noteq> []"
  by (cases "kind t") (auto simp: spell_def ident_ok_def token_ok_def)

lemma tokenize_render:
  assumes "ascii_tables U"
  shows "list_all token_ok toks \<Longrightarrow> tokenizeFrom U i (render toks) = Inr toks"
proof (induction toks arbitrary: i)
  case Nil
  then show ?case by (simp add: render_def)
next
  case (Cons t toks)
  then obtain c s where cs: "spell t = c # s" using spell_nonempty [of t] by (cases "spell t") auto
  have r: "render (t # toks) = of_char c # runes s @ 32 # render toks" by (simp add: render_def cs)
  have sp: "tokenizeFrom U j (32 # render toks) = Inr toks" for j
    using Cons ascii_space(1) [OF assms] by (simp add: nextToken_def)
  show ?case
    using nextToken_spell [OF assms _ cs] Cons.prems
    unfolding r tokenizeFrom.simps(2) by (simp add: sp del: tokenizeFrom.simps)
qed

lemma tokenize_spaces: "list_all (IsSpace U) rs \<Longrightarrow> tokenizeFrom U i rs = Inr []"
  by (induction rs arbitrary: i) (simp_all add: nextToken_def)

text \<open>The trees that can be written down: names are ASCII words, not reserved, not numbers.\<close>

fun operand_ok :: "operand \<Rightarrow> bool" where
  "operand_ok (opAttr n) = ident_ok n"
| "operand_ok (opBind n) = (n \<noteq> [] \<and> list_all asciiWord n)"

fun node_ok :: "node \<Rightarrow> bool" where
  "node_ok (existsNode a _) = ident_ok a"
| "node_ok (notNode n) = node_ok n"
| "node_ok (boolNode op l r) = ((op = ''AND'' \<or> op = ''OR'') \<and> node_ok l \<and> node_ok r)"
| "node_ok (cmpNode op l r) =
     (op \<in> {''='', ''<>'', ''<'', ''<='', ''>'', ''>=''} \<and> operand_ok l \<and> operand_ok r)"
| "node_ok (betweenNode v lo hi) = (operand_ok v \<and> operand_ok lo \<and> operand_ok hi)"

lemma node_ok_wf: "node_ok n \<Longrightarrow> node_wf n"
  by (induction n) auto

lemma token_ok_operand [simp]: "token_ok (operandToken o') = operand_ok o'"
  by (cases o') (simp_all add: operandToken_def token_ok_def)

lemma token_ok_mk:
  "token_ok (mkToken tIdent a) = ident_ok a" "token_ok (mkToken tLParen ''('')" "token_ok (mkToken tRParen '')'')"
  "token_ok (mkToken tAnd ''AND'')" "token_ok (mkToken tOr ''OR'')" "token_ok (mkToken tNot ''NOT'')"
  "token_ok (mkToken tBetween ''BETWEEN'')" "token_ok (mkToken tAttrExists ''attribute_exists'')"
  "token_ok (mkToken tAttrNotExists ''attribute_not_exists'')"
  by (simp_all add: token_ok_def)

lemma token_ok_op: "op \<in> {''='', ''<>'', ''<'', ''<='', ''>'', ''>=''} \<Longrightarrow> token_ok (mkToken (opKind op) op)"
  by (auto simp: opKind_def token_ok_def)

lemma token_ok_print:
  shows "node_ok n \<Longrightarrow> list_all token_ok (printOr n)"
    and "node_ok n \<Longrightarrow> list_all token_ok (printAnd n)"
    and "node_ok n \<Longrightarrow> list_all token_ok (printNot n)"
proof (induction n and n and n rule: printOr_printAnd_printNot.induct)
  case (7 op l r)
  then show ?case using token_ok_op [of op] by simp
qed (auto simp: token_ok_mk)

text \<open>
  C27. Parsing inverts printing: the text of a condition, with parentheses only where the
  grammar of the source comment needs them, parses back to that condition. This fixes the
  precedences (NOT over AND over OR) and the left associativity of the implementation.
\<close>

theorem parse_print_roundtrip:
  assumes "ascii_tables U" and "node_ok n"
  shows "ParseCondition U (render (printOr n)) = Inr (Some n)"
proof -
  have toks: "tokenizeFrom U 0 (render (printOr n)) = Inr (printOr n)"
    using tokenize_render [OF assms(1)] token_ok_print(1) [OF assms(2)] by simp
  have parse: "parseOr (printOr n) = Inr (n, [])"
    using parse_print(1) [OF node_ok_wf [OF assms(2)], of "[]"] by (simp add: not_and_def)
  then have "printOr n \<noteq> []" by (auto simp: parseOr.simps parseAnd.simps)
  with toks tokenize_spaces have "\<not> list_all (IsSpace U) (render (printOr n))" by fastforce
  with toks parse show ?thesis by (simp add: ParseCondition_def tokenize_def)
qed

definition ascii_unicode :: unicode where
  "ascii_unicode = \<lparr>IsSpace = (\<lambda>r. r = 32 \<or> (9 \<le> r \<and> r \<le> 13)),
     IsLetter = (\<lambda>r. (65 \<le> r \<and> r \<le> 90) \<or> (97 \<le> r \<and> r \<le> 122)),
     IsDigit = (\<lambda>r. 48 \<le> r \<and> r \<le> 57),
     ToUpper = (\<lambda>r. if 97 \<le> r \<and> r \<le> 122 then r - 32 else r)\<rparr>"

lemma ascii_tables_ascii_unicode: "ascii_tables ascii_unicode"
proof -
  have "(of_char (asciiUpper c) :: nat) = (if 97 \<le> (of_char c :: nat) \<and> (of_char c :: nat) \<le> 122
      then of_char c - 32 else of_char c)" for c
    by (auto simp: asciiUpper_def less_eq_char_def)
  moreover have "(of_char c :: nat) = 32 \<longleftrightarrow> c = CHR '' ''" for c
    using of_char_eq_iff [of c "CHR '' ''", where ?'a = nat] by simp
  ultimately show ?thesis
    by (auto simp: ascii_tables_def ascii_unicode_def asciiLetter_def asciiDigit_def less_eq_char_def)
qed

theorem parsed_condition_known_operators_witness:
  "Evaluate (Some (existsNode ''id'' False)) [] [] \<noteq> Inl (UnknownOperator ''=='')"
proof -
  have "ParseCondition ascii_unicode (runes ''attribute_exists(id)'') = Inr (Some (existsNode ''id'' False))"
    by code_simp
  from parsed_condition_known_operators [OF this] show ?thesis by blast
qed

theorem parse_print_roundtrip_witness:
  "ParseCondition ascii_unicode (render (printOr (boolNode ''AND''
      (notNode (existsNode ''id'' False)) (boolNode ''OR'' (cmpNode ''<='' (opAttr ''v'') (opBind ''x''))
        (existsNode ''w'' True)))))
   = Inr (Some (boolNode ''AND'' (notNode (existsNode ''id'' False))
       (boolNode ''OR'' (cmpNode ''<='' (opAttr ''v'') (opBind ''x'')) (existsNode ''w'' True))))"
  by (rule parse_print_roundtrip [OF ascii_tables_ascii_unicode])
    (simp add: ident_ok_def reserved_words_def asciiWord_def asciiLetter_def asciiDigit_def asciiUpper_def
      less_eq_char_def char_of_eq_iff take_bit_eq_mod)

end
