(* ===== verification/Engine.thy ===== *)
theory Engine
  imports RowPlan Condition
begin

text \<open>
  The storage engine of one shard, \<^verbatim>\<open>internal/storage/adapter/pebble\<close>: the write path and the reads of
  \<^verbatim>\<open>writer.go\<close>, the memory tables of \<^verbatim>\<open>memory.go\<close>, write backpressure (\<^verbatim>\<open>pressure.go\<close>), committing
  (\<^verbatim>\<open>db.go\<close>) and the append to the change log (\<^verbatim>\<open>changelog.go\<close>).

  Pebble is a sorted list of pairs of key and value, a batch is the list of its point operations, and
  committing applies them in order. Reads of the local store succeed. What the environment supplies
  per call (hash, Unicode tables, floating-point functions, clock, engine metrics) is the record
  \<open>env\<close>. An operation that changes the database returns the new database together with its
  result, also when it fails: a change index is taken even if the commit then fails.

  A write is split where the code is not atomic: planning reads the prior row, committing applies
  the batch. Condition sources are lists of runes, as in the theory of conditions.
\<close>

section \<open>State\<close>

type_synonym store = "(bytes \<times> bytes) list"
type_synonym batch = "IndexOp list"

record Replicator =
  rp_IsLeader :: bool
  rp_LeaderHTTPAddr :: string
  rp_Replicate :: "batch \<Rightarrow> string option"

text \<open>\<open>rp_Replicate\<close> gives the error; without one, the FSM has applied the batch on this node.\<close>

record BackpressureOptions =
  bp_Enabled :: bool
  bp_WarningL0Files :: int
  bp_CriticalL0Files :: int
  bp_WarningCompactionDebtBytes :: uint64
  bp_CriticalCompactionDebtBytes :: uint64
  bp_WarningReadAmp :: int
  bp_CriticalReadAmp :: int
  bp_RejectOnCritical :: bool

record PebbleMetricsView =
  pm_L0Files :: int
  pm_CompactionDebtBytes :: uint64
  pm_ReadAmp :: int

record env =
  en_hash :: hasher
  en_unicode :: unicode
  en_float :: float_env
  en_now :: int64
  en_metrics :: PebbleMetricsView

record DB =
  db_store :: store
  db_memTables :: "store gomap"
  db_memLoaded :: "string list"
  db_changeIndex :: uint64
  db_batchSeqCounter :: uint64
  db_streamTables :: "string list"
  db_changeLogMode :: string
  db_retention :: int64
  db_resolver :: "(string \<Rightarrow> int64) option"
  db_bp :: BackpressureOptions
  db_writeDraining :: "string option"
  db_repl :: "Replicator option"
  db_closed :: bool

abbreviation HF :: "env \<Rightarrow> spatial_env" where
  "HF e \<equiv> (en_hash e, en_float e)"

datatype PressureState = PressureNormal | PressureWarning | PressureCritical

datatype engine_error =
    ThrottleError string
  | VectorExpected string int byte
  | VectorDim string nat int
  | ErrInvalidCounterMutation string
  | KeyErr string key_error
  | EncodeErr codec_error
  | DecodeErr codec_error
  | ConditionErr cond_error
  | EvaluateErr cond_error
  | ErrConditionFailed
  | PlanErr row_error
  | ChangeLogErr change_error
  | DrainingError string
  | NotLeaderError string
  | ReplicateErr string
  | DBClosed
  | ErrItemNotFound
  | NoSortKey string
  | NoSuchIndex string string
  | PointerErr pointer_error
  | AtOp nat engine_error
  | UnknownKind byte

text \<open>The Go pattern of \<open>bindr\<close> with a state that is kept on both paths.\<close>

definition bindS :: "'s \<times> ('e + 'a) \<Rightarrow> ('s \<Rightarrow> 'a \<Rightarrow> 's \<times> ('e + 'b)) \<Rightarrow> 's \<times> ('e + 'b)" where
  "bindS r k = (case r of (s, Inl e) \<Rightarrow> (s, Inl e) | (s, Inr x) \<Rightarrow> k s x)"

lemma bindS_simps [simp]: "bindS (s, Inl e) k = (s, Inl e)" "bindS (s, Inr x) k = k s x"
  by (simp_all add: bindS_def)

declare bindS_def [code_unfold]

section \<open>The key-value store\<close>

definition applyOne :: "store \<Rightarrow> IndexOp \<Rightarrow> store" where
  "applyOne s op = (case op of IndexOpSet k v \<Rightarrow> gomap_put k v s | IndexOpDelete k \<Rightarrow> gomap_del k s)"

definition applyBatch :: "batch \<Rightarrow> store \<Rightarrow> store" where
  "applyBatch b s = foldl applyOne s b"

definition snapshotGet :: "DB \<Rightarrow> bytes \<Rightarrow> bytes option" where
  "snapshotGet db key = map_of (db_store db) key"

definition Iter :: "DB \<Rightarrow> key_range \<Rightarrow> (bytes \<times> bytes) list" where
  "Iter db r = filter (\<lambda>(k, _). in_range r k) (db_store db)"

definition rejectWriteErr :: "DB \<Rightarrow> engine_error + unit" where
  "rejectWriteErr db = (case db_writeDraining db of None \<Rightarrow> Inr () | Some reason \<Rightarrow> Inl (DrainingError reason))"

definition RejectWrites :: "string \<Rightarrow> DB \<Rightarrow> DB" where
  "RejectWrites reason db = db\<lparr>db_writeDraining := Some (if reason = '''' then ''draining'' else reason)\<rparr>"

definition AllowWrites :: "DB \<Rightarrow> DB" where
  "AllowWrites db = db\<lparr>db_writeDraining := None\<rparr>"

definition AttachReplicator :: "Replicator \<Rightarrow> DB \<Rightarrow> DB" where
  "AttachReplicator r db = db\<lparr>db_repl := Some r\<rparr>"

definition commitLocal :: "DB \<Rightarrow> batch \<Rightarrow> DB \<times> (engine_error + unit)" where
  "commitLocal db b =
     (if db_closed db then (db, Inl DBClosed) else (db\<lparr>db_store := applyBatch b (db_store db)\<rparr>, Inr ()))"

definition ApplyCommittedBatch :: "DB \<Rightarrow> batch \<Rightarrow> DB" where
  "ApplyCommittedBatch db b = db\<lparr>db_store := applyBatch b (db_store db)\<rparr>"

definition CommitBatch :: "DB \<Rightarrow> batch \<Rightarrow> DB \<times> (engine_error + unit)" where
  "CommitBatch db b =
     (case rejectWriteErr db of
        Inl e \<Rightarrow> (db, Inl e)
      | Inr _ \<Rightarrow>
          (case db_repl db of
             Some r \<Rightarrow>
               if \<not> rp_IsLeader r then (db, Inl (NotLeaderError (rp_LeaderHTTPAddr r)))
               else (case rp_Replicate r b of
                       Some err \<Rightarrow> (db, Inl (ReplicateErr err))
                     | None \<Rightarrow> (ApplyCommittedBatch db b, Inr ()))
           | None \<Rightarrow> commitLocal db b))"

definition CommitBatchLocal :: "DB \<Rightarrow> batch \<Rightarrow> DB \<times> (engine_error + unit)" where
  "CommitBatchLocal db b =
     (case rejectWriteErr db of Inl e \<Rightarrow> (db, Inl e) | Inr _ \<Rightarrow> commitLocal db b)"

definition commitBatchMaybeLocal :: "bool \<Rightarrow> DB \<Rightarrow> batch \<Rightarrow> DB \<times> (engine_error + unit)" where
  "commitBatchMaybeLocal bypassRepl db b = (if bypassRepl then CommitBatchLocal db b else CommitBatch db b)"

section \<open>Backpressure\<close>

definition orDefault :: "int \<Rightarrow> int \<Rightarrow> int" where
  "orDefault v def = (if v \<le> 0 then def else v)"

definition normalizeBackpressureOptions :: "BackpressureOptions \<Rightarrow> BackpressureOptions" where
  "normalizeBackpressureOptions o' =
     (if \<not> bp_Enabled o' then o'
      else o'\<lparr>bp_WarningL0Files := orDefault (bp_WarningL0Files o') 64,
              bp_CriticalL0Files := orDefault (bp_CriticalL0Files o') 128,
              bp_WarningCompactionDebtBytes :=
                (if bp_WarningCompactionDebtBytes o' = 0 then push_bit 20 256 else bp_WarningCompactionDebtBytes o'),
              bp_CriticalCompactionDebtBytes :=
                (if bp_CriticalCompactionDebtBytes o' = 0 then push_bit 20 768 else bp_CriticalCompactionDebtBytes o'),
              bp_WarningReadAmp := orDefault (bp_WarningReadAmp o') 24,
              bp_CriticalReadAmp := orDefault (bp_CriticalReadAmp o') 48\<rparr>)"

definition EvaluatePressure :: "PebbleMetricsView \<Rightarrow> BackpressureOptions \<Rightarrow> PressureState \<times> string" where
  "EvaluatePressure pm opts0 =
     (let opts = normalizeBackpressureOptions opts0 in
      if \<not> bp_Enabled opts then (PressureNormal, '''')
      else if 0 < bp_CriticalL0Files opts \<and> bp_CriticalL0Files opts \<le> pm_L0Files pm
      then (PressureCritical, ''l0_files'')
      else if 0 < bp_CriticalCompactionDebtBytes opts \<and> bp_CriticalCompactionDebtBytes opts \<le> pm_CompactionDebtBytes pm
      then (PressureCritical, ''compaction_debt'')
      else if 0 < bp_CriticalReadAmp opts \<and> bp_CriticalReadAmp opts \<le> pm_ReadAmp pm
      then (PressureCritical, ''read_amp'')
      else if 0 < bp_WarningL0Files opts \<and> bp_WarningL0Files opts \<le> pm_L0Files pm
      then (PressureWarning, ''l0_files'')
      else if 0 < bp_WarningCompactionDebtBytes opts \<and> bp_WarningCompactionDebtBytes opts \<le> pm_CompactionDebtBytes pm
      then (PressureWarning, ''compaction_debt'')
      else if 0 < bp_WarningReadAmp opts \<and> bp_WarningReadAmp opts \<le> pm_ReadAmp pm
      then (PressureWarning, ''read_amp'')
      else (PressureNormal, ''''))"

text \<open>The delay before a throttled write proceeds has no effect on the state.\<close>

definition checkWritePressure :: "env \<Rightarrow> DB \<Rightarrow> engine_error + unit" where
  "checkWritePressure e db =
     (if \<not> bp_Enabled (db_bp db) then Inr ()
      else (case EvaluatePressure (en_metrics e) (db_bp db) of (state, reason) \<Rightarrow>
        if state = PressureCritical \<and> bp_RejectOnCritical (db_bp db) then Inl (ThrottleError reason) else Inr ()))"

section \<open>Item checks\<close>

definition normalizeStorageClass :: "string \<Rightarrow> string" where
  "normalizeStorageClass class' =
     (let c = ToLowerStr (TrimSpace class') in
      if c = '''' \<or> c = StorageClassDisk then StorageClassDisk
      else if c = StorageClassMemory then StorageClassMemory
      else class')"

definition isMemoryTable :: "TableDescriptor \<Rightarrow> bool" where
  "isMemoryTable td \<longleftrightarrow> normalizeStorageClass (td_StorageClass td) = StorageClassMemory"

fun validateDefs :: "AttributeDefinition list \<Rightarrow> Item \<Rightarrow> engine_error + unit" where
  "validateDefs [] item = Inr ()"
| "validateDefs (def # defs) item =
     (let ty = NormalizeAttributeType (ad_Type def) in
      if ty = AttributeTypeVector then
        (if ad_VectorDimensions def \<le> 0 then validateDefs defs item
         else (case map_of item (ad_Name def) of
                 None \<Rightarrow> validateDefs defs item
               | Some (AttrVec v) \<Rightarrow>
                   if int (length v) \<noteq> ad_VectorDimensions def
                   then Inl (VectorDim (ad_Name def) (length v) (ad_VectorDimensions def))
                   else validateDefs defs item
               | Some av \<Rightarrow> Inl (VectorExpected (ad_Name def) (ad_VectorDimensions def) (AttrType av))))
      else if ty = AttributeTypeCounter then
        (case map_of item (ad_Name def) of
           None \<Rightarrow> validateDefs defs item
         | Some (AttrN _) \<Rightarrow> validateDefs defs item
         | Some _ \<Rightarrow> Inl (ErrInvalidCounterMutation (ad_Name def)))
      else validateDefs defs item)"

definition validateDescriptorItem :: "TableDescriptor \<Rightarrow> Item \<Rightarrow> engine_error + unit" where
  "validateDescriptorItem td item = validateDefs (td_AttributeDefinitions td) item"

definition itemOrNil :: "Item option \<Rightarrow> Item" where
  "itemOrNil i = (case i of None \<Rightarrow> [] | Some item \<Rightarrow> item)"

fun validateCounters :: "AttributeDefinition list \<Rightarrow> Item option \<Rightarrow> Item \<Rightarrow> engine_error + unit" where
  "validateCounters [] prior item = Inr ()"
| "validateCounters (def # defs) prior item =
     (if \<not> IsCounterAttributeType (ad_Type def) then validateCounters defs prior item
      else if map_of item (ad_Name def) \<noteq> None then Inl (ErrInvalidCounterMutation (ad_Name def))
      else if map_of (itemOrNil prior) (ad_Name def) \<noteq> None then Inl (ErrInvalidCounterMutation (ad_Name def))
      else validateCounters defs prior item)"

definition validatePutItemCounters :: "TableDescriptor \<Rightarrow> Item option \<Rightarrow> Item \<Rightarrow> bool \<Rightarrow> engine_error + unit" where
  "validatePutItemCounters td prior item allowCounterWrite =
     (if allowCounterWrite then Inr () else validateCounters (td_AttributeDefinitions td) prior item)"

definition tableHasCounterDefinition :: "TableDescriptor \<Rightarrow> bool" where
  "tableHasCounterDefinition td \<longleftrightarrow> list_ex (\<lambda>def. IsCounterAttributeType (ad_Type def)) (td_AttributeDefinitions td)"

definition extractKeyBytes :: "Item \<Rightarrow> KeySchema \<Rightarrow> engine_error + (bytes \<times> bytes)" where
  "extractKeyBytes item ks =
     (case map_of item (ks_PK ks) of
        None \<Rightarrow> Inl (KeyErr (ks_PK ks) (ErrMissingKey (ks_PK ks)))
      | Some pkAttr \<Rightarrow>
          bindr (wrapr (KeyErr (ks_PK ks)) (AttrCanonicalBytes pkAttr)) (\<lambda>pk.
            if ks_SK ks = '''' then Inr (pk, [])
            else (case map_of item (ks_SK ks) of
                    None \<Rightarrow> Inl (KeyErr (ks_SK ks) (ErrMissingKey (ks_SK ks)))
                  | Some skAttr \<Rightarrow>
                      bindr (wrapr (KeyErr (ks_SK ks)) (AttrCanonicalBytes skAttr)) (\<lambda>sk. Inr (pk, sk)))))"

definition keyItemFromItem :: "Item \<Rightarrow> KeySchema \<Rightarrow> Item" where
  "keyItemFromItem item ks =
     (let out = (case map_of item (ks_PK ks) of None \<Rightarrow> [] | Some v \<Rightarrow> gomap_put (ks_PK ks) v []) in
      if ks_SK ks = '''' then out
      else (case map_of item (ks_SK ks) of None \<Rightarrow> out | Some v \<Rightarrow> gomap_put (ks_SK ks) v out))"

section \<open>Memory tables\<close>

definition memTable :: "DB \<Rightarrow> string \<Rightarrow> store option" where
  "memTable db table = map_of (db_memTables db) table"

definition memorySet :: "string \<Rightarrow> bytes \<Rightarrow> bytes \<Rightarrow> DB \<Rightarrow> DB" where
  "memorySet table key value db =
     db\<lparr>db_memTables := gomap_put table
          (gomap_put key value (case memTable db table of None \<Rightarrow> [] | Some m \<Rightarrow> m)) (db_memTables db),
        db_memLoaded := List.insert table (db_memLoaded db)\<rparr>"

definition memoryDelete :: "string \<Rightarrow> bytes \<Rightarrow> DB \<Rightarrow> DB" where
  "memoryDelete table key db =
     (case memTable db table of
        None \<Rightarrow> db
      | Some m \<Rightarrow> db\<lparr>db_memTables := gomap_put table (gomap_del key m) (db_memTables db)\<rparr>)"

definition memoryHasTable :: "DB \<Rightarrow> string \<Rightarrow> bool" where
  "memoryHasTable db table \<longleftrightarrow> table \<in> set (db_memLoaded db)"

definition memoryGet :: "DB \<Rightarrow> string \<Rightarrow> bytes \<Rightarrow> bytes option" where
  "memoryGet db table key = (case memTable db table of None \<Rightarrow> None | Some m \<Rightarrow> map_of m key)"

text \<open>\<^verbatim>\<open>if limit > 0 && len(out) >= limit { break }\<close> after each append.\<close>

definition takeLimit :: "int \<Rightarrow> 'a list \<Rightarrow> 'a list" where
  "takeLimit limit xs = (if 0 < limit then take (nat limit) xs else xs)"

fun decodeAll :: "bytes list \<Rightarrow> engine_error + Item list" where
  "decodeAll [] = Inr []"
| "decodeAll (v # vs) =
     bindr (wrapr DecodeErr (DecodeItem v)) (\<lambda>item. bindr (decodeAll vs) (\<lambda>items. Inr (item # items)))"

definition memoryRange :: "store \<Rightarrow> key_range \<Rightarrow> store" where
  "memoryRange m r = sort_key fst (filter (\<lambda>(k, _). in_range r k) m)"

definition memoryScan :: "DB \<Rightarrow> string \<Rightarrow> key_range \<Rightarrow> int \<Rightarrow> engine_error + Item list" where
  "memoryScan db table r limit =
     (case memTable db table of
        None \<Rightarrow> Inr []
      | Some m \<Rightarrow> decodeAll (takeLimit limit (map snd (memoryRange m r))))"

text \<open>A visitor is a step function on the caller's state; it returns whether to go on.\<close>

fun visitAll :: "('s \<Rightarrow> Item \<Rightarrow> 's \<times> bool) \<Rightarrow> 's \<Rightarrow> bytes list \<Rightarrow> 's \<times> (engine_error + unit)" where
  "visitAll visit s [] = (s, Inr ())"
| "visitAll visit s (v # vs) =
     (case DecodeItem v of
        Inl err \<Rightarrow> (s, Inl (DecodeErr err))
      | Inr item \<Rightarrow> (case visit s item of (s', go) \<Rightarrow> if go then visitAll visit s' vs else (s', Inr ())))"

definition memoryScanWith :: "DB \<Rightarrow> string \<Rightarrow> key_range \<Rightarrow> ('s \<Rightarrow> Item \<Rightarrow> 's \<times> bool) \<Rightarrow> 's \<Rightarrow>
    's \<times> (engine_error + unit)" where
  "memoryScanWith db table r visit s =
     (case memTable db table of
        None \<Rightarrow> (s, Inr ())
      | Some m \<Rightarrow> visitAll visit s (map snd (memoryRange m r)))"

definition ensureMemoryTableLoaded :: "string \<Rightarrow> DB \<Rightarrow> DB" where
  "ensureMemoryTableLoaded table db =
     (if memoryHasTable db table then db
      else db\<lparr>db_memTables := gomap_put table (Iter db (PrefixPrimaryAll table)) (db_memTables db),
              db_memLoaded := List.insert table (db_memLoaded db)\<rparr>)"

definition LoadMemoryTable :: "string \<Rightarrow> DB \<Rightarrow> DB" where
  "LoadMemoryTable table db = ensureMemoryTableLoaded table db"

definition MemoryTableFootprint :: "DB \<Rightarrow> string \<Rightarrow> int" where
  "MemoryTableFootprint db table =
     (case memTable db table of None \<Rightarrow> 0 | Some m \<Rightarrow> sum_list (map (\<lambda>(k, v). int (length k + length v)) m))"

section \<open>Appending to the change log\<close>

definition ChangeLogModeAlways :: string where "ChangeLogModeAlways = ''always''"
definition ChangeLogModeStreamsOnly :: string where "ChangeLogModeStreamsOnly = ''streams-only''"
definition ChangeLogModeOff :: string where "ChangeLogModeOff = ''off''"

definition normalizeChangeLogMode :: "string \<Rightarrow> string" where
  "normalizeChangeLogMode mode =
     (let m = ToLowerStr (TrimSpace mode) in
      if m \<in> {'''', ChangeLogModeStreamsOnly, ''streams'', ''stream''} then ChangeLogModeStreamsOnly
      else if m = ChangeLogModeAlways then ChangeLogModeAlways
      else if m \<in> {ChangeLogModeOff, ''disabled'', ''none''} then ChangeLogModeOff
      else ChangeLogModeStreamsOnly)"

definition shouldAppendChangeRecord :: "DB \<Rightarrow> TableDescriptor \<Rightarrow> bool" where
  "shouldAppendChangeRecord db td =
     (if db_changeLogMode db = ChangeLogModeOff then False
      else if db_changeLogMode db = ChangeLogModeStreamsOnly
      then (case td_StreamSpecification td of None \<Rightarrow> False | Some spec \<Rightarrow> ss_StreamEnabled spec)
      else True)"

definition FormatInt :: "int64 \<Rightarrow> string" where
  "FormatInt v = (if sint v < 0 then CHR ''-'' # formatNat (nat (- sint v)) else formatNat (nat (sint v)))"

definition nextBatchID :: "env \<Rightarrow> DB \<Rightarrow> DB \<times> string" where
  "nextBatchID e db =
     (let n = db_batchSeqCounter db + 1 in
      (db\<lparr>db_batchSeqCounter := n\<rparr>, FormatInt (en_now e) @ ''-'' @ FormatUint n))"

definition ChangeCounterKey :: bytes where
  "ChangeCounterKey = bytes_of_string (pAdmin @ ''change/counter'')"

definition persistChangeHighWater :: "batch \<Rightarrow> uint64 \<Rightarrow> batch" where
  "persistChangeHighWater b index = b @ [IndexOpSet ChangeCounterKey (PutUint64 index)]"

definition trackStreamTable :: "string \<Rightarrow> DB \<Rightarrow> DB" where
  "trackStreamTable table db =
     (if table = '''' then db else db\<lparr>db_streamTables := List.insert table (db_streamTables db)\<rparr>)"

text \<open>The record as it is stored: numbered, timed and sized.\<close>

definition stampRecord :: "env \<Rightarrow> uint64 \<Rightarrow> ChangeRecord \<Rightarrow> ChangeRecord" where
  "stampRecord e index rec0 =
     (let rec1 = rec0\<lparr>cr_Index := index\<rparr>;
          rec2 = (if cr_StreamRecord rec1 then rec1\<lparr>cr_SequenceNumber := FormatUint index\<rparr> else rec1);
          rec3 = (if cr_UnixNano rec2 = 0 then rec2\<lparr>cr_UnixNano := en_now e\<rparr> else rec2)
      in if cr_StreamRecord rec3 \<and> cr_SizeBytes rec3 = 0
         then rec3\<lparr>cr_SizeBytes := estimateChangeRecordSize rec3\<rparr> else rec3)"

definition appendChangeRecord :: "env \<Rightarrow> DB \<Rightarrow> batch \<Rightarrow> ChangeRecord \<Rightarrow> DB \<times> (engine_error + batch)" where
  "appendChangeRecord e db b rec0 =
     (if cr_Table rec0 = '''' then (db, Inl (ChangeLogErr TableRequired))
      else
        (let index = db_changeIndex db + 1;
             db1 = db\<lparr>db_changeIndex := index\<rparr>;
             rec = stampRecord e index rec0
         in case encodeChangeRecord [] rec of
              Inl err \<Rightarrow> (db1, Inl (ChangeLogErr err))
            | Inr raw \<Rightarrow>
                (let b1 = persistChangeHighWater (b @ [IndexOpSet (KeyChangeLog index) raw]) index;
                     b2 = (case changeLogExpireUnixNano (db_retention db) (db_resolver db) rec of
                             None \<Rightarrow> b1
                           | Some t \<Rightarrow> b1 @ [IndexOpSet (KeyChangeLogExpiration t index) []])
                 in (if cr_StreamRecord rec then trackStreamTable (cr_Table rec) db1 else db1, Inr b2))))"

text \<open>The change-log step of a write: nothing in a mode that does not log the table.\<close>

definition logChange :: "env \<Rightarrow> TableDescriptor \<Rightarrow> string \<Rightarrow> Item \<Rightarrow> Item option \<Rightarrow> Item option \<Rightarrow>
    DB \<Rightarrow> batch \<Rightarrow> DB \<times> (engine_error + batch)" where
  "logChange e td op keyItem prior next db b =
     (if shouldAppendChangeRecord db td then
        (case nextBatchID e db of (db1, batchID) \<Rightarrow>
           appendChangeRecord e db1 b
             ((newChangeRecord td op (Some (keyItemFromItem keyItem (td_KeySchema td))) prior next)\<lparr>cr_BatchID := batchID\<rparr>))
      else (db, Inr b))"

section \<open>Writing an item\<close>

record PutOptions =
  po_Condition :: "rune list"
  po_Binds :: Item
  po_AllowCounterWrite :: bool

record DeleteOptions =
  do_Condition :: "rune list"
  do_Binds :: Item

definition putItemCanSkipPrior :: "env \<Rightarrow> DB \<Rightarrow> TableDescriptor \<Rightarrow> rune list \<Rightarrow> bool" where
  "putItemCanSkipPrior e db td condition =
     (if \<not> list_all (IsSpace (en_unicode e)) condition then False
      else if td_GSIs td \<noteq> [] \<or> td_LSIs td \<noteq> [] \<or> td_SpatialIndexes td \<noteq> [] \<or> td_TTLAttribute td \<noteq> '''' then False
      else if tableHasCounterDefinition td then False
      else \<not> shouldAppendChangeRecord db td)"

text \<open>The prior row as the write paths read it; a missing row is \<open>None\<close>.\<close>

definition readPrior :: "DB \<Rightarrow> bytes \<Rightarrow> engine_error + Item option" where
  "readPrior db key =
     (case snapshotGet db key of
        None \<Rightarrow> Inr None
      | Some raw \<Rightarrow> bindr (wrapr DecodeErr (DecodeItem raw)) (\<lambda>item. Inr (Some item)))"

definition checkCondition :: "Condition \<Rightarrow> Item option \<Rightarrow> Item \<Rightarrow> engine_error + unit" where
  "checkCondition cond prior binds =
     (if IsZero cond then Inr ()
      else bindr (wrapr EvaluateErr (Evaluate cond (itemOrNil prior) binds)) (\<lambda>ok.
        if ok then Inr () else Inl ErrConditionFailed))"

text \<open>
  A planned write: the primary key, the new value (\<open>None\<close> deletes), the prior row, the index
  operations, and whether the path without a prior read was taken.
\<close>

record WritePlan =
  wp_key :: bytes
  wp_value :: "bytes option"
  wp_prior :: "Item option"
  wp_ops :: batch
  wp_skipPrior :: bool

definition planPut :: "env \<Rightarrow> DB \<Rightarrow> TableDescriptor \<Rightarrow> Item \<Rightarrow> PutOptions \<Rightarrow> engine_error + WritePlan" where
  "planPut e db td item opts =
     bindr (checkWritePressure e db) (\<lambda>_.
     bindr (validateDescriptorItem td item) (\<lambda>_.
     bindr (validatePutItemCounters td None item (po_AllowCounterWrite opts)) (\<lambda>_.
     bindr (extractKeyBytes item (td_KeySchema td)) (\<lambda>(pk, sk).
     let primaryKey = KeyPrimary (en_hash e) (td_Name td) pk sk in
     bindr (wrapr EncodeErr (EncodeItem (Some item))) (\<lambda>encoded.
     if putItemCanSkipPrior e db td (po_Condition opts)
     then Inr \<lparr>wp_key = primaryKey, wp_value = Some encoded, wp_prior = None, wp_ops = [], wp_skipPrior = True\<rparr>
     else
       bindr (wrapr ConditionErr (ParseCondition (en_unicode e) (po_Condition opts))) (\<lambda>cond.
       bindr (readPrior db primaryKey) (\<lambda>prior.
       bindr (validatePutItemCounters td prior item (po_AllowCounterWrite opts)) (\<lambda>_.
       bindr (checkCondition cond prior (po_Binds opts)) (\<lambda>_.
       bindr (wrapr PlanErr (planRow (HF e) td prior (Some item))) (\<lambda>ops.
         Inr \<lparr>wp_key = primaryKey, wp_value = Some encoded, wp_prior = prior, wp_ops = ops, wp_skipPrior = False\<rparr>))))))))))"

definition primaryOp :: "WritePlan \<Rightarrow> IndexOp" where
  "primaryOp plan = (case wp_value plan of Some v \<Rightarrow> IndexOpSet (wp_key plan) v | None \<Rightarrow> IndexOpDelete (wp_key plan))"

text \<open>After the commit, a memory table follows the store.\<close>

definition memoryFollow :: "TableDescriptor \<Rightarrow> bytes \<Rightarrow> bytes option \<Rightarrow> DB \<Rightarrow> DB" where
  "memoryFollow td key v db =
     (if isMemoryTable td
      then (case v of Some value \<Rightarrow> memorySet (td_Name td) key value db | None \<Rightarrow> memoryDelete (td_Name td) key db)
      else db)"

definition commitPut :: "env \<Rightarrow> TableDescriptor \<Rightarrow> Item \<Rightarrow> WritePlan \<Rightarrow> DB \<Rightarrow> DB \<times> (engine_error + unit)" where
  "commitPut e td item plan db =
     bindS (if wp_skipPrior plan then (db, Inr [primaryOp plan])
            else logChange e td ChangePut item (wp_prior plan) (Some item) db (primaryOp plan # wp_ops plan)) (\<lambda>db1 b.
     bindS (CommitBatch db1 b) (\<lambda>db2 _.
       (memoryFollow td (wp_key plan) (wp_value plan) db2, Inr ())))"

definition putItemWithNoLane :: "env \<Rightarrow> TableDescriptor \<Rightarrow> Item \<Rightarrow> PutOptions \<Rightarrow> DB \<Rightarrow> DB \<times> (engine_error + unit)" where
  "putItemWithNoLane e td item opts db =
     (case planPut e db td item opts of
        Inl err \<Rightarrow> (db, Inl err)
      | Inr plan \<Rightarrow> commitPut e td item plan db)"

text \<open>The convenience wrapper: a one-shot descriptor without indexes or condition.\<close>

definition bareDescriptor :: "string \<Rightarrow> KeySchema \<Rightarrow> TableDescriptor" where
  "bareDescriptor table ks = \<lparr>td_Name = table, td_KeySchema = ks, td_AttributeDefinitions = [], td_GSIs = [],
     td_LSIs = [], td_SpatialIndexes = [], td_StorageClass = '''', td_TTLAttribute = '''', td_StreamSpecification = None\<rparr>"

definition PutItem :: "env \<Rightarrow> string \<Rightarrow> KeySchema \<Rightarrow> Item \<Rightarrow> DB \<Rightarrow> DB \<times> (engine_error + unit)" where
  "PutItem e table ks item db =
     putItemWithNoLane e (bareDescriptor table ks) item
       \<lparr>po_Condition = [], po_Binds = [], po_AllowCounterWrite = False\<rparr> db"

section \<open>Deleting an item\<close>

definition planDelete :: "env \<Rightarrow> DB \<Rightarrow> TableDescriptor \<Rightarrow> Item \<Rightarrow> DeleteOptions \<Rightarrow> engine_error + WritePlan" where
  "planDelete e db td keyAttrs opts =
     bindr (checkWritePressure e db) (\<lambda>_.
     bindr (extractKeyBytes keyAttrs (td_KeySchema td)) (\<lambda>(pk, sk).
     let primaryKey = KeyPrimary (en_hash e) (td_Name td) pk sk in
     bindr (wrapr ConditionErr (ParseCondition (en_unicode e) (do_Condition opts))) (\<lambda>cond.
     bindr (readPrior db primaryKey) (\<lambda>prior.
     bindr (checkCondition cond prior (do_Binds opts)) (\<lambda>_.
     bindr (wrapr PlanErr (planRow (HF e) td prior None)) (\<lambda>ops.
       Inr \<lparr>wp_key = primaryKey, wp_value = None, wp_prior = prior, wp_ops = ops, wp_skipPrior = False\<rparr>))))))"

definition commitDelete :: "env \<Rightarrow> TableDescriptor \<Rightarrow> Item \<Rightarrow> WritePlan \<Rightarrow> DB \<Rightarrow> DB \<times> (engine_error + unit)" where
  "commitDelete e td keyAttrs plan db =
     bindS (logChange e td ChangeDelete keyAttrs (wp_prior plan) None db (primaryOp plan # wp_ops plan)) (\<lambda>db1 b.
     bindS (CommitBatch db1 b) (\<lambda>db2 _.
       (memoryFollow td (wp_key plan) (wp_value plan) db2, Inr ())))"

definition deleteItemWithNoLane ::
  "env \<Rightarrow> TableDescriptor \<Rightarrow> Item \<Rightarrow> DeleteOptions \<Rightarrow> DB \<Rightarrow> DB \<times> (engine_error + unit)" where
  "deleteItemWithNoLane e td keyAttrs opts db =
     (case planDelete e db td keyAttrs opts of
        Inl err \<Rightarrow> (db, Inl err)
      | Inr plan \<Rightarrow> commitDelete e td keyAttrs plan db)"

definition DeleteItem :: "env \<Rightarrow> string \<Rightarrow> KeySchema \<Rightarrow> Item \<Rightarrow> DB \<Rightarrow> DB \<times> (engine_error + unit)" where
  "DeleteItem e table ks keyAttrs db =
     deleteItemWithNoLane e (bareDescriptor table ks) keyAttrs \<lparr>do_Condition = [], do_Binds = []\<rparr> db"

section \<open>Batch writes\<close>

datatype BatchOp = BatchOpPut Item | BatchOpDelete Item | BatchOpOther byte

type_synonym memDelta = "bytes \<times> bytes option"

text \<open>
  The change record of one operation of a batch; \<open>batchID\<close> is shared and \<open>i\<close> is the position.
\<close>

definition logBatchChange :: "env \<Rightarrow> TableDescriptor \<Rightarrow> string \<Rightarrow> nat \<Rightarrow> string \<Rightarrow> Item \<Rightarrow> Item option \<Rightarrow>
    Item option \<Rightarrow> DB \<Rightarrow> batch \<Rightarrow> DB \<times> (engine_error + batch)" where
  "logBatchChange e td batchID i op keyItem prior next db b =
     (if shouldAppendChangeRecord db td then
        appendChangeRecord e db b
          ((newChangeRecord td op (Some (keyItemFromItem keyItem (td_KeySchema td))) prior next)
             \<lparr>cr_BatchID := batchID, cr_SeqInBatch := of_nat i\<rparr>)
      else (db, Inr b))"

text \<open>Planning one operation against the snapshot: key, value, prior and index operations.\<close>

fun planBatchOp :: "env \<Rightarrow> TableDescriptor \<Rightarrow> DB \<Rightarrow> BatchOp \<Rightarrow> engine_error + WritePlan" where
  "planBatchOp e td snap (BatchOpPut item) =
     bindr (validateDescriptorItem td item) (\<lambda>_.
     bindr (validatePutItemCounters td None item False) (\<lambda>_.
     bindr (extractKeyBytes item (td_KeySchema td)) (\<lambda>(pk, sk).
     bindr (wrapr EncodeErr (EncodeItem (Some item))) (\<lambda>enc.
     let primaryKey = KeyPrimary (en_hash e) (td_Name td) pk sk in
     bindr (readPrior snap primaryKey) (\<lambda>prior.
     bindr (validatePutItemCounters td prior item False) (\<lambda>_.
     bindr (wrapr PlanErr (planRow (HF e) td prior (Some item))) (\<lambda>ops.
       Inr \<lparr>wp_key = primaryKey, wp_value = Some enc, wp_prior = prior, wp_ops = ops, wp_skipPrior = False\<rparr>)))))))"
| "planBatchOp e td snap (BatchOpDelete key) =
     bindr (extractKeyBytes key (td_KeySchema td)) (\<lambda>(pk, sk).
     let primaryKey = KeyPrimary (en_hash e) (td_Name td) pk sk in
     bindr (readPrior snap primaryKey) (\<lambda>prior.
     bindr (wrapr PlanErr (planRow (HF e) td prior None)) (\<lambda>ops.
       Inr \<lparr>wp_key = primaryKey, wp_value = None, wp_prior = prior, wp_ops = ops, wp_skipPrior = False\<rparr>)))"
| "planBatchOp e td snap (BatchOpOther k) = Inl (UnknownKind k)"

fun batchOpItems :: "BatchOp \<Rightarrow> string \<times> Item \<times> Item option" where
  "batchOpItems (BatchOpPut item) = (ChangePut, item, Some item)"
| "batchOpItems (BatchOpDelete key) = (ChangeDelete, key, None)"
| "batchOpItems (BatchOpOther _) = ('''', [], None)"

fun batchLoop :: "env \<Rightarrow> TableDescriptor \<Rightarrow> DB \<Rightarrow> string \<Rightarrow> nat \<Rightarrow> BatchOp list \<Rightarrow> DB \<Rightarrow> batch \<Rightarrow> memDelta list \<Rightarrow>
    DB \<times> (engine_error + (batch \<times> memDelta list))" where
  "batchLoop e td snap batchID i [] db b deltas = (db, Inr (b, deltas))"
| "batchLoop e td snap batchID i (op # ops) db b deltas =
     (case planBatchOp e td snap op of
        Inl err \<Rightarrow> (db, Inl (AtOp i err))
      | Inr plan \<Rightarrow>
          (case batchOpItems op of (op', keyItem, next) \<Rightarrow>
             (case logBatchChange e td batchID i op' keyItem (wp_prior plan) next db (b @ [primaryOp plan]) of
                (db1, Inl err) \<Rightarrow> (db1, Inl (AtOp i err))
              | (db1, Inr b1) \<Rightarrow>
                  batchLoop e td snap batchID (Suc i) ops db1 (b1 @ wp_ops plan)
                    (deltas @ [(wp_key plan, wp_value plan)]))))"

definition followDeltas :: "TableDescriptor \<Rightarrow> memDelta list \<Rightarrow> DB \<Rightarrow> DB" where
  "followDeltas td deltas db = foldl (\<lambda>d (k, v). memoryFollow td k v d) db deltas"

definition isPut :: "BatchOp \<Rightarrow> bool" where
  "isPut op = (case op of BatchOpPut _ \<Rightarrow> True | _ \<Rightarrow> False)"

definition batchPutItemsCanSkipPrior :: "env \<Rightarrow> DB \<Rightarrow> TableDescriptor \<Rightarrow> BatchOp list \<Rightarrow> bool" where
  "batchPutItemsCanSkipPrior e db td ops \<longleftrightarrow> putItemCanSkipPrior e db td [] \<and> list_all isPut ops"

fun batchPutLoop :: "env \<Rightarrow> TableDescriptor \<Rightarrow> nat \<Rightarrow> BatchOp list \<Rightarrow> batch \<Rightarrow> memDelta list \<Rightarrow>
    engine_error + (batch \<times> memDelta list)" where
  "batchPutLoop e td i [] b deltas = Inr (b, deltas)"
| "batchPutLoop e td i (op # ops) b deltas =
     (let item = (case op of BatchOpPut it \<Rightarrow> it | _ \<Rightarrow> []) in
      bindr (wrapr (AtOp i) (validateDescriptorItem td item)) (\<lambda>_.
      bindr (wrapr (AtOp i) (validatePutItemCounters td None item False)) (\<lambda>_.
      bindr (wrapr (AtOp i) (extractKeyBytes item (td_KeySchema td))) (\<lambda>(pk, sk).
      bindr (wrapr (\<lambda>err. AtOp i (EncodeErr err)) (EncodeItem (Some item))) (\<lambda>enc.
        let primaryKey = KeyPrimary (en_hash e) (td_Name td) pk sk in
        batchPutLoop e td (Suc i) ops (b @ [IndexOpSet primaryKey enc]) (deltas @ [(primaryKey, Some enc)]))))))"

definition batchPutItemsWithoutPriorImpl ::
  "env \<Rightarrow> TableDescriptor \<Rightarrow> BatchOp list \<Rightarrow> bool \<Rightarrow> DB \<Rightarrow> DB \<times> (engine_error + unit)" where
  "batchPutItemsWithoutPriorImpl e td ops bypassRepl db =
     (case batchPutLoop e td 0 ops [] [] of
        Inl err \<Rightarrow> (db, Inl err)
      | Inr (b, deltas) \<Rightarrow>
          bindS (commitBatchMaybeLocal bypassRepl db b) (\<lambda>db1 _. (followDeltas td deltas db1, Inr ())))"

definition batchWriteItemImpl ::
  "env \<Rightarrow> TableDescriptor \<Rightarrow> BatchOp list \<Rightarrow> bool \<Rightarrow> DB \<Rightarrow> DB \<times> (engine_error + unit)" where
  "batchWriteItemImpl e td ops bypassRepl db =
     (if ops = [] then (db, Inr ())
      else
        (case checkWritePressure e db of
           Inl err \<Rightarrow> (db, Inl err)
         | Inr _ \<Rightarrow>
             if batchPutItemsCanSkipPrior e db td ops
             then batchPutItemsWithoutPriorImpl e td ops bypassRepl db
             else
               (case (if shouldAppendChangeRecord db td then nextBatchID e db else (db, '''')) of (db0, batchID) \<Rightarrow>
                  bindS (batchLoop e td db batchID 0 ops db0 [] []) (\<lambda>db1 (b, deltas).
                  bindS (commitBatchMaybeLocal bypassRepl db1 b) (\<lambda>db2 _.
                    (followDeltas td deltas db2, Inr ()))))))"

definition BatchWriteItem :: "env \<Rightarrow> TableDescriptor \<Rightarrow> BatchOp list \<Rightarrow> DB \<Rightarrow> DB \<times> (engine_error + unit)" where
  "BatchWriteItem e td ops db = batchWriteItemImpl e td ops False db"

definition BatchWriteItemLocal :: "env \<Rightarrow> TableDescriptor \<Rightarrow> BatchOp list \<Rightarrow> DB \<Rightarrow> DB \<times> (engine_error + unit)" where
  "BatchWriteItemLocal e td ops db = batchWriteItemImpl e td ops True db"

section \<open>Reading\<close>

definition getEncodedItemByKeyBytesNoLane :: "env \<Rightarrow> DB \<Rightarrow> string \<Rightarrow> bytes \<Rightarrow> bytes \<Rightarrow> engine_error + bytes" where
  "getEncodedItemByKeyBytesNoLane e db table pk sk =
     (let primaryKey = KeyPrimary (en_hash e) table pk sk in
      case memoryGet db table primaryKey of
        Some v \<Rightarrow> Inr v
      | None \<Rightarrow> (case map_of (db_store db) primaryKey of None \<Rightarrow> Inl ErrItemNotFound | Some v \<Rightarrow> Inr v))"

definition GetItemByKeyBytes :: "env \<Rightarrow> DB \<Rightarrow> string \<Rightarrow> bytes \<Rightarrow> bytes \<Rightarrow> engine_error + Item" where
  "GetItemByKeyBytes e db table pk sk =
     bindr (getEncodedItemByKeyBytesNoLane e db table pk sk) (\<lambda>v. wrapr DecodeErr (DecodeItem v))"

definition GetItem :: "env \<Rightarrow> DB \<Rightarrow> string \<Rightarrow> KeySchema \<Rightarrow> Item \<Rightarrow> engine_error + Item" where
  "GetItem e db table ks keyAttrs =
     bindr (extractKeyBytes keyAttrs ks) (\<lambda>(pk, sk). GetItemByKeyBytes e db table pk sk)"

fun BatchGetItemFrom :: "env \<Rightarrow> DB \<Rightarrow> string \<Rightarrow> KeySchema \<Rightarrow> nat \<Rightarrow> Item list \<Rightarrow> engine_error + Item option list" where
  "BatchGetItemFrom e db table ks i [] = Inr []"
| "BatchGetItemFrom e db table ks i (ka # keys) =
     bindr (wrapr (AtOp i) (extractKeyBytes ka ks)) (\<lambda>(pk, sk).
     bindr (case getEncodedItemByKeyBytesNoLane e db table pk sk of
              Inl err \<Rightarrow> if err = ErrItemNotFound then Inr None else Inl (AtOp i err)
            | Inr v \<Rightarrow> bindr (wrapr (\<lambda>err. AtOp i (DecodeErr err)) (DecodeItem v)) (\<lambda>item. Inr (Some item))) (\<lambda>out.
     bindr (BatchGetItemFrom e db table ks (Suc i) keys) (\<lambda>outs. Inr (out # outs))))"

definition BatchGetItem :: "env \<Rightarrow> DB \<Rightarrow> string \<Rightarrow> KeySchema \<Rightarrow> Item list \<Rightarrow> engine_error + Item option list" where
  "BatchGetItem e db table ks keys = BatchGetItemFrom e db table ks 0 keys"

text \<open>The loop of \<^verbatim>\<open>scanItemsNoLane\<close>: decode, append, stop at the limit.\<close>

fun scanLoop :: "int \<Rightarrow> Item list \<Rightarrow> bytes list \<Rightarrow> engine_error + Item list" where
  "scanLoop limit out [] = Inr out"
| "scanLoop limit out (v # vs) =
     bindr (wrapr DecodeErr (DecodeItem v)) (\<lambda>item.
       let out' = out @ [item] in
       if 0 < limit \<and> limit \<le> int (length out') then Inr out' else scanLoop limit out' vs)"

definition scanItemsNoLane :: "DB \<Rightarrow> key_range \<Rightarrow> int \<Rightarrow> engine_error + Item list" where
  "scanItemsNoLane db r limit = scanLoop limit [] (map snd (Iter db r))"

definition scanItemsWithNoLane :: "DB \<Rightarrow> key_range \<Rightarrow> ('s \<Rightarrow> Item \<Rightarrow> 's \<times> bool) \<Rightarrow> 's \<Rightarrow> 's \<times> (engine_error + unit)" where
  "scanItemsWithNoLane db r visit s = visitAll visit s (map snd (Iter db r))"

text \<open>A scan of a range of primary keys: the memory copy when the table is loaded, else the store.\<close>

definition scanPrimary :: "DB \<Rightarrow> string \<Rightarrow> key_range \<Rightarrow> int \<Rightarrow> engine_error + Item list" where
  "scanPrimary db table r limit =
     (if memoryHasTable db table then memoryScan db table r limit else scanItemsNoLane db r limit)"

definition QueryByPK :: "env \<Rightarrow> DB \<Rightarrow> string \<Rightarrow> KeySchema \<Rightarrow> AttributeValue \<Rightarrow> int \<Rightarrow> engine_error + Item list" where
  "QueryByPK e db table ks pkAttr limit =
     bindr (wrapr (KeyErr (ks_PK ks)) (AttrCanonicalBytes pkAttr)) (\<lambda>pk.
       scanPrimary db table (PrefixPrimaryByPK (en_hash e) table pk) limit)"

definition skBound :: "string \<Rightarrow> AttributeValue \<Rightarrow> engine_error + bytes option" where
  "skBound what av =
     (if AttrType av = 0 then Inr None
      else bindr (wrapr (KeyErr what) (AttrCanonicalBytes av)) (\<lambda>b. Inr (Some b)))"

definition nilBytes :: "bytes option \<Rightarrow> bytes" where
  "nilBytes b = (case b of None \<Rightarrow> [] | Some x \<Rightarrow> x)"

definition QueryByPKRange ::
  "env \<Rightarrow> DB \<Rightarrow> string \<Rightarrow> KeySchema \<Rightarrow> AttributeValue \<Rightarrow> AttributeValue \<Rightarrow> AttributeValue \<Rightarrow> int \<Rightarrow>
    engine_error + Item list" where
  "QueryByPKRange e db table ks pkAttr skLow skHigh limit =
     (if ks_SK ks = '''' then Inl (NoSortKey table)
      else
        bindr (wrapr (KeyErr (ks_PK ks)) (AttrCanonicalBytes pkAttr)) (\<lambda>pk.
        bindr (skBound ''SK low'' skLow) (\<lambda>lo.
        bindr (skBound ''SK high'' skHigh) (\<lambda>hi.
          scanPrimary db table (RangePrimaryBySK (en_hash e) table pk (nilBytes lo) hi) limit))))"

definition ScanTable :: "DB \<Rightarrow> string \<Rightarrow> int \<Rightarrow> engine_error + Item list" where
  "ScanTable db table limit = scanPrimary db table (PrefixPrimaryAll table) limit"

definition ScanTableWith :: "DB \<Rightarrow> string \<Rightarrow> ('s \<Rightarrow> Item \<Rightarrow> 's \<times> bool) \<Rightarrow> 's \<Rightarrow> 's \<times> (engine_error + unit)" where
  "ScanTableWith db table visit s =
     (if memoryHasTable db table then memoryScanWith db table (PrefixPrimaryAll table) visit s
      else scanItemsWithNoLane db (PrefixPrimaryAll table) visit s)"

section \<open>Index queries\<close>

record QueryOptions =
  qo_SKLow :: AttributeValue
  qo_SKHigh :: AttributeValue
  qo_Limit :: int

text \<open>
  One entry of an index: a projected entry carries the item, a keys-only entry is resolved in the
  store and skipped when the row is gone.
\<close>

definition resolvePointer :: "env \<Rightarrow> DB \<Rightarrow> string \<Rightarrow> bytes \<Rightarrow> engine_error + Item option" where
  "resolvePointer e db table v =
     bindr (wrapr PointerErr (DecodeProjectedPointer v)) (\<lambda>(pk, sk, projected, mode).
       if mode = ''ALL'' \<or> mode = ''INCLUDE''
       then bindr (wrapr DecodeErr (DecodeItem (nilBytes projected))) (\<lambda>item. Inr (Some item))
       else (case map_of (db_store db) (KeyPrimary (en_hash e) table pk sk) of
               None \<Rightarrow> Inr None
             | Some raw \<Rightarrow> bindr (wrapr DecodeErr (DecodeItem raw)) (\<lambda>item. Inr (Some item))))"

fun iterateLoop :: "env \<Rightarrow> DB \<Rightarrow> string \<Rightarrow> int \<Rightarrow> Item list \<Rightarrow> bytes list \<Rightarrow> engine_error + Item list" where
  "iterateLoop e db table limit out [] = Inr out"
| "iterateLoop e db table limit out (v # vs) =
     bindr (resolvePointer e db table v) (\<lambda>r.
       case r of
         None \<Rightarrow> iterateLoop e db table limit out vs
       | Some item \<Rightarrow>
           let out' = out @ [item] in
           if 0 < limit \<and> limit \<le> int (length out') then Inr out' else iterateLoop e db table limit out' vs)"

definition iterateIndex :: "env \<Rightarrow> DB \<Rightarrow> TableDescriptor \<Rightarrow> key_range \<Rightarrow> int \<Rightarrow> engine_error + Item list" where
  "iterateIndex e db td r limit = iterateLoop e db (td_Name td) limit [] (map snd (Iter db r))"

fun findGSI :: "GSIDescriptor list \<Rightarrow> string \<Rightarrow> GSIDescriptor option" where
  "findGSI [] name = None"
| "findGSI (g # gs) name = (if gsi_Name g = name then Some g else findGSI gs name)"

fun findLSI :: "LSIDescriptor list \<Rightarrow> string \<Rightarrow> LSIDescriptor option" where
  "findLSI [] name = None"
| "findLSI (l # ls) name = (if lsi_Name l = name then Some l else findLSI ls name)"

definition QueryByGSI :: "env \<Rightarrow> DB \<Rightarrow> TableDescriptor \<Rightarrow> string \<Rightarrow> AttributeValue \<Rightarrow> QueryOptions \<Rightarrow>
    engine_error + Item list" where
  "QueryByGSI e db td idxName gsiPKVal opts =
     (case findGSI (td_GSIs td) idxName of
        None \<Rightarrow> Inl (NoSuchIndex (td_Name td) idxName)
      | Some descriptor \<Rightarrow>
          bindr (wrapr (KeyErr ''gsi PK'') (AttrCanonicalBytes gsiPKVal)) (\<lambda>gsiPK.
            if AttrType (qo_SKLow opts) = 0 \<and> AttrType (qo_SKHigh opts) = 0
            then iterateIndex e db td (PrefixGSIByPK (en_hash e) (td_Name td) idxName gsiPK) (qo_Limit opts)
            else if ks_SK (gsi_KeySchema descriptor) = '''' then Inl (NoSortKey idxName)
            else
              bindr (skBound ''gsi SK low'' (qo_SKLow opts)) (\<lambda>lo.
              bindr (skBound ''gsi SK high'' (qo_SKHigh opts)) (\<lambda>hi.
                iterateIndex e db td (RangeGSIBySK (en_hash e) (td_Name td) idxName gsiPK (nilBytes lo) hi)
                  (qo_Limit opts)))))"

definition QueryByLSI :: "env \<Rightarrow> DB \<Rightarrow> TableDescriptor \<Rightarrow> string \<Rightarrow> AttributeValue \<Rightarrow> QueryOptions \<Rightarrow>
    engine_error + Item list" where
  "QueryByLSI e db td idxName primaryPKVal opts =
     (case findLSI (td_LSIs td) idxName of
        None \<Rightarrow> Inl (NoSuchIndex (td_Name td) idxName)
      | Some descriptor \<Rightarrow>
          bindr (wrapr (KeyErr ''primary PK'') (AttrCanonicalBytes primaryPKVal)) (\<lambda>pk.
            if AttrType (qo_SKLow opts) = 0 \<and> AttrType (qo_SKHigh opts) = 0
            then iterateIndex e db td (PrefixLSIByPK (en_hash e) (td_Name td) idxName pk) (qo_Limit opts)
            else
              bindr (skBound ''lsi SK low'' (qo_SKLow opts)) (\<lambda>lo.
              bindr (skBound ''lsi SK high'' (qo_SKHigh opts)) (\<lambda>hi.
                iterateIndex e db td (RangeLSIBySK (en_hash e) (td_Name td) idxName pk (nilBytes lo) hi)
                  (qo_Limit opts)))))"

end
