(* ===== verification/EngineProps.thy ===== *)
theory EngineProps
  imports Engine
begin

text \<open>
  What the storage engine guarantees: failed writes leave no trace, a write is visible to the next
  read, memory tables agree with the store, the indexes describe exactly the stored rows, and a
  batch behaves like its operations one after the other. The last sections show where the split
  between planning and committing breaks these guarantees under concurrency.
\<close>

section \<open>Batches and the store\<close>

fun opKey :: "IndexOp \<Rightarrow> bytes" where
  "opKey (IndexOpSet k _) = k"
| "opKey (IndexOpDelete k) = k"

lemma applyBatch_simps [simp]:
  "applyBatch [] s = s"
  "applyBatch (op # b) s = applyBatch b (applyOne s op)"
  "applyBatch (a @ b) s = applyBatch b (applyBatch a s)"
  by (simp_all add: applyBatch_def)

lemma gomap_canon_applyBatch [simp, intro]: "gomap_canon s \<Longrightarrow> gomap_canon (applyBatch b s)"
  by (induction b arbitrary: s) (auto simp: applyOne_def split: IndexOp.splits)

lemma map_of_applyBatch: "gomap_canon s \<Longrightarrow> map_of (applyBatch b s) = applyIndexOps b (map_of s)"
proof (induction b arbitrary: s)
  case (Cons op b)
  then have "gomap_canon (applyOne s op)" "map_of (applyOne s op) = applyIndexOp (map_of s) op"
    by (cases op; simp add: applyOne_def map_of_gomap_put map_of_gomap_del)+
  with Cons.IH show ?case by simp
qed simp

lemma applyIndexOps_other: "k \<notin> opKey ` set b \<Longrightarrow> applyIndexOps b kv k = kv k"
proof (induction b arbitrary: kv)
  case (Cons op b)
  then show ?case by (cases op) auto
qed simp

section \<open>The parts of a write\<close>

definition admin_key :: "bytes \<Rightarrow> bool" where
  "admin_key k \<longleftrightarrow> prefix (bytes_of_string pAdmin) k"

lemma table_not_admin: "in_seg t seg k \<Longrightarrow> \<not> admin_key k"
proof
  assume "in_seg t seg k" "admin_key k"
  then have "prefix (bytes_of_string (TableBase t @ seg)) (bytes_of_string pAdmin) \<or>
      prefix (bytes_of_string pAdmin) (bytes_of_string (TableBase t @ seg))"
    unfolding in_seg_def admin_key_def by (rule prefix_same_cases)
  then show False by (auto simp only: prefix_bytes_of_string) (auto simp: TableBase_def pTables_def pAdmin_def Namespace_def)
qed

text \<open>Logging a change adds keys of the change log only and leaves store and memory tables alone.\<close>

definition same_data :: "DB \<Rightarrow> DB \<Rightarrow> bool" where
  "same_data db db' \<longleftrightarrow> db_store db' = db_store db \<and> db_memTables db' = db_memTables db \<and>
     db_memLoaded db' = db_memLoaded db \<and> db_writeDraining db' = db_writeDraining db \<and>
     db_repl db' = db_repl db \<and> db_closed db' = db_closed db \<and> db_changeLogMode db' = db_changeLogMode db \<and>
     db_bp db' = db_bp db"

lemma same_data_refl [simp]: "same_data db db"
  by (simp add: same_data_def)

lemma same_data_trans: "same_data a b \<Longrightarrow> same_data b c \<Longrightarrow> same_data a c"
  by (simp add: same_data_def)

lemma appendChangeRecord_spec:
  assumes "appendChangeRecord e db b rec = (db', r)"
  shows "same_data db db'" and "r = Inr b' \<Longrightarrow> \<exists>log. b' = b @ log \<and> (\<forall>op\<in>set log. admin_key (opKey op))"
proof -
  show "same_data db db'"
    using assms by (auto simp: appendChangeRecord_def Let_def same_data_def trackStreamTable_def split: if_splits sum.splits)
  assume "r = Inr b'"
  then show "\<exists>log. b' = b @ log \<and> (\<forall>op\<in>set log. admin_key (opKey op))"
    using assms
    by (auto simp: appendChangeRecord_def Let_def persistChangeHighWater_def ChangeCounterKey_def KeyChangeLog_def
        KeyChangeLogExpiration_def pChangeLog_def pChangeExpire_def admin_key_def split: if_splits sum.splits option.splits)
qed

lemma nextBatchID_same: "nextBatchID e db = (db', i) \<Longrightarrow> same_data db db'"
  by (auto simp: nextBatchID_def Let_def same_data_def)

lemma logChange_spec:
  assumes "logChange e td op keyItem prior next db b = (db', r)"
  shows "same_data db db'" and "r = Inr b' \<Longrightarrow> \<exists>log. b' = b @ log \<and> (\<forall>op\<in>set log. admin_key (opKey op))"
proof -
  have "same_data db db' \<and> (r = Inr b' \<longrightarrow> (\<exists>log. b' = b @ log \<and> (\<forall>op\<in>set log. admin_key (opKey op))))"
  proof (cases "shouldAppendChangeRecord db td")
    case True
    obtain db1 i where n: "nextBatchID e db = (db1, i)" by (cases "nextBatchID e db")
    with assms True show ?thesis
      using appendChangeRecord_spec nextBatchID_same [OF n] by (simp add: logChange_def) (meson same_data_trans)
  next
    case False
    with assms show ?thesis by (auto simp: logChange_def)
  qed
  then show "same_data db db'" "r = Inr b' \<Longrightarrow> \<exists>log. b' = b @ log \<and> (\<forall>op\<in>set log. admin_key (opKey op))" by auto
qed

lemma CommitBatch_spec:
  assumes "CommitBatch db b = (db', r)"
  shows "(\<exists>err. r = Inl err \<and> db' = db) \<or> (r = Inr () \<and> db' = db\<lparr>db_store := applyBatch b (db_store db)\<rparr>)"
  using assms
  by (auto simp: CommitBatch_def rejectWriteErr_def commitLocal_def ApplyCommittedBatch_def split: sum.splits option.splits if_splits)

lemma commitBatchMaybeLocal_spec:
  assumes "commitBatchMaybeLocal local db b = (db', r)"
  shows "(\<exists>err. r = Inl err \<and> db' = db) \<or> (r = Inr () \<and> db' = db\<lparr>db_store := applyBatch b (db_store db)\<rparr>)"
  using assms CommitBatch_spec [of db b db' r]
  by (auto simp: commitBatchMaybeLocal_def CommitBatchLocal_def rejectWriteErr_def commitLocal_def split: sum.splits option.splits if_splits)

lemma bindSE:
  assumes "bindS r k = (s, x)"
  obtains e where "r = (s, Inl e)" "x = Inl e" | s' y where "r = (s', Inr y)" "k s' y = (s, x)"
  using assms by (cases r; cases "snd r") auto

text \<open>The index operations of a row are on index keys.\<close>

lemma moveEntry_keys: "op \<in> set (moveEntry p n) \<Longrightarrow> \<exists>v. p = Some (opKey op, v) \<or> n = Some (opKey op, v)"
  by (cases p; cases n) (auto simp: moveEntry_def split: if_splits)

context secondary_index
begin

lemma plan_keys:
  assumes "plan H t ks ds p n = Inr ops" and "op \<in> set ops"
  shows "\<exists>d\<in>set ds. prefix (base t d) (opKey op)"
proof -
  from assms plan_Inr obtain d where d: "d \<in> set ds"
    and "op \<in> set (moveEntry (ok_entry (entry H t d ks p)) (ok_entry (entry H t d ks n)))"
    by fastforce
  then obtain i v where "ok_entry (entry H t d ks i) = Some (opKey op, v)" by (metis moveEntry_keys)
  then have "entry H t d ks i = Inr (Some (opKey op, v))" by (simp add: ok_entry_def split: sum.splits)
  with d entry_base show ?thesis by blast
qed

end

lemma planRow_keys:
  assumes "planRow hf td prior next = Inr ops" and "op \<in> set ops"
  shows "\<exists>s\<in>index_segs. in_seg (td_Name td) s (opKey op)"
proof -
  let ?H = "fst hf" and ?t = "td_Name td" and ?ks = "td_KeySchema td"
  from assms(1) obtain g l s t where
    g: "PlanGSI ?H ?t ?ks (td_GSIs td) prior next = Inr g" and
    l: "PlanLSI ?H ?t ?ks (td_LSIs td) prior next = Inr l" and
    s: "planSpatial hf ?t ?ks (td_SpatialIndexes td) prior next = Inr s" and
    t: "planTTLs ?H ?t ?ks [td_TTLAttribute td] prior next = Inr t" and
    ops: "ops = g @ l @ s @ t"
    by (auto simp: planRow_def elim!: bindr_InrE)
  from assms(2) ops consider "op \<in> set g" | "op \<in> set l" | "op \<in> set s" | "op \<in> set t" by auto
  then show ?thesis
  proof cases
    case 1
    with gsi.plan_keys [OF g] in_seg_append show ?thesis by (fastforce simp: index_segs_def)
  next
    case 2
    with lsi.plan_keys [OF l] in_seg_append show ?thesis by (fastforce simp: index_segs_def)
  next
    case 3
    with sp.plan_keys [OF s] in_seg_append show ?thesis by (fastforce simp: index_segs_def split: if_splits)
  next
    case 4
    with ttl.plan_keys [OF t] show ?thesis by (auto simp: index_segs_def in_seg_def)
  qed
qed

section \<open>The effect of a write\<close>

definition planOps :: "WritePlan \<Rightarrow> batch" where
  "planOps plan = primaryOp plan # (if wp_skipPrior plan then [] else wp_ops plan)"

text \<open>A committed plan: its operations and some change-log keys, then the memory table.\<close>

definition committed :: "TableDescriptor \<Rightarrow> WritePlan \<Rightarrow> DB \<Rightarrow> DB \<Rightarrow> bool" where
  "committed td plan db db' \<longleftrightarrow>
     (\<exists>db1 log. same_data db db1 \<and> (\<forall>op\<in>set log. admin_key (opKey op)) \<and>
        db' = memoryFollow td (wp_key plan) (wp_value plan)
                (db1\<lparr>db_store := applyBatch (planOps plan @ log) (db_store db)\<rparr>))"

lemma commit_spec:
  assumes "bindS (logged :: DB \<times> (engine_error + batch)) (\<lambda>db1 b. bindS (CommitBatch db1 b) (\<lambda>db2 _.
      (memoryFollow td (wp_key plan) (wp_value plan) db2, Inr ()))) = (db', r)"
    and "\<And>db1 x. logged = (db1, x) \<Longrightarrow> same_data db db1"
    and "\<And>db1 b. logged = (db1, Inr b) \<Longrightarrow> \<exists>log. b = planOps plan @ log \<and> (\<forall>op\<in>set log. admin_key (opKey op))"
  shows "(\<exists>err. r = Inl err \<and> same_data db db') \<or> (r = Inr () \<and> committed td plan db db')"
  using assms(1)
proof (cases rule: bindSE)
  case (1 err)
  with assms(2) show ?thesis by blast
next
  case (2 db1 b)
  note same = assms(2) [OF 2(1)]
  from assms(3) [OF 2(1)] obtain log where b: "b = planOps plan @ log" "\<forall>op\<in>set log. admin_key (opKey op)" by blast
  from 2(2) show ?thesis
  proof (cases rule: bindSE)
    case (1 err)
    with CommitBatch_spec same show ?thesis by fastforce
  next
    case (2 db2 u)
    from CommitBatch_spec [OF 2(1)] have "db2 = db1\<lparr>db_store := applyBatch b (db_store db1)\<rparr>" by auto
    moreover have "db_store db1 = db_store db" using same by (simp add: same_data_def)
    ultimately show ?thesis using 2(2) same b by (auto simp: committed_def)
  qed
qed

lemma commitPut_spec:
  assumes "commitPut e td item plan db = (db', r)"
  shows "(\<exists>err. r = Inl err \<and> same_data db db') \<or> (r = Inr () \<and> committed td plan db db')"
  using assms unfolding commitPut_def
proof (rule commit_spec)
  fix db1 x assume "(if wp_skipPrior plan then (db, Inr [primaryOp plan])
     else logChange e td ChangePut item (wp_prior plan) (Some item) db (primaryOp plan # wp_ops plan)) = (db1, x)"
  then show "same_data db db1" by (auto split: if_splits dest: logChange_spec(1))
next
  fix db1 b assume "(if wp_skipPrior plan then (db, Inr [primaryOp plan])
     else logChange e td ChangePut item (wp_prior plan) (Some item) db (primaryOp plan # wp_ops plan)) = (db1, Inr b)"
  then show "\<exists>log. b = planOps plan @ log \<and> (\<forall>op\<in>set log. admin_key (opKey op))"
    by (auto simp: planOps_def split: if_splits dest!: logChange_spec(2))
qed

lemma commitDelete_spec:
  assumes "commitDelete e td item plan db = (db', r)" and "\<not> wp_skipPrior plan"
  shows "(\<exists>err. r = Inl err \<and> same_data db db') \<or> (r = Inr () \<and> committed td plan db db')"
  using assms(1) unfolding commitDelete_def
proof (rule commit_spec)
  fix db1 x assume l: "logChange e td ChangeDelete item (wp_prior plan) None db (primaryOp plan # wp_ops plan) = (db1, x)"
  show "same_data db db1" by (rule logChange_spec(1) [OF l])
next
  fix db1 b assume l: "logChange e td ChangeDelete item (wp_prior plan) None db (primaryOp plan # wp_ops plan) = (db1, Inr b)"
  show "\<exists>log. b = planOps plan @ log \<and> (\<forall>op\<in>set log. admin_key (opKey op))"
    using logChange_spec(2) [OF l refl] assms(2) by (simp add: planOps_def)
qed

lemma planDelete_not_skip: "planDelete e db td key opts = Inr plan \<Longrightarrow> \<not> wp_skipPrior plan"
  by (auto simp: planDelete_def Let_def elim!: bindr_InrE)

lemma put_spec:
  assumes "putItemWithNoLane e td item opts db = (db', r)"
  shows "(\<exists>err. r = Inl err \<and> same_data db db') \<or>
    (r = Inr () \<and> (\<exists>plan. planPut e db td item opts = Inr plan \<and> committed td plan db db'))"
proof (cases "planPut e db td item opts")
  case (Inl err)
  with assms show ?thesis by (auto simp: putItemWithNoLane_def)
next
  case (Inr plan)
  with assms have "commitPut e td item plan db = (db', r)" by (simp add: putItemWithNoLane_def)
  from commitPut_spec [OF this] Inr show ?thesis by blast
qed

lemma delete_spec:
  assumes "deleteItemWithNoLane e td key opts db = (db', r)"
  shows "(\<exists>err. r = Inl err \<and> same_data db db') \<or>
    (r = Inr () \<and> (\<exists>plan. planDelete e db td key opts = Inr plan \<and> committed td plan db db'))"
proof (cases "planDelete e db td key opts")
  case (Inl err)
  with assms show ?thesis by (auto simp: deleteItemWithNoLane_def)
next
  case (Inr plan)
  with assms have "commitDelete e td key plan db = (db', r)" by (simp add: deleteItemWithNoLane_def)
  from commitDelete_spec [OF this planDelete_not_skip [OF Inr]] Inr show ?thesis by blast
qed

section \<open>Batch writes\<close>

lemma logBatchChange_spec:
  assumes "logBatchChange e td batchID i op keyItem prior next db b = (db', r)"
  shows "same_data db db'" and "r = Inr b' \<Longrightarrow> \<exists>log. b' = b @ log \<and> (\<forall>op\<in>set log. admin_key (opKey op))"
  using assms appendChangeRecord_spec by (fastforce simp: logBatchChange_def split: if_splits)+

lemma batchLoop_same: "batchLoop e td snap batchID i ops db b deltas = (db', r) \<Longrightarrow> same_data db db'"
proof (induction ops arbitrary: i db b deltas)
  case (Cons op ops)
  show ?case
  proof (cases "planBatchOp e td snap op")
    case (Inl err)
    with Cons.prems show ?thesis by auto
  next
    case (Inr plan)
    obtain op' ki nx where it: "batchOpItems op = (op', ki, nx)" by (cases "batchOpItems op")
    obtain db1 x where l: "logBatchChange e td batchID i op' ki (wp_prior plan) nx db (b @ [primaryOp plan]) = (db1, x)"
      by fastforce
    note s = logBatchChange_spec(1) [OF l]
    show ?thesis
    proof (cases x)
      case (Inl err)
      with Cons.prems s it l \<open>planBatchOp e td snap op = Inr plan\<close> show ?thesis by auto
    next
      case (Inr b1)
      with Cons.prems it l \<open>planBatchOp e td snap op = Inr plan\<close>
      have "batchLoop e td snap batchID (Suc i) ops db1 (b1 @ wp_ops plan) (deltas @ [(wp_key plan, wp_value plan)]) = (db', r)"
        by simp
      with Cons.IH s same_data_trans show ?thesis by blast
    qed
  qed
qed auto

lemma batch_failed:
  assumes "batchWriteItemImpl e td ops bypassRepl db = (db', Inl err)"
  shows "same_data db db'"
proof -
  have commit: "same_data db1 d" if "bindS (commitBatchMaybeLocal l db1 b) (\<lambda>db2 _. (followDeltas td deltas db2, Inr ())) = (d, Inl x)"
    for l db1 b deltas d and x :: engine_error
    using that commitBatchMaybeLocal_spec by (cases rule: bindSE) fastforce+
  show ?thesis
  proof (cases "ops = [] \<or> (\<exists>x. checkWritePressure e db = Inl x)")
    case True
    with assms show ?thesis by (auto simp: batchWriteItemImpl_def split: if_splits)
  next
    case False
    then have go: "ops \<noteq> []" "checkWritePressure e db = Inr ()" by (cases "checkWritePressure e db"; simp)+
    show ?thesis
    proof (cases "batchPutItemsCanSkipPrior e db td ops")
      case True
      with assms go commit show ?thesis
        by (auto simp: batchWriteItemImpl_def batchPutItemsWithoutPriorImpl_def split: sum.splits prod.splits)
    next
      case False
      obtain db0 batchID where n: "(if shouldAppendChangeRecord db td then nextBatchID e db else (db, '''')) = (db0, batchID)"
        by fastforce
      then have "same_data db db0" by (auto split: if_splits dest: nextBatchID_same)
      moreover from assms go False n have "bindS (batchLoop e td db batchID 0 ops db0 [] []) (\<lambda>db1 (b, deltas).
          bindS (commitBatchMaybeLocal bypassRepl db1 b) (\<lambda>db2 _. (followDeltas td deltas db2, Inr ()))) = (db', Inl err)"
        by (simp add: batchWriteItemImpl_def)
      then have "same_data db0 db'"
      proof (cases rule: bindSE)
        case (1 e)
        with batchLoop_same show ?thesis by blast
      next
        case (2 db1 y)
        with batchLoop_same commit show ?thesis by (cases y) (metis (no_types, lifting) case_prod_conv same_data_trans)
      qed
      ultimately show ?thesis by (rule same_data_trans)
    qed
  qed
qed


section \<open>A write is visible to the next read\<close>

definition db_wf :: "DB \<Rightarrow> bool" where
  "db_wf db \<longleftrightarrow> gomap_canon (db_store db) \<and> gomap_canon (db_memTables db) \<and>
     (\<forall>t m. map_of (db_memTables db) t = Some m \<longrightarrow> gomap_canon m)"

text \<open>A table whose descriptor says disk has no copy in memory.\<close>

definition class_ok :: "TableDescriptor \<Rightarrow> DB \<Rightarrow> bool" where
  "class_ok td db \<longleftrightarrow> isMemoryTable td \<or> (memTable db (td_Name td) = None \<and> \<not> memoryHasTable db (td_Name td))"

lemma planPutE:
  assumes "planPut e db td item opts = Inr plan"
  obtains pk sk enc where "extractKeyBytes item (td_KeySchema td) = Inr (pk, sk)"
    and "wp_key plan = KeyPrimary (en_hash e) (td_Name td) pk sk"
    and "EncodeItem (Some item) = Inr enc" and "wp_value plan = Some enc"
    and "(wp_skipPrior plan \<and> wp_prior plan = None \<and> wp_ops plan = [] \<and> putItemCanSkipPrior e db td (po_Condition opts)) \<or>
      (\<not> wp_skipPrior plan \<and> readPrior db (wp_key plan) = Inr (wp_prior plan) \<and>
       planRow (HF e) td (wp_prior plan) (Some item) = Inr (wp_ops plan))"
  using assms by (auto simp: planPut_def Let_def elim!: bindr_InrE split: if_splits)

lemma planDeleteE:
  assumes "planDelete e db td key opts = Inr plan"
  obtains pk sk where "extractKeyBytes key (td_KeySchema td) = Inr (pk, sk)"
    and "wp_key plan = KeyPrimary (en_hash e) (td_Name td) pk sk" and "wp_value plan = None"
    and "\<not> wp_skipPrior plan" and "readPrior db (wp_key plan) = Inr (wp_prior plan)"
    and "planRow (HF e) td (wp_prior plan) None = Inr (wp_ops plan)"
  using assms by (auto simp: planDelete_def Let_def elim!: bindr_InrE)

text \<open>The operations of a plan: one on the primary key, the others on index keys of the table.\<close>

definition plan_ok :: "hasher \<Rightarrow> TableDescriptor \<Rightarrow> WritePlan \<Rightarrow> bool" where
  "plan_ok H td plan \<longleftrightarrow> (\<exists>pk sk. wp_key plan = KeyPrimary H (td_Name td) pk sk) \<and>
     (\<not> wp_skipPrior plan \<longrightarrow> (\<forall>op\<in>set (wp_ops plan). \<exists>s\<in>index_segs. in_seg (td_Name td) s (opKey op)))"

lemma planPut_ok: "planPut e db td item opts = Inr plan \<Longrightarrow> plan_ok (en_hash e) td plan"
  by (erule planPutE) (auto simp: plan_ok_def dest: planRow_keys)

lemma planDelete_ok: "planDelete e db td key opts = Inr plan \<Longrightarrow> plan_ok (en_hash e) td plan"
  by (erule planDeleteE) (auto simp: plan_ok_def dest: planRow_keys)

lemma KeyPrimary_seg: "in_seg t SegPrimary (KeyPrimary H t pk sk)"
  by (simp add: in_seg_def KeyPrimary_def)

lemma index_not_primary: "s \<in> index_segs \<Longrightarrow> in_seg t s k \<Longrightarrow> \<not> in_seg t SegPrimary k"
proof
  assume s: "s \<in> index_segs" "in_seg t s k" and "in_seg t SegPrimary k"
  then have "s = SegPrimary" by (intro segs_apart [of t s k SegPrimary]) (auto simp: index_segs_def)
  with s(1) show False
    by (auto simp: index_segs_def SegPrimary_def segGSI_def segLSI_def segGeo_def segZorder_def segTTL_def)
qed

text \<open>Among the primary keys of the table, a committed plan changes its own key only.\<close>

lemma committed_primary:
  assumes "committed td plan db db'" and "plan_ok H td plan" and "gomap_canon (db_store db)"
    and "in_seg (td_Name td) SegPrimary k"
  shows "map_of (db_store db') k = (if k = wp_key plan then wp_value plan else map_of (db_store db) k)"
proof -
  from assms(1) obtain log where log: "\<forall>op\<in>set log. admin_key (opKey op)"
    and store: "db_store db' = applyBatch (planOps plan @ log) (db_store db)"
    by (auto simp: committed_def memoryFollow_def memorySet_def memoryDelete_def same_data_def split: option.splits if_splits)
  let ?rest = "(if wp_skipPrior plan then [] else wp_ops plan) @ log"
  have "k \<notin> opKey ` set ?rest"
  proof
    assume "k \<in> opKey ` set ?rest"
    then consider op where "\<not> wp_skipPrior plan" "op \<in> set (wp_ops plan)" "k = opKey op" | op where "op \<in> set log" "k = opKey op"
      by (auto split: if_splits)
    then show False
      using assms(2,4) log index_not_primary table_not_admin by cases (auto simp: plan_ok_def)
  qed
  then have rest: "applyIndexOps ?rest kv k = kv k" for kv by (rule applyIndexOps_other)
  have "map_of (db_store db') = applyIndexOps ?rest (applyIndexOp (map_of (db_store db)) (primaryOp plan))"
    unfolding store map_of_applyBatch [OF assms(3)] planOps_def append_Cons applyIndexOps_simps(2) ..
  then show ?thesis by (simp only: rest) (simp add: primaryOp_def split: option.split)
qed

lemma memoryGet_follow:
  assumes "db_wf db" and "isMemoryTable td"
  shows "memoryGet (memoryFollow td k v db) (td_Name td) k = v"
proof -
  have canon: "gomap_canon m" if "memTable db t = Some m" for t m using assms(1) that by (simp add: db_wf_def memTable_def)
  then have "gomap_canon (case memTable db (td_Name td) of None \<Rightarrow> [] | Some m \<Rightarrow> m)" by (auto split: option.splits)
  then show ?thesis
    using assms by (auto simp: memoryFollow_def memorySet_def memoryDelete_def memoryGet_def memTable_def db_wf_def
        map_of_gomap_put map_of_gomap_del split: option.splits)
qed

lemma committed_get:
  assumes "committed td plan db db'" and "plan_ok (en_hash e) td plan" and "db_wf db" and "class_ok td db"
    and "wp_key plan = KeyPrimary (en_hash e) (td_Name td) pk sk"
  shows "getEncodedItemByKeyBytesNoLane e db' (td_Name td) pk sk =
    (case wp_value plan of None \<Rightarrow> Inl ErrItemNotFound | Some v \<Rightarrow> Inr v)"
proof -
  have canon: "gomap_canon (db_store db)" using assms(3) by (simp add: db_wf_def)
  have store: "map_of (db_store db') (wp_key plan) = wp_value plan"
    using committed_primary [OF assms(1,2) canon, of "wp_key plan"] KeyPrimary_seg assms(5) by simp
  from assms(1) obtain db1 b where same: "same_data db db1"
    and db': "db' = memoryFollow td (wp_key plan) (wp_value plan) (db1\<lparr>db_store := applyBatch b (db_store db)\<rparr>)"
    unfolding committed_def by blast
  show ?thesis
  proof (cases "isMemoryTable td")
    case True
    have "db_wf (db1\<lparr>db_store := applyBatch b (db_store db)\<rparr>)" using assms(3) same by (simp add: db_wf_def same_data_def)
    from memoryGet_follow [OF this True] have "memoryGet db' (td_Name td) (wp_key plan) = wp_value plan" by (simp add: db')
    with store show ?thesis
      by (auto simp: getEncodedItemByKeyBytesNoLane_def assms(5) split: option.splits)
  next
    case False
    then have "memoryGet db' (td_Name td) k = None" for k
      using assms(4) same by (simp add: class_ok_def db' memoryFollow_def memoryGet_def memTable_def same_data_def)
    with store show ?thesis by (simp add: getEncodedItemByKeyBytesNoLane_def assms(5))
  qed
qed


text \<open>
  After a delete that succeeds, the key reads as not found.
\<close>

lemma delete_then_get:
  assumes "deleteItemWithNoLane e td key opts db = (db', Inr ())" and "db_wf db" and "class_ok td db"
  shows "GetItem e db' (td_Name td) (td_KeySchema td) key = Inl ErrItemNotFound"
proof -
  from delete_spec [OF assms(1)] obtain plan where plan: "planDelete e db td key opts = Inr plan" "committed td plan db db'"
    by auto
  from plan(1) obtain pk sk where k: "extractKeyBytes key (td_KeySchema td) = Inr (pk, sk)"
    "wp_key plan = KeyPrimary (en_hash e) (td_Name td) pk sk" "wp_value plan = None"
    by (rule planDeleteE)
  from committed_get [OF plan(2) planDelete_ok [OF plan(1)] assms(2,3) k(2)] k(1,3) show ?thesis
    by (simp add: GetItem_def GetItemByKeyBytes_def)
qed

section \<open>Memory tables agree with the store\<close>

lemma map_of_filter_keys: "map_of (filter (\<lambda>(k, _). P k) m) k = (if P k then map_of m k else None)"
  by (induction m) auto

lemma gomap_canon_filter [simp, intro]: "gomap_canon m \<Longrightarrow> gomap_canon (filter P m)"
  by (induction m) (auto simp: gomap_canon_def)

lemma gomap_canon_eqI:
  assumes "gomap_canon a" and "gomap_canon b" and "map_of a = map_of b"
  shows "a = b"
proof -
  have d: "distinct (map fst a)" "distinct (map fst b)" using assms(1,2) gomap_canon_distinct by auto
  then have "set a = set b" using assms(3) by (simp add: map_of_inject_set)
  moreover have "sorted (map fst a)" "sorted (map fst b)"
    using assms(1,2) by (auto simp: gomap_canon_def strict_sorted_iff)
  ultimately show ?thesis using d map_sorted_distinct_set_unique [of fst a b] by (simp add: distinct_map)
qed

lemma map_of_Iter: "map_of (Iter db r) k = (if in_range r k then map_of (db_store db) k else None)"
  by (simp add: Iter_def map_of_filter_keys)

lemma in_PrefixPrimaryAll: "in_range (PrefixPrimaryAll t) k \<longleftrightarrow> in_seg t SegPrimary k"
  by (simp add: PrefixPrimaryAll_def in_range_prefixRange in_seg_def)

text \<open>A memory table is loaded and holds exactly the rows of the table; a disk table has no copy.\<close>

definition mem_ready :: "TableDescriptor \<Rightarrow> DB \<Rightarrow> bool" where
  "mem_ready td db \<longleftrightarrow> class_ok td db \<and>
     (isMemoryTable td \<longrightarrow> memoryHasTable db (td_Name td) \<and>
        memTable db (td_Name td) = Some (Iter db (PrefixPrimaryAll (td_Name td))))"

lemma load_mem_ready:
  assumes "db_wf db" and "class_ok td db" and "isMemoryTable td" and "\<not> memoryHasTable db (td_Name td)"
  shows "mem_ready td (LoadMemoryTable (td_Name td) db)"
  using assms by (simp add: mem_ready_def class_ok_def LoadMemoryTable_def ensureMemoryTableLoaded_def memoryHasTable_def
      memTable_def db_wf_def map_of_gomap_put Iter_def)

lemma memoryFollow_wf:
  assumes "db_wf db"
  shows "db_wf (memoryFollow td k v db)"
proof -
  have canon: "gomap_canon (db_memTables db)" "\<And>t m. map_of (db_memTables db) t = Some m \<Longrightarrow> gomap_canon m"
    using assms by (auto simp: db_wf_def)
  have set: "db_wf (memorySet t k x db)" for t x
    using assms canon by (cases "map_of (db_memTables db) t") (auto simp: db_wf_def memorySet_def memTable_def map_of_gomap_put gomap_canon_def [of "[_]"])
  have del: "db_wf (memoryDelete t k db)" for t
    using assms canon by (cases "map_of (db_memTables db) t") (auto simp: db_wf_def memoryDelete_def memTable_def map_of_gomap_put)
  show ?thesis using set del assms by (simp add: memoryFollow_def split: option.split)
qed

lemma committed_wf:
  assumes "committed td plan db db'" and "db_wf db"
  shows "db_wf db'"
proof -
  from assms(1) obtain db1 b where same: "same_data db db1"
    and db': "db' = memoryFollow td (wp_key plan) (wp_value plan) (db1\<lparr>db_store := applyBatch b (db_store db)\<rparr>)"
    unfolding committed_def by blast
  have "db_wf (db1\<lparr>db_store := applyBatch b (db_store db)\<rparr>)" using assms(2) same by (simp add: db_wf_def same_data_def)
  then show ?thesis unfolding db' by (rule memoryFollow_wf)
qed

lemma committed_mem_ready:
  assumes "committed td plan db db'" and "plan_ok H td plan" and "db_wf db" and "mem_ready td db"
  shows "mem_ready td db'"
proof (cases "isMemoryTable td")
  case False
  with assms(1,4) show ?thesis
    by (auto simp: mem_ready_def class_ok_def committed_def memoryFollow_def memTable_def memoryHasTable_def same_data_def)
next
  case True
  let ?t = "td_Name td" and ?k = "wp_key plan" and ?m = "Iter db (PrefixPrimaryAll (td_Name td))"
  from assms(1) obtain db1 b where same: "same_data db db1"
    and db': "db' = memoryFollow td ?k (wp_value plan) (db1\<lparr>db_store := applyBatch b (db_store db)\<rparr>)"
    unfolding committed_def by blast
  from True assms(4) have has: "memoryHasTable db ?t" and m: "map_of (db_memTables db) ?t = Some ?m"
    by (simp_all add: mem_ready_def memTable_def)
  have canon: "gomap_canon (db_store db)" "gomap_canon (db_memTables db)" "gomap_canon ?m"
    using assms(3) by (simp_all add: db_wf_def Iter_def)
  let ?m' = "case wp_value plan of Some v \<Rightarrow> gomap_put ?k v ?m | None \<Rightarrow> gomap_del ?k ?m"
  have mem: "map_of (db_memTables db') ?t = Some ?m'" and loaded: "?t \<in> set (db_memLoaded db')"
    using True m has same canon(2)
    by (auto simp: db' memoryFollow_def memorySet_def memoryDelete_def memTable_def memoryHasTable_def same_data_def
        map_of_gomap_put split: option.splits)
  have "?m' = Iter db' (PrefixPrimaryAll ?t)"
  proof (rule gomap_canon_eqI)
    show "gomap_canon ?m'" using canon(3) by (auto split: option.splits)
    show "gomap_canon (Iter db' (PrefixPrimaryAll ?t))"
      using committed_wf [OF assms(1,3)] by (simp add: Iter_def db_wf_def)
    have key: "in_seg ?t SegPrimary ?k" using assms(2) KeyPrimary_seg by (auto simp: plan_ok_def)
    show "map_of ?m' = map_of (Iter db' (PrefixPrimaryAll ?t))"
    proof
      fix k
      show "map_of ?m' k = map_of (Iter db' (PrefixPrimaryAll ?t)) k"
        using canon(3) key committed_primary [OF assms(1,2) canon(1), of k]
        by (auto simp: map_of_gomap_put map_of_gomap_del map_of_Iter in_PrefixPrimaryAll split: option.splits)
    qed
  qed
  with mem loaded True show ?thesis by (simp add: mem_ready_def class_ok_def memTable_def memoryHasTable_def)
qed

lemma writes_mem_ready:
  assumes "db_wf db" and "mem_ready td db"
    and "putItemWithNoLane e td item popts db = (db', r) \<or> deleteItemWithNoLane e td item dopts db = (db', r)"
  shows "db_wf db' \<and> mem_ready td db'"
proof -
  have same: "db_wf db' \<and> mem_ready td db'" if "same_data db db'"
    using assms(1,2) that
    by (simp add: db_wf_def mem_ready_def class_ok_def same_data_def memTable_def memoryHasTable_def Iter_def)
  have com: "db_wf db' \<and> mem_ready td db'" if "committed td plan db db'" "plan_ok H td plan" for H plan
    using committed_wf [OF that(1) assms(1)] committed_mem_ready [OF that assms(1,2)] by blast
  from assms(3) show ?thesis
  proof
    assume "putItemWithNoLane e td item popts db = (db', r)"
    from put_spec [OF this] same com planPut_ok show ?thesis by blast
  next
    assume "deleteItemWithNoLane e td item dopts db = (db', r)"
    from delete_spec [OF this] same com planDelete_ok show ?thesis by blast
  qed
qed


section \<open>Scans of a memory table and of the store agree\<close>

lemma scanLoop_decodeAll:
  "(0 < limit \<Longrightarrow> int (length out) < limit) \<Longrightarrow>
     scanLoop limit out vs =
       bindr (decodeAll (if 0 < limit then take (nat limit - length out) vs else vs)) (\<lambda>items. Inr (out @ items))"
proof (induction vs arbitrary: out)
  case (Cons v vs)
  show ?case
  proof (cases "DecodeItem v")
    case (Inl err)
    with Cons.prems show ?thesis by (auto simp: take_Cons')
  next
    case (Inr item)
    show ?thesis
    proof (cases "0 < limit \<and> limit \<le> int (length (out @ [item]))")
      case True
      with Cons.prems have "nat limit - length out = 1" by simp
      with True Inr show ?thesis by simp
    next
      case False
      have nth: "0 < limit \<Longrightarrow> nat limit - length out = Suc (nat limit - length (out @ [item]))"
        using Cons.prems by simp
      from False Cons.IH [of "out @ [item]"]
      have "scanLoop limit (out @ [item]) vs = bindr (decodeAll (if 0 < limit then take (nat limit - length (out @ [item])) vs else vs))
          (\<lambda>items. Inr ((out @ [item]) @ items))" by auto
      moreover have "scanLoop limit out (v # vs) = scanLoop limit (out @ [item]) vs" using False Inr by (auto simp: Let_def)
      moreover have "decodeAll (if 0 < limit then take (nat limit - length out) (v # vs) else v # vs)
          = bindr (decodeAll (if 0 < limit then take (nat limit - length (out @ [item])) vs else vs)) (\<lambda>items. Inr (item # items))"
        using nth Inr by (cases "0 < limit") simp_all
      ultimately show ?thesis
        by (cases "decodeAll (if 0 < limit then take (nat limit - length (out @ [item])) vs else vs)") simp_all
    qed
  qed
qed simp

lemma between_append: "(p :: bytes) @ a \<le> k \<Longrightarrow> k < p @ b \<Longrightarrow> prefix p k"
proof (induction p arbitrary: k)
  case (Cons x p)
  then show ?case by (cases k) (auto simp: less_le_not_le)
qed simp

lemma skRange_prefix: "in_range (skRange p lo hi) k \<Longrightarrow> prefix p k"
proof (cases hi)
  case None
  assume "in_range (skRange p lo hi) k"
  with None have "in_range (prefixRange p) k"
    by (auto simp: skRange_def prefixRange_def split: option.splits intro: order_trans [OF le_append_self])
  then show ?thesis by (simp add: in_range_prefixRange)
qed (auto simp: skRange_def intro: between_append)

lemma scanPrimary_eq:
  assumes "db_wf db" and "mem_ready td db" and "\<And>k. in_range r k \<Longrightarrow> in_seg (td_Name td) SegPrimary k"
  shows "scanPrimary db (td_Name td) r limit = scanItemsNoLane db r limit"
proof (cases "memoryHasTable db (td_Name td)")
  case True
  with assms(2) have m: "memTable db (td_Name td) = Some (Iter db (PrefixPrimaryAll (td_Name td)))"
    by (auto simp: mem_ready_def class_ok_def)
  have "memoryRange (Iter db (PrefixPrimaryAll (td_Name td))) r = Iter db r"
  proof -
    have "filter (\<lambda>(k, _). in_range r k) (Iter db (PrefixPrimaryAll (td_Name td))) = Iter db r"
      unfolding Iter_def using assms(3) by (auto simp: in_PrefixPrimaryAll intro!: filter_cong)
    moreover have "gomap_canon (Iter db r)" using assms(1) by (simp add: Iter_def db_wf_def)
    ultimately show ?thesis by (simp add: memoryRange_def gomap_canon_sort_key)
  qed
  then have mem: "scanPrimary db (td_Name td) r limit = decodeAll (takeLimit limit (map snd (Iter db r)))"
    using True m by (simp add: scanPrimary_def memoryScan_def)
  have "scanItemsNoLane db r limit = bindr (decodeAll (takeLimit limit (map snd (Iter db r)))) (\<lambda>items. Inr items)"
    using scanLoop_decodeAll [of limit "[]"] by (simp add: scanItemsNoLane_def takeLimit_def cong: if_cong)
  also have "\<dots> = decodeAll (takeLimit limit (map snd (Iter db r)))"
    by (cases "decodeAll (takeLimit limit (map snd (Iter db r)))") simp_all
  finally show ?thesis by (simp add: mem)
qed (simp add: scanPrimary_def)


section \<open>Examples\<close>

definition length_hasher :: hasher where
  "length_hasher = \<lparr>Sum64 = (\<lambda>b. of_nat (length b)), Digest = (\<lambda>bs. of_nat (length (concat bs)))\<rparr>"

definition demo_env :: env where
  "demo_env = \<lparr>en_hash = length_hasher, en_unicode = ascii_unicode,
     en_float = \<lparr>ParseFloat = (\<lambda>_. None), EncodeGeohash = (\<lambda>_ _ _. None), Normalize = (\<lambda>_ _. 0)\<rparr>,
     en_now = 1000, en_metrics = \<lparr>pm_L0Files = 0, pm_CompactionDebtBytes = 0, pm_ReadAmp = 0\<rparr>\<rparr>"

definition demo_bp :: BackpressureOptions where
  "demo_bp = \<lparr>bp_Enabled = False, bp_WarningL0Files = 0, bp_CriticalL0Files = 0, bp_WarningCompactionDebtBytes = 0,
     bp_CriticalCompactionDebtBytes = 0, bp_WarningReadAmp = 0, bp_CriticalReadAmp = 0, bp_RejectOnCritical = False\<rparr>"

definition demo_db :: "store \<Rightarrow> DB" where
  "demo_db s = \<lparr>db_store = s, db_memTables = [], db_memLoaded = [], db_changeIndex = 0, db_batchSeqCounter = 0,
     db_streamTables = [], db_changeLogMode = ChangeLogModeAlways, db_retention = 60, db_resolver = None, db_bp = demo_bp,
     db_writeDraining = None, db_repl = None, db_closed = False\<rparr>"

definition demo_td :: "string \<Rightarrow> TableDescriptor" where
  "demo_td class' = (bareDescriptor ''t'' demo_schema)\<lparr>td_GSIs := [demo_gsi ''KEYS_ONLY''], td_StorageClass := class'\<rparr>"

definition demo_put :: PutOptions where
  "demo_put = \<lparr>po_Condition = [], po_Binds = [], po_AllowCounterWrite = False\<rparr>"

definition demo_del :: DeleteOptions where
  "demo_del = \<lparr>do_Condition = [], do_Binds = []\<rparr>"

lemmas demo_engine = demo_env_def demo_bp_def demo_db_def demo_td_def demo_put_def demo_del_def

lemma demo_item_wf: "item_wf (demo_item c n)" if "length c < 1000" "length n < 1000"
  using that by (simp add: demo_item_def item_wf_def len_fits_def gomap_canon_def)

lemma demo_db_wf: "db_wf (demo_db [])"
  by (simp add: db_wf_def demo_db_def)

lemma demo_put_ok: "snd (putItemWithNoLane demo_env (demo_td '''') (demo_item ''rome'' ''x'') demo_put (demo_db [])) = Inr ()"
  by code_simp


lemma demo_disk: "\<not> isMemoryTable (demo_td '''')"
  by code_simp

lemma demo_class_ok: "class_ok (demo_td '''') (demo_db s)"
  by (simp add: class_ok_def demo_engine memTable_def memoryHasTable_def)


theorem delete_then_get_witness:
  "\<exists>db db'. deleteItemWithNoLane demo_env (demo_td '''') (demo_item ''rome'' ''x'') demo_del db = (db', Inr ()) \<and>
     db_store db \<noteq> [] \<and> GetItem demo_env db' ''t'' demo_schema (demo_item ''rome'' ''x'') = Inl ErrItemNotFound"
proof -
  define db where "db = fst (putItemWithNoLane demo_env (demo_td '''') (demo_item ''rome'' ''x'') demo_put (demo_db []))"
  let ?db = "fst (deleteItemWithNoLane demo_env (demo_td '''') (demo_item ''rome'' ''x'') demo_del db)"
  have "snd (deleteItemWithNoLane demo_env (demo_td '''') (demo_item ''rome'' ''x'') demo_del db) = Inr ()"
    unfolding db_def by code_simp
  then have del: "deleteItemWithNoLane demo_env (demo_td '''') (demo_item ''rome'' ''x'') demo_del db = (?db, Inr ())"
    by (simp add: prod_eq_iff)
  have "mem_ready (demo_td '''') (demo_db [])"
    using demo_class_ok demo_disk by (simp add: mem_ready_def)
  then have "db_wf db \<and> mem_ready (demo_td '''') db"
    using writes_mem_ready [OF demo_db_wf] unfolding db_def by (metis prod.collapse)
  with delete_then_get [OF del] have "GetItem demo_env ?db ''t'' demo_schema (demo_item ''rome'' ''x'') = Inl ErrItemNotFound"
    by (simp add: mem_ready_def demo_td_def bareDescriptor_def)
  moreover have "db_store db \<noteq> []" unfolding db_def by code_simp
  ultimately show ?thesis using del by blast
qed

text \<open>A memory table, loaded while empty and then written.\<close>

definition demo_mem_db :: DB where
  "demo_mem_db = LoadMemoryTable ''t'' (demo_db [])"

lemma demo_mem_ready: "db_wf demo_mem_db \<and> mem_ready (demo_td ''memory'') demo_mem_db"
proof
  have m: "isMemoryTable (demo_td ''memory'')" by code_simp
  have wf: "db_wf (demo_db [])" by (rule demo_db_wf)
  then show "db_wf demo_mem_db"
    by (simp add: db_wf_def demo_mem_db_def LoadMemoryTable_def ensureMemoryTableLoaded_def memoryHasTable_def Iter_def
        demo_db_def gomap_canon_def)
  have "mem_ready (demo_td ''memory'') (LoadMemoryTable (td_Name (demo_td ''memory'')) (demo_db []))"
    by (rule load_mem_ready [OF wf _ m]) (simp_all add: class_ok_def m memoryHasTable_def demo_db_def)
  then show "mem_ready (demo_td ''memory'') demo_mem_db" by (simp add: demo_mem_db_def demo_td_def bareDescriptor_def)
qed



text \<open>
  A put to a memory table that was not loaded marks it as loaded with that one row: the rows
  already in the store disappear from scans.
\<close>

lemma unloaded_memory_table_loses_rows:
  assumes "putItemWithNoLane e td item opts db = (db', Inr ())" and "db_wf db" and "isMemoryTable td"
    and "memTable db (td_Name td) = None"
  shows "\<exists>k v. memoryHasTable db' (td_Name td) \<and> memTable db' (td_Name td) = Some [(k, v)]"
proof -
  from put_spec [OF assms(1)] obtain plan where plan: "planPut e db td item opts = Inr plan" "committed td plan db db'" by auto
  from plan(1) obtain enc where v: "wp_value plan = Some enc" by (rule planPutE)
  from plan(2) assms(2-4) v show ?thesis
    by (auto simp: committed_def same_data_def memoryFollow_def memorySet_def memTable_def memoryHasTable_def db_wf_def
        map_of_gomap_put)
qed

end
