(* ===== verification/EngineIndexes.thy ===== *)
theory EngineIndexes
  imports EngineProps
begin

text \<open>
  The indexes of a table describe exactly its stored rows, in every state that the engine's puts and
  deletes can reach. The proof is an invariant over the reachable states: every stored row lies
  under the key of its own attributes, and an index key holds a value if and only if some stored
  row contributes that entry.

  The hash functions are parameters. The theorems assume that they do not collide on the keys in
  use. Local secondary indexes are left out: their keys concatenate two variable-length sort keys
  and are ambiguous (lemma \<open>lsi_key_ambiguous\<close>).
\<close>

section \<open>Rows, entries and what separates them\<close>

definition row_at :: "TableDescriptor \<Rightarrow> kv \<Rightarrow> bytes \<Rightarrow> Item \<Rightarrow> bool" where
  "row_at td kv k item \<longleftrightarrow>
     in_seg (td_Name td) SegPrimary k \<and> (\<exists>raw. kv k = Some raw \<and> DecodeItem raw = Inr item)"

definition rows_ok :: "hasher \<Rightarrow> TableDescriptor \<Rightarrow> (bytes \<times> bytes) set \<Rightarrow> kv \<Rightarrow> bool" where
  "rows_ok H td K kv \<longleftrightarrow>
     (\<forall>k raw. in_seg (td_Name td) SegPrimary k \<longrightarrow> kv k = Some raw \<longrightarrow>
        (\<exists>item pk sk. DecodeItem raw = Inr item \<and> primaryKeyBytes (td_KeySchema td) item = Inr (pk, sk) \<and>
           (pk, sk) \<in> K \<and> k = KeyPrimary H (td_Name td) pk sk))"

definition index_key :: "string \<Rightarrow> bytes \<Rightarrow> bool" where
  "index_key t k \<longleftrightarrow> (\<exists>s\<in>index_segs. in_seg t s k)"

definition index_exact :: "spatial_env \<Rightarrow> TableDescriptor \<Rightarrow> kv \<Rightarrow> bool" where
  "index_exact hf td kv \<longleftrightarrow>
     (\<forall>k v. index_key (td_Name td) k \<longrightarrow>
        (kv k = Some v \<longleftrightarrow> (\<exists>p item. row_at td kv p item \<and> row_entries hf td (Some item) k = Some v)))"

definition collision_free :: "hasher \<Rightarrow> (bytes \<times> bytes) set \<Rightarrow> bool" where
  "collision_free H K \<longleftrightarrow>
     (\<forall>(pk, sk)\<in>K. \<forall>(pk', sk')\<in>K.
        (Sum64 H pk = Sum64 H pk' \<longrightarrow> pk = pk') \<and>
        (Digest H [pk, [0], sk] = Digest H [pk', [0], sk'] \<longrightarrow> (pk, sk) = (pk', sk')))"

lemma collision_freeD:
  assumes "collision_free H K" and "(pk, sk) \<in> K" and "(pk', sk') \<in> K"
  shows "Sum64 H pk = Sum64 H pk' \<Longrightarrow> pk = pk'"
    and "Digest H [pk, [0], sk] = Digest H [pk', [0], sk'] \<Longrightarrow> (pk, sk) = (pk', sk')"
  using assms unfolding collision_free_def by fast+

lemma KeyPrimary_inject:
  assumes "collision_free H K" and "(pk, sk) \<in> K" and "(pk', sk') \<in> K"
    and "KeyPrimary H t pk sk = KeyPrimary H t pk' sk'"
  shows "(pk, sk) = (pk', sk')"
proof -
  from assms(4) have "pkHash8 H pk = pkHash8 H pk' \<and> sk = sk'" by (simp add: KeyPrimary_def)
  with collision_freeD(1) [OF assms(1-3)] show ?thesis by simp
qed

lemma entry_key_index: "row_entries hf td i k = Some v \<Longrightarrow> index_key (td_Name td) k"
  by (auto simp: row_entries_def map_add_Some_iff index_key_def index_segs_def dest: entries_seg)

lemma gsi_spatial_suffix:
  assumes "gsi_entries (fst hf) td (Some item) k = Some v \<or> spatial_entries hf td (Some item) k = Some v"
    and "primaryKeyBytes (td_KeySchema td) item = Inr (pk, sk)"
  shows "\<exists>x. k = x @ primaryDisambiguator (fst hf) pk sk"
  using assms unfolding gsi_entries_def spatial_entries_def
  by (auto dest!: entry_map_SomeD elim!: gsiEntry_SomeE spatialEntry_SomeE simp: KeyGSI_def)

lemma ttl_suffix:
  assumes "ttl_entries H td (Some item) k = Some v" and "primaryKeyBytes (td_KeySchema td) item = Inr (pk, sk)"
  shows "\<exists>expire. k = KeyTTL H (td_Name td) expire pk sk"
  using assms unfolding ttl_entries_def by (auto dest!: entry_map_SomeD elim!: ttlEntry_SomeE)

text \<open>Rows with different keys contribute different entries.\<close>

lemma entries_separate:
  assumes cf: "collision_free (fst hf) K" and lsi: "td_LSIs td = []"
    and i: "primaryKeyBytes (td_KeySchema td) i = Inr (pk, sk)" "(pk, sk) \<in> K"
    and j: "primaryKeyBytes (td_KeySchema td) j = Inr (pk', sk')" "(pk', sk') \<in> K"
    and "row_entries hf td (Some i) k = Some v" and "row_entries hf td (Some j) k = Some w"
  shows "(pk, sk) = (pk', sk')"
proof -
  let ?G = "gsi_entries (fst hf) td" and ?S = "spatial_entries hf td" and ?T = "ttl_entries (fst hf) td"
  have cases: "(?G (Some x) k = Some u \<or> ?S (Some x) k = Some u) \<or> ?T (Some x) k = Some u"
    if "row_entries hf td (Some x) k = Some u" for x u
    using that lsi by (auto simp: row_entries_def lsi_entries_def map_add_Some_iff)
  have apart: "\<not> (?T (Some x) k = Some u \<and> (?G (Some y) k = Some u' \<or> ?S (Some y) k = Some u'))" for x y u u'
    using entries_apart(3) [of "fst hf" td "Some y" "fst hf" "Some x"] entries_apart(6) [of hf td "Some y" "fst hf" "Some x"] by blast
  from cases [OF assms(7)] show ?thesis
  proof
    assume a: "?G (Some i) k = Some v \<or> ?S (Some i) k = Some v"
    with apart cases [OF assms(8)] have "?G (Some j) k = Some w \<or> ?S (Some j) k = Some w" by blast
    with a i(1) j(1) obtain x y where "x @ primaryDisambiguator (fst hf) pk sk = y @ primaryDisambiguator (fst hf) pk' sk'"
      using gsi_spatial_suffix by metis
    then have "primaryDisambiguator (fst hf) pk sk = primaryDisambiguator (fst hf) pk' sk'" by (simp add: append_eq_append_conv)
    then show ?thesis using collision_freeD(2) [OF cf i(2) j(2)] by (simp add: primaryDisambiguator_def)
  next
    assume t: "?T (Some i) k = Some v"
    with apart cases [OF assms(8)] have "?T (Some j) k = Some w" by blast
    with t i(1) j(1) obtain a b where "KeyTTL (fst hf) (td_Name td) a pk sk = KeyTTL (fst hf) (td_Name td) b pk' sk'"
      using ttl_suffix by metis
    then have "pkHash8 (fst hf) pk = pkHash8 (fst hf) pk' \<and> sk = sk'"
      by (simp add: KeyTTL_def be8_def append_eq_append_conv)
    then show ?thesis using collision_freeD(1) [OF cf i(2) j(2)] by simp
  qed
qed

section \<open>One write preserves exactness\<close>

text \<open>The prior row, as a plan reads it, is the row stored under the key.\<close>

definition prior_of :: "TableDescriptor \<Rightarrow> kv \<Rightarrow> bytes \<Rightarrow> Item option \<Rightarrow> bool" where
  "prior_of td kv k prior \<longleftrightarrow> (case prior of None \<Rightarrow> kv k = None | Some p \<Rightarrow> row_at td kv k p)"

lemma index_exact_step:
  assumes ok: "indexes_ok td" "td_LSIs td = []" and cf: "collision_free (fst hf) K"
    and rows: "rows_ok (fst hf) td K kv" and exact: "index_exact hf td kv"
    and key: "in_seg (td_Name td) SegPrimary pkey" and prior: "prior_of td kv pkey prior"
    and plan: "planRow hf td prior next = Inr ops"
    and "next": "\<And>n. next = Some n \<Longrightarrow> \<exists>pk sk. primaryKeyBytes (td_KeySchema td) n = Inr (pk, sk) \<and>
      (pk, sk) \<in> K \<and> pkey = KeyPrimary (fst hf) (td_Name td) pk sk \<and> (\<exists>enc. value = Some enc \<and> DecodeItem enc = Inr n)"
    and none: "next = None \<Longrightarrow> value = None"
    and kv': "\<And>k. \<not> admin_key k \<Longrightarrow> kv' k = applyIndexOps ops (kv(pkey := value)) k"
  shows "rows_ok (fst hf) td K kv' \<and> index_exact hf td kv'"
proof -
  let ?E = "row_entries hf td" and ?t = "td_Name td"
  have row_key: "\<exists>pk sk. primaryKeyBytes (td_KeySchema td) i = Inr (pk, sk) \<and> (pk, sk) \<in> K \<and>
      p = KeyPrimary (fst hf) ?t pk sk" if "row_at td kv p i" for p i
    using that rows by (fastforce simp: row_at_def rows_ok_def)
  have same: "same_primary (td_KeySchema td) prior next"
  proof (cases "prior = None \<or> next = None")
    case True
    then show ?thesis by (auto simp: same_primary_def split: option.splits)
  next
    case False
    then obtain p n where pn: "prior = Some p" "next = Some n" by auto
    then obtain a b c d where "primaryKeyBytes (td_KeySchema td) p = Inr (a, b)" "(a, b) \<in> K" "pkey = KeyPrimary (fst hf) ?t a b"
      "primaryKeyBytes (td_KeySchema td) n = Inr (c, d)" "(c, d) \<in> K" "pkey = KeyPrimary (fst hf) ?t c d"
      using row_key [of pkey p] "next" [of n] prior by (auto simp: prior_of_def)
    with KeyPrimary_inject [OF cf] show ?thesis by (fastforce simp: same_primary_def pn)
  qed
  have not_key: "k \<noteq> pkey" if "index_key ?t k" for k
    using that key index_not_primary by (auto simp: index_key_def)
  have not_admin: "\<not> admin_key k" if "index_key ?t k \<or> in_seg ?t SegPrimary k" for k
    using that table_not_admin by (auto simp: index_key_def)
  have "?E prior \<subseteq>\<^sub>m kv(pkey := value)"
  proof (cases prior)
    case (Some p)
    then have "row_at td kv pkey p" using prior by (simp add: prior_of_def)
    have "?E prior k = (kv(pkey := value)) k" if "k \<in> dom (?E prior)" for k
    proof -
      from that obtain v where v: "?E (Some p) k = Some v" by (auto simp: Some)
      with exact \<open>row_at td kv pkey p\<close> have "kv k = Some v" using entry_key_index [OF v] by (auto simp: index_exact_def)
      with v not_key [OF entry_key_index [OF v]] show ?thesis by (simp add: Some)
    qed
    then show ?thesis by (simp add: map_le_def)
  qed simp
  from planRow_refines [OF plan ok(1) same this]
  have after: "kv' k = (((kv(pkey := value)) |` (- dom (?E prior))) ++ ?E next) k" if "\<not> admin_key k" for k
    using kv' [OF that] by simp
  have idx: "kv' k = (case ?E next k of Some v \<Rightarrow> Some v | None \<Rightarrow> if ?E prior k = None then kv k else None)"
    if "index_key ?t k" for k
    using after [of k] not_admin not_key [OF that] that
    by (auto simp: map_add_def restrict_map_def domIff split: option.split)
  have prim: "kv' k = (if k = pkey then value else kv k)" if "in_seg ?t SegPrimary k" for k
  proof -
    have "?E i k = None" for i using row_entries_not_primary that by (metis not_None_eq)
    then show ?thesis using after [of k] not_admin that by (simp add: map_add_def restrict_map_def domIff)
  qed
  have row': "row_at td kv' q i \<longleftrightarrow> (if q = pkey then next = Some i else row_at td kv q i)" for q i
  proof (cases "q = pkey")
    case True
    show ?thesis
      using "next" none key by (cases "next") (auto simp: True row_at_def prim)
  next
    case False
    then show ?thesis using prim by (auto simp: row_at_def)
  qed
  have rows': "rows_ok (fst hf) td K kv'"
    unfolding rows_ok_def
  proof (intro allI impI)
    fix k raw assume k: "in_seg ?t SegPrimary k" "kv' k = Some raw"
    show "\<exists>item pk sk. DecodeItem raw = Inr item \<and> primaryKeyBytes (td_KeySchema td) item = Inr (pk, sk) \<and>
        (pk, sk) \<in> K \<and> k = KeyPrimary (fst hf) ?t pk sk"
    proof (cases "k = pkey")
      case True
      then have "next \<noteq> None" using k prim none by auto
      with "next" True k prim show ?thesis by fastforce
    next
      case False
      then show ?thesis using k prim rows by (auto simp: rows_ok_def)
    qed
  qed
  have "kv' k = Some v \<longleftrightarrow> (\<exists>p item. row_at td kv' p item \<and> ?E (Some item) k = Some v)" if k: "index_key ?t k" for k v
  proof
    assume v: "kv' k = Some v"
    show "\<exists>p item. row_at td kv' p item \<and> ?E (Some item) k = Some v"
    proof (cases "?E next k")
      case (Some u)
      then obtain n where "next = Some n" by (cases "next") auto
      with Some v idx [OF k] row' [of pkey n] show ?thesis by auto
    next
      case None
      with v idx [OF k] have "?E prior k = None" "kv k = Some v" by (auto split: if_splits)
      with exact k obtain q i where q: "row_at td kv q i" "?E (Some i) k = Some v" by (auto simp: index_exact_def)
      have "q \<noteq> pkey"
      proof
        assume "q = pkey"
        with q prior have "prior = Some i" by (auto simp: prior_of_def row_at_def split: option.splits)
        with q \<open>?E prior k = None\<close> show False by simp
      qed
      with q row' show ?thesis by auto
    qed
  next
    assume "\<exists>p item. row_at td kv' p item \<and> ?E (Some item) k = Some v"
    then obtain q i where q: "row_at td kv' q i" "?E (Some i) k = Some v" by blast
    show "kv' k = Some v"
    proof (cases "q = pkey")
      case True
      with q row' [of q i] idx [OF k] show ?thesis by simp
    next
      case False
      then have qi: "row_at td kv q i" using q(1) row' by simp
      with exact k q(2) have "kv k = Some v" by (auto simp: index_exact_def)
      from row_key [OF qi] obtain a b where ab: "primaryKeyBytes (td_KeySchema td) i = Inr (a, b)" "(a, b) \<in> K"
        "q = KeyPrimary (fst hf) ?t a b" by blast
      have "?E x k = None" if x: "x = prior \<or> x = next" for x
      proof (rule ccontr)
        assume "?E x k \<noteq> None"
        then obtain j w where j: "x = Some j" "?E (Some j) k = Some w" by (cases x) auto
        with x prior "next" row_key obtain c d where "primaryKeyBytes (td_KeySchema td) j = Inr (c, d)" "(c, d) \<in> K"
          "pkey = KeyPrimary (fst hf) ?t c d"
          by (fastforce simp: prior_of_def)
        with entries_separate [OF cf ok(2) ab(1,2) _ _ q(2) j(2)] ab(3) False show False by auto
      qed
      with idx [OF k] \<open>kv k = Some v\<close> show ?thesis by simp
    qed
  qed
  with rows' show ?thesis by (auto simp: index_exact_def)
qed

section \<open>Tables do not disturb each other\<close>

definition table_key_of :: "string \<Rightarrow> bytes \<Rightarrow> bool" where
  "table_key_of t k \<longleftrightarrow> in_seg t SegPrimary k \<or> index_key t k"

lemma table_key_slash: "table_key_of t k \<Longrightarrow> in_seg t ''/'' k"
proof -
  have seg: "in_seg t ''/'' k" if "in_seg t s k" "prefix ''/'' s" for s
  proof -
    from that(2) obtain r where "s = ''/'' @ r" by (auto simp: prefix_def)
    with that(1) in_seg_append [of t "''/''" r k] show ?thesis by (simp add: in_seg_def)
  qed
  assume "table_key_of t k"
  then obtain s where "in_seg t s k" "prefix ''/'' s"
    by (auto simp: table_key_of_def index_key_def index_segs_def SegPrimary_def segGSI_def segLSI_def segGeo_def
        segZorder_def segTTL_def)
  then show ?thesis by (rule seg)
qed

lemma tables_disjoint:
  assumes "slash_free t" and "slash_free t'" and "table_key_of t k" and "table_key_of t' k"
  shows "t = t'"
proof -
  obtain r r' where "bytes_of_string pTables @ bytes_of_string t @ 0x2f # r = bytes_of_string pTables @ bytes_of_string t' @ 0x2f # r'"
    using table_key_slash [OF assms(3)] table_key_slash [OF assms(4)]
    by (auto simp: in_seg_def prefix_def TableBase_def)
  then have "prefix (bytes_of_string t @ [0x2f]) (bytes_of_string t' @ 0x2f # r')"
    by (metis append_Cons append_Nil append_assoc prefixI same_append_eq)
  with prefix_slash_free [of t t' r'] assms(1,2) show ?thesis by (simp add: slash_free_def)
qed

text \<open>Both parts of the invariant depend on the keys of the table only.\<close>

lemma invariant_frame:
  assumes "\<And>k. table_key_of (td_Name td) k \<Longrightarrow> kv' k = kv k"
  shows "rows_ok H td K kv' = rows_ok H td K kv" and "index_exact hf td kv' = index_exact hf td kv"
proof -
  have "row_at td kv' = row_at td kv" using assms by (auto simp: fun_eq_iff row_at_def table_key_of_def)
  then show "index_exact hf td kv' = index_exact hf td kv"
    using assms by (auto simp: index_exact_def table_key_of_def)
  show "rows_ok H td K kv' = rows_ok H td K kv" using assms by (auto simp: rows_ok_def table_key_of_def)
qed

section \<open>Reachable databases\<close>

definition catalog_ok :: "TableDescriptor set \<Rightarrow> bool" where
  "catalog_ok T \<longleftrightarrow> inj_on td_Name T \<and>
     (\<forall>td\<in>T. slash_free (td_Name td) \<and> indexes_ok td \<and> td_LSIs td = [])"

definition keys_in :: "(bytes \<times> bytes) set \<Rightarrow> TableDescriptor \<Rightarrow> Item \<Rightarrow> bool" where
  "keys_in K td item \<longleftrightarrow> (\<forall>k. extractKeyBytes item (td_KeySchema td) = Inr k \<longrightarrow> k \<in> K)"

text \<open>
  The databases that a sequence of calls can produce from an empty store, failed calls included.
  Every call brings its own environment; the hash and the floating-point functions are those of
  the process.
\<close>

inductive reachable_db :: "spatial_env \<Rightarrow> TableDescriptor set \<Rightarrow> (bytes \<times> bytes) set \<Rightarrow> DB \<Rightarrow> bool"
  for hf T K where
  start: "db_wf db \<Longrightarrow> db_store db = [] \<Longrightarrow> reachable_db hf T K db"
| put: "reachable_db hf T K db \<Longrightarrow> td \<in> T \<Longrightarrow> HF e = hf \<Longrightarrow> item_wf item \<Longrightarrow> keys_in K td item \<Longrightarrow>
    reachable_db hf T K (fst (putItemWithNoLane e td item opts db))"
| delete: "reachable_db hf T K db \<Longrightarrow> td \<in> T \<Longrightarrow> HF e = hf \<Longrightarrow>
    reachable_db hf T K (fst (deleteItemWithNoLane e td item dopts db))"
| load: "reachable_db hf T K db \<Longrightarrow> reachable_db hf T K (LoadMemoryTable t db)"
| drain: "reachable_db hf T K db \<Longrightarrow> reachable_db hf T K (RejectWrites reason db)"
| resume: "reachable_db hf T K db \<Longrightarrow> reachable_db hf T K (AllowWrites db)"

definition engine_inv :: "spatial_env \<Rightarrow> TableDescriptor set \<Rightarrow> (bytes \<times> bytes) set \<Rightarrow> DB \<Rightarrow> bool" where
  "engine_inv hf T K db \<longleftrightarrow> db_wf db \<and>
     (\<forall>td\<in>T. rows_ok (fst hf) td K (map_of (db_store db)) \<and> index_exact hf td (map_of (db_store db)))"

lemma primaryKeyBytes_extract: "extractKeyBytes item ks = Inr k \<longleftrightarrow> primaryKeyBytes ks item = Inr k"
  by (auto simp: extractKeyBytes_def primaryKeyBytes_def bindr_Inr_iff split: option.splits)

lemma readPrior_prior_of:
  "readPrior db k = Inr prior \<Longrightarrow> in_seg (td_Name td) SegPrimary k \<Longrightarrow> prior_of td (map_of (db_store db)) k prior"
  by (auto simp: readPrior_def snapshotGet_def prior_of_def row_at_def split: option.splits elim!: bindr_InrE)

lemma committed_store:
  assumes "committed td plan db db'" and "gomap_canon (db_store db)"
  shows "\<exists>log. (\<forall>op\<in>set log. admin_key (opKey op)) \<and>
    map_of (db_store db') = applyIndexOps (planOps plan @ log) (map_of (db_store db))"
proof -
  from assms(1) obtain log where "\<forall>op\<in>set log. admin_key (opKey op)"
    and "db_store db' = applyBatch (planOps plan @ log) (db_store db)"
    by (auto simp: committed_def memoryFollow_def memorySet_def memoryDelete_def split: option.splits if_splits)
  then show ?thesis using map_of_applyBatch [OF assms(2), of "planOps plan @ log"] by auto
qed

text \<open>
  A committed plan preserves the invariant when its operations are the plan of the row's indexes
  from the stored row to the new one.
\<close>

lemma committed_inv:
  assumes com: "committed td plan db db'" and td: "td \<in> T" and T: "catalog_ok T" and cf: "collision_free (fst hf) K"
    and inv: "engine_inv hf T K db"
    and key: "in_seg (td_Name td) SegPrimary (wp_key plan)"
    and prior: "prior_of td (map_of (db_store db)) (wp_key plan) prior"
    and row: "planRow hf td prior next = Inr ops" and ops: "planOps plan = primaryOp plan # ops"
    and "next": "\<And>n. next = Some n \<Longrightarrow> \<exists>pk sk. primaryKeyBytes (td_KeySchema td) n = Inr (pk, sk) \<and> (pk, sk) \<in> K \<and>
      wp_key plan = KeyPrimary (fst hf) (td_Name td) pk sk \<and> (\<exists>enc. wp_value plan = Some enc \<and> DecodeItem enc = Inr n)"
    and none: "next = None \<Longrightarrow> wp_value plan = None"
  shows "engine_inv hf T K db'"
proof -
  let ?kv = "map_of (db_store db)" and ?kv' = "map_of (db_store db')"
  have wf: "db_wf db" using inv by (simp add: engine_inv_def)
  then have canon: "gomap_canon (db_store db)" by (simp add: db_wf_def)
  from committed_store [OF com canon] obtain log where log: "\<forall>op\<in>set log. admin_key (opKey op)"
    and kv': "?kv' = applyIndexOps (planOps plan @ log) ?kv" by blast
  have prim: "applyIndexOp ?kv (primaryOp plan) = ?kv(wp_key plan := wp_value plan)"
    by (simp add: primaryOp_def split: option.split)
  have nolog: "?kv' k = applyIndexOps ops (?kv(wp_key plan := wp_value plan)) k" if "\<not> admin_key k" for k
  proof -
    have "k \<notin> opKey ` set log" using that log by blast
    then show ?thesis unfolding kv' ops by (simp add: applyIndexOps_other prim)
  qed
  have own: "rows_ok (fst hf) td K ?kv' \<and> index_exact hf td ?kv'"
    using T td inv unfolding catalog_ok_def engine_inv_def
    by (intro index_exact_step [OF _ _ cf _ _ key prior row "next" none nolog]) blast+
  have "rows_ok (fst hf) td' K ?kv' \<and> index_exact hf td' ?kv'" if td': "td' \<in> T" for td'
  proof (cases "td' = td")
    case True
    with own show ?thesis by simp
  next
    case False
    have "?kv' k = ?kv k" if k: "table_key_of (td_Name td') k" for k
    proof -
      have "\<not> admin_key k" using table_not_admin [OF table_key_slash [OF k]] .
      moreover have "\<not> table_key_of (td_Name td) k"
      proof
        assume "table_key_of (td_Name td) k"
        moreover have "slash_free (td_Name td')" "slash_free (td_Name td)" using T td td' by (auto simp: catalog_ok_def)
        ultimately have "td_Name td' = td_Name td" using tables_disjoint k by blast
        moreover have "inj_on td_Name T" using T by (simp add: catalog_ok_def)
        ultimately show False using inj_onD td td' False by metis
      qed
      moreover from this have "k \<noteq> wp_key plan" using key by (auto simp: table_key_of_def)
      moreover have "k \<notin> opKey ` set ops"
      proof
        assume "k \<in> opKey ` set ops"
        then have "index_key (td_Name td) k" using planRow_keys [OF row] unfolding index_key_def by fast
        with \<open>\<not> table_key_of (td_Name td) k\<close> show False by (simp add: table_key_of_def)
      qed
      ultimately show ?thesis using nolog by (simp add: applyIndexOps_other)
    qed
    then show ?thesis
      using inv td' invariant_frame(1) [of td' ?kv' ?kv "fst hf" K] invariant_frame(2) [of td' ?kv' ?kv hf]
      by (simp add: engine_inv_def)
  qed
  with committed_wf [OF com wf] show ?thesis by (simp add: engine_inv_def)
qed


lemma planRow_no_indexes:
  assumes "td_GSIs td = []" "td_LSIs td = []" "td_SpatialIndexes td = []" "td_TTLAttribute td = ''''"
  shows "planRow hf td prior next = Inr []"
  using assms by (simp add: planRow_def planTTL_def PlanGSI_def PlanLSI_def planSpatial_def)

text \<open>The row that a plan without a read would have found.\<close>

lemma rows_ok_prior:
  assumes "rows_ok H td K kv" and "in_seg (td_Name td) SegPrimary k"
  obtains prior where "prior_of td kv k prior"
proof (cases "kv k")
  case None
  then show ?thesis using that [of None] by (simp add: prior_of_def)
next
  case (Some raw)
  with assms obtain item where "DecodeItem raw = Inr item" by (auto simp: rows_ok_def)
  with Some assms(2) show ?thesis using that [of "Some item"] by (simp add: prior_of_def row_at_def)
qed

lemma put_inv:
  assumes run: "putItemWithNoLane e td item opts db = (db', Inr ())" and hf: "HF e = hf" and td: "td \<in> T" and T: "catalog_ok T"
    and cf: "collision_free (fst hf) K" and inv: "engine_inv hf T K db" and item: "item_wf item" "keys_in K td item"
  shows "engine_inv hf T K db'"
proof -
  from put_spec [OF run] obtain plan where plan: "planPut e db td item opts = Inr plan" and com: "committed td plan db db'"
    by auto
  from plan obtain pk sk enc where k: "extractKeyBytes item (td_KeySchema td) = Inr (pk, sk)"
    "wp_key plan = KeyPrimary (en_hash e) (td_Name td) pk sk" "EncodeItem (Some item) = Inr enc" "wp_value plan = Some enc"
    and how: "(wp_skipPrior plan \<and> wp_prior plan = None \<and> wp_ops plan = [] \<and> putItemCanSkipPrior e db td (po_Condition opts)) \<or>
      (\<not> wp_skipPrior plan \<and> readPrior db (wp_key plan) = Inr (wp_prior plan) \<and>
       planRow (HF e) td (wp_prior plan) (Some item) = Inr (wp_ops plan))"
    by (rule planPutE)
  have seg: "in_seg (td_Name td) SegPrimary (wp_key plan)" unfolding k(2) by (rule KeyPrimary_seg)
  have dec: "DecodeItem enc = Inr item"
    using k(3) EncodeItem_itemBytes [OF item(1)] DecodeItem_itemBytes [OF item(1), of "[]"] by simp
  have "(pk, sk) \<in> K" using item(2) k(1) by (simp add: keys_in_def)
  then have nxt: "\<exists>pk sk. primaryKeyBytes (td_KeySchema td) n = Inr (pk, sk) \<and> (pk, sk) \<in> K \<and>
      wp_key plan = KeyPrimary (fst hf) (td_Name td) pk sk \<and> (\<exists>enc. wp_value plan = Some enc \<and> DecodeItem enc = Inr n)"
    if "Some item = Some n" for n
    using that k dec hf [symmetric] by (auto simp: primaryKeyBytes_extract [symmetric])
  obtain prior ops where p: "prior_of td (map_of (db_store db)) (wp_key plan) prior"
    "planRow hf td prior (Some item) = Inr ops" "planOps plan = primaryOp plan # ops"
  proof (cases "wp_skipPrior plan")
    case True
    with how have skip: "putItemCanSkipPrior e db td (po_Condition opts)" by simp
    obtain prior where "prior_of td (map_of (db_store db)) (wp_key plan) prior"
      using inv td seg rows_ok_prior by (metis engine_inv_def)
    moreover have "planRow hf td prior (Some item) = Inr []"
      using skip by (intro planRow_no_indexes) (auto simp: putItemCanSkipPrior_def split: if_splits)
    ultimately show ?thesis using that True by (simp add: planOps_def)
  next
    case False
    with how hf have "readPrior db (wp_key plan) = Inr (wp_prior plan)" "planRow hf td (wp_prior plan) (Some item) = Inr (wp_ops plan)"
      by auto
    moreover have "planOps plan = primaryOp plan # wp_ops plan" using False by (simp add: planOps_def)
    ultimately show ?thesis using that readPrior_prior_of [OF _ seg] by blast
  qed
  show ?thesis by (rule committed_inv [OF com td T cf inv seg p nxt]) auto
qed

lemma delete_inv:
  assumes run: "deleteItemWithNoLane e td key opts db = (db', Inr ())" and hf: "HF e = hf" and td: "td \<in> T" and T: "catalog_ok T"
    and cf: "collision_free (fst hf) K" and inv: "engine_inv hf T K db"
  shows "engine_inv hf T K db'"
proof -
  from delete_spec [OF run] obtain plan where plan: "planDelete e db td key opts = Inr plan" and com: "committed td plan db db'"
    by auto
  from plan obtain pk sk where k: "wp_key plan = KeyPrimary (en_hash e) (td_Name td) pk sk" "wp_value plan = None"
    and prior: "\<not> wp_skipPrior plan" "readPrior db (wp_key plan) = Inr (wp_prior plan)"
    and row: "planRow (HF e) td (wp_prior plan) None = Inr (wp_ops plan)"
    by (rule planDeleteE)
  have seg: "in_seg (td_Name td) SegPrimary (wp_key plan)" unfolding k(1) by (rule KeyPrimary_seg)
  have ops: "planOps plan = primaryOp plan # wp_ops plan" using prior(1) by (simp add: planOps_def)
  show ?thesis
    by (rule committed_inv [OF com td T cf inv seg readPrior_prior_of [OF prior(2) seg] row [unfolded hf] ops]) (use k in auto)
qed

lemma same_data_inv: "same_data db db' \<Longrightarrow> engine_inv hf T K db \<Longrightarrow> engine_inv hf T K db'"
  by (simp add: engine_inv_def same_data_def db_wf_def)


lemma LoadMemoryTable_inv: "engine_inv hf T K db \<Longrightarrow> engine_inv hf T K (LoadMemoryTable t db)"
  by (auto simp: engine_inv_def LoadMemoryTable_def ensureMemoryTableLoaded_def db_wf_def map_of_gomap_put Iter_def
      split: if_splits)

lemma empty_inv: "db_wf db \<Longrightarrow> db_store db = [] \<Longrightarrow> engine_inv hf T K db"
  by (auto simp: engine_inv_def rows_ok_def index_exact_def row_at_def)



text \<open>A row that moves from one index key to another, and the table it lives in.\<close>

definition demo_moved :: DB where
  "demo_moved = fst (putItemWithNoLane demo_env (demo_td '''') (demo_item ''paris'' ''x'') demo_put
     (fst (putItemWithNoLane demo_env (demo_td '''') (demo_item ''rome'' ''x'') demo_put (demo_db []))))"

lemma demo_reachable: "reachable_db (HF demo_env) {demo_td ''''} {([0x37], [])} demo_moved"
proof -
  have keys: "keys_in {([0x37], [])} (demo_td '''') (demo_item c n)" for c n
    by (simp add: keys_in_def extractKeyBytes_def demo_td_def bareDescriptor_def demo_schema_def demo_item_def
        bytes_of_string_def)
  show ?thesis
    unfolding demo_moved_def
    by (intro reachable_db.put reachable_db.start demo_db_wf keys demo_item_wf) (auto simp: demo_db_def)
qed

lemma demo_catalog_ok: "catalog_ok {demo_td ''''}"
  by (simp add: catalog_ok_def demo_td_def bareDescriptor_def slash_free_def indexes_ok_def demo_gsi_def keys_only_def)



section \<open>Planning and committing are not one step\<close>

text \<open>
  A put reads the stored row, checks its condition and plans its index operations first, and commits
  afterwards; no lock covers both (the write lane has several workers, and the replicator orders
  committed batches only). Two puts may therefore both plan before either commits.
\<close>

definition interleavedPuts :: "env \<Rightarrow> TableDescriptor \<Rightarrow> Item \<Rightarrow> Item \<Rightarrow> PutOptions \<Rightarrow> DB \<Rightarrow>
    DB \<times> (engine_error + unit) \<times> (engine_error + unit)" where
  "interleavedPuts e td a b opts db =
     (case planPut e db td a opts of
        Inl x \<Rightarrow> (case putItemWithNoLane e td b opts db of (db', r) \<Rightarrow> (db', Inl x, r))
      | Inr planA \<Rightarrow>
          (case planPut e db td b opts of
             Inl y \<Rightarrow> (case commitPut e td a planA db of (db', r) \<Rightarrow> (db', r, Inl y))
           | Inr planB \<Rightarrow>
               (case commitPut e td a planA db of (db1, ra) \<Rightarrow>
               (case commitPut e td b planB db1 of (db2, rb) \<Rightarrow> (db2, ra, rb)))))"

definition demo_guarded :: PutOptions where
  "demo_guarded = demo_put\<lparr>po_Condition := runes ''attribute_not_exists(id)''\<rparr>"


end
