(* ===== verification/AtomicExpr.thy ===== *)
theory AtomicExpr
  imports Condition GoStrings
begin

text \<open>
  The expressions of the APPLY action (\<^verbatim>\<open>internal/storage/adapter/pebble/atomic.go\<close>): the tokenizer and
  the recursive descent evaluator, which computes while it parses. Floating-point numbers are bit
  patterns and their arithmetic is the record \<open>arith\<close>, a parameter of which nothing is assumed.
  A source is the list of its runes; the parser state is the list of the tokens from \<^verbatim>\<open>pos\<close> on, and
  positions in error messages are left out.
\<close>

type_synonym float64 = uint64

record arith =
  ar_parse :: "string \<Rightarrow> float64 option"
  ar_add :: "float64 \<Rightarrow> float64 \<Rightarrow> float64"
  ar_sub :: "float64 \<Rightarrow> float64 \<Rightarrow> float64"
  ar_mul :: "float64 \<Rightarrow> float64 \<Rightarrow> float64"
  ar_div :: "float64 \<Rightarrow> float64 \<Rightarrow> float64"
  ar_neg :: "float64 \<Rightarrow> float64"
  ar_lt :: "float64 \<Rightarrow> float64 \<Rightarrow> bool"
  ar_eq :: "float64 \<Rightarrow> float64 \<Rightarrow> bool"
  ar_toInt :: "float64 \<Rightarrow> 64 word"
  ar_ofInt :: "64 word \<Rightarrow> float64"
  ar_format :: "float64 \<Rightarrow> string"

datatype apply_error =
    EmptyExpression | ApplyChar rune nat | ApplyToken string | ApplyEnd | ApplyClose | BadLiteral string
  | UnknownAttribute string | NotANumber string | AttributeParse string | DivisionByZero
  | TooFewArgs string | ClampArgs | ClampOrder | UnsupportedFunction string

section \<open>Tokens\<close>

datatype atomicTokKind = atLParen | atRParen | atComma | atPlus | atMinus | atStar | atSlash | atNumber | atIdent

record atomicToken =
  at_kind :: atomicTokKind
  at_lit :: string

definition atok :: "atomicTokKind \<Rightarrow> string \<Rightarrow> atomicToken" where
  "atok k s = \<lparr>at_kind = k, at_lit = s\<rparr>"

text \<open>The digits and dots of a number, then an exponent if one follows; with the runes left.\<close>

definition scanNumber :: "unicode \<Rightarrow> rune list \<Rightarrow> rune list \<times> rune list" where
  "scanNumber U r =
     (let isNum = (\<lambda>c. IsDigit U c \<or> c = of_char (CHR ''.''));
          a = takeWhile isNum r; r1 = dropWhile isNum r
      in if r1 \<noteq> [] \<and> (hd r1 = of_char (CHR ''e'') \<or> hd r1 = of_char (CHR ''E''))
         then
           let r2 = tl r1;
               sign = (if r2 \<noteq> [] \<and> (hd r2 = of_char (CHR ''+'') \<or> hd r2 = of_char (CHR ''-'')) then [hd r2] else []);
               r3 = drop (length sign) r2
           in (a @ [hd r1] @ sign @ takeWhile (IsDigit U) r3, dropWhile (IsDigit U) r3)
         else (a, r1))"

definition nextAtomicToken :: "unicode \<Rightarrow> nat \<Rightarrow> rune \<Rightarrow> rune list \<Rightarrow> apply_error + (atomicToken option \<times> rune list)" where
  "nextAtomicToken U i c rest =
     (if IsSpace U c then Inr (None, rest)
      else if c = of_char (CHR ''('') then Inr (Some (atok atLParen ''(''), rest)
      else if c = of_char (CHR '')'') then Inr (Some (atok atRParen '')''), rest)
      else if c = of_char (CHR '','') then Inr (Some (atok atComma '',''), rest)
      else if c = of_char (CHR ''+'') then Inr (Some (atok atPlus ''+''), rest)
      else if c = of_char (CHR ''-'') then Inr (Some (atok atMinus ''-''), rest)
      else if c = of_char (CHR ''*'') then Inr (Some (atok atStar ''*''), rest)
      else if c = of_char (CHR ''/'') then Inr (Some (atok atSlash ''/''), rest)
      else if IsDigit U c \<or> (c = of_char (CHR ''.'') \<and> rest \<noteq> [] \<and> IsDigit U (hd rest)) then
        (case scanNumber U (c # rest) of (num, r) \<Rightarrow> Inr (Some (atok atNumber (string_of_runes num)), r))
      else if IsLetter U c \<or> c = of_char (CHR ''_'') then
        Inr (Some (atok atIdent (string_of_runes (takeWhile (isWordRune U) (c # rest)))), dropWhile (isWordRune U) (c # rest))
      else Inl (ApplyChar c i))"

lemma nextAtomicToken_shorter: "nextAtomicToken U i c rest = Inr (t, r) \<Longrightarrow> length r \<le> length rest"
proof -
  have dw: "length (dropWhile P xs) \<le> length xs" for P and xs :: "rune list" by (simp add: length_dropWhile_le)
  have num: "length (snd (scanNumber U (c # rest))) \<le> length rest" if "IsDigit U c \<or> c = of_char (CHR ''.'')"
  proof -
    let ?n = "\<lambda>c. IsDigit U c \<or> c = of_char (CHR ''.'')"
    have "dropWhile ?n (c # rest) = dropWhile ?n rest" using that by auto
    moreover have "length (dropWhile ?n rest) \<le> length rest" by (rule dw)
    moreover have "length (snd (scanNumber U (c # rest))) \<le> length (dropWhile ?n (c # rest))"
      using dw [of "IsDigit U"] by (auto simp: scanNumber_def Let_def intro: order_trans [OF dw])
    ultimately show ?thesis by simp
  qed
  assume "nextAtomicToken U i c rest = Inr (t, r)"
  then show ?thesis
    using num dw [of "isWordRune U" rest]
    by (auto simp: nextAtomicToken_def isWordRune_def split: if_splits prod.splits)
qed

function atomicTokenizeFrom :: "unicode \<Rightarrow> nat \<Rightarrow> rune list \<Rightarrow> apply_error + atomicToken list" where
  "atomicTokenizeFrom U i [] = Inr []"
| "atomicTokenizeFrom U i (c # rest) =
     bindr (nextAtomicToken U i c rest) (\<lambda>(t, r).
       bindr (atomicTokenizeFrom U (i + (length (c # rest) - length r)) r) (\<lambda>out.
         Inr (case t of None \<Rightarrow> out | Some tok \<Rightarrow> tok # out)))"
  by pat_completeness auto
termination atomicTokenizeFrom
  by (relation "measure (\<lambda>(U, i, rs). length rs)") (auto dest: nextAtomicToken_shorter)

definition atomicTokenize :: "unicode \<Rightarrow> rune list \<Rightarrow> apply_error + atomicToken list" where
  "atomicTokenize U src = atomicTokenizeFrom U 0 src"

section \<open>The evaluator\<close>

definition callFunc :: "arith \<Rightarrow> string \<Rightarrow> float64 list \<Rightarrow> apply_error + float64" where
  "callFunc A name args =
     (let f = ToLowerStr name in
      if f = ''min'' then
        (if length args < 2 then Inl (TooFewArgs f)
         else Inr (foldl (\<lambda>m v. if ar_lt A v m then v else m) (hd args) (tl args)))
      else if f = ''max'' then
        (if length args < 2 then Inl (TooFewArgs f)
         else Inr (foldl (\<lambda>m v. if ar_lt A m v then v else m) (hd args) (tl args)))
      else if f = ''clamp'' then
        (case args of
           [x, lo, hi] \<Rightarrow>
             if ar_lt A hi lo then Inl ClampOrder
             else if ar_lt A x lo then Inr lo
             else if ar_lt A hi x then Inr hi
             else Inr x
         | _ \<Rightarrow> Inl ClampArgs)
      else Inl (UnsupportedFunction name))"

definition numberLit :: "arith \<Rightarrow> string \<Rightarrow> apply_error + float64" where
  "numberLit A s = (case ar_parse A s of None \<Rightarrow> Inl (BadLiteral s) | Some f \<Rightarrow> Inr f)"

definition attrNumber :: "arith \<Rightarrow> Item \<Rightarrow> string \<Rightarrow> apply_error + float64" where
  "attrNumber A item name =
     (case map_of item name of
        None \<Rightarrow> Inl (UnknownAttribute name)
      | Some (AttrN n) \<Rightarrow> (case ar_parse A n of None \<Rightarrow> Inl (AttributeParse name) | Some f \<Rightarrow> Inr f)
      | Some _ \<Rightarrow> Inl (NotANumber name))"

definition divide :: "arith \<Rightarrow> float64 \<Rightarrow> float64 \<Rightarrow> apply_error + float64" where
  "divide A a b = (if ar_eq A b 0 then Inl DivisionByZero else Inr (ar_div A a b))"

definition closeParen :: "atomicToken list \<Rightarrow> apply_error + atomicToken list" where
  "closeParen toks =
     (case toks of [] \<Rightarrow> Inl ApplyClose | t # r \<Rightarrow> if at_kind t = atRParen then Inr r else Inl ApplyClose)"

text \<open>\<open>exprLoop\<close>, \<open>termLoop\<close> and \<open>argsLoop\<close> are the \<^verbatim>\<open>for\<close> loops of \<^verbatim>\<open>parseExpr\<close>, \<^verbatim>\<open>parseTerm\<close> and \<^verbatim>\<open>parseArgs\<close>.\<close>

function (sequential) parseExpr :: "arith \<Rightarrow> Item \<Rightarrow> atomicToken list \<Rightarrow> apply_error + (float64 \<times> atomicToken list)"
  and exprLoop :: "arith \<Rightarrow> Item \<Rightarrow> float64 \<Rightarrow> atomicToken list \<Rightarrow> apply_error + (float64 \<times> atomicToken list)"
  and parseTerm :: "arith \<Rightarrow> Item \<Rightarrow> atomicToken list \<Rightarrow> apply_error + (float64 \<times> atomicToken list)"
  and termLoop :: "arith \<Rightarrow> Item \<Rightarrow> float64 \<Rightarrow> atomicToken list \<Rightarrow> apply_error + (float64 \<times> atomicToken list)"
  and parseFactor :: "arith \<Rightarrow> Item \<Rightarrow> atomicToken list \<Rightarrow> apply_error + (float64 \<times> atomicToken list)"
  and argsLoop :: "arith \<Rightarrow> Item \<Rightarrow> atomicToken list \<Rightarrow> apply_error + (float64 list \<times> atomicToken list)"
where
  "parseExpr A it toks = bindr (parseTerm A it toks) (\<lambda>(left, r). exprLoop A it left r)"
| "exprLoop A it left [] = Inr (left, [])"
| "exprLoop A it left (t # r) =
     (if at_kind t \<noteq> atPlus \<and> at_kind t \<noteq> atMinus then Inr (left, t # r)
      else bindr (parseTerm A it r) (\<lambda>(right, r').
        exprLoop A it (if at_kind t = atPlus then ar_add A left right else ar_sub A left right) r'))"
| "parseTerm A it toks = bindr (parseFactor A it toks) (\<lambda>(left, r). termLoop A it left r)"
| "termLoop A it left [] = Inr (left, [])"
| "termLoop A it left (t # r) =
     (if at_kind t \<noteq> atStar \<and> at_kind t \<noteq> atSlash then Inr (left, t # r)
      else bindr (parseFactor A it r) (\<lambda>(right, r').
        bindr (if at_kind t = atStar then Inr (ar_mul A left right) else divide A left right) (\<lambda>v.
        termLoop A it v r')))"
| "parseFactor A it [] = Inl ApplyEnd"
| "parseFactor A it (t # r) =
     (if at_kind t = atMinus then bindr (parseFactor A it r) (\<lambda>(v, r'). Inr (ar_neg A v, r'))
      else if at_kind t = atPlus then parseFactor A it r
      else if at_kind t = atLParen then
        bindr (parseExpr A it r) (\<lambda>(v, r1). bindr (closeParen r1) (\<lambda>r2. Inr (v, r2)))
      else if at_kind t = atNumber then bindr (numberLit A (at_lit t)) (\<lambda>f. Inr (f, r))
      else if at_kind t = atIdent then
        (if r \<noteq> [] \<and> at_kind (hd r) = atLParen then
           bindr (if tl r \<noteq> [] \<and> at_kind (hd (tl r)) = atRParen then Inr ([], tl r) else argsLoop A it (tl r)) (\<lambda>(args, r1).
           bindr (closeParen r1) (\<lambda>r2.
           bindr (callFunc A (at_lit t) args) (\<lambda>v. Inr (v, r2))))
         else bindr (attrNumber A it (at_lit t)) (\<lambda>f. Inr (f, r)))
      else Inl (ApplyToken (at_lit t)))"
| "argsLoop A it toks =
     bindr (parseExpr A it toks) (\<lambda>(v, r).
       if r \<noteq> [] \<and> at_kind (hd r) = atComma
       then bindr (argsLoop A it (tl r)) (\<lambda>(vs, r'). Inr (v # vs, r'))
       else Inr ([v], r))"
  by pat_completeness auto

lemma closeParen_length: "closeParen toks = Inr r \<Longrightarrow> length r < length toks"
  by (auto simp: closeParen_def split: list.splits if_splits)

lemma apply_consumes_dom:
  shows "parseExpr_exprLoop_parseTerm_termLoop_parseFactor_argsLoop_dom (Inl (Inl (A, it, toks))) \<Longrightarrow>
           parseExpr A it toks = Inr (v, r) \<Longrightarrow> length r < length toks"
    and "parseExpr_exprLoop_parseTerm_termLoop_parseFactor_argsLoop_dom (Inl (Inr (Inl (A, it, left, toks)))) \<Longrightarrow>
           exprLoop A it left toks = Inr (v, r) \<Longrightarrow> length r \<le> length toks"
    and "parseExpr_exprLoop_parseTerm_termLoop_parseFactor_argsLoop_dom (Inl (Inr (Inr (A, it, toks)))) \<Longrightarrow>
           parseTerm A it toks = Inr (v, r) \<Longrightarrow> length r < length toks"
    and "parseExpr_exprLoop_parseTerm_termLoop_parseFactor_argsLoop_dom (Inr (Inl (A, it, left, toks))) \<Longrightarrow>
           termLoop A it left toks = Inr (v, r) \<Longrightarrow> length r \<le> length toks"
    and "parseExpr_exprLoop_parseTerm_termLoop_parseFactor_argsLoop_dom (Inr (Inr (Inl (A, it, toks)))) \<Longrightarrow>
           parseFactor A it toks = Inr (v, r) \<Longrightarrow> length r < length toks"
    and "parseExpr_exprLoop_parseTerm_termLoop_parseFactor_argsLoop_dom (Inr (Inr (Inr (A, it, toks)))) \<Longrightarrow>
           argsLoop A it toks = Inr (vs, r) \<Longrightarrow> length r < length toks"
proof (induction A it toks and A it left toks and A it toks and A it left toks and A it toks and A it toks
    arbitrary: v r and v r and v r and v r and v r and vs r
    rule: parseExpr_exprLoop_parseTerm_termLoop_parseFactor_argsLoop.pinduct)
  case (1 A it toks)
  from 1(4) obtain l q where a: "parseTerm A it toks = Inr (l, q)" and b: "exprLoop A it l q = Inr (v, r)"
    by (auto simp: parseExpr.psimps [OF 1(1)] elim!: bindr_InrE)
  from 1(2) [OF a] 1(3) [OF a refl b] show ?case by simp
next
  case (2 A it left)
  then show ?case by (simp add: exprLoop.psimps)
next
  case (3 A it left t r0)
  show ?case
  proof (cases "at_kind t \<noteq> atPlus \<and> at_kind t \<noteq> atMinus")
    case False
    with 3(4) obtain l q where a: "parseTerm A it r0 = Inr (l, q)"
      and b: "exprLoop A it (if at_kind t = atPlus then ar_add A left l else ar_sub A left l) q = Inr (v, r)"
      by (auto simp: exprLoop.psimps(2) [OF 3(1)] elim!: bindr_InrE split: if_splits)
    from 3(2) [OF False a] 3(3) [OF False a refl b] show ?thesis by simp
  qed (use 3(4) in \<open>simp add: exprLoop.psimps(2) [OF 3(1)]\<close>)
next
  case (4 A it toks)
  from 4(4) obtain l q where a: "parseFactor A it toks = Inr (l, q)" and b: "termLoop A it l q = Inr (v, r)"
    by (auto simp: parseTerm.psimps [OF 4(1)] elim!: bindr_InrE)
  from 4(2) [OF a] 4(3) [OF a refl b] show ?case by simp
next
  case (5 A it left)
  then show ?case by (simp add: termLoop.psimps)
next
  case (6 A it left t r0)
  show ?case
  proof (cases "at_kind t \<noteq> atStar \<and> at_kind t \<noteq> atSlash")
    case False
    with 6(4) obtain l q w where a: "parseFactor A it r0 = Inr (l, q)"
      and w: "(if at_kind t = atStar then Inr (ar_mul A left l) else divide A left l) = Inr w"
      and b: "termLoop A it w q = Inr (v, r)"
      by (auto simp: termLoop.psimps(2) [OF 6(1)] elim!: bindr_InrE split: if_splits)
    from 6(2) [OF False a] 6(3) [OF False a refl w b] show ?thesis by simp
  qed (use 6(4) in \<open>simp add: termLoop.psimps(2) [OF 6(1)]\<close>)
next
  case (7 A it)
  then show ?case by (simp add: parseFactor.psimps)
next
  case (8 A it t r0)
  note def = parseFactor.psimps(2) [OF 8(1)]
  consider "at_kind t = atMinus" | "at_kind t = atPlus" | "at_kind t = atLParen" | "at_kind t = atNumber"
    | "at_kind t = atIdent" "r0 \<noteq> [] \<and> at_kind (hd r0) = atLParen" | "at_kind t = atIdent" "\<not> (r0 \<noteq> [] \<and> at_kind (hd r0) = atLParen)"
    | "at_kind t = atRParen" | "at_kind t = atComma" | "at_kind t = atStar" | "at_kind t = atSlash"
    by (cases "at_kind t") auto
  then show ?case
  proof cases
    case 1
    with 8(6) obtain w where "parseFactor A it r0 = Inr (w, r)" by (auto simp: def elim!: bindr_InrE)
    with 8(2) 1 show ?thesis by fastforce
  next
    case 2
    with 8(6) have "parseFactor A it r0 = Inr (v, r)" by (simp add: def)
    with 8(3) 2 show ?thesis by fastforce
  next
    case 3
    with 8(6) obtain w q where a: "parseExpr A it r0 = Inr (w, q)" and "closeParen q = Inr r"
      by (auto simp: def elim!: bindr_InrE)
    with 8(4) [OF _ _ 3 a] 3 closeParen_length show ?thesis by fastforce
  next
    case 5
    with 8(6) obtain args q where a: "(if tl r0 \<noteq> [] \<and> at_kind (hd (tl r0)) = atRParen then Inr ([], tl r0) else argsLoop A it (tl r0)) = Inr (args, q)"
      and "closeParen q = Inr r"
      by (auto simp: def elim!: bindr_InrE)
    moreover have "length q \<le> length (tl r0)"
    proof (cases "tl r0 \<noteq> [] \<and> at_kind (hd (tl r0)) = atRParen")
      case False
      with a have "argsLoop A it (tl r0) = Inr (args, q)" by auto
      with 8(5) 5 False show ?thesis by fastforce
    qed (use a in auto)
    ultimately show ?thesis using closeParen_length [of q r] by (cases r0) auto
  qed (use 8(6) in \<open>auto simp: def elim!: bindr_InrE\<close>)
next
  case (9 A it toks)
  from 9(4) obtain w q where a: "parseExpr A it toks = Inr (w, q)"
    by (auto simp: argsLoop.psimps [OF 9(1)] elim!: bindr_InrE)
  show ?case
  proof (cases "q \<noteq> [] \<and> at_kind (hd q) = atComma")
    case True
    with 9(4) a obtain ws where "argsLoop A it (tl q) = Inr (ws, r)"
      by (auto simp: argsLoop.psimps [OF 9(1)] elim!: bindr_InrE)
    with 9(3) [OF a refl True] 9(2) [OF a] show ?thesis by fastforce
  next
    case False
    with 9(4) a have "r = q" by (auto simp: argsLoop.psimps [OF 9(1)])
    with 9(2) [OF a] show ?thesis by simp
  qed
qed

lemma apply_total: "All parseExpr_exprLoop_parseTerm_termLoop_parseFactor_argsLoop_dom"
  by (relation "measures [\<lambda>x. case x of Inl (Inl (_, _, t)) \<Rightarrow> length t | Inl (Inr (Inl (_, _, _, t))) \<Rightarrow> length t
      | Inl (Inr (Inr (_, _, t))) \<Rightarrow> length t | Inr (Inl (_, _, _, t)) \<Rightarrow> length t
      | Inr (Inr (Inl (_, _, t))) \<Rightarrow> length t | Inr (Inr (Inr (_, _, t))) \<Rightarrow> length t,
      \<lambda>x. case x of Inl (Inl _) \<Rightarrow> 4 | Inl (Inr (Inl _)) \<Rightarrow> 3
      | Inl (Inr (Inr _)) \<Rightarrow> 2 | Inr (Inl _) \<Rightarrow> 1
      | Inr (Inr (Inl _)) \<Rightarrow> 0 | Inr (Inr (Inr _)) \<Rightarrow> (5 :: nat)]")
    (auto dest!: apply_consumes_dom)

termination parseExpr
  by (rule apply_total)

declare parseExpr.simps [simp del] parseTerm.simps [simp del] argsLoop.simps [simp del]


definition trimRunes :: "unicode \<Rightarrow> rune list \<Rightarrow> rune list" where
  "trimRunes U rs = rev (dropWhile (IsSpace U) (rev (dropWhile (IsSpace U) rs)))"

definition isAtomicIdent :: "unicode \<Rightarrow> rune list \<Rightarrow> bool" where
  "isAtomicIdent U s \<longleftrightarrow>
     (case s of [] \<Rightarrow> False
      | c # r \<Rightarrow> (IsLetter U c \<or> c = of_char (CHR ''_'')) \<and> list_all (isWordRune U) r)"

text \<open>The optional \<^verbatim>\<open><attr> =\<close> in front of the expression is dropped.\<close>

definition stripTarget :: "unicode \<Rightarrow> rune list \<Rightarrow> rune list" where
  "stripTarget U src =
     (let lhs = takeWhile (\<lambda>c. c \<noteq> of_char (CHR ''='')) src in
      if lhs \<noteq> [] \<and> lhs \<noteq> src \<and> isAtomicIdent U (trimRunes U lhs)
      then trimRunes U (drop (Suc (length lhs)) src) else src)"

definition evalAtomicExpr :: "arith \<Rightarrow> unicode \<Rightarrow> rune list \<Rightarrow> Item \<Rightarrow> apply_error + float64" where
  "evalAtomicExpr A U src item =
     (let src = trimRunes U src in
      if src = [] then Inl EmptyExpression
      else
        bindr (atomicTokenize U (stripTarget U src)) (\<lambda>toks.
        bindr (parseExpr A item toks) (\<lambda>(v, r).
          case r of [] \<Rightarrow> Inr v | t # _ \<Rightarrow> Inl (ApplyToken (at_lit t)))))"

section \<open>Reference semantics\<close>

text \<open>Syntax trees with their meaning, and their tokens with the fewest parentheses.\<close>

datatype aexpr =
    ANum string | AAttr string | ANeg aexpr
  | AAdd aexpr aexpr | ASub aexpr aexpr | AMul aexpr aexpr | ADiv aexpr aexpr
  | ACall string "aexpr list"

fun aeval :: "arith \<Rightarrow> Item \<Rightarrow> aexpr \<Rightarrow> apply_error + float64"
  and aevals :: "arith \<Rightarrow> Item \<Rightarrow> aexpr list \<Rightarrow> apply_error + float64 list" where
  "aeval A it (ANum s) = numberLit A s"
| "aeval A it (AAttr s) = attrNumber A it s"
| "aeval A it (ANeg e) = bindr (aeval A it e) (\<lambda>v. Inr (ar_neg A v))"
| "aeval A it (AAdd a b) = bindr (aeval A it a) (\<lambda>x. bindr (aeval A it b) (\<lambda>y. Inr (ar_add A x y)))"
| "aeval A it (ASub a b) = bindr (aeval A it a) (\<lambda>x. bindr (aeval A it b) (\<lambda>y. Inr (ar_sub A x y)))"
| "aeval A it (AMul a b) = bindr (aeval A it a) (\<lambda>x. bindr (aeval A it b) (\<lambda>y. Inr (ar_mul A x y)))"
| "aeval A it (ADiv a b) = bindr (aeval A it a) (\<lambda>x. bindr (aeval A it b) (divide A x))"
| "aeval A it (ACall f es) = bindr (aevals A it es) (callFunc A f)"
| "aevals A it [] = Inr []"
| "aevals A it (e # es) = bindr (aeval A it e) (\<lambda>v. bindr (aevals A it es) (\<lambda>vs. Inr (v # vs)))"

definition paren :: "bool \<Rightarrow> atomicToken list \<Rightarrow> atomicToken list" where
  "paren b ts = (if b then atok atLParen ''('' # ts @ [atok atRParen '')''] else ts)"

fun atokens :: "nat \<Rightarrow> aexpr \<Rightarrow> atomicToken list" and arglist :: "aexpr list \<Rightarrow> atomicToken list" where
  "atokens n (ANum s) = [atok atNumber s]"
| "atokens n (AAttr s) = [atok atIdent s]"
| "atokens n (ANeg e) = atok atMinus ''-'' # atokens 2 e"
| "atokens n (AAdd a b) = paren (n > 0) (atokens 0 a @ atok atPlus ''+'' # atokens 1 b)"
| "atokens n (ASub a b) = paren (n > 0) (atokens 0 a @ atok atMinus ''-'' # atokens 1 b)"
| "atokens n (AMul a b) = paren (n > 1) (atokens 1 a @ atok atStar ''*'' # atokens 2 b)"
| "atokens n (ADiv a b) = paren (n > 1) (atokens 1 a @ atok atSlash ''/'' # atokens 2 b)"
| "atokens n (ACall f es) = atok atIdent f # atok atLParen ''('' # arglist es @ [atok atRParen '')'']"
| "arglist [] = []"
| "arglist (e # es) = atokens 0 e @ (if es = [] then [] else atok atComma '','' # arglist es)"

text \<open>What may follow an operand of each level.\<close>

definition starts :: "atomicTokKind set \<Rightarrow> atomicToken list \<Rightarrow> bool" where
  "starts K r \<longleftrightarrow> r \<noteq> [] \<and> at_kind (hd r) \<in> K"

lemma atok_fields [simp]: "at_kind (atok k s) = k" "at_lit (atok k s) = s"
  by (simp_all add: atok_def)

lemma starts_Cons [simp]: "starts K (t # r) \<longleftrightarrow> at_kind t \<in> K" "\<not> starts K []"
  by (simp_all add: starts_def)

lemma loop_stop:
  "\<not> starts {atStar, atSlash} r \<Longrightarrow> termLoop A it v r = Inr (v, r)"
  "\<not> starts {atPlus, atMinus} r \<Longrightarrow> exprLoop A it v r = Inr (v, r)"
  by (cases r; simp)+

lemma parseFactor_paren:
  assumes "parseExpr A it (ts @ atok atRParen '')'' # r) = bindr x (\<lambda>v. Inr (v, atok atRParen '')'' # r))"
  shows "parseFactor A it (paren True ts @ r) = bindr x (\<lambda>v. Inr (v, r))"
  using assms by (cases x) (simp_all add: paren_def closeParen_def)

lemma bindr_assoc: "bindr (bindr m f) g = bindr m (\<lambda>x. bindr (f x) g)"
  by (cases m) simp_all

lemma paren_hd: "paren True ts = atok atLParen ''('' # ts @ [atok atRParen '')'']" "paren False ts = ts"
  by (simp_all add: paren_def)

lemma atokens_hd: "atokens n e \<noteq> [] \<and> at_kind (hd (atokens n e)) \<noteq> atRParen"
proof (induction e arbitrary: n)
  case (AAdd a b)
  then show ?case by (cases "n > 0") (simp_all add: paren_hd hd_append)
next
  case (ASub a b)
  then show ?case by (cases "n > 0") (simp_all add: paren_hd hd_append)
next
  case (AMul a b)
  then show ?case by (cases "n > 1") (simp_all add: paren_hd hd_append)
next
  case (ADiv a b)
  then show ?case by (cases "n > 1") (simp_all add: paren_hd hd_append)
qed simp_all

text \<open>The three levels of the grammar, stated together; \<open>factor_ok\<close> gives the other two for an operand without operator.\<close>

definition expr_ok :: "arith \<Rightarrow> Item \<Rightarrow> aexpr \<Rightarrow> bool" where
  "expr_ok A it e \<longleftrightarrow> (\<forall>r. \<not> starts {atLParen, atStar, atSlash} r \<longrightarrow>
     parseExpr A it (atokens 0 e @ r) = bindr (aeval A it e) (\<lambda>v. exprLoop A it v r))"

definition term_ok :: "arith \<Rightarrow> Item \<Rightarrow> aexpr \<Rightarrow> bool" where
  "term_ok A it e \<longleftrightarrow> (\<forall>r. \<not> starts {atLParen} r \<longrightarrow>
     parseTerm A it (atokens 1 e @ r) = bindr (aeval A it e) (\<lambda>v. termLoop A it v r))"

definition factor_ok :: "arith \<Rightarrow> Item \<Rightarrow> aexpr \<Rightarrow> bool" where
  "factor_ok A it e \<longleftrightarrow> (\<forall>r. \<not> starts {atLParen} r \<longrightarrow>
     parseFactor A it (atokens 2 e @ r) = bindr (aeval A it e) (\<lambda>v. Inr (v, r)))"

lemma starts_mono: "\<not> starts {atLParen, atStar, atSlash} r \<Longrightarrow> \<not> starts {atLParen} r \<and> \<not> starts {atStar, atSlash} r"
  by (auto simp: starts_def)

lemma term_of_factor: "factor_ok A it e \<Longrightarrow> atokens 1 e = atokens 2 e \<Longrightarrow> term_ok A it e"
  unfolding factor_ok_def term_ok_def by (simp add: parseTerm.simps bindr_assoc)

lemma expr_of_term: "term_ok A it e \<Longrightarrow> atokens 0 e = atokens 1 e \<Longrightarrow> expr_ok A it e"
  unfolding expr_ok_def term_ok_def using starts_mono by (simp add: parseExpr.simps bindr_assoc loop_stop)

lemma factor_of_expr:
  assumes "expr_ok A it e" and "atokens 2 e = paren True (atokens 0 e)"
  shows "factor_ok A it e"
  using assms unfolding factor_ok_def by (auto simp: expr_ok_def intro!: parseFactor_paren)

lemma expr_okD: "expr_ok A it e \<Longrightarrow> \<not> starts {atLParen, atStar, atSlash} r \<Longrightarrow>
    parseExpr A it (atokens 0 e @ r) = bindr (aeval A it e) (\<lambda>v. exprLoop A it v r)"
  by (simp add: expr_ok_def)

lemma term_okD: "term_ok A it e \<Longrightarrow> \<not> starts {atLParen} r \<Longrightarrow>
    parseTerm A it (atokens 1 e @ r) = bindr (aeval A it e) (\<lambda>v. termLoop A it v r)"
  by (simp add: term_ok_def)

lemma factor_okD: "factor_ok A it e \<Longrightarrow> \<not> starts {atLParen} r \<Longrightarrow>
    parseFactor A it (atokens 2 e @ r) = bindr (aeval A it e) (\<lambda>v. Inr (v, r))"
  by (simp add: factor_ok_def)

lemma sum_level:
  assumes "expr_ok A it a" and "term_ok A it b"
  shows "expr_ok A it (AAdd a b)" and "expr_ok A it (ASub a b)"
proof -
  have "parseExpr A it (atokens 0 a @ atok k s # atokens 1 b @ r) =
      bindr (aeval A it a) (\<lambda>x. bindr (aeval A it b) (\<lambda>y. exprLoop A it (if k = atPlus then ar_add A x y else ar_sub A x y) r))"
    if "\<not> starts {atLParen, atStar, atSlash} r" "k = atPlus \<or> k = atMinus" for r k s
    using that expr_okD [OF assms(1), of "atok k s # atokens 1 b @ r"] term_okD [OF assms(2), of r] starts_mono [of r]
    by (auto simp: bindr_assoc loop_stop)
  from this [of _ atPlus "''+''"] this [of _ atMinus "''-''"]
  show "expr_ok A it (AAdd a b)" "expr_ok A it (ASub a b)" by (simp_all add: expr_ok_def paren_def bindr_assoc)
qed

lemma product_level:
  assumes "term_ok A it a" and "factor_ok A it b"
  shows "term_ok A it (AMul a b)" and "term_ok A it (ADiv a b)"
proof -
  have "parseTerm A it (atokens 1 a @ atok k s # atokens 2 b @ r) =
      bindr (aeval A it a) (\<lambda>x. bindr (aeval A it b) (\<lambda>y.
        bindr (if k = atStar then Inr (ar_mul A x y) else divide A x y) (\<lambda>v. termLoop A it v r)))"
    if "\<not> starts {atLParen} r" "k = atStar \<or> k = atSlash" for r k s
    using that term_okD [OF assms(1), of "atok k s # atokens 2 b @ r"] factor_okD [OF assms(2), of r]
    by (auto simp: bindr_assoc)
  from this [of _ atStar "''*''"] this [of _ atSlash "''/''"]
  show "term_ok A it (AMul a b)" "term_ok A it (ADiv a b)" by (simp_all add: term_ok_def paren_def bindr_assoc)
qed

lemma argsLoop_tokens:
  assumes "es \<noteq> []" and "\<And>e. e \<in> set es \<Longrightarrow> expr_ok A it e"
  shows "argsLoop A it (arglist es @ atok atRParen '')'' # r) = bindr (aevals A it es) (\<lambda>vs. Inr (vs, atok atRParen '')'' # r))"
  using assms
proof (induction es)
  case (Cons e es)
  then have e: "expr_ok A it e" by simp
  show ?case
  proof (cases "es = []")
    case True
    then show ?thesis using expr_okD [OF e, of "atok atRParen '')'' # r"]
      by (simp add: argsLoop.simps [of A it "atokens 0 e @ atok atRParen '')'' # r"] bindr_assoc)
  next
    case False
    let ?rest = "atok atComma '','' # arglist es @ atok atRParen '')'' # r"
    have "argsLoop A it (arglist es @ atok atRParen '')'' # r) = bindr (aevals A it es) (\<lambda>vs. Inr (vs, atok atRParen '')'' # r))"
      using Cons False by simp
    then show ?thesis using expr_okD [OF e, of ?rest] False
      by (simp add: argsLoop.simps [of A it "atokens 0 e @ ?rest"] bindr_assoc)
  qed
qed simp

lemma tokens_level: "expr_ok A it e \<and> term_ok A it e \<and> factor_ok A it e"
proof (induction e)
  case (ANum s)
  have "factor_ok A it (ANum s)" by (simp add: factor_ok_def)
  then show ?case using term_of_factor expr_of_term by auto
next
  case (AAttr s)
  have "factor_ok A it (AAttr s)" by (auto simp: factor_ok_def starts_def)
  then show ?case using term_of_factor expr_of_term by auto
next
  case (ANeg e)
  then have "factor_ok A it (ANeg e)" by (simp add: factor_ok_def bindr_assoc)
  then show ?case using term_of_factor expr_of_term by auto
next
  case (AAdd a b)
  then have x: "expr_ok A it (AAdd a b)" using sum_level by blast
  then have f: "factor_ok A it (AAdd a b)" by (rule factor_of_expr) (simp add: paren_def)
  have "term_ok A it (AAdd a b)" by (rule term_of_factor [OF f]) (simp add: paren_def)
  with x f show ?case by simp
next
  case (ASub a b)
  then have x: "expr_ok A it (ASub a b)" using sum_level by blast
  then have f: "factor_ok A it (ASub a b)" by (rule factor_of_expr) (simp add: paren_def)
  have "term_ok A it (ASub a b)" by (rule term_of_factor [OF f]) (simp add: paren_def)
  with x f show ?case by simp
next
  case (AMul a b)
  then have t: "term_ok A it (AMul a b)" using product_level by blast
  then have x: "expr_ok A it (AMul a b)" by (rule expr_of_term) (simp add: paren_def)
  then have "factor_ok A it (AMul a b)" by (rule factor_of_expr) (simp add: paren_def)
  with t x show ?case by simp
next
  case (ADiv a b)
  then have t: "term_ok A it (ADiv a b)" using product_level by blast
  then have x: "expr_ok A it (ADiv a b)" by (rule expr_of_term) (simp add: paren_def)
  then have "factor_ok A it (ADiv a b)" by (rule factor_of_expr) (simp add: paren_def)
  with t x show ?case by simp
next
  case (ACall f es)
  have "factor_ok A it (ACall f es)"
  proof (cases "es = []")
    case True
    then show ?thesis by (simp add: factor_ok_def closeParen_def bindr_assoc)
  next
    case False
    then obtain e es' where es: "es = e # es'" by (cases es) auto
    have "arglist es \<noteq> [] \<and> at_kind (hd (arglist es)) \<noteq> atRParen" using atokens_hd [of 0 e] by (simp add: es hd_append)
    then show ?thesis using argsLoop_tokens [OF False, of A it] ACall
      by (auto simp: factor_ok_def closeParen_def bindr_assoc hd_append)
  qed
  then show ?case using term_of_factor expr_of_term by auto
qed

text \<open>
  C20. The APPLY evaluator implements the usual meaning of arithmetic: on the tokens of an expression
  (\<open>*\<close> and \<open>/\<close> bind tighter than \<open>+\<close> and \<open>-\<close>, all associate to the left, unary minus binds tightest),
  written with the fewest parentheses, it consumes everything and returns what the expression
  denotes, or its first error from the left.
\<close>

theorem apply_expression_semantics:
  "parseExpr A item (atokens 0 e) = bindr (aeval A item e) (\<lambda>v. Inr (v, []))"
  using expr_okD [of A item e "[]"] tokens_level [of A item e] by simp

text \<open>
  Clamping: the result lies between the bounds, for an order on the numbers at hand.
\<close>

lemma clamp_bounds:
  assumes "callFunc A ''clamp'' [x, lo, hi] = Inr v"
    and "\<And>a b. a \<in> {x, lo, hi} \<Longrightarrow> b \<in> {x, lo, hi} \<Longrightarrow> ar_lt A a b \<Longrightarrow> \<not> ar_lt A b a"
    and "\<And>a. a \<in> {x, lo, hi} \<Longrightarrow> \<not> ar_lt A a a"
  shows "\<not> ar_lt A v lo \<and> \<not> ar_lt A hi v"
proof -
  have "ToLowerStr ''clamp'' = ''clamp''" by code_simp
  then have "callFunc A ''clamp'' [x, lo, hi] = (if ar_lt A hi lo then Inl ClampOrder
      else if ar_lt A x lo then Inr lo else if ar_lt A hi x then Inr hi else Inr x)"
    by (simp add: callFunc_def Let_def)
  with assms show ?thesis by (auto split: if_splits)
qed
end
