(* ===== verification/AtomicUpdate.thy ===== *)
theory AtomicUpdate
  imports EngineIndexes AtomicExpr
begin

text \<open>
  Server-side read-modify-write (\<^verbatim>\<open>internal/storage/adapter/pebble/atomic.go\<close>): the actions, the window
  that recognises a repeated request, and \<open>AtomicUpdate\<close> itself. It ends in the same batch as a put
  (\<open>commitPut\<close>). The per-key mutex makes the calls on one key sequential; a call is one step here.
  Deep copies of results (\<^verbatim>\<open>cloneAtomicResult\<close>) are the identity on values.
\<close>

section \<open>Actions\<close>

datatype AtomicActionKind = AtomicActionSet | AtomicActionIncrReturn | AtomicActionAddReturn | AtomicActionApply | AtomicActionOther byte

record AtomicAction =
  aa_Kind :: AtomicActionKind
  aa_Attribute :: string
  aa_Value :: AttributeValue
  aa_Expression :: "rune list"

record AtomicOptions =
  ao_Condition :: "rune list"
  ao_Binds :: Item
  ao_RequestID :: string
  ao_Actions :: "AtomicAction list"

record AtomicResult =
  as_Item :: Item
  as_OldItem :: "Item option"
  as_Returned :: "AttributeValue list"
  as_Created :: bool

datatype atomic_error =
    EngineErr engine_error
  | NoActions
  | AttributeRequired nat
  | AtomicUnsupported nat
  | TargetNotNumeric nat string
  | ParseBase nat
  | ParseDelta nat
  | ApplyFailed nat apply_error
  | CounterAction nat string

definition validateAtomicCounterActions :: "TableDescriptor \<Rightarrow> AtomicAction list \<Rightarrow> atomic_error + unit" where
  "validateAtomicCounterActions td actions =
     (let counters = map ad_Name (filter (\<lambda>def. IsCounterAttributeType (ad_Type def)) (td_AttributeDefinitions td));
          bad = (\<lambda>(i, act). aa_Attribute act \<in> set counters \<and>
             aa_Kind act \<notin> {AtomicActionIncrReturn, AtomicActionAddReturn})
      in case find bad (enumerate 0 actions) of
           None \<Rightarrow> Inr ()
         | Some (i, act) \<Rightarrow> Inl (CounterAction i (aa_Attribute act)))"

definition formatAtomicNumber :: "arith \<Rightarrow> float64 \<Rightarrow> string" where
  "formatAtomicNumber A f =
     (if ar_eq A f (ar_ofInt A (ar_toInt A f)) then FormatInt (ar_toInt A f) else ar_format A f)"

text \<open>One action: the new item and the returned value. A missing attribute reads as \<open>AttrNull\<close>.\<close>

definition applyAction :: "arith \<Rightarrow> unicode \<Rightarrow> nat \<Rightarrow> AtomicAction \<Rightarrow> Item \<Rightarrow> atomic_error + (Item \<times> AttributeValue)" where
  "applyAction A U i act item =
     (let attr = aa_Attribute act in
      if attr = '''' then Inl (AttributeRequired i)
      else
        (case aa_Kind act of
           AtomicActionSet \<Rightarrow> Inr (gomap_put attr (aa_Value act) item, aa_Value act)
         | AtomicActionApply \<Rightarrow>
             bindr (wrapr (ApplyFailed i) (evalAtomicExpr A U (aa_Expression act) item)) (\<lambda>f.
               let av = AttrN (formatAtomicNumber A f) in Inr (gomap_put attr av item, av))
         | AtomicActionOther _ \<Rightarrow> Inl (AtomicUnsupported i)
         | _ \<Rightarrow>
             (case aa_Value act of
                AttrN dn \<Rightarrow>
                  bindr (case map_of item attr of
                           None \<Rightarrow> Inr 0
                         | Some AttrNull \<Rightarrow> Inr 0
                         | Some (AttrN n) \<Rightarrow> (case ar_parse A n of None \<Rightarrow> Inl (ParseBase i) | Some f \<Rightarrow> Inr f)
                         | Some _ \<Rightarrow> Inl (TargetNotNumeric i attr)) (\<lambda>base.
                  bindr (case ar_parse A dn of None \<Rightarrow> Inl (ParseDelta i) | Some f \<Rightarrow> Inr f) (\<lambda>delta.
                    let av = AttrN (formatAtomicNumber A (ar_add A base delta)) in Inr (gomap_put attr av item, av)))
              | _ \<Rightarrow> Inl (AtomicUnsupported i))))"

fun applyActions :: "arith \<Rightarrow> unicode \<Rightarrow> nat \<Rightarrow> AtomicAction list \<Rightarrow> Item \<Rightarrow> atomic_error + (Item \<times> AttributeValue list)" where
  "applyActions A U i [] item = Inr (item, [])"
| "applyActions A U i (act # acts) item =
     bindr (applyAction A U i act item) (\<lambda>(item', v).
     bindr (applyActions A U (Suc i) acts item') (\<lambda>(item'', vs). Inr (item'', v # vs)))"

text \<open>The item the actions start from: the prior row, completed with the key attributes.\<close>

definition startItem :: "Item option \<Rightarrow> Item \<Rightarrow> Item" where
  "startItem prior keyAttrs =
     foldl (\<lambda>item (k, v). if map_of item k = None then gomap_put k v item else item) (itemOrNil prior) keyAttrs"

section \<open>The window of recent requests\<close>

record atomicDedupEntry =
  ad_key :: string
  ad_expiresAt :: int
  ad_result :: AtomicResult

text \<open>The map and the recency list together: the entries, the most recent first.\<close>

type_synonym dedup = "atomicDedupEntry list"

definition atomicDedupTTL :: int where
  "atomicDedupTTL = 60000000000"

definition atomicDedupMaxEntries :: int where
  "atomicDedupMaxEntries = 100000"

definition atomicDedupKey :: "bytes \<Rightarrow> string \<Rightarrow> string" where
  "atomicDedupKey primaryKey requestID = string_of_bytes primaryKey @ [CHR 0x00] @ requestID"

definition atomicDedupRemove :: "string \<Rightarrow> dedup \<Rightarrow> dedup" where
  "atomicDedupRemove key c = filter (\<lambda>x. ad_key x \<noteq> key) c"

definition atomicDedupGet :: "string \<Rightarrow> int \<Rightarrow> dedup \<Rightarrow> dedup \<times> AtomicResult option" where
  "atomicDedupGet key now c =
     (case find (\<lambda>x. ad_key x = key) c of
        None \<Rightarrow> (c, None)
      | Some entry \<Rightarrow>
          if \<not> now < ad_expiresAt entry then (atomicDedupRemove key c, None)
          else (entry # atomicDedupRemove key c, Some (ad_result entry)))"

text \<open>The loop of \<^verbatim>\<open>atomicDedupEvict\<close>, on the entries from the oldest; \<open>n\<close> entries are left.\<close>

fun evictOldest :: "int \<Rightarrow> nat \<Rightarrow> dedup \<Rightarrow> dedup" where
  "evictOldest now n [] = []"
| "evictOldest now n (x # xs) =
     (if int n \<le> atomicDedupMaxEntries \<and> now < ad_expiresAt x then x # xs else evictOldest now (n - 1) xs)"

definition atomicDedupEvict :: "int \<Rightarrow> dedup \<Rightarrow> dedup" where
  "atomicDedupEvict now c = rev (evictOldest now (length c) (rev c))"

definition atomicDedupStore :: "string \<Rightarrow> AtomicResult \<Rightarrow> int \<Rightarrow> dedup \<Rightarrow> dedup" where
  "atomicDedupStore key result now c =
     (let entry = \<lparr>ad_key = key, ad_expiresAt = now + atomicDedupTTL, ad_result = result\<rparr> in
      if list_ex (\<lambda>x. ad_key x = key) c then entry # atomicDedupRemove key c
      else atomicDedupEvict now (entry # c))"

section \<open>The update\<close>

text \<open>Reading, checking and planning, under the lock of the key.\<close>

definition planAtomic :: "env \<Rightarrow> arith \<Rightarrow> DB \<Rightarrow> TableDescriptor \<Rightarrow> Item \<Rightarrow> AtomicOptions \<Rightarrow> bytes \<Rightarrow> Condition \<Rightarrow>
    atomic_error + (WritePlan \<times> AtomicResult)" where
  "planAtomic e A db td keyAttrs opts primaryKey cond =
     bindr (wrapr EngineErr (readPrior db primaryKey)) (\<lambda>prior.
     bindr (wrapr EngineErr (checkCondition cond prior (ao_Binds opts))) (\<lambda>_.
     bindr (applyActions A (en_unicode e) 0 (ao_Actions opts) (startItem prior keyAttrs)) (\<lambda>(newItem, returned).
     bindr (wrapr EngineErr (validateDescriptorItem td newItem)) (\<lambda>_.
     bindr (wrapr (\<lambda>x. EngineErr (EncodeErr x)) (EncodeItem (Some newItem))) (\<lambda>encoded.
     bindr (wrapr (\<lambda>x. EngineErr (PlanErr x)) (planRow (HF e) td prior (Some newItem))) (\<lambda>ops.
       Inr (\<lparr>wp_key = primaryKey, wp_value = Some encoded, wp_prior = prior, wp_ops = ops, wp_skipPrior = False\<rparr>,
            \<lparr>as_Item = newItem, as_OldItem = prior, as_Returned = returned, as_Created = (prior = None)\<rparr>)))))))"

definition AtomicUpdate :: "env \<Rightarrow> arith \<Rightarrow> TableDescriptor \<Rightarrow> Item \<Rightarrow> AtomicOptions \<Rightarrow> int \<Rightarrow> int \<Rightarrow>
    DB \<times> dedup \<Rightarrow> (DB \<times> dedup) \<times> (atomic_error + AtomicResult)" where
  "AtomicUpdate e A td keyAttrs opts now1 now2 = (\<lambda>(db, c).
     case
       bindr (wrapr EngineErr (checkWritePressure e db)) (\<lambda>_.
       bindr (if ao_Actions opts = [] then Inl NoActions else Inr ()) (\<lambda>_.
       bindr (validateAtomicCounterActions td (ao_Actions opts)) (\<lambda>_.
       bindr (wrapr EngineErr (extractKeyBytes keyAttrs (td_KeySchema td))) (\<lambda>(pk, sk).
       bindr (wrapr (\<lambda>x. EngineErr (ConditionErr x)) (ParseCondition (en_unicode e) (ao_Condition opts))) (\<lambda>cond.
         Inr (KeyPrimary (en_hash e) (td_Name td) pk sk, cond))))))
     of
       Inl err \<Rightarrow> ((db, c), Inl err)
     | Inr (primaryKey, cond) \<Rightarrow>
         let dedupKey = (if TrimSpace (ao_RequestID opts) \<noteq> '''' then atomicDedupKey primaryKey (ao_RequestID opts) else '''') in
         case (if dedupKey = '''' then (c, None) else atomicDedupGet dedupKey now1 c) of
           (c1, Some cached) \<Rightarrow> ((db, c1), Inr cached)
         | (c1, None) \<Rightarrow>
             (case planAtomic e A db td keyAttrs opts primaryKey cond of
                Inl err \<Rightarrow> ((db, c1), Inl err)
              | Inr (plan, res) \<Rightarrow>
                  (case commitPut e td (as_Item res) plan db of
                     (db', Inl err) \<Rightarrow> ((db', c1), Inl (EngineErr err))
                   | (db', Inr _) \<Rightarrow>
                       ((db', if dedupKey = '''' then c1 else atomicDedupStore dedupKey res now2 c1), Inr res))))"

section \<open>The window of recent requests remembers\<close>

lemma evictOldest_last:
  assumes "now < ad_expiresAt x"
  shows "\<exists>ys. evictOldest now (length (xs @ [x])) (xs @ [x]) = ys @ [x]"
proof (induction xs)
  case Nil
  then show ?case using assms by (simp add: atomicDedupMaxEntries_def)
next
  case (Cons y ys)
  then show ?case by auto
qed

lemma dedup_store_get:
  assumes "t < now + atomicDedupTTL"
  shows "\<exists>c'. atomicDedupGet key t (atomicDedupStore key res now c) = (c', Some res)"
proof -
  let ?x = "\<lparr>ad_key = key, ad_expiresAt = now + atomicDedupTTL, ad_result = res\<rparr>"
  have "now < ad_expiresAt ?x" by (simp add: atomicDedupTTL_def)
  from evictOldest_last [OF this, of "rev c"] obtain ys where "atomicDedupEvict now (?x # c) = ?x # rev ys"
    by (auto simp: atomicDedupEvict_def)
  then have "\<exists>zs. atomicDedupStore key res now c = ?x # zs" by (simp add: atomicDedupStore_def Let_def)
  then show ?thesis using assms by (auto simp: atomicDedupGet_def)
qed

section \<open>The parts of an update\<close>

definition atomicPrefix :: "env \<Rightarrow> TableDescriptor \<Rightarrow> Item \<Rightarrow> AtomicOptions \<Rightarrow> DB \<Rightarrow> atomic_error + (bytes \<times> Condition)" where
  "atomicPrefix e td keyAttrs opts db =
     bindr (wrapr EngineErr (checkWritePressure e db)) (\<lambda>_.
     bindr (if ao_Actions opts = [] then Inl NoActions else Inr ()) (\<lambda>_.
     bindr (validateAtomicCounterActions td (ao_Actions opts)) (\<lambda>_.
     bindr (wrapr EngineErr (extractKeyBytes keyAttrs (td_KeySchema td))) (\<lambda>(pk, sk).
     bindr (wrapr (\<lambda>x. EngineErr (ConditionErr x)) (ParseCondition (en_unicode e) (ao_Condition opts))) (\<lambda>cond.
       Inr (KeyPrimary (en_hash e) (td_Name td) pk sk, cond))))))"

definition requestKey :: "AtomicOptions \<Rightarrow> bytes \<Rightarrow> string" where
  "requestKey opts primaryKey =
     (if TrimSpace (ao_RequestID opts) \<noteq> '''' then atomicDedupKey primaryKey (ao_RequestID opts) else '''')"

definition recall :: "string \<Rightarrow> int \<Rightarrow> dedup \<Rightarrow> dedup \<times> AtomicResult option" where
  "recall k now c = (if k = '''' then (c, None) else atomicDedupGet k now c)"

lemma AtomicUpdate_unfold:
  "AtomicUpdate e A td keyAttrs opts now1 now2 (db, c) =
     (case atomicPrefix e td keyAttrs opts db of
        Inl err \<Rightarrow> ((db, c), Inl err)
      | Inr (primaryKey, cond) \<Rightarrow>
          (case recall (requestKey opts primaryKey) now1 c of
             (c1, Some cached) \<Rightarrow> ((db, c1), Inr cached)
           | (c1, None) \<Rightarrow>
               (case planAtomic e A db td keyAttrs opts primaryKey cond of
                  Inl err \<Rightarrow> ((db, c1), Inl err)
                | Inr (plan, res) \<Rightarrow>
                    (case commitPut e td (as_Item res) plan db of
                       (db', Inl err) \<Rightarrow> ((db', c1), Inl (EngineErr err))
                     | (db', Inr _) \<Rightarrow>
                         ((db', if requestKey opts primaryKey = '''' then c1
                                else atomicDedupStore (requestKey opts primaryKey) res now2 c1), Inr res)))))"
  unfolding AtomicUpdate_def atomicPrefix_def requestKey_def recall_def Let_def by simp

text \<open>An update that succeeds either was recognised, or committed a plan of its own.\<close>

lemma AtomicUpdateE:
  assumes "AtomicUpdate e A td keyAttrs opts now1 now2 (db, c) = ((db', c'), Inr res)"
  obtains (recalled) k cond where "atomicPrefix e td keyAttrs opts db = Inr (k, cond)" "db' = db"
      "recall (requestKey opts k) now1 c = (c', Some res)"
  | (applied) k cond c1 plan where "atomicPrefix e td keyAttrs opts db = Inr (k, cond)"
      "recall (requestKey opts k) now1 c = (c1, None)" "planAtomic e A db td keyAttrs opts k cond = Inr (plan, res)"
      "commitPut e td (as_Item res) plan db = (db', Inr ())"
      "c' = (if requestKey opts k = '''' then c1 else atomicDedupStore (requestKey opts k) res now2 c1)"
proof -
  from assms obtain k cond where p: "atomicPrefix e td keyAttrs opts db = Inr (k, cond)"
    unfolding AtomicUpdate_unfold by (auto split: sum.splits)
  obtain c1 hit where r: "recall (requestKey opts k) now1 c = (c1, hit)" by (cases "recall (requestKey opts k) now1 c")
  show ?thesis
  proof (cases hit)
    case (Some cached)
    with assms p r show ?thesis unfolding AtomicUpdate_unfold by (auto intro: recalled)
  next
    case None
    with assms p r obtain plan where pl: "planAtomic e A db td keyAttrs opts k cond = Inr (plan, res)"
      and "\<exists>u. commitPut e td (as_Item res) plan db = (db', Inr u)"
      and "c' = (if requestKey opts k = '''' then c1 else atomicDedupStore (requestKey opts k) res now2 c1)"
      unfolding AtomicUpdate_unfold by (auto split: sum.splits prod.splits)
    with p r None show ?thesis by (auto intro: applied)
  qed
qed

lemma atomicPrefixE:
  assumes "atomicPrefix e td keyAttrs opts db = Inr (k, cond)"
  obtains pk sk where "extractKeyBytes keyAttrs (td_KeySchema td) = Inr (pk, sk)" "k = KeyPrimary (en_hash e) (td_Name td) pk sk"
  using assms unfolding atomicPrefix_def by (auto elim!: bindr_InrE split: if_splits)

lemma planAtomicE:
  assumes "planAtomic e A db td keyAttrs opts k cond = Inr (plan, res)"
  obtains enc where "readPrior db k = Inr (wp_prior plan)" "EncodeItem (Some (as_Item res)) = Inr enc"
    "wp_key plan = k" "wp_value plan = Some enc" "\<not> wp_skipPrior plan"
    "planRow (HF e) td (wp_prior plan) (Some (as_Item res)) = Inr (wp_ops plan)"
    "applyActions A (en_unicode e) 0 (ao_Actions opts) (startItem (wp_prior plan) keyAttrs) = Inr (as_Item res, as_Returned res)"
  using assms unfolding planAtomic_def by (auto elim!: bindr_InrE)

section \<open>Properties\<close>



text \<open>
  The post-image is what the next reader sees: after an update has been applied, reading the row
  by the key of the request returns exactly the item of the result.
\<close>

lemma atomic_update_then_get:
  assumes "AtomicUpdate e A td keyAttrs opts now1 now2 (db, c) = ((db', c'), Inr res)" and "ao_RequestID opts = ''''"
    and "db_wf db" and "class_ok td db" and "item_wf (as_Item res)"
  shows "GetItem e db' (td_Name td) (td_KeySchema td) keyAttrs = Inr (as_Item res)"
proof -
  have "TrimSpace '''' = ''''" by code_simp
  then have key: "requestKey opts k = ''''" for k using assms(2) by (simp add: requestKey_def)
  from assms(1) show ?thesis
  proof (cases rule: AtomicUpdateE)
    case (recalled k cond)
    then show ?thesis by (simp add: key recall_def)
  next
    case (applied k cond c1 plan)
    from applied(1) obtain pk sk where k: "extractKeyBytes keyAttrs (td_KeySchema td) = Inr (pk, sk)"
      "k = KeyPrimary (en_hash e) (td_Name td) pk sk" by (rule atomicPrefixE)
    from applied(3) obtain enc where p: "EncodeItem (Some (as_Item res)) = Inr enc" "wp_key plan = k" "wp_value plan = Some enc"
      "\<not> wp_skipPrior plan" "planRow (HF e) td (wp_prior plan) (Some (as_Item res)) = Inr (wp_ops plan)"
      by (rule planAtomicE)
    have com: "committed td plan db db'" using commitPut_spec [OF applied(4)] by simp
    have ok: "plan_ok (en_hash e) td plan" using p k(2) by (auto simp: plan_ok_def dest: planRow_keys)
    have "getEncodedItemByKeyBytesNoLane e db' (td_Name td) pk sk = Inr enc"
      using committed_get [OF com ok assms(3,4) p(2) [unfolded k(2)]] p(3) by simp
    moreover have "DecodeItem enc = Inr (as_Item res)"
      using p(1) EncodeItem_itemBytes [OF assms(5)] DecodeItem_itemBytes [OF assms(5), of "[]"] by simp
    ultimately show ?thesis by (simp add: GetItem_def GetItemByKeyBytes_def k(1))
  qed
qed


section \<open>Index maintenance\<close>

lemma applyAction_other:
  assumes "applyAction A U i act item = Inr (item', v)" and "gomap_canon item" and "a \<noteq> aa_Attribute act"
  shows "map_of item' a = map_of item a \<and> gomap_canon item'"
proof -
  have "\<exists>w. item' = gomap_put (aa_Attribute act) w item"
    using assms(1) unfolding applyAction_def Let_def
    by (cases "aa_Kind act"; cases "aa_Value act") (auto elim!: bindr_InrE split: if_splits)
  with assms(2,3) show ?thesis by (auto simp: map_of_gomap_put)
qed

lemma applyActions_other:
  assumes "applyActions A U i acts item = Inr (item', vs)" and "gomap_canon item" and "a \<notin> aa_Attribute ` set acts"
  shows "map_of item' a = map_of item a"
  using assms
proof (induction acts arbitrary: i item item' vs)
  case (Cons act acts)
  then obtain m v ws where "applyAction A U i act item = Inr (m, v)" "applyActions A U (Suc i) acts m = Inr (item', ws)"
    by (auto elim!: bindr_InrE)
  with Cons applyAction_other [of A U i act item m v a] show ?case by auto
qed simp

lemma startItem_props:
  assumes "gomap_canon (itemOrNil prior)"
  shows "gomap_canon (startItem prior keyAttrs)"
    and "map_of (itemOrNil prior) a \<noteq> None \<Longrightarrow> map_of (startItem prior keyAttrs) a = map_of (itemOrNil prior) a"
    and "prior = None \<Longrightarrow> distinct (map fst keyAttrs) \<Longrightarrow> map_of (startItem prior keyAttrs) a = map_of keyAttrs a"
proof -
  let ?f = "\<lambda>item (k, v). if map_of item k = None then gomap_put k v item else item"
  have fold: "gomap_canon (foldl ?f m ks) \<and> (\<forall>a. map_of m a \<noteq> None \<longrightarrow> map_of (foldl ?f m ks) a = map_of m a) \<and>
      (distinct (map fst ks) \<longrightarrow> (\<forall>a. map_of m a = None \<longrightarrow> map_of (foldl ?f m ks) a = map_of ks a))"
    if "gomap_canon m" for m :: Item and ks
    using that
  proof (induction ks arbitrary: m)
    case (Cons x ks)
    obtain k v where x: "x = (k, v)" by (cases x)
    show ?case
    proof (cases "map_of m k = None")
      case True
      have "gomap_canon (gomap_put k v m)" "map_of (gomap_put k v m) = (map_of m)(k \<mapsto> v)"
        using Cons.prems by (auto simp: map_of_gomap_put)
      with Cons.IH [of "gomap_put k v m"] True show ?thesis by (auto simp: x)
    next
      case False
      with Cons show ?thesis by (auto simp: x)
    qed
  qed simp
  show "gomap_canon (startItem prior keyAttrs)" using fold [OF assms] by (simp add: startItem_def)
  show "map_of (startItem prior keyAttrs) a = map_of (itemOrNil prior) a" if "map_of (itemOrNil prior) a \<noteq> None"
    using fold [OF assms] that by (simp add: startItem_def)
  show "map_of (startItem prior keyAttrs) a = map_of keyAttrs a" if "prior = None" "distinct (map fst keyAttrs)"
    using fold [of "[]" keyAttrs] that by (simp add: startItem_def itemOrNil_def)
qed

lemma extractKeyBytes_cong:
  assumes "map_of a (ks_PK ks) = map_of b (ks_PK ks)" and "ks_SK ks \<noteq> '''' \<Longrightarrow> map_of a (ks_SK ks) = map_of b (ks_SK ks)"
  shows "extractKeyBytes a ks = extractKeyBytes b ks"
  using assms by (cases "map_of b (ks_PK ks)") (auto simp: extractKeyBytes_def intro!: arg_cong [where f = "bindr _"])



section \<open>Examples\<close>

text \<open>An arithmetic on natural numbers below \<open>2 ^ 64\<close>, enough to run the code.\<close>

definition nat_arith :: arith where
  "nat_arith = \<lparr>ar_parse = ParseUint, ar_add = (+), ar_sub = (-), ar_mul = (*), ar_div = (div), ar_neg = uminus,
     ar_lt = (<), ar_eq = (=), ar_toInt = (\<lambda>x. x), ar_ofInt = (\<lambda>x. x), ar_format = FormatUint\<rparr>"

definition quiet_db :: DB where
  "quiet_db = (demo_db [])\<lparr>db_changeLogMode := ChangeLogModeOff\<rparr>"

lemma quiet_db_wf: "db_wf quiet_db" "class_ok (demo_td []) quiet_db"
  using demo_db_wf demo_class_ok [of "[]"] by (simp_all add: quiet_db_def db_wf_def class_ok_def memTable_def memoryHasTable_def)

definition demo_key :: Item where
  "demo_key = [(''id'', AttrS ''7'')]"

definition demo_act :: "AtomicActionKind \<Rightarrow> string \<Rightarrow> AttributeValue \<Rightarrow> string \<Rightarrow> AtomicAction" where
  "demo_act k a v x = \<lparr>aa_Kind = k, aa_Attribute = a, aa_Value = v, aa_Expression = runes x\<rparr>"

definition demo_atomic :: "string \<Rightarrow> AtomicAction list \<Rightarrow> AtomicOptions" where
  "demo_atomic rid acts = \<lparr>ao_Condition = [], ao_Binds = [], ao_RequestID = rid, ao_Actions = acts\<rparr>"

abbreviation demo_run :: "string \<Rightarrow> AtomicAction list \<Rightarrow> DB \<times> dedup \<Rightarrow> (DB \<times> dedup) \<times> (atomic_error + AtomicResult)" where
  "demo_run rid acts \<equiv> AtomicUpdate demo_env nat_arith (demo_td '''') demo_key (demo_atomic rid acts) 0 0"

text \<open>
  The key attributes are not protected: a SET on the partition key succeeds, and the row, now
  carrying another key, stays under the old one. Reading by the key the row shows finds nothing.
\<close>

lemma atomic_set_of_key_strands_row:
  "\<exists>db' c' res. demo_run '''' [demo_act AtomicActionSet ''id'' (AttrS ''88'') ''''] (quiet_db, []) = ((db', c'), Inr res) \<and>
     GetItem demo_env db' ''t'' demo_schema (as_Item res) = Inl ErrItemNotFound \<and>
     GetItem demo_env db' ''t'' demo_schema demo_key = Inr (as_Item res) \<and>
     as_Item res = [(''id'', AttrS ''88'')]"
proof -
  let ?run = "demo_run '''' [demo_act AtomicActionSet ''id'' (AttrS ''88'') ''''] (quiet_db, [])"
  have "map_sum (\<lambda>_. ()) as_Item (snd ?run) = Inr [(''id'', AttrS ''88'')]" by code_simp
  then obtain res where res: "snd ?run = Inr res" "as_Item res = [(''id'', AttrS ''88'')]" by (cases "snd ?run") auto
  moreover have "GetItem demo_env (fst (fst ?run)) ''t'' demo_schema [(''id'', AttrS ''88'')] = Inl ErrItemNotFound" by code_simp
  moreover have "GetItem demo_env (fst (fst ?run)) ''t'' demo_schema demo_key = Inr [(''id'', AttrS ''88'')]" by code_simp
  ultimately show ?thesis by (metis prod.collapse)
qed

text \<open>
  An APPLY expression reads the item as the earlier actions of the same request left it, not the
  prior item: after SET x = 5, the expression x + 1 yields 6 on a row whose x was absent.
\<close>

lemma apply_sees_earlier_actions:
  "\<exists>s res. demo_run '''' [demo_act AtomicActionSet ''x'' (AttrN ''5'') '''', demo_act AtomicActionApply ''y'' AttrNull ''x + 1'']
       (quiet_db, []) = (s, Inr res) \<and>
     as_OldItem res = None \<and> map_of (as_Item res) ''y'' = Some (AttrN ''6'')"
proof -
  let ?run = "demo_run '''' [demo_act AtomicActionSet ''x'' (AttrN ''5'') '''', demo_act AtomicActionApply ''y'' AttrNull ''x + 1'']
    (quiet_db, [])"
  have "map_sum (\<lambda>_. ()) (\<lambda>r. (as_OldItem r, map_of (as_Item r) ''y'')) (snd ?run) = Inr (None, Some (AttrN ''6''))" by code_simp
  then obtain res where "snd ?run = Inr res" "as_OldItem res = None" "map_of (as_Item res) ''y'' = Some (AttrN ''6'')"
    by (cases "snd ?run") auto
  then show ?thesis by (metis prod.collapse)
qed

text \<open>
  The key of the window joins the primary key and the request identifier with a zero byte that
  either may contain: two requests for different rows can share it, and the second one would be
  answered with the result of the first.
\<close>

lemma atomic_dedup_key_ambiguous:
  "\<exists>H t pk sk sk' rid rid'. KeyPrimary H t pk sk \<noteq> KeyPrimary H t pk sk' \<and>
     atomicDedupKey (KeyPrimary H t pk sk) rid = atomicDedupKey (KeyPrimary H t pk sk') rid'"
proof -
  have "KeyPrimary length_hasher ''t'' [] [1] \<noteq> KeyPrimary length_hasher ''t'' [] [1, 0, 1]" by (simp add: KeyPrimary_def)
  moreover have "atomicDedupKey (KeyPrimary length_hasher ''t'' [] [1]) [CHR 0x01, CHR 0x00, CHR 0x02] =
      atomicDedupKey (KeyPrimary length_hasher ''t'' [] [1, 0, 1]) [CHR 0x02]"
    by code_simp
  ultimately show ?thesis by blast
qed

lemma demo_retry_run:
  "map_sum (\<lambda>_. ()) as_Returned (snd (demo_run ''r1'' [demo_act AtomicActionIncrReturn ''n'' (AttrN ''2'') ''''] (quiet_db, [])))
     = Inr [AttrN ''2'']"
  "checkWritePressure demo_env (fst (fst (demo_run ''r1'' [demo_act AtomicActionIncrReturn ''n'' (AttrN ''2'') ''''] (quiet_db, [])))) = Inr ()"
  "extractKeyBytes demo_key (td_KeySchema (demo_td '''')) = Inr ([0x37], [])"
  "TrimSpace ''r1'' \<noteq> ''''"
  by code_simp+


theorem atomic_update_then_get_witness:
  "\<exists>db' c' res. demo_run '''' [demo_act AtomicActionIncrReturn ''n'' (AttrN ''2'') ''''] (quiet_db, []) = ((db', c'), Inr res) \<and>
     GetItem demo_env db' ''t'' demo_schema demo_key = Inr (as_Item res)"
proof -
  let ?run = "demo_run '''' [demo_act AtomicActionIncrReturn ''n'' (AttrN ''2'') ''''] (quiet_db, [])"
  have "map_sum (\<lambda>_. ()) as_Item (snd ?run) = Inr [(''id'', AttrS ''7''), (''n'', AttrN ''2'')]" by code_simp
  then obtain res where res: "snd ?run = Inr res" "as_Item res = [(''id'', AttrS ''7''), (''n'', AttrN ''2'')]"
    by (cases "snd ?run") auto
  then have run: "?run = ((fst (fst ?run), snd (fst ?run)), Inr res)" by (simp add: prod_eq_iff)
  have wf: "item_wf (as_Item res)" by (simp add: res(2) item_wf_def len_fits_def gomap_canon_def)
  have "GetItem demo_env (fst (fst ?run)) (td_Name (demo_td '''')) (td_KeySchema (demo_td '''')) demo_key = Inr (as_Item res)"
    by (rule atomic_update_then_get [OF run _ quiet_db_wf wf]) (simp add: demo_atomic_def)
  then have "GetItem demo_env (fst (fst ?run)) ''t'' demo_schema demo_key = Inr (as_Item res)"
    by (simp add: demo_td_def bareDescriptor_def)
  with run show ?thesis by blast
qed


end
