(* ===== verification/TokenRing.thy ===== *)
theory TokenRing
  imports Prelude
begin

text \<open>
  Token arithmetic: \<^verbatim>\<open>TokenRange\<close> and \<^verbatim>\<open>tokenRangeSegments\<close> of \<^verbatim>\<open>internal/placement/placement.go\<close>
  and all of \<^verbatim>\<open>internal/placement/tokens.go\<close>. Tokens are \<^verbatim>\<open>uint64\<close> values on a ring; a range is
  half-open, \<^verbatim>\<open>start == end\<close> is the full ring and \<^verbatim>\<open>start > end\<close> wraps around. The code computes on
  flat segments with \<^verbatim>\<open>big.Int\<close> bounds in \<open>[0, 2^64]\<close>, which are integers here. \<^verbatim>\<open>Clone\<close> functions copy
  mutable \<^verbatim>\<open>big.Int\<close> values and are the identity on these.
\<close>

section \<open>Ranges and segments\<close>

record TokenRange =
  rng_Start :: uint64
  rng_End :: uint64

record tokenSegment =
  seg_start :: int
  seg_end :: int

definition bigTokenSpace :: int where
  "bigTokenSpace = 2 ^ 64"

definition mkRange :: "uint64 \<Rightarrow> uint64 \<Rightarrow> TokenRange" where
  "mkRange s e = \<lparr>rng_Start = s, rng_End = e\<rparr>"

definition mkSegment :: "int \<Rightarrow> int \<Rightarrow> tokenSegment" where
  "mkSegment s e = \<lparr>seg_start = s, seg_end = e\<rparr>"

definition Contains :: "TokenRange \<Rightarrow> uint64 \<Rightarrow> bool" where
  "Contains r token =
     (if rng_Start r = rng_End r then True
      else if rng_Start r < rng_End r then rng_Start r \<le> token \<and> token < rng_End r
      else rng_Start r \<le> token \<or> token < rng_End r)"

definition tokenRangeSegments :: "TokenRange \<Rightarrow> tokenSegment list" where
  "tokenRangeSegments r =
     (let start = uint (rng_Start r); end' = uint (rng_End r) in
      if rng_Start r = rng_End r then [mkSegment 0 bigTokenSpace]
      else if rng_Start r < rng_End r then [mkSegment start end']
      else if rng_End r = 0 then [mkSegment start bigTokenSpace]
      else [mkSegment start bigTokenSpace, mkSegment 0 end'])"

section \<open>Splitting\<close>

definition midpointToken :: "TokenRange \<Rightarrow> uint64" where
  "midpointToken r =
     (let start = uint (rng_Start r);
          end' = (if rng_Start r = rng_End r \<or> rng_End r < rng_Start r
                  then uint (rng_End r) + bigTokenSpace else uint (rng_End r));
          mid = (start + end') div 2;
          mid' = (if bigTokenSpace \<le> mid then mid - bigTokenSpace else mid)
      in word_of_int mid')"

definition TokenStrictlyInside :: "TokenRange \<Rightarrow> uint64 \<Rightarrow> bool" where
  "TokenStrictlyInside r token =
     (if token = rng_Start r \<or> token = rng_End r then False else Contains r token)"

definition SplitRange :: "TokenRange \<Rightarrow> uint64 \<Rightarrow> TokenRange \<times> TokenRange" where
  "SplitRange r token = (mkRange (rng_Start r) token, mkRange token (rng_End r))"

section \<open>Subtraction\<close>

definition minBig :: "int \<Rightarrow> int \<Rightarrow> int" where
  "minBig a b = (if a \<le> b then a else b)"

definition maxBig :: "int \<Rightarrow> int \<Rightarrow> int" where
  "maxBig a b = (if b \<le> a then a else b)"

definition sortTokenSegments :: "tokenSegment list \<Rightarrow> tokenSegment list" where
  "sortTokenSegments segs = sort_key seg_start segs"

fun coveredFrom :: "int \<Rightarrow> int \<Rightarrow> tokenSegment list \<Rightarrow> bool" where
  "coveredFrom coveredUntil segEnd [] = False"
| "coveredFrom coveredUntil segEnd (owner # owners) =
     (if seg_end owner \<le> coveredUntil then coveredFrom coveredUntil segEnd owners
      else if coveredUntil < seg_start owner then False
      else if segEnd \<le> seg_end owner then True
      else coveredFrom (seg_end owner) segEnd owners)"

definition segmentCoveredBySegments :: "tokenSegment \<Rightarrow> tokenSegment list \<Rightarrow> bool" where
  "segmentCoveredBySegments seg owners = coveredFrom (seg_start seg) (seg_end seg) owners"

definition subtractTokenSegment :: "tokenSegment \<Rightarrow> tokenSegment \<Rightarrow> tokenSegment list" where
  "subtractTokenSegment seg remove =
     (if seg_end remove \<le> seg_start seg \<or> seg_end seg \<le> seg_start remove then [seg]
      else
        (if seg_start seg < seg_start remove
         then [mkSegment (seg_start seg) (minBig (seg_start remove) (seg_end seg))] else []) @
        (if seg_end remove < seg_end seg
         then [mkSegment (maxBig (seg_end remove) (seg_start seg)) (seg_end seg)] else []))"

fun mergeFrom :: "tokenSegment \<Rightarrow> tokenSegment list \<Rightarrow> tokenSegment list" where
  "mergeFrom current [] = [current]"
| "mergeFrom current (seg # segs) =
     (if seg_end current = seg_start seg then mergeFrom (mkSegment (seg_start current) (seg_end seg)) segs
      else current # mergeFrom seg segs)"

definition mergeAdjacentTokenSegments :: "tokenSegment list \<Rightarrow> tokenSegment list" where
  "mergeAdjacentTokenSegments segs =
     (if length segs \<le> 1 then segs else mergeFrom (hd segs) (tl segs))"

definition bigTokenToUint64 :: "int \<Rightarrow> uint64" where
  "bigTokenToUint64 v = (if v = bigTokenSpace then 0 else word_of_int v)"

fun tokenSegmentsToRanges :: "tokenSegment list \<Rightarrow> TokenRange list" where
  "tokenSegmentsToRanges [] = []"
| "tokenSegmentsToRanges (seg # segs) =
     (if seg_start seg = seg_end seg then tokenSegmentsToRanges segs
      else mkRange (bigTokenToUint64 (seg_start seg)) (bigTokenToUint64 (seg_end seg))
             # tokenSegmentsToRanges segs)"

datatype token_error = NoRanges | NotFullyOwned TokenRange

definition SubtractTokenRanges :: "TokenRange list \<Rightarrow> TokenRange \<Rightarrow> token_error + TokenRange list" where
  "SubtractTokenRanges ranges remove =
     (if ranges = [] then Inl NoRanges
      else
        (let owners = sortTokenSegments (concat (map tokenRangeSegments ranges));
             removeSegs = sortTokenSegments (tokenRangeSegments remove)
         in if \<not> list_all (\<lambda>seg. segmentCoveredBySegments seg owners) removeSegs
            then Inl (NotFullyOwned remove)
            else
              (let remaining =
                 foldl (\<lambda>rem rm. concat (map (\<lambda>seg. subtractTokenSegment seg rm) rem)) owners removeSegs
               in Inr (tokenSegmentsToRanges
                        (mergeAdjacentTokenSegments (sortTokenSegments remaining))))))"

section \<open>The ring\<close>

text \<open>
  The number of tokens in a range, and membership as a distance from its start: the
  description of a range that does not distinguish wrapping.
\<close>

definition range_size :: "TokenRange \<Rightarrow> int" where
  "range_size r = (if rng_Start r = rng_End r then 2 ^ 64 else uint (rng_End r - rng_Start r))"

lemma mkRange_sel [simp]: "rng_Start (mkRange s e) = s" "rng_End (mkRange s e) = e"
  by (simp_all add: mkRange_def)

lemma mkSegment_sel [simp]: "seg_start (mkSegment s e) = s" "seg_end (mkSegment s e) = e"
  by (simp_all add: mkSegment_def)

lemma uint_diff: "uint (a - b :: uint64) = (if b \<le> a then uint a - uint b else uint a - uint b + 2 ^ 64)"
  by (simp add: uint_sub_if' word_le_def)

lemma uint_lt_64: "uint (w :: uint64) < 18446744073709551616"
  using uint_lt2p [of w] by simp

lemma ring_arith:
  fixes s e x M :: int
  assumes "0 \<le> s" "s < M" "0 \<le> e" "e < M" "0 \<le> x" "x < M"
  shows "(if s = e then True else if s < e then s \<le> x \<and> x < e else s \<le> x \<or> x < e) \<longleftrightarrow>
    (if s \<le> x then x - s else x - s + M) < (if s = e then M else if s \<le> e then e - s else e - s + M)"
  using assms by auto

lemma Contains_iff [ring_simps]: "Contains r x \<longleftrightarrow> uint (x - rng_Start r) < range_size r"
  using ring_arith [of "uint (rng_Start r)" "2 ^ 64" "uint (rng_End r)" "uint x"]
    uint_lt_64 [of x] uint_lt_64 [of "rng_End r"] uint_lt_64 [of "rng_Start r"]
  unfolding Contains_def range_size_def uint_diff word_le_def word_less_def word_uint_eq_iff
  by simp

lemma range_size_bounds: "0 < range_size r" "range_size r \<le> 2 ^ 64"
proof -
  have "rng_End r \<noteq> rng_Start r \<Longrightarrow> uint (rng_End r - rng_Start r) \<noteq> 0"
    by (metis eq_iff_diff_eq_0 uint_0_iff)
  then show "0 < range_size r"
    using uint_ge_0 [of "rng_End r - rng_Start r"] by (auto simp: range_size_def order_less_le)
  show "range_size r \<le> 2 ^ 64"
    using uint_lt_64 [of "rng_End r - rng_Start r"] by (simp add: range_size_def)
qed

text \<open>A token strictly inside splits a range into two that partition it.\<close>

lemma inside_iff: "TokenStrictlyInside r t \<longleftrightarrow> 0 < uint (t - rng_Start r) \<and> uint (t - rng_Start r) < range_size r"
proof -
  have z: "uint (t - rng_Start r) = 0 \<longleftrightarrow> t = rng_Start r" by (metis eq_iff_diff_eq_0 uint_0_iff)
  have "t = rng_End r \<Longrightarrow> \<not> (0 < uint (t - rng_Start r) \<and> uint (t - rng_Start r) < range_size r)"
    by (auto simp: range_size_def)
  then show ?thesis
    using z uint_ge_0 [of "t - rng_Start r"]
    by (auto simp: TokenStrictlyInside_def Contains_iff less_le)
qed

lemma split_sizes:
  assumes "TokenStrictlyInside r t"
  shows "range_size (fst (SplitRange r t)) = uint (t - rng_Start r)"
    and "range_size (snd (SplitRange r t)) = range_size r - uint (t - rng_Start r)"
proof -
  from assms have ne: "t \<noteq> rng_Start r" "t \<noteq> rng_End r" by (auto simp: TokenStrictlyInside_def split: if_splits)
  from assms have lt: "uint (t - rng_Start r) < range_size r" by (simp add: inside_iff)
  show "range_size (fst (SplitRange r t)) = uint (t - rng_Start r)"
    using ne by (auto simp: SplitRange_def range_size_def)
  have "range_size (snd (SplitRange r t)) = uint (rng_End r - t)"
    using ne by (simp add: SplitRange_def range_size_def)
  also have "\<dots> = range_size r - uint (t - rng_Start r)"
  proof -
    have "\<not> uint t + 18446744073709551616 < uint (rng_End r)"
      using uint_lt_64 [of "rng_End r"] uint_ge_0 [of t] by linarith
    then show ?thesis
      using ne lt uint_lt_64 [of t] unfolding range_size_def uint_diff word_le_def word_uint_eq_iff
      by (auto split: if_splits)
  qed
  finally show "range_size (snd (SplitRange r t)) = range_size r - uint (t - rng_Start r)" .
qed

lemma split_arith:
  fixes d x n M :: int
  assumes "0 < d" "d < n" "n \<le> M" "0 \<le> x"
  shows "(x < n) = (x < d \<or> (if d \<le> x then x - d else x - d + M) < n - d) \<and>
    \<not> (x < d \<and> (if d \<le> x then x - d else x - d + M) < n - d)"
  using assms by auto

lemma split_contains:
  assumes "TokenStrictlyInside r t"
  shows "Contains r x = (Contains (fst (SplitRange r t)) x \<or> Contains (snd (SplitRange r t)) x) \<and>
    \<not> (Contains (fst (SplitRange r t)) x \<and> Contains (snd (SplitRange r t)) x)"
proof -
  let ?d = "uint (t - rng_Start r)" and ?x = "uint (x - rng_Start r)"
  have st: "rng_Start (fst (SplitRange r t)) = rng_Start r" "rng_Start (snd (SplitRange r t)) = t"
    by (simp_all add: SplitRange_def)
  have "x - t = (x - rng_Start r) - (t - rng_Start r)" by simp
  then have xt: "uint (x - t) = (if ?d \<le> ?x then ?x - ?d else ?x - ?d + 2 ^ 64)"
    by (simp only: uint_diff word_le_def)
  have "0 < ?d" "?d < range_size r" "range_size r \<le> 2 ^ 64" "0 \<le> ?x"
    using assms range_size_bounds(2) [of r] by (simp_all add: inside_iff)
  then show ?thesis
    unfolding Contains_iff st split_sizes [OF assms] xt by (rule split_arith)
qed

text \<open>
  Splitting a range at a token strictly inside it hands every token of the range to exactly
  one half and no other token to either, also when the range wraps or is the full ring.
\<close>

lemma split_partitions:
  assumes "TokenStrictlyInside r t"
  shows "Contains r x = (Contains (fst (SplitRange r t)) x \<or> Contains (snd (SplitRange r t)) x) \<and>
    \<not> (Contains (fst (SplitRange r t)) x \<and> Contains (snd (SplitRange r t)) x)"
  by (rule split_contains [OF assms])

theorem split_partitions_witness:
  "Contains (fst (SplitRange (mkRange 0 0) 7)) 3 \<and> \<not> Contains (snd (SplitRange (mkRange 0 0) 7)) 3"
proof -
  have "TokenStrictlyInside (mkRange 0 0) 7" and "Contains (fst (SplitRange (mkRange 0 0) 7)) 3"
    by (simp_all add: TokenStrictlyInside_def Contains_def SplitRange_def)
  with split_partitions [of "mkRange 0 0" 7 3] show ?thesis by simp
qed

lemma midpoint_offset: "midpointToken r = rng_Start r + word_of_int (range_size r div 2)"
proof -
  let ?s = "uint (rng_Start r)"
  let ?e = "if rng_Start r = rng_End r \<or> rng_End r < rng_Start r
            then uint (rng_End r) + bigTokenSpace else uint (rng_End r)"
  have "?e = ?s + range_size r"
    unfolding range_size_def uint_diff bigTokenSpace_def by (auto simp: not_le not_less)
  then have "(?s + ?e) div 2 = ?s + range_size r div 2" by simp
  moreover have "(word_of_int (m - bigTokenSpace) :: uint64) = word_of_int m" for m
    by (simp add: bigTokenSpace_def)
  ultimately show ?thesis
    unfolding midpointToken_def Let_def by simp
qed

text \<open>
  The default split token is usable for every range of at least two tokens, and only for
  those, and it halves the range up to one token.
\<close>

lemma midpoint_splits_evenly:
  "(TokenStrictlyInside r (midpointToken r) \<longleftrightarrow> 2 \<le> range_size r) \<and>
   (2 \<le> range_size r \<longrightarrow>
      range_size (fst (SplitRange r (midpointToken r))) = range_size r div 2 \<and>
      range_size (snd (SplitRange r (midpointToken r))) = (range_size r + 1) div 2)"
proof -
  have "0 \<le> range_size r div 2" "range_size r div 2 < 2 ^ 64"
    using range_size_bounds [of r] by simp_all
  then have off: "uint (midpointToken r - rng_Start r) = range_size r div 2"
    by (simp add: midpoint_offset uint_word_of_int)
  have ins: "TokenStrictlyInside r (midpointToken r) \<longleftrightarrow> 2 \<le> range_size r"
    unfolding inside_iff off using range_size_bounds(1) [of r] by auto
  moreover have "range_size r - range_size r div 2 = (range_size r + 1) div 2" by simp
  ultimately show ?thesis using split_sizes [of r "midpointToken r"] unfolding off by simp
qed

theorem midpoint_splits_evenly_witness:
  "TokenStrictlyInside (mkRange 0 0) (midpointToken (mkRange 0 0)) \<and>
   range_size (fst (SplitRange (mkRange 0 0) (midpointToken (mkRange 0 0)))) = 2 ^ 63"
  using midpoint_splits_evenly [of "mkRange 0 0"] by (simp add: range_size_def)

section \<open>Segments\<close>

definition seg_mem :: "int \<Rightarrow> tokenSegment list \<Rightarrow> bool" where
  "seg_mem x segs \<longleftrightarrow> (\<exists>s\<in>set segs. seg_start s \<le> x \<and> x < seg_end s)"

definition seg_wf :: "tokenSegment \<Rightarrow> bool" where
  "seg_wf s \<longleftrightarrow> 0 \<le> seg_start s \<and> seg_start s < seg_end s \<and> seg_end s \<le> 2 ^ 64"

lemma seg_mem_simps [simp]:
  "\<not> seg_mem x []"
  "seg_mem x (s # ss) \<longleftrightarrow> (seg_start s \<le> x \<and> x < seg_end s) \<or> seg_mem x ss"
  "seg_mem x (ss @ ts) \<longleftrightarrow> seg_mem x ss \<or> seg_mem x ts"
  by (auto simp: seg_mem_def)

lemma seg_mem_sort [simp]: "seg_mem x (sortTokenSegments segs) = seg_mem x segs"
  by (simp add: seg_mem_def sortTokenSegments_def)

lemma list_all_sort [simp]: "list_all P (sortTokenSegments segs) = list_all P segs"
  by (simp add: list_all_iff sortTokenSegments_def)

lemma segments_wf: "list_all seg_wf (tokenRangeSegments r)"
proof -
  have "uint (rng_Start r) < 2 ^ 64" "uint (rng_End r) < 2 ^ 64"
    "rng_End r \<noteq> 0 \<Longrightarrow> 0 < uint (rng_End r)"
    using uint_lt_64 [of "rng_Start r"] uint_lt_64 [of "rng_End r"]
    by (simp_all add: word_greater_zero_iff [symmetric] word_less_def)
  then show ?thesis
    by (auto simp: tokenRangeSegments_def Let_def seg_wf_def bigTokenSpace_def word_less_def)
qed

lemma segments_mem: "seg_mem (uint t) (tokenRangeSegments r) \<longleftrightarrow> Contains r t"
  using uint_lt_64 [of t]
  by (auto simp: tokenRangeSegments_def Contains_def Let_def bigTokenSpace_def word_less_def word_le_def)

lemma segments_mem_ranges:
  "seg_mem (uint t) (concat (map tokenRangeSegments rs)) \<longleftrightarrow> (\<exists>r\<in>set rs. Contains r t)"
  by (induction rs) (simp_all add: segments_mem)

lemma segments_wf_ranges: "list_all seg_wf (concat (map tokenRangeSegments rs))"
  using segments_wf by (induction rs) simp_all

text \<open>Scanning owners in start order decides coverage of a whole segment.\<close>

lemma coveredFrom_iff:
  assumes "sorted (map seg_start owners)" and "c < e"
  shows "coveredFrom c e owners \<longleftrightarrow> (\<forall>x. c \<le> x \<and> x < e \<longrightarrow> seg_mem x owners)"
  using assms
proof (induction c e owners rule: coveredFrom.induct)
  case (1 c e)
  then show ?case by auto
next
  case (2 c e s owners)
  have later: "seg_start s \<le> seg_start u" if "u \<in> set owners" for u using 2(3) that by auto
  consider "seg_end s \<le> c" | "c < seg_end s" "c < seg_start s"
    | "c < seg_end s" "seg_start s \<le> c" "e \<le> seg_end s"
    | "c < seg_end s" "seg_start s \<le> c" "seg_end s < e"
    by linarith
  then show ?case
  proof cases
    case 1
    with 2 show ?thesis by auto
  next
    case 2
    then have "\<not> seg_mem c (s # owners)" using later by (force simp: seg_mem_def)
    with 2 \<open>c < e\<close> show ?thesis by (auto simp del: seg_mem_simps)
  next
    case 3
    then show ?thesis by auto
  next
    case 4
    have "coveredFrom (seg_end s) e owners \<longleftrightarrow> (\<forall>x. seg_end s \<le> x \<and> x < e \<longrightarrow> seg_mem x owners)"
      using 2(2) 2(3) 4 by auto
    moreover have "(\<forall>x. seg_end s \<le> x \<and> x < e \<longrightarrow> seg_mem x owners) \<longleftrightarrow>
        (\<forall>x. c \<le> x \<and> x < e \<longrightarrow> seg_mem x (s # owners))"
    proof (intro iffI allI impI)
      fix x assume "\<forall>x. c \<le> x \<and> x < e \<longrightarrow> seg_mem x (s # owners)" "seg_end s \<le> x \<and> x < e"
      with 4 show "seg_mem x owners" by (auto dest: spec [of _ x])
    qed (use 4 in \<open>auto simp: not_less\<close>)
    ultimately show ?thesis using 4 by simp
  qed
qed

lemma sorted_sortTokenSegments [simp]: "sorted (map seg_start (sortTokenSegments segs))"
  by (simp add: sortTokenSegments_def)

lemma subtractTokenSegment_mem:
  "seg_mem x (subtractTokenSegment seg rm) \<longleftrightarrow>
     (seg_start seg \<le> x \<and> x < seg_end seg) \<and> \<not> (seg_start rm \<le> x \<and> x < seg_end rm)"
  if "seg_start rm < seg_end rm"
  using that by (auto simp: subtractTokenSegment_def minBig_def maxBig_def)

lemma subtractTokenSegment_wf: "seg_wf seg \<Longrightarrow> list_all seg_wf (subtractTokenSegment seg rm)"
  by (auto simp: subtractTokenSegment_def minBig_def maxBig_def seg_wf_def)

lemma subtract_all:
  assumes "list_all seg_wf rms" and "list_all seg_wf segs"
  shows "list_all seg_wf (foldl (\<lambda>rem rm. concat (map (\<lambda>seg. subtractTokenSegment seg rm) rem)) segs rms) \<and>
    (\<forall>x. seg_mem x (foldl (\<lambda>rem rm. concat (map (\<lambda>seg. subtractTokenSegment seg rm) rem)) segs rms)
       \<longleftrightarrow> seg_mem x segs \<and> \<not> seg_mem x rms)"
  using assms
proof (induction rms arbitrary: segs)
  case Nil
  then show ?case by simp
next
  case (Cons rm rms)
  have rm: "seg_start rm < seg_end rm" using Cons.prems by (simp add: seg_wf_def)
  have step: "seg_mem x (concat (map (\<lambda>seg. subtractTokenSegment seg rm) segs))
      \<longleftrightarrow> seg_mem x segs \<and> \<not> (seg_start rm \<le> x \<and> x < seg_end rm)" for x
    by (induction segs) (auto simp: subtractTokenSegment_mem [OF rm])
  have "list_all seg_wf (concat (map (\<lambda>seg. subtractTokenSegment seg rm) segs))"
    using Cons.prems(2) subtractTokenSegment_wf by (induction segs) simp_all
  from Cons.IH [OF _ this] Cons.prems show ?case by (auto simp: step)
qed

lemma mergeFrom_props:
  "list_all seg_wf (c # segs) \<Longrightarrow> list_all seg_wf (mergeFrom c segs) \<and> seg_mem x (mergeFrom c segs) = seg_mem x (c # segs)"
proof (induction c segs rule: mergeFrom.induct)
  case (2 c s segs)
  show ?case
  proof (cases "seg_end c = seg_start s")
    case True
    with 2(3) have "seg_wf (mkSegment (seg_start c) (seg_end s))" by (simp add: seg_wf_def)
    with 2(3) have "list_all seg_wf (mkSegment (seg_start c) (seg_end s) # segs)" by simp
    moreover from 2(3) have "seg_start c < seg_end c" "seg_start s < seg_end s" by (simp_all add: seg_wf_def)
    ultimately show ?thesis using 2(1) [OF True] True by auto
  next
    case False
    with 2(2) [OF False] 2(3) show ?thesis by auto
  qed
qed simp

lemma mergeAdjacent_props:
  assumes "list_all seg_wf segs"
  shows "list_all seg_wf (mergeAdjacentTokenSegments segs)"
    and "seg_mem x (mergeAdjacentTokenSegments segs) = seg_mem x segs"
  using assms mergeFrom_props [of "hd segs" "tl segs" x]
  by (cases segs; simp add: mergeAdjacentTokenSegments_def)+

lemma segment_range_Contains:
  assumes "seg_wf s"
  shows "Contains (mkRange (bigTokenToUint64 (seg_start s)) (bigTokenToUint64 (seg_end s))) t \<longleftrightarrow>
    seg_start s \<le> uint t \<and> uint t < seg_end s"
proof -
  have u: "uint (word_of_int v :: uint64) = v" if "0 \<le> v" "v < 2 ^ 64" for v
    using that by (simp add: uint_word_of_int)
  have "uint (bigTokenToUint64 (seg_start s)) = seg_start s"
    using assms u by (auto simp: bigTokenToUint64_def seg_wf_def bigTokenSpace_def)
  moreover have "uint (bigTokenToUint64 (seg_end s)) = (if seg_end s = 2 ^ 64 then 0 else seg_end s)"
    using assms u by (auto simp: bigTokenToUint64_def seg_wf_def bigTokenSpace_def)
  ultimately show ?thesis
    using assms uint_lt_64 [of t] uint_ge_0 [of t]
    unfolding Contains_def word_less_def word_le_def word_uint_eq_iff mkRange_sel
    by (auto simp: seg_wf_def)
qed

lemma toRanges_Contains:
  "list_all seg_wf segs \<Longrightarrow> (\<exists>r\<in>set (tokenSegmentsToRanges segs). Contains r t) \<longleftrightarrow> seg_mem (uint t) segs"
  by (induction segs) (auto simp: segment_range_Contains seg_wf_def)

lemma seg_mem_token:
  assumes "list_all seg_wf segs" and "seg_mem x segs"
  obtains t :: uint64 where "x = uint t"
proof -
  from assms have "0 \<le> x" "x < 2 ^ 64" by (auto simp: seg_mem_def list_all_iff seg_wf_def)
  then have "x = uint (word_of_int x :: uint64)" by (simp add: uint_word_of_int)
  then show thesis by (rule that)
qed

lemma all_covered_iff:
  assumes "list_all seg_wf rms"
  shows "list_all (\<lambda>seg. segmentCoveredBySegments seg (sortTokenSegments owners)) rms \<longleftrightarrow>
    (\<forall>t :: uint64. seg_mem (uint t) rms \<longrightarrow> seg_mem (uint t) owners)"
proof -
  have "segmentCoveredBySegments s (sortTokenSegments owners) \<longleftrightarrow>
      (\<forall>x. seg_start s \<le> x \<and> x < seg_end s \<longrightarrow> seg_mem x owners)" if "s \<in> set rms" for s
    using coveredFrom_iff [of "sortTokenSegments owners" "seg_start s" "seg_end s"] assms that
    by (auto simp: segmentCoveredBySegments_def list_all_iff seg_wf_def)
  then have "list_all (\<lambda>seg. segmentCoveredBySegments seg (sortTokenSegments owners)) rms \<longleftrightarrow>
      (\<forall>x. seg_mem x rms \<longrightarrow> seg_mem x owners)"
    by (auto simp: list_all_iff seg_mem_def)
  then show ?thesis using seg_mem_token [OF assms] by metis
qed

lemma subtract_exact:
  "(is_ok (SubtractTokenRanges ranges remove) \<longleftrightarrow>
      ranges \<noteq> [] \<and> (\<forall>t. Contains remove t \<longrightarrow> (\<exists>r\<in>set ranges. Contains r t))) \<and>
   (\<forall>rest t. SubtractTokenRanges ranges remove = Inr rest \<longrightarrow>
      (\<exists>r\<in>set rest. Contains r t) = ((\<exists>r\<in>set ranges. Contains r t) \<and> \<not> Contains remove t))"
proof -
  let ?owners = "sortTokenSegments (concat (map tokenRangeSegments ranges))"
  let ?rms = "sortTokenSegments (tokenRangeSegments remove)"
  let ?rem = "foldl (\<lambda>rem rm. concat (map (\<lambda>seg. subtractTokenSegment seg rm) rem)) ?owners ?rms"
  have wf: "list_all seg_wf ?owners" "list_all seg_wf ?rms"
    using segments_wf_ranges segments_wf by simp_all
  have cov: "list_all (\<lambda>seg. segmentCoveredBySegments seg ?owners) ?rms \<longleftrightarrow>
      (\<forall>t. Contains remove t \<longrightarrow> (\<exists>r\<in>set ranges. Contains r t))"
    using all_covered_iff [OF wf(2)] by (simp add: segments_mem_ranges segments_mem)
  have rem: "list_all seg_wf ?rem" "\<And>x. seg_mem x ?rem \<longleftrightarrow> seg_mem x ?owners \<and> \<not> seg_mem x ?rms"
    using subtract_all [OF wf(2,1)] by auto
  have "(\<exists>r\<in>set (tokenSegmentsToRanges (mergeAdjacentTokenSegments (sortTokenSegments ?rem))). Contains r t)
      = ((\<exists>r\<in>set ranges. Contains r t) \<and> \<not> Contains remove t)" for t
    using toRanges_Contains [of "mergeAdjacentTokenSegments (sortTokenSegments ?rem)" t]
      mergeAdjacent_props(1) [of "sortTokenSegments ?rem"]
      mergeAdjacent_props(2) [of "sortTokenSegments ?rem" "uint t"] rem
    by (simp add: segments_mem_ranges segments_mem)
  with cov show ?thesis
    unfolding SubtractTokenRanges_def Let_def by auto
qed

text \<open>
  C28. Removing a range from a shard's ranges is exact: it succeeds precisely when the shard
  owns every token of the range, and what it returns owns precisely the other tokens.
\<close>

theorem subtract_ranges_exact:
  "(is_ok (SubtractTokenRanges ranges remove) \<longleftrightarrow>
      ranges \<noteq> [] \<and> (\<forall>t. Contains remove t \<longrightarrow> (\<exists>r\<in>set ranges. Contains r t))) \<and>
   (\<forall>rest t. SubtractTokenRanges ranges remove = Inr rest \<longrightarrow>
      (\<exists>r\<in>set rest. Contains r t) = ((\<exists>r\<in>set ranges. Contains r t) \<and> \<not> Contains remove t))"
  by (rule subtract_exact)

theorem subtract_ranges_exact_witness:
  "\<exists>rest. SubtractTokenRanges [mkRange 0 0] (mkRange 5 9) = Inr rest \<and>
     (\<exists>r\<in>set rest. Contains r 12) \<and> \<not> (\<exists>r\<in>set rest. Contains r 6)"
proof -
  have "is_ok (SubtractTokenRanges [mkRange 0 0] (mkRange 5 9))"
    using subtract_ranges_exact [of "[mkRange 0 0]" "mkRange 5 9"] by (simp add: Contains_def)
  then obtain rest where rest: "SubtractTokenRanges [mkRange 0 0] (mkRange 5 9) = Inr rest"
    by (auto simp: is_ok_iff)
  have "(\<exists>r\<in>set rest. Contains r t) \<longleftrightarrow> \<not> Contains (mkRange 5 9) t" for t
    using subtract_ranges_exact [of "[mkRange 0 0]" "mkRange 5 9"] rest
    by (simp add: Contains_def [of "mkRange 0 0"])
  moreover have "Contains (mkRange 5 9) 6" "\<not> Contains (mkRange 5 9) 12" by (simp_all add: Contains_def)
  ultimately show ?thesis using rest by blast
qed

end
