(* ===== verification/ShardCopy.thy ===== *)
theory ShardCopy
  imports EngineIndexes TokenRing
begin

text \<open>
  Moving the rows of a token range from one shard to another
  (\<^verbatim>\<open>internal/cluster/split_finalize.go\<close>, the lower half): copying and deleting keys in batches,
  copying rows through the write path so that the target builds its own indexes, comparing the
  two sides by count and checksum, and deleting the moved rows.

  What surrounds a call (cancellation of the context, the environment of each engine call) is the
  record \<open>world\<close>. An iterator reads a snapshot, so it is the list of its pairs.
\<close>

section \<open>Operations\<close>

record world =
  wo_cancelledAt :: "bytes \<Rightarrow> bool"
  wo_cancelledBefore :: "Item \<Rightarrow> bool"
  wo_env :: "Item \<Rightarrow> env"

record SplitVerification =
  sv_ParentCount :: int
  sv_ChildCount :: int
  sv_ParentChecksum :: uint64
  sv_ChildChecksum :: uint64
  sv_Verified :: bool

datatype move_error =
    Cancelled
  | DigestParent move_error
  | DigestChild move_error
  | VerificationFailed SplitVerification
  | CommitErr engine_error
  | DecodeRow string codec_error
  | PutRow string engine_error
  | DeleteRow string engine_error

definition splitCopyBatchSize :: nat where
  "splitCopyBatchSize = 1024"

text \<open>The batch under construction; \<^verbatim>\<open>pending\<close> is its length.\<close>

definition flush :: "DB \<Rightarrow> batch \<Rightarrow> DB \<times> (move_error + unit)" where
  "flush db b =
     (if b = [] then (db, Inr ())
      else (case CommitBatch db b of (db', Inl err) \<Rightarrow> (db', Inl (CommitErr err)) | (db', Inr _) \<Rightarrow> (db', Inr ())))"

text \<open>The loop of \<^verbatim>\<open>copyKeys\<close> and \<^verbatim>\<open>deleteKeys\<close>: \<open>op\<close> is the batch operation of a pair.\<close>

fun keyLoop :: "(bytes \<Rightarrow> bool) \<Rightarrow> (bytes \<times> bytes \<Rightarrow> IndexOp) \<Rightarrow> (bytes \<Rightarrow> bool) \<Rightarrow> (bytes \<times> bytes) list \<Rightarrow>
    DB \<Rightarrow> batch \<Rightarrow> int \<Rightarrow> DB \<times> (move_error + int)" where
  "keyLoop cancelled op incl [] db b n =
     (case flush db b of (db', Inl err) \<Rightarrow> (db', Inl err) | (db', Inr _) \<Rightarrow> (db', Inr n))"
| "keyLoop cancelled op incl (kv # kvs) db b n =
     (if cancelled (fst kv) then (db, Inl Cancelled)
      else if \<not> incl (fst kv) then keyLoop cancelled op incl kvs db b n
      else if splitCopyBatchSize \<le> length (b @ [op kv]) then
        (case flush db (b @ [op kv]) of
           (db', Inl err) \<Rightarrow> (db', Inl err)
         | (db', Inr _) \<Rightarrow> keyLoop cancelled op incl kvs db' [] (n + 1))
      else keyLoop cancelled op incl kvs db (b @ [op kv]) (n + 1))"

definition copyKeys :: "(bytes \<Rightarrow> bool) \<Rightarrow> DB \<Rightarrow> key_range \<Rightarrow> (bytes \<Rightarrow> bool) \<Rightarrow> DB \<Rightarrow> DB \<times> (move_error + int)" where
  "copyKeys cancelled src r incl dst = keyLoop cancelled (\<lambda>(k, v). IndexOpSet k v) incl (Iter src r) dst [] 0"

definition deleteKeys :: "(bytes \<Rightarrow> bool) \<Rightarrow> key_range \<Rightarrow> (bytes \<Rightarrow> bool) \<Rightarrow> DB \<Rightarrow> DB \<times> (move_error + int)" where
  "deleteKeys cancelled r incl db = keyLoop cancelled (\<lambda>(k, v). IndexOpDelete k) incl (Iter db r) db [] 0"

definition deleteAllKeys :: "(bytes \<Rightarrow> bool) \<Rightarrow> key_range \<Rightarrow> DB \<Rightarrow> DB \<times> (move_error + int)" where
  "deleteAllKeys cancelled bounds db = deleteKeys cancelled bounds (\<lambda>_. True) db"

definition copyCatalogKeys :: "(bytes \<Rightarrow> bool) \<Rightarrow> DB \<Rightarrow> DB \<Rightarrow> DB \<times> (move_error + int)" where
  "copyCatalogKeys cancelled src dst = copyKeys cancelled src PrefixCatalog (\<lambda>_. True) dst"

definition tokenInRange :: "TokenRange \<Rightarrow> bytes \<Rightarrow> bool" where
  "tokenInRange rng key = (case PrimaryTokenFromKey key of None \<Rightarrow> False | Some token \<Rightarrow> Contains rng token)"

definition copyPrimaryTokenRange :: "(bytes \<Rightarrow> bool) \<Rightarrow> DB \<Rightarrow> DB \<Rightarrow> TokenRange \<Rightarrow> DB \<times> (move_error + int)" where
  "copyPrimaryTokenRange cancelled src dst rng = copyKeys cancelled src PrefixTables (tokenInRange rng) dst"

definition deletePrimaryTokenRange :: "(bytes \<Rightarrow> bool) \<Rightarrow> DB \<Rightarrow> TokenRange \<Rightarrow> DB \<times> (move_error + int)" where
  "deletePrimaryTokenRange cancelled db rng = deleteKeys cancelled PrefixTables (tokenInRange rng) db"

text \<open>Rows are copied by putting them, with the zero value of the options.\<close>

definition zeroPut :: PutOptions where
  "zeroPut = \<lparr>po_Condition = [], po_Binds = [], po_AllowCounterWrite = False\<rparr>"

definition zeroDelete :: DeleteOptions where
  "zeroDelete = \<lparr>do_Condition = [], do_Binds = []\<rparr>"

fun copyRows :: "world \<Rightarrow> TableDescriptor \<Rightarrow> TokenRange \<Rightarrow> (bytes \<times> bytes) list \<Rightarrow> DB \<Rightarrow> int \<Rightarrow> DB \<times> (move_error + int)" where
  "copyRows w td rng [] dst copied = (dst, Inr copied)"
| "copyRows w td rng ((key, raw) # kvs) dst copied =
     (if wo_cancelledAt w key then (dst, Inl Cancelled)
      else if \<not> tokenInRange rng key then copyRows w td rng kvs dst copied
      else (case DecodeItem raw of
              Inl err \<Rightarrow> (dst, Inl (DecodeRow (td_Name td) err))
            | Inr item \<Rightarrow>
                (case putItemWithNoLane (wo_env w item) td item zeroPut dst of
                   (dst', Inl err) \<Rightarrow> (dst', Inl (PutRow (td_Name td) err))
                 | (dst', Inr _) \<Rightarrow> copyRows w td rng kvs dst' (copied + 1))))"

fun copyTables :: "world \<Rightarrow> TableDescriptor list \<Rightarrow> DB \<Rightarrow> TokenRange \<Rightarrow> DB \<Rightarrow> int \<Rightarrow> DB \<times> (move_error + int)" where
  "copyTables w [] src rng dst copied = (dst, Inr copied)"
| "copyTables w (td # tables) src rng dst copied =
     (case copyRows w td rng (Iter src (PrefixPrimaryAll (td_Name td))) dst copied of
        (dst', Inl err) \<Rightarrow> (dst', Inl err)
      | (dst', Inr copied') \<Rightarrow> copyTables w tables src rng dst' copied')"

definition copyPrimaryTokenRangeWithIndexes ::
  "world \<Rightarrow> TableDescriptor list \<Rightarrow> DB \<Rightarrow> DB \<Rightarrow> TokenRange \<Rightarrow> DB \<times> (move_error + int)" where
  "copyPrimaryTokenRangeWithIndexes w tables src dst rng = copyTables w tables src rng dst 0"

record splitDigest =
  sd_count :: int
  sd_checksum :: uint64

definition checksumKV :: "hasher \<Rightarrow> bytes \<Rightarrow> bytes \<Rightarrow> uint64" where
  "checksumKV H key value = Digest H [key, [0], value]"

fun digestRows :: "hasher \<Rightarrow> (bytes \<Rightarrow> bool) \<Rightarrow> TokenRange \<Rightarrow> (bytes \<times> bytes) list \<Rightarrow> splitDigest \<Rightarrow> move_error + splitDigest" where
  "digestRows H cancelled rng [] out = Inr out"
| "digestRows H cancelled rng ((key, value) # kvs) out =
     (if cancelled key then Inl Cancelled
      else if \<not> tokenInRange rng key then digestRows H cancelled rng kvs out
      else digestRows H cancelled rng kvs
        \<lparr>sd_count = sd_count out + 1, sd_checksum = xor (sd_checksum out) (checksumKV H key value)\<rparr>)"

fun digestTables :: "hasher \<Rightarrow> (bytes \<Rightarrow> bool) \<Rightarrow> TableDescriptor list \<Rightarrow> DB \<Rightarrow> TokenRange \<Rightarrow> splitDigest \<Rightarrow> move_error + splitDigest" where
  "digestTables H cancelled [] db rng out = Inr out"
| "digestTables H cancelled (td # tables) db rng out =
     bindr (digestRows H cancelled rng (Iter db (PrefixPrimaryAll (td_Name td))) out) (\<lambda>out'.
       digestTables H cancelled tables db rng out')"

definition digestPrimaryTokenRange ::
  "hasher \<Rightarrow> (bytes \<Rightarrow> bool) \<Rightarrow> TableDescriptor list \<Rightarrow> DB \<Rightarrow> TokenRange \<Rightarrow> move_error + splitDigest" where
  "digestPrimaryTokenRange H cancelled tables db rng = digestTables H cancelled tables db rng \<lparr>sd_count = 0, sd_checksum = 0\<rparr>"

definition zeroVerification :: SplitVerification where
  "zeroVerification = \<lparr>sv_ParentCount = 0, sv_ChildCount = 0, sv_ParentChecksum = 0, sv_ChildChecksum = 0, sv_Verified = False\<rparr>"

definition verifySplitRange :: "hasher \<Rightarrow> (bytes \<Rightarrow> bool) \<Rightarrow> (bytes \<Rightarrow> bool) \<Rightarrow> TableDescriptor list \<Rightarrow> DB \<Rightarrow> DB \<Rightarrow> TokenRange \<Rightarrow>
    SplitVerification \<times> move_error option" where
  "verifySplitRange H cancelledParent cancelledChild tables parent child rng =
     (case digestPrimaryTokenRange H cancelledParent tables parent rng of
        Inl err \<Rightarrow> (zeroVerification, Some (DigestParent err))
      | Inr parentDigest \<Rightarrow>
          (case digestPrimaryTokenRange H cancelledChild tables child rng of
             Inl err \<Rightarrow> (zeroVerification, Some (DigestChild err))
           | Inr childDigest \<Rightarrow>
               let out = \<lparr>sv_ParentCount = sd_count parentDigest, sv_ChildCount = sd_count childDigest,
                          sv_ParentChecksum = sd_checksum parentDigest, sv_ChildChecksum = sd_checksum childDigest,
                          sv_Verified = (parentDigest = childDigest)\<rparr>
               in (out, if sv_Verified out then None else Some (VerificationFailed out))))"

fun itemsInRange :: "(bytes \<Rightarrow> bool) \<Rightarrow> string \<Rightarrow> TokenRange \<Rightarrow> (bytes \<times> bytes) list \<Rightarrow> move_error + Item list" where
  "itemsInRange cancelled table rng [] = Inr []"
| "itemsInRange cancelled table rng ((key, raw) # kvs) =
     (if cancelled key then Inl Cancelled
      else if \<not> tokenInRange rng key then itemsInRange cancelled table rng kvs
      else bindr (wrapr (DecodeRow table) (DecodeItem raw)) (\<lambda>item.
        bindr (itemsInRange cancelled table rng kvs) (\<lambda>items. Inr (item # items))))"

definition primaryItemsInRange :: "(bytes \<Rightarrow> bool) \<Rightarrow> DB \<Rightarrow> TableDescriptor \<Rightarrow> TokenRange \<Rightarrow> move_error + Item list" where
  "primaryItemsInRange cancelled db td rng =
     itemsInRange cancelled (td_Name td) rng (Iter db (PrefixPrimaryAll (td_Name td)))"

fun deleteItems :: "world \<Rightarrow> TableDescriptor \<Rightarrow> Item list \<Rightarrow> DB \<Rightarrow> int \<Rightarrow> DB \<times> (move_error + int)" where
  "deleteItems w td [] db deleted = (db, Inr deleted)"
| "deleteItems w td (item # items) db deleted =
     (if wo_cancelledBefore w item then (db, Inl Cancelled)
      else (case deleteItemWithNoLane (wo_env w item) td item zeroDelete db of
              (db', Inl err) \<Rightarrow> (db', Inl (DeleteRow (td_Name td) err))
            | (db', Inr _) \<Rightarrow> deleteItems w td items db' (deleted + 1)))"

fun deleteTables :: "world \<Rightarrow> TableDescriptor list \<Rightarrow> TokenRange \<Rightarrow> DB \<Rightarrow> int \<Rightarrow> DB \<times> (move_error + int)" where
  "deleteTables w [] rng db deleted = (db, Inr deleted)"
| "deleteTables w (td # tables) rng db deleted =
     (case primaryItemsInRange (wo_cancelledAt w) db td rng of
        Inl err \<Rightarrow> (db, Inl err)
      | Inr items \<Rightarrow>
          (case deleteItems w td items db deleted of
             (db', Inl err) \<Rightarrow> (db', Inl err)
           | (db', Inr deleted') \<Rightarrow> deleteTables w tables rng db' deleted'))"

definition deletePrimaryTokenRangeWithIndexes :: "world \<Rightarrow> TableDescriptor list \<Rightarrow> DB \<Rightarrow> TokenRange \<Rightarrow> DB \<times> (move_error + int)" where
  "deletePrimaryTokenRangeWithIndexes w tables db rng = deleteTables w tables rng db 0"


section \<open>The batched loop\<close>

lemma flush_ok:
  assumes "flush db b = (db', r)"
  shows "db' = db \<and> (\<exists>err. r = Inl err) \<or> db' = db\<lparr>db_store := applyBatch b (db_store db)\<rparr> \<and> r = Inr ()"
  using assms CommitBatch_spec [of db b] by (auto simp: flush_def split: if_splits prod.splits sum.splits)

text \<open>Whatever happens, a prefix of the operations has been applied, all of them on success.\<close>

lemma keyLoop_spec:
  assumes "keyLoop cancelled op incl kvs db b n = (db', r)"
  shows "\<exists>done'. prefix done' (b @ map op (filter (\<lambda>kv. incl (fst kv)) kvs)) \<and>
    db' = db\<lparr>db_store := applyBatch done' (db_store db)\<rparr> \<and>
    (\<forall>m. r = Inr m \<longrightarrow> done' = b @ map op (filter (\<lambda>kv. incl (fst kv)) kvs) \<and>
       m = n + int (length (filter (\<lambda>kv. incl (fst kv)) kvs)))"
  using assms
proof (induction kvs arbitrary: db b n)
  case Nil
  obtain db1 x where fl: "flush db b = (db1, x)" by fastforce
  from flush_ok [OF fl] show ?case
  proof
    assume "db1 = db \<and> (\<exists>err. x = Inl err)"
    then show ?case using Nil fl by (intro exI [of _ "[]"]) auto
  next
    assume "db1 = db\<lparr>db_store := applyBatch b (db_store db)\<rparr> \<and> x = Inr ()"
    then show ?case using Nil fl by (intro exI [of _ b]) auto
  qed
next
  case (Cons kv kvs)
  let ?b = "b @ [op kv]" and ?P = "\<lambda>kv. incl (fst kv)"
  obtain db1 x where fl: "flush db ?b = (db1, x)" by fastforce
  consider (stop) "cancelled (fst kv)" | (skip) "\<not> cancelled (fst kv)" "\<not> incl (fst kv)"
    | (commit) "\<not> cancelled (fst kv)" "incl (fst kv)" "splitCopyBatchSize \<le> length ?b"
    | (collect) "\<not> cancelled (fst kv)" "incl (fst kv)" "\<not> splitCopyBatchSize \<le> length ?b"
    by blast
  then show ?case
  proof cases
    case stop
    with Cons.prems show ?thesis by (intro exI [of _ "[]"]) auto
  next
    case skip
    with Cons.prems Cons.IH [of db b n] show ?thesis by simp
  next
    case commit
    from flush_ok [OF fl] show ?thesis
    proof
      assume "db1 = db \<and> (\<exists>err. x = Inl err)"
      with commit Cons.prems fl show ?thesis by (intro exI [of _ "[]"]) auto
    next
      assume x: "db1 = db\<lparr>db_store := applyBatch ?b (db_store db)\<rparr> \<and> x = Inr ()"
      with commit Cons.prems fl have "keyLoop cancelled op incl kvs db1 [] (n + 1) = (db', r)" by simp
      from Cons.IH [OF this] obtain d where d: "prefix d (map op (filter ?P kvs))"
        "db' = db1\<lparr>db_store := applyBatch d (db_store db1)\<rparr>"
        "\<forall>m. r = Inr m \<longrightarrow> d = map op (filter ?P kvs) \<and> m = n + 1 + int (length (filter ?P kvs))" by auto
      have "db' = db\<lparr>db_store := applyBatch (?b @ d) (db_store db)\<rparr>" using d(2) x by (simp add: applyBatch_def)
      with d(1,3) commit(2) show ?thesis by (intro exI [of _ "?b @ d"]) (simp add: add.assoc)
    qed
  next
    case collect
    with Cons.prems have "keyLoop cancelled op incl kvs db ?b (n + 1) = (db', r)" by simp
    from Cons.IH [OF this] collect(2) show ?thesis by (simp add: add.assoc)
  qed
qed

lemma applyIndexOps_sets:
  "distinct (map fst kvs) \<Longrightarrow> applyIndexOps (map (\<lambda>(k, v). IndexOpSet k v) kvs) m = m ++ map_of kvs"
proof (induction kvs arbitrary: m)
  case (Cons kv kvs)
  obtain k v where kv: "kv = (k, v)" by fastforce
  then have "map_of kvs k = None" using Cons.prems by (simp add: map_of_eq_None_iff)
  with Cons kv show ?case by (simp add: fun_eq_iff map_add_def split: option.split)
qed simp

lemma applyIndexOps_deletes:
  "applyIndexOps (map (\<lambda>(k, v). IndexOpDelete k) kvs) m = m |` (- fst ` set kvs)"
  by (induction kvs arbitrary: m) (auto simp: restrict_map_def fun_eq_iff)

lemma Iter_distinct: "gomap_canon (db_store db) \<Longrightarrow> distinct (map fst (Iter db r))"
  by (simp add: Iter_def distinct_map_filter gomap_canon_distinct)


text \<open>The operations on the store, as a map.\<close>

lemma map_of_filter_Iter:
  "map_of (filter (\<lambda>kv. P (fst kv)) (Iter db r)) = map_of (db_store db) |` {k. in_range r k \<and> P k}"
proof -
  have "filter (\<lambda>kv. P (fst kv)) (Iter db r) = filter (\<lambda>(k, _). in_range r k \<and> P k) (db_store db)"
    by (auto simp: Iter_def filter_filter intro: filter_cong)
  then show ?thesis using map_of_filter_keys [of "\<lambda>k. in_range r k \<and> P k" "db_store db"]
    by (auto simp: restrict_map_def fun_eq_iff)
qed

lemma filter_Iter_keys:
  "fst ` set (filter (\<lambda>kv. P (fst kv)) (Iter db r)) = {k \<in> dom (map_of (db_store db)). in_range r k \<and> P k}"
proof -
  have "fst ` set (filter (\<lambda>kv. P (fst kv)) (Iter db r)) = dom (map_of (db_store db) |` {k. in_range r k \<and> P k})"
    by (metis dom_map_of_conv_image_fst map_of_filter_Iter)
  then show ?thesis by auto
qed

lemma copyKeys_map:
  assumes "copyKeys cancelled src r incl dst = (dst', Inr n)"
    and "gomap_canon (db_store src)" and "gomap_canon (db_store dst)"
  shows "\<exists>s. dst' = dst\<lparr>db_store := s\<rparr> \<and> gomap_canon s \<and>
    map_of s = map_of (db_store dst) ++ (map_of (db_store src) |` {k. in_range r k \<and> incl k}) \<and>
    n = int (length (filter (\<lambda>kv. incl (fst kv)) (Iter src r)))"
proof -
  let ?kvs = "filter (\<lambda>kv. incl (fst kv)) (Iter src r)"
  have dist: "distinct (map fst ?kvs)" using Iter_distinct [OF assms(2)] by (rule distinct_map_filter)
  from keyLoop_spec [OF assms(1) [unfolded copyKeys_def]]
  have "dst' = dst\<lparr>db_store := applyBatch (map (\<lambda>(k, v). IndexOpSet k v) ?kvs) (db_store dst)\<rparr>" "n = int (length ?kvs)"
    by auto
  then show ?thesis
    using assms(3) applyIndexOps_sets [OF dist] map_of_filter_Iter [of incl src r] by (auto simp: map_of_applyBatch)
qed

lemma deleteKeys_map:
  assumes "deleteKeys cancelled r incl db = (db', Inr n)" and "gomap_canon (db_store db)"
  shows "\<exists>s. db' = db\<lparr>db_store := s\<rparr> \<and> gomap_canon s \<and>
    map_of s = map_of (db_store db) |` (- {k. in_range r k \<and> incl k})"
proof -
  let ?kvs = "filter (\<lambda>kv. incl (fst kv)) (Iter db r)"
  from keyLoop_spec [OF assms(1) [unfolded deleteKeys_def]]
  have db': "db' = db\<lparr>db_store := applyBatch (map (\<lambda>(k, v). IndexOpDelete k) ?kvs) (db_store db)\<rparr>" by auto
  have "map_of (db_store db) |` (- fst ` set ?kvs) = map_of (db_store db) |` (- {k. in_range r k \<and> incl k})"
    unfolding filter_Iter_keys by (auto simp: restrict_map_def fun_eq_iff)
  then have "map_of (applyBatch (map (\<lambda>(k, v). IndexOpDelete k) ?kvs) (db_store db)) =
      map_of (db_store db) |` (- {k. in_range r k \<and> incl k})"
    unfolding map_of_applyBatch [OF assms(2)] applyIndexOps_deletes .
  with db' assms(2) show ?thesis by blast
qed

section \<open>The rows of a shard\<close>

text \<open>
  The abstract view: the stored rows as one map. A put is an update of it, a delete removes a key,
  and the engine's invariant (rows under their own keys, exact indexes) is kept.
\<close>

definition rows :: "TableDescriptor set \<Rightarrow> DB \<Rightarrow> bytes \<Rightarrow> bytes option" where
  "rows T db k = (if \<exists>td\<in>T. in_seg (td_Name td) SegPrimary k then map_of (db_store db) k else None)"

definition shard_inv :: "spatial_env \<Rightarrow> TableDescriptor set \<Rightarrow> (bytes \<times> bytes) set \<Rightarrow> DB \<Rightarrow> bool" where
  "shard_inv hf T K db \<longleftrightarrow> engine_inv hf T K db \<and> (\<forall>k raw. rows T db k = Some raw \<longrightarrow> (\<exists>item. item_wf item \<and> raw = itemBytes item))"

definition world_ok :: "spatial_env \<Rightarrow> world \<Rightarrow> bool" where
  "world_ok hf w \<longleftrightarrow> (\<forall>item. HF (wo_env w item) = hf)"

lemma committed_rows:
  assumes com: "committed td plan db db'" and ok: "plan_ok H td plan" and "db_wf db" and td: "td \<in> T" and T: "catalog_ok T"
  shows "rows T db' = (rows T db)(wp_key plan := wp_value plan)"
proof
  fix k
  have canon: "gomap_canon (db_store db)" using assms(3) by (simp add: db_wf_def)
  from ok have seg: "in_seg (td_Name td) SegPrimary (wp_key plan)" using KeyPrimary_seg by (auto simp: plan_ok_def)
  show "rows T db' k = ((rows T db)(wp_key plan := wp_value plan)) k"
  proof (cases "\<exists>td'\<in>T. in_seg (td_Name td') SegPrimary k")
    case True
    then obtain td' where td': "td' \<in> T" "in_seg (td_Name td') SegPrimary k" by blast
    have "map_of (db_store db') k = (if k = wp_key plan then wp_value plan else map_of (db_store db) k)"
    proof (cases "td_Name td' = td_Name td")
      case True
      with committed_primary [OF com ok canon] td'(2) show ?thesis by simp
    next
      case False
      have apart: "\<not> table_key_of (td_Name td) k"
        using tables_disjoint [of "td_Name td" "td_Name td'" k] False td td' T by (auto simp: catalog_ok_def table_key_of_def)
      from committed_store [OF com canon] obtain log where log: "\<forall>op\<in>set log. admin_key (opKey op)"
        and kv: "map_of (db_store db') = applyIndexOps (planOps plan @ log) (map_of (db_store db))" by blast
      have "k \<notin> opKey ` set (planOps plan @ log)"
      proof
        assume "k \<in> opKey ` set (planOps plan @ log)"
        then consider "k = wp_key plan" | op where "\<not> wp_skipPrior plan" "op \<in> set (wp_ops plan)" "k = opKey op" | "admin_key k"
          using log by (auto simp: planOps_def primaryOp_def split: option.splits if_splits)
        then show False
          using apart seg ok table_not_admin [OF td'(2)] by cases (auto simp: table_key_of_def plan_ok_def index_key_def)
      qed
      then have "map_of (db_store db') k = map_of (db_store db) k" unfolding kv by (rule applyIndexOps_other)
      then show ?thesis using apart seg by (auto simp: table_key_of_def)
    qed
    with True show ?thesis by (simp add: rows_def)
  next
    case False
    then have "k \<noteq> wp_key plan" using seg td by blast
    with False show ?thesis by (simp add: rows_def)
  qed
qed

lemma put_rows:
  assumes run: "putItemWithNoLane e td item opts db = (db', Inr u)" and hf: "HF e = hf" and td: "td \<in> T" and T: "catalog_ok T"
    and cf: "collision_free (fst hf) K" and inv: "shard_inv hf T K db" and item: "item_wf item"
    and key: "primaryKeyBytes (td_KeySchema td) item = Inr (pk, sk)" "(pk, sk) \<in> K"
  shows "rows T db' = (rows T db)(KeyPrimary (fst hf) (td_Name td) pk sk \<mapsto> itemBytes item)" and "shard_inv hf T K db'"
proof -
  from put_spec [OF run] obtain plan where plan: "planPut e db td item opts = Inr plan" and com: "committed td plan db db'" by auto
  have eng: "engine_inv hf T K db" and wf: "db_wf db" using inv by (auto simp: shard_inv_def engine_inv_def)
  from plan have "wp_key plan = KeyPrimary (fst hf) (td_Name td) pk sk" "wp_value plan = Some (itemBytes item)"
    using key(1) hf EncodeItem_itemBytes [OF item]
    by (auto elim!: planPutE simp: primaryKeyBytes_extract [symmetric])
  then show rows: "rows T db' = (rows T db)(KeyPrimary (fst hf) (td_Name td) pk sk \<mapsto> itemBytes item)"
    using committed_rows [OF com planPut_ok [OF plan] wf td T] by simp
  have "keys_in K td item" using key by (simp add: keys_in_def primaryKeyBytes_extract)
  from put_inv [OF _ hf td T cf eng item this] run have "engine_inv hf T K db'" by auto
  moreover have "\<exists>item. item_wf item \<and> raw = itemBytes item" if "rows T db' k = Some raw" for k raw
    using that item inv by (auto simp: rows shard_inv_def split: if_splits)
  ultimately show "shard_inv hf T K db'" by (simp add: shard_inv_def)
qed

lemma delete_rows:
  assumes run: "deleteItemWithNoLane e td item opts db = (db', Inr u)" and hf: "HF e = hf" and td: "td \<in> T" and T: "catalog_ok T"
    and cf: "collision_free (fst hf) K" and inv: "shard_inv hf T K db"
    and key: "primaryKeyBytes (td_KeySchema td) item = Inr (pk, sk)"
  shows "rows T db' = (rows T db)(KeyPrimary (fst hf) (td_Name td) pk sk := None)" and "shard_inv hf T K db'"
proof -
  from delete_spec [OF run] obtain plan where plan: "planDelete e db td item opts = Inr plan" and com: "committed td plan db db'" by auto
  have eng: "engine_inv hf T K db" and wf: "db_wf db" using inv by (auto simp: shard_inv_def engine_inv_def)
  from plan have "wp_key plan = KeyPrimary (fst hf) (td_Name td) pk sk" "wp_value plan = None"
    using key hf by (auto elim!: planDeleteE simp: primaryKeyBytes_extract [symmetric])
  then show rows: "rows T db' = (rows T db)(KeyPrimary (fst hf) (td_Name td) pk sk := None)"
    using committed_rows [OF com planDelete_ok [OF plan] wf td T] by simp
  from delete_inv [OF _ hf td T cf eng] run have "engine_inv hf T K db'" by auto
  moreover have "\<exists>item. item_wf item \<and> raw = itemBytes item" if "rows T db' k = Some raw" for k raw
    using that inv by (auto simp: rows shard_inv_def split: if_splits)
  ultimately show "shard_inv hf T K db'" by (simp add: shard_inv_def)
qed


section \<open>Copying rows\<close>

text \<open>A pair that lies where the row it holds belongs.\<close>

definition own_row :: "hasher \<Rightarrow> TableDescriptor \<Rightarrow> (bytes \<times> bytes) set \<Rightarrow> bytes \<times> bytes \<Rightarrow> Item \<Rightarrow> bool" where
  "own_row H td K kv item \<longleftrightarrow> item_wf item \<and> snd kv = itemBytes item \<and> DecodeItem (snd kv) = Inr item \<and>
     (\<exists>pk sk. primaryKeyBytes (td_KeySchema td) item = Inr (pk, sk) \<and> (pk, sk) \<in> K \<and> fst kv = KeyPrimary H (td_Name td) pk sk)"

lemma own_rowE:
  assumes "own_row H td K (k, raw) item"
  obtains pk sk where "item_wf item" "raw = itemBytes item" "DecodeItem raw = Inr item"
    "primaryKeyBytes (td_KeySchema td) item = Inr (pk, sk)" "(pk, sk) \<in> K" "k = KeyPrimary H (td_Name td) pk sk"
  using assms unfolding own_row_def by auto

lemma scan_own_rows:
  assumes "shard_inv hf T K db" and "td \<in> T" and "kv \<in> set (Iter db (PrefixPrimaryAll (td_Name td)))"
  shows "\<exists>item. own_row (fst hf) td K kv item"
proof -
  obtain k raw where kv: "kv = (k, raw)" by fastforce
  have canon: "gomap_canon (db_store db)" using assms(1) by (simp add: shard_inv_def engine_inv_def db_wf_def)
  from assms(3) have "(k, raw) \<in> set (db_store db)" and seg: "in_seg (td_Name td) SegPrimary k"
    by (auto simp: kv Iter_def in_PrefixPrimaryAll)
  then have raw: "map_of (db_store db) k = Some raw" using gomap_canon_distinct [OF canon] by simp
  with seg assms(2) have "rows T db k = Some raw" by (auto simp: rows_def)
  with assms(1) obtain item where item: "item_wf item" "raw = itemBytes item" by (auto simp: shard_inv_def)
  then have "DecodeItem raw = Inr item" using DecodeItem_itemBytes [of item "[]"] by simp
  moreover from assms(1,2) have "rows_ok (fst hf) td K (map_of (db_store db))" by (simp add: shard_inv_def engine_inv_def)
  then obtain item' pk sk where "DecodeItem raw = Inr item'" "primaryKeyBytes (td_KeySchema td) item' = Inr (pk, sk)"
    "(pk, sk) \<in> K" "k = KeyPrimary (fst hf) (td_Name td) pk sk"
    using raw seg unfolding rows_ok_def by blast
  ultimately show ?thesis using item by (auto simp: own_row_def kv)
qed

lemma copyRows_spec:
  assumes "copyRows w td rng kvs dst c = (dst', Inr c')" and "shard_inv hf T K dst"
    and "\<And>kv. kv \<in> set kvs \<Longrightarrow> \<exists>item. own_row (fst hf) td K kv item" and "distinct (map fst kvs)"
    and w: "world_ok hf w" and td: "td \<in> T" and T: "catalog_ok T" and cf: "collision_free (fst hf) K"
  shows "shard_inv hf T K dst' \<and> rows T dst' = rows T dst ++ map_of (filter (\<lambda>kv. tokenInRange rng (fst kv)) kvs) \<and>
    c' = c + int (length (filter (\<lambda>kv. tokenInRange rng (fst kv)) kvs))"
  using assms(1-4)
proof (induction kvs arbitrary: dst c)
  case (Cons kv kvs)
  obtain k raw where kv: "kv = (k, raw)" by fastforce
  from Cons.prems(1) have go: "\<not> wo_cancelledAt w k" by (auto simp: kv)
  show ?case
  proof (cases "tokenInRange rng k")
    case False
    with Cons.prems(1) go have "copyRows w td rng kvs dst c = (dst', Inr c')" by (simp add: kv)
    from Cons.IH [OF this Cons.prems(2)] Cons.prems(3,4) False show ?thesis by (simp add: kv)
  next
    case True
    from Cons.prems(3) [of kv] obtain item where own: "own_row (fst hf) td K (k, raw) item" by (auto simp: kv)
    then obtain pk sk where item: "item_wf item" "raw = itemBytes item" "DecodeItem raw = Inr item"
      "primaryKeyBytes (td_KeySchema td) item = Inr (pk, sk)" "(pk, sk) \<in> K" "k = KeyPrimary (fst hf) (td_Name td) pk sk"
      by (rule own_rowE)
    from Cons.prems(1) go True item(3) obtain dst1 u where put: "putItemWithNoLane (wo_env w item) td item zeroPut dst = (dst1, Inr u)"
      and rest: "copyRows w td rng kvs dst1 (c + 1) = (dst', Inr c')"
      by (auto simp: kv split: prod.splits sum.splits)
    have hf: "HF (wo_env w item) = hf" using w by (simp add: world_ok_def)
    note p = put_rows [OF put hf td T cf Cons.prems(2) item(1,4,5)]
    have "map_of (filter (\<lambda>kv. tokenInRange rng (fst kv)) kvs) k = None"
      using Cons.prems(4) by (auto simp: kv map_of_eq_None_iff)
    moreover from Cons.IH [OF rest p(2)] Cons.prems(3,4)
    have "shard_inv hf T K dst'" "rows T dst' = rows T dst1 ++ map_of (filter (\<lambda>kv. tokenInRange rng (fst kv)) kvs)"
      "c' = c + 1 + int (length (filter (\<lambda>kv. tokenInRange rng (fst kv)) kvs))" by auto
    ultimately show ?thesis using True p(1) item(2,6)
      by (auto simp: kv fun_eq_iff map_add_def split: option.splits)
  qed
qed simp

text \<open>The rows of a list of tables whose token lies in a range.\<close>

definition range_rows :: "TableDescriptor set \<Rightarrow> TokenRange \<Rightarrow> DB \<Rightarrow> bytes \<Rightarrow> bytes option" where
  "range_rows T rng db = rows T db |` Collect (tokenInRange rng)"

lemma scan_range_rows:
  "map_of (filter (\<lambda>kv. tokenInRange rng (fst kv)) (Iter db (PrefixPrimaryAll (td_Name td)))) = range_rows {td} rng db"
  unfolding map_of_filter_Iter by (auto simp: range_rows_def rows_def restrict_map_def fun_eq_iff in_PrefixPrimaryAll)

lemma range_rows_insert: "range_rows (insert td T) rng db = range_rows {td} rng db ++ range_rows T rng db"
  by (auto simp: range_rows_def rows_def restrict_map_def map_add_def fun_eq_iff split: option.split)

lemma shard_inv_canon: "shard_inv hf T K db \<Longrightarrow> gomap_canon (db_store db)"
  by (simp add: shard_inv_def engine_inv_def db_wf_def)

lemma copyTables_spec:
  assumes "copyTables w tables src rng dst c = (dst', Inr c')" and "shard_inv hf T K dst" and "set tables \<subseteq> T"
    and src: "shard_inv hf T K src" and w: "world_ok hf w" and T: "catalog_ok T" and cf: "collision_free (fst hf) K"
  shows "shard_inv hf T K dst' \<and> rows T dst' = rows T dst ++ range_rows (set tables) rng src"
  using assms(1-3)
proof (induction tables arbitrary: dst c)
  case Nil
  then show ?case by (auto simp: range_rows_def rows_def restrict_map_def map_add_def fun_eq_iff)
next
  case (Cons td tables)
  let ?kvs = "Iter src (PrefixPrimaryAll (td_Name td))"
  from Cons.prems(3) have td: "td \<in> T" by simp
  from Cons.prems(1) obtain dst1 c1 where copy: "copyRows w td rng ?kvs dst c = (dst1, Inr c1)"
    and rest: "copyTables w tables src rng dst1 c1 = (dst', Inr c')" by (auto split: prod.splits sum.splits)
  from copyRows_spec [OF copy Cons.prems(2) scan_own_rows [OF src td] Iter_distinct [OF shard_inv_canon [OF src]] w td T cf]
  have one: "shard_inv hf T K dst1" "rows T dst1 = rows T dst ++ range_rows {td} rng src" by (auto simp: scan_range_rows)
  from Cons.IH [OF rest one(1)] Cons.prems(3) show ?case by (simp add: one(2) range_rows_insert [of td "set tables"])
qed


section \<open>Deleting rows\<close>

definition keyOf :: "hasher \<Rightarrow> TableDescriptor \<Rightarrow> Item \<Rightarrow> bytes" where
  "keyOf H td item = (case primaryKeyBytes (td_KeySchema td) item of Inl _ \<Rightarrow> [] | Inr (pk, sk) \<Rightarrow> KeyPrimary H (td_Name td) pk sk)"

lemma own_row_key: "own_row H td K kv item \<Longrightarrow> keyOf H td item = fst kv \<and> (\<exists>pk sk. primaryKeyBytes (td_KeySchema td) item = Inr (pk, sk))"
  by (auto simp: own_row_def keyOf_def)

lemma itemsInRange_spec:
  assumes "itemsInRange cancelled table rng kvs = Inr items" and "\<And>kv. kv \<in> set kvs \<Longrightarrow> \<exists>item. own_row H td K kv item"
  shows "(\<forall>item\<in>set items. \<exists>pk sk. primaryKeyBytes (td_KeySchema td) item = Inr (pk, sk)) \<and>
    keyOf H td ` set items = fst ` set (filter (\<lambda>kv. tokenInRange rng (fst kv)) kvs)"
  using assms
proof (induction kvs arbitrary: items)
  case (Cons kv kvs)
  obtain k raw where kv: "kv = (k, raw)" by fastforce
  from Cons.prems(1) have go: "\<not> cancelled k" by (auto simp: kv)
  show ?case
  proof (cases "tokenInRange rng k")
    case False
    with Cons.prems(1) go Cons.IH [of items] Cons.prems(2) show ?thesis by (simp add: kv)
  next
    case True
    from Cons.prems(2) [of kv] obtain item where own: "own_row H td K (k, raw) item" by (auto simp: kv)
    then have "DecodeItem raw = Inr item" by (auto simp: own_row_def)
    with Cons.prems(1) go True obtain rest where "itemsInRange cancelled table rng kvs = Inr rest" "items = item # rest"
      by (auto simp: kv elim!: bindr_InrE)
    with Cons.IH [of rest] Cons.prems(2) own_row_key [OF own] True show ?thesis by (simp add: kv)
  qed
qed simp

lemma deleteItems_spec:
  assumes "deleteItems w td items db n = (db', Inr n')" and "shard_inv hf T K db"
    and "\<forall>item\<in>set items. \<exists>pk sk. primaryKeyBytes (td_KeySchema td) item = Inr (pk, sk)"
    and w: "world_ok hf w" and td: "td \<in> T" and T: "catalog_ok T" and cf: "collision_free (fst hf) K"
  shows "shard_inv hf T K db' \<and> rows T db' = rows T db |` (- keyOf (fst hf) td ` set items) \<and> n' = n + int (length items)"
  using assms(1-3)
proof (induction items arbitrary: db n)
  case (Cons item items)
  from Cons.prems(1) obtain db1 u where del: "deleteItemWithNoLane (wo_env w item) td item zeroDelete db = (db1, Inr u)"
    and rest: "deleteItems w td items db1 (n + 1) = (db', Inr n')" by (auto split: if_splits prod.splits sum.splits)
  from Cons.prems(3) obtain pk sk where key: "primaryKeyBytes (td_KeySchema td) item = Inr (pk, sk)" by auto
  have hf: "HF (wo_env w item) = hf" using w by (simp add: world_ok_def)
  note d = delete_rows [OF del hf td T cf Cons.prems(2) key]
  from Cons.IH [OF rest d(2)] Cons.prems(3)
  show ?case by (auto simp: d(1) key keyOf_def restrict_map_def fun_eq_iff)
qed (simp add: restrict_map_def)

lemma deleteTables_spec:
  assumes "deleteTables w tables rng db n = (db', Inr n')" and "shard_inv hf T K db" and "set tables \<subseteq> T"
    and w: "world_ok hf w" and T: "catalog_ok T" and cf: "collision_free (fst hf) K"
  shows "shard_inv hf T K db' \<and> rows T db' = rows T db |` (- dom (range_rows (set tables) rng db))"
  using assms(1-3)
proof (induction tables arbitrary: db n)
  case Nil
  have "dom (range_rows {} rng db) = {}" by (auto simp: range_rows_def rows_def restrict_map_def split: if_splits)
  with Nil show ?case by (simp add: restrict_map_def)
next
  case (Cons td tables)
  let ?kvs = "Iter db (PrefixPrimaryAll (td_Name td))"
  from Cons.prems(3) have td: "td \<in> T" by simp
  from Cons.prems(1) obtain items db1 n1 where scan: "primaryItemsInRange (wo_cancelledAt w) db td rng = Inr items"
    and del: "deleteItems w td items db n = (db1, Inr n1)" and rest: "deleteTables w tables rng db1 n1 = (db', Inr n')"
    by (auto split: prod.splits sum.splits)
  from itemsInRange_spec [OF scan [unfolded primaryItemsInRange_def] scan_own_rows [OF Cons.prems(2) td]]
  have items: "\<forall>item\<in>set items. \<exists>pk sk. primaryKeyBytes (td_KeySchema td) item = Inr (pk, sk)"
    "keyOf (fst hf) td ` set items = fst ` set (filter (\<lambda>kv. tokenInRange rng (fst kv)) ?kvs)" by auto
  have keys: "keyOf (fst hf) td ` set items = dom (range_rows {td} rng db)"
    using items(2) scan_range_rows [of rng db td] by (simp only: dom_map_of_conv_image_fst [symmetric])
  from deleteItems_spec [OF del Cons.prems(2) items(1) w td T cf]
  have one: "shard_inv hf T K db1" "rows T db1 = rows T db |` (- dom (range_rows {td} rng db))" by (auto simp: keys)
  have sub: "rows S x = rows T x |` {k. \<exists>td\<in>S. in_seg (td_Name td) SegPrimary k}" if "S \<subseteq> T" for S x
    using that by (auto simp: rows_def restrict_map_def fun_eq_iff)
  from Cons.IH [OF rest one(1)] Cons.prems(3)
  have "shard_inv hf T K db'" "rows T db' = rows T db1 |` (- dom (range_rows (set tables) rng db1))" by auto
  moreover have "dom (range_rows {td} rng db) \<union> dom (range_rows (set tables) rng db1) = dom (range_rows (set (td # tables)) rng db)"
    using Cons.prems(3) td sub [of "set tables" db1] sub [of "set tables" db] sub [of "{td}" db] sub [of "set (td # tables)" db]
    by (auto simp: range_rows_def one(2) restrict_map_def dom_def split: if_splits)
  ultimately show ?case by (simp add: one(2) flip: Compl_Un)
qed


section \<open>Copying, comparing, deleting\<close>

text \<open>The digest depends on the rows of the range only.\<close>

lemma digestRows_filter:
  "digestRows H (\<lambda>_. False) rng kvs out =
    Inr (foldl (\<lambda>out (k, v). \<lparr>sd_count = sd_count out + 1, sd_checksum = xor (sd_checksum out) (checksumKV H k v)\<rparr>) out
      (filter (\<lambda>kv. tokenInRange rng (fst kv)) kvs))"
  by (induction kvs arbitrary: out) auto

lemma range_rows_scan:
  assumes "gomap_canon (db_store a)" and "gomap_canon (db_store b)" and "range_rows {td} rng a = range_rows {td} rng b"
  shows "filter (\<lambda>kv. tokenInRange rng (fst kv)) (Iter a (PrefixPrimaryAll (td_Name td))) =
    filter (\<lambda>kv. tokenInRange rng (fst kv)) (Iter b (PrefixPrimaryAll (td_Name td)))"
proof (rule gomap_canon_eqI)
  show "gomap_canon (filter (\<lambda>kv. tokenInRange rng (fst kv)) (Iter a (PrefixPrimaryAll (td_Name td))))"
    "gomap_canon (filter (\<lambda>kv. tokenInRange rng (fst kv)) (Iter b (PrefixPrimaryAll (td_Name td))))"
    using assms(1,2) by (simp_all add: Iter_def)
qed (simp only: scan_range_rows assms(3))

lemma digestTables_eq:
  assumes "\<And>td. td \<in> set tables \<Longrightarrow> range_rows {td} rng a = range_rows {td} rng b"
    and "gomap_canon (db_store a)" and "gomap_canon (db_store b)"
  shows "digestTables H (\<lambda>_. False) tables a rng out = digestTables H (\<lambda>_. False) tables b rng out"
  using assms(1)
proof (induction tables arbitrary: out)
  case (Cons td tables)
  have "digestRows H (\<lambda>_. False) rng (Iter a (PrefixPrimaryAll (td_Name td))) out =
      digestRows H (\<lambda>_. False) rng (Iter b (PrefixPrimaryAll (td_Name td))) out"
    using Cons.prems [of td] range_rows_scan [OF assms(2,3)] by (simp add: digestRows_filter)
  with Cons.IH Cons.prems show ?case by (auto intro!: bindr_cong)
qed simp

lemma digest_returns: "\<exists>d. digestTables H (\<lambda>_. False) tables db rng out = Inr d"
  by (induction tables arbitrary: out) (simp_all add: digestRows_filter)


text \<open>Keys outside the table space: the invariant does not see them.\<close>

lemma catalog_not_table: "in_range PrefixCatalog k \<Longrightarrow> \<not> table_key_of t k"
proof
  assume "in_range PrefixCatalog k" and "table_key_of t k"
  then have "prefix (bytes_of_string pCatalog) k" and "prefix (bytes_of_string pTables) k"
    using table_key_slash [of t k] by (auto simp: PrefixCatalog_def in_range_prefixRange in_seg_def TableBase_def prefix_def)
  then show False by (auto simp: prefix_def pCatalog_def pTables_def Namespace_def bytes_of_string_def)
qed

lemma table_frame:
  assumes "shard_inv hf T K db" and "gomap_canon s"
    and "\<And>k t. table_key_of t k \<Longrightarrow> map_of s k = map_of (db_store db) k"
  shows "shard_inv hf T K (db\<lparr>db_store := s\<rparr>)" and "rows T (db\<lparr>db_store := s\<rparr>) = rows T db"
proof -
  show rows: "rows T (db\<lparr>db_store := s\<rparr>) = rows T db"
    using assms(3) by (auto simp: rows_def fun_eq_iff table_key_of_def)
  have "rows_ok (fst hf) td K (map_of s) = rows_ok (fst hf) td K (map_of (db_store db))"
    "index_exact hf td (map_of s) = index_exact hf td (map_of (db_store db))" for td
    using invariant_frame [of td "map_of s" "map_of (db_store db)"] assms(3) by blast+
  then show "shard_inv hf T K (db\<lparr>db_store := s\<rparr>)"
    using assms(1,2) rows by (simp add: shard_inv_def engine_inv_def db_wf_def)
qed

lemma copyCatalogKeys_frame:
  assumes "copyCatalogKeys cancelled src dst = (dst', Inr n)" and "gomap_canon (db_store src)" and "shard_inv hf T K dst"
  shows "shard_inv hf T K dst'" and "rows T dst' = rows T dst"
proof -
  from copyKeys_map [OF assms(1) [unfolded copyCatalogKeys_def] assms(2) shard_inv_canon [OF assms(3)]] obtain s
    where s: "dst' = dst\<lparr>db_store := s\<rparr>" "gomap_canon s"
      "map_of s = map_of (db_store dst) ++ (map_of (db_store src) |` {k. in_range PrefixCatalog k \<and> True})" by blast
  have "map_of s k = map_of (db_store dst) k" if "table_key_of t k" for k t
    using catalog_not_table that by (auto simp: s(3) map_add_def restrict_map_def)
  from table_frame [OF assms(3) s(2) this] show "shard_inv hf T K dst'" and "rows T dst' = rows T dst" by (auto simp: s(1))
qed

text \<open>
  Copying keys in batches of 1024 has the effect of copying them one by one: on success the
  target holds the source's value under every key of the range that passes the filter and its own
  value elsewhere, and the count is the number of these keys.
\<close>

lemma batched_copy_exact:
  assumes "copyKeys cancelled src r incl dst = (dst', Inr n)"
    and "gomap_canon (db_store src)" and "gomap_canon (db_store dst)"
  shows "map_of (db_store dst') = map_of (db_store dst) ++ (map_of (db_store src) |` {k. in_range r k \<and> incl k}) \<and>
    n = int (card {k \<in> dom (map_of (db_store src)). in_range r k \<and> incl k})"
proof -
  let ?kvs = "filter (\<lambda>kv. incl (fst kv)) (Iter src r)"
  have "distinct (map fst ?kvs)" using Iter_distinct [OF assms(2)] by (rule distinct_map_filter)
  then have "card (fst ` set ?kvs) = length ?kvs" using distinct_card by fastforce
  then have "n = int (length ?kvs) \<Longrightarrow> n = int (card {k \<in> dom (map_of (db_store src)). in_range r k \<and> incl k})"
    unfolding filter_Iter_keys by simp
  moreover from copyKeys_map [OF assms] obtain s where "dst' = dst\<lparr>db_store := s\<rparr>"
    "map_of s = map_of (db_store dst) ++ (map_of (db_store src) |` {k. in_range r k \<and> incl k})" "n = int (length ?kvs)" by blast
  ultimately show ?thesis by simp
qed


text \<open>
  A successful deletion of a token range removes exactly the rows of the range and keeps every
  index exact.
\<close>

lemma range_delete_exact:
  assumes "deletePrimaryTokenRangeWithIndexes w tables db rng = (db', Inr n)" and "shard_inv hf (set tables) K db"
    and "world_ok hf w" and "catalog_ok (set tables)" and "collision_free (fst hf) K"
  shows "rows (set tables) db' = rows (set tables) db |` (- Collect (tokenInRange rng)) \<and> shard_inv hf (set tables) K db'"
proof -
  have "m |` (- dom (m |` A)) = m |` (- A)" for m :: "bytes \<Rightarrow> bytes option" and A
    by (auto simp: restrict_map_def fun_eq_iff dom_def)
  with deleteTables_spec [OF assms(1) [unfolded deletePrimaryTokenRangeWithIndexes_def] assms(2) subset_refl assms(3-5)]
  show ?thesis by (simp add: range_rows_def)
qed



section \<open>Tables with counters\<close>

lemma counter_put_fails:
  assumes "def \<in> set (td_AttributeDefinitions td)" and "IsCounterAttributeType (ad_Type def)" and "map_of item (ad_Name def) \<noteq> None"
  shows "putItemWithNoLane e td item zeroPut db \<noteq> (db', Inr u)"
proof -
  have "validateCounters defs None item \<noteq> Inr ()" if "def \<in> set defs" for defs
    using that assms(2,3) by (induction defs) auto
  then have "validatePutItemCounters td None item False \<noteq> Inr ()" using assms(1) by (simp add: validatePutItemCounters_def)
  then have "planPut e db td item zeroPut \<noteq> Inr plan" for plan by (auto simp: planPut_def zeroPut_def elim!: bindr_InrE)
  then show ?thesis by (auto simp: putItemWithNoLane_def split: sum.splits)
qed

lemma copyRows_puts:
  assumes "copyRows w td rng kvs dst c = (dst', Inr c')" and "(k, raw) \<in> set kvs" and "tokenInRange rng k" and "DecodeItem raw = Inr item"
  shows "\<exists>db db'. putItemWithNoLane (wo_env w item) td item zeroPut db = (db', Inr ())"
  using assms(1,2)
proof (induction kvs arbitrary: dst c)
  case (Cons kv kvs)
  then show ?case using assms(3,4) by (cases kv) (auto split: if_splits sum.splits prod.splits, blast)
qed simp

text \<open>
  C33. A range that holds a row with a counter attribute cannot be copied: the copy puts rows without the
  permission to write counters, so it never succeeds.
\<close>

theorem counter_rows_cannot_move:
  assumes "td \<in> set tables" and "def \<in> set (td_AttributeDefinitions td)" and "IsCounterAttributeType (ad_Type def)"
    and "(k, raw) \<in> set (Iter src (PrefixPrimaryAll (td_Name td)))" and "tokenInRange rng k"
    and "DecodeItem raw = Inr item" and "map_of item (ad_Name def) \<noteq> None"
  shows "copyPrimaryTokenRangeWithIndexes w tables src dst rng \<noteq> (dst', Inr n)"
proof -
  have "copyRows w td rng (Iter src (PrefixPrimaryAll (td_Name td))) d c \<noteq> (d', Inr c')" for d c d' c'
    using copyRows_puts [OF _ assms(4-6)] counter_put_fails [OF assms(2,3,7)] by blast
  then have "copyTables w tables src rng d c \<noteq> (dst', Inr n)" for d c
    using assms(1) by (induction tables arbitrary: d c) (auto split: sum.splits prod.splits)
  then show ?thesis by (simp add: copyPrimaryTokenRangeWithIndexes_def)
qed


section \<open>Examples\<close>

definition demo_world :: world where
  "demo_world = \<lparr>wo_cancelledAt = (\<lambda>_. False), wo_cancelledBefore = (\<lambda>_. False), wo_env = (\<lambda>_. demo_env)\<rparr>"

definition whole_ring :: TokenRange where
  "whole_ring = \<lparr>rng_Start = 0, rng_End = 0\<rparr>"

definition empty_shard :: DB where
  "empty_shard = (demo_db [])\<lparr>db_changeLogMode := ChangeLogModeOff\<rparr>"

definition one_row_shard :: DB where
  "one_row_shard = fst (putItemWithNoLane demo_env (demo_td '''') (demo_item ''rome'' ''x'') demo_put empty_shard)"

definition copied_shard :: DB where
  "copied_shard = fst (copyPrimaryTokenRangeWithIndexes demo_world [demo_td ''''] one_row_shard empty_shard whole_ring)"

lemma demo_moves:
  "snd (putItemWithNoLane demo_env (demo_td '''') (demo_item ''rome'' ''x'') demo_put empty_shard) = Inr ()"
  "snd (copyPrimaryTokenRangeWithIndexes demo_world [demo_td ''''] one_row_shard empty_shard whole_ring) = Inr 1"
  "snd (deletePrimaryTokenRangeWithIndexes demo_world [demo_td ''''] one_row_shard whole_ring) = Inr 1"
  "primaryKeyBytes (td_KeySchema (demo_td '''')) (demo_item ''rome'' ''x'') = Inr ([0x37], [])"
  by code_simp+

lemma demo_world_ok: "world_ok (HF demo_env) demo_world"
  by (simp add: world_ok_def demo_world_def)

lemma demo_free: "collision_free (fst (HF demo_env)) {([0x37], [])}"
  by (simp add: collision_free_def)

lemma empty_shard_inv: "shard_inv hf T K empty_shard"
  using empty_inv [of empty_shard hf T K] by (simp add: shard_inv_def empty_shard_def rows_def demo_db_def db_wf_def)

lemma one_row_shard_inv:
  "shard_inv (HF demo_env) (set [demo_td '''']) {([0x37], [])} one_row_shard"
  "rows {demo_td ''''} one_row_shard = [KeyPrimary length_hasher ''t'' [0x37] [] \<mapsto> itemBytes (demo_item ''rome'' ''x'')]"
proof -
  have put: "putItemWithNoLane demo_env (demo_td '''') (demo_item ''rome'' ''x'') demo_put empty_shard = (one_row_shard, Inr ())"
    using demo_moves(1) by (simp add: one_row_shard_def prod_eq_iff)
  note p = put_rows [OF put refl _ _ demo_free empty_shard_inv demo_item_wf demo_moves(4), where T = "set [demo_td '''']"]
  show "shard_inv (HF demo_env) (set [demo_td '''']) {([0x37], [])} one_row_shard"
    by (rule p(2)) (use demo_catalog_ok in simp_all)
  have "rows T empty_shard = Map.empty" for T by (auto simp: rows_def empty_shard_def demo_db_def)
  then show "rows {demo_td ''''} one_row_shard = [KeyPrimary length_hasher ''t'' [0x37] [] \<mapsto> itemBytes (demo_item ''rome'' ''x'')]"
    using p(1) demo_catalog_ok by (simp add: demo_env_def demo_td_def bareDescriptor_def)
qed

theorem batched_copy_exact_witness:
  "map_of (db_store (fst (copyKeys (\<lambda>_. False) (demo_db [([1], [2]), ([3], [4])]) ([1], None) (\<lambda>k. k \<noteq> [1]) (demo_db [([1], [9])])))) =
     [[1] \<mapsto> [9], [3] \<mapsto> [4]]"
proof -
  let ?run = "copyKeys (\<lambda>_. False) (demo_db [([1], [2]), ([3], [4])]) ([1], None) (\<lambda>k. k \<noteq> [1]) (demo_db [([1], [9])])"
  have "snd ?run = Inr 1" by code_simp
  then have run: "?run = (fst ?run, Inr 1)" by (simp add: prod_eq_iff)
  from conjunct1 [OF batched_copy_exact [OF run]]
  have "map_of (db_store (fst ?run)) = map_of [([1], [9])] ++ (map_of [([1], [2]), ([3], [4])] |` {k. in_range ([1], None) k \<and> k \<noteq> [1]})"
    by (simp add: demo_db_def gomap_canon_def)
  also have "\<dots> = [[1] \<mapsto> [9], [3] \<mapsto> [4]]" by (auto simp: fun_eq_iff map_add_def restrict_map_def)
  finally show ?thesis .
qed


theorem range_delete_exact_witness:
  "rows (set [demo_td '''']) (fst (deletePrimaryTokenRangeWithIndexes demo_world [demo_td ''''] one_row_shard whole_ring)) = Map.empty"
proof -
  let ?run = "deletePrimaryTokenRangeWithIndexes demo_world [demo_td ''''] one_row_shard whole_ring"
  have run: "?run = (fst ?run, Inr 1)" using demo_moves(3) by (simp add: prod_eq_iff)
  have tok: "tokenInRange whole_ring (KeyPrimary length_hasher ''t'' [0x37] [])" by code_simp
  from range_delete_exact [OF run one_row_shard_inv(1) demo_world_ok _ demo_free] demo_catalog_ok
  show ?thesis by (auto simp: one_row_shard_inv(2) restrict_map_def tok)
qed


definition counter_td :: TableDescriptor where
  "counter_td = (demo_td '''')\<lparr>td_AttributeDefinitions := [\<lparr>ad_Name = ''note'', ad_Type = AttributeTypeCounter, ad_VectorDimensions = 0\<rparr>]\<rparr>"

theorem counter_rows_cannot_move_witness:
  "\<not> (\<exists>dst' n. copyPrimaryTokenRangeWithIndexes demo_world [counter_td] one_row_shard empty_shard whole_ring = (dst', Inr n))"
proof -
  have raw: "(KeyPrimary length_hasher ''t'' [0x37] [], itemBytes (demo_item ''rome'' ''x'')) \<in> set (Iter one_row_shard (PrefixPrimaryAll ''t''))"
    by code_simp
  have tok: "tokenInRange whole_ring (KeyPrimary length_hasher ''t'' [0x37] [])" by code_simp
  have dec: "DecodeItem (itemBytes (demo_item ''rome'' ''x'')) = Inr (demo_item ''rome'' ''x'')"
    using DecodeItem_itemBytes [OF demo_item_wf, of "''rome''" "''x''" "[]"] by simp
  have counter: "IsCounterAttributeType AttributeTypeCounter" "map_of (demo_item ''rome'' ''x'') ''note'' \<noteq> None" by code_simp+
  have name: "td_Name counter_td = ''t''" by (simp add: counter_td_def demo_td_def bareDescriptor_def)
  let ?def = "\<lparr>ad_Name = ''note'', ad_Type = AttributeTypeCounter, ad_VectorDimensions = 0\<rparr>"
  have "copyPrimaryTokenRangeWithIndexes demo_world [counter_td] one_row_shard empty_shard whole_ring \<noteq> (dst', Inr n)" for dst' n
    by (rule counter_rows_cannot_move [of counter_td _ ?def, OF _ _ _ raw [folded name] tok [folded name] dec])
      (use counter in \<open>simp_all add: counter_td_def\<close>)
  then show ?thesis by blast
qed

end
