(* ===== verification/Placement.thy ===== *)
theory Placement
  imports TokenRing
begin

text \<open>
  The placement catalog of \<^verbatim>\<open>internal/placement/placement.go\<close> and the membership helpers of
  \<^verbatim>\<open>helpers.go\<close>: its records, normalisation, the default placement, and validation. The theorems
  say what validation guarantees to the router: the routable ranges partition the token ring.

  \<^verbatim>\<open>time.Now().Unix()\<close> is the parameter \<open>now\<close>. \<^verbatim>\<open>sort.Slice\<close> by shard ID is \<^const>\<open>sort_key\<close>; with
  two equal IDs Go leaves the order open, and validation rejects the catalog in either order.
  Go strings that serve as states (\<^verbatim>\<open>ShardState\<close>, \<^verbatim>\<open>NodeState\<close>) stay strings, since a catalog
  decoded from JSON can hold any. \<^verbatim>\<open>Clone\<close> is the identity on values.
\<close>

section \<open>States and records\<close>

type_synonym ShardState = string
type_synonym NodeState = string

definition PlacementVersion :: uint64 where "PlacementVersion = 1"
definition PlacementStrategyTokenRange :: string where "PlacementStrategyTokenRange = ''token-range-v1''"
definition PlacementStrategyLegacyModulo :: string where "PlacementStrategyLegacyModulo = ''legacy-modulo-v1''"

definition ShardStateCreating :: ShardState where "ShardStateCreating = ''creating''"
definition ShardStateActive :: ShardState where "ShardStateActive = ''active''"
definition ShardStateSplitting :: ShardState where "ShardStateSplitting = ''splitting''"
definition ShardStateMoving :: ShardState where "ShardStateMoving = ''moving''"
definition ShardStateDraining :: ShardState where "ShardStateDraining = ''draining''"
definition ShardStateReadOnly :: ShardState where "ShardStateReadOnly = ''read_only''"
definition ShardStateDecommissioned :: ShardState where "ShardStateDecommissioned = ''decommissioned''"

definition NodeStateActive :: NodeState where "NodeStateActive = ''active''"
definition NodeStateDraining :: NodeState where "NodeStateDraining = ''draining''"
definition NodeStateDecommissioned :: NodeState where "NodeStateDecommissioned = ''decommissioned''"

lemmas state_defs = ShardStateCreating_def ShardStateActive_def ShardStateSplitting_def
  ShardStateMoving_def ShardStateDraining_def ShardStateReadOnly_def ShardStateDecommissioned_def
  NodeStateActive_def NodeStateDraining_def NodeStateDecommissioned_def
  PlacementStrategyTokenRange_def PlacementStrategyLegacyModulo_def

definition Routable :: "ShardState \<Rightarrow> bool" where
  "Routable s \<longleftrightarrow> s \<in> {'''', ShardStateActive, ShardStateSplitting, ShardStateMoving, ShardStateReadOnly}"

record NodeCapacity =
  cap_Weight :: int
  cap_CPU :: int
  cap_MemoryBytes :: uint64
  cap_DiskBytes :: uint64
  cap_Zone :: string
  cap_Tags :: "string list"

record NodeDescriptor =
  node_ID :: string
  node_RaftAddr :: string
  node_HTTPAddr :: string
  node_State :: NodeState
  node_Capacity :: NodeCapacity
  node_LastSeenUnix :: int

record ShardPlacement =
  sh_ID :: uint32
  sh_Ranges :: "TokenRange list"
  sh_State :: ShardState
  sh_Epoch :: uint64
  sh_Voters :: "string list"
  sh_NonVoters :: "string list"
  sh_LeaderHint :: string

record PlacementCatalog =
  cat_Version :: uint64
  cat_Epoch :: uint64
  cat_Strategy :: string
  cat_Shards :: "ShardPlacement list"
  cat_Nodes :: "NodeDescriptor gomap"
  cat_UpdatedAtUnix :: int

section \<open>Helpers on string lists\<close>

fun containsString :: "string list \<Rightarrow> string \<Rightarrow> bool" where
  "containsString [] v = False"
| "containsString (e # rest) v = (if e = v then True else containsString rest v)"

fun sortedUniqueFrom :: "string list \<Rightarrow> string list \<Rightarrow> string list" where
  "sortedUniqueFrom [] out = out"
| "sortedUniqueFrom (v # rest) out =
     sortedUniqueFrom rest (if v = '''' \<or> containsString out v then out else out @ [v])"

definition sortedUnique :: "string list \<Rightarrow> string list" where
  "sortedUnique xs = sort (sortedUniqueFrom xs [])"

definition removeAny :: "string list \<Rightarrow> string list \<Rightarrow> string list" where
  "removeAny xs remove = filter (\<lambda>v. \<not> containsString remove v) xs"

definition RemoveString :: "string list \<Rightarrow> string \<Rightarrow> string list" where
  "RemoveString xs v = filter (\<lambda>e. e \<noteq> v) xs"

fun replaceVoterFrom :: "string list \<Rightarrow> string \<Rightarrow> string \<Rightarrow> bool \<Rightarrow> string list \<Rightarrow> bool \<times> string list" where
  "replaceVoterFrom [] source target replaced out = (replaced, out)"
| "replaceVoterFrom (voter # voters) source target replaced out =
     (if voter = source
      then replaceVoterFrom voters source target True
             (if \<not> containsString out target then out @ [target] else out)
      else replaceVoterFrom voters source target replaced
             (if \<not> containsString out voter then out @ [voter] else out))"

definition replaceVoter :: "string list \<Rightarrow> string \<Rightarrow> string \<Rightarrow> string list" where
  "replaceVoter voters source target =
     (case replaceVoterFrom voters source target False [] of (replaced, out) \<Rightarrow>
        sort (if \<not> replaced \<and> \<not> containsString out target then out @ [target] else out))"

fun sameTokenRangesFrom :: "TokenRange list \<Rightarrow> TokenRange list \<Rightarrow> bool" where
  "sameTokenRangesFrom (x # a) (y # b) = (if x \<noteq> y then False else sameTokenRangesFrom a b)"
| "sameTokenRangesFrom _ _ = True"

definition sameTokenRanges :: "TokenRange list \<Rightarrow> TokenRange list \<Rightarrow> bool" where
  "sameTokenRanges a b = (if length a \<noteq> length b then False else sameTokenRangesFrom a b)"

definition leaderHintForShard :: "string list \<Rightarrow> uint32 \<Rightarrow> string" where
  "leaderHintForShard voters shardID =
     (let vs = sortedUnique voters in
      if vs = [] then '''' else vs ! (unat shardID mod length vs))"

definition normalizeLeaderHint :: "ShardPlacement \<Rightarrow> string" where
  "normalizeLeaderHint sh =
     (if sh_LeaderHint sh \<noteq> '''' \<and> containsString (sh_Voters sh) (sh_LeaderHint sh)
      then sh_LeaderHint sh else leaderHintForShard (sh_Voters sh) (sh_ID sh))"

section \<open>Normalisation\<close>

text \<open>The body of the loop over the shards; \<open>epoch\<close> is the catalog's, already defaulted.\<close>

definition normalizeShard :: "uint64 \<Rightarrow> ShardPlacement \<Rightarrow> ShardPlacement" where
  "normalizeShard epoch sh =
     (let sh1 = (if sh_State sh = '''' then sh\<lparr>sh_State := ShardStateActive\<rparr> else sh);
          sh2 = (if sh_Epoch sh1 = 0 then sh1\<lparr>sh_Epoch := epoch\<rparr> else sh1);
          sh3 = sh2\<lparr>sh_Voters := sort (sh_Voters sh2), sh_NonVoters := sort (sh_NonVoters sh2)\<rparr>
      in if sh_LeaderHint sh3 \<noteq> '''' \<and> \<not> containsString (sh_Voters sh3) (sh_LeaderHint sh3)
         then sh3\<lparr>sh_LeaderHint := ''''\<rparr> else sh3)"

definition normalizeNode :: "NodeDescriptor \<Rightarrow> NodeDescriptor" where
  "normalizeNode node =
     (let n1 = (if node_State node = '''' then node\<lparr>node_State := NodeStateActive\<rparr> else node);
          cap = node_Capacity n1;
          cap1 = (if cap_Weight cap = 0 then cap\<lparr>cap_Weight := 1\<rparr> else cap)
      in n1\<lparr>node_Capacity := cap1\<lparr>cap_Tags := sort (cap_Tags cap1)\<rparr>\<rparr>)"

definition Normalize :: "int \<Rightarrow> PlacementCatalog \<Rightarrow> PlacementCatalog" where
  "Normalize now c =
     (let epoch = (if cat_Epoch c = 0 then 1 else cat_Epoch c) in
      c\<lparr>cat_Version := (if cat_Version c = 0 then PlacementVersion else cat_Version c),
        cat_Epoch := epoch,
        cat_Strategy := (if cat_Strategy c = '''' then PlacementStrategyTokenRange else cat_Strategy c),
        cat_UpdatedAtUnix := (if cat_UpdatedAtUnix c = 0 then now else cat_UpdatedAtUnix c),
        cat_Shards := sort_key sh_ID (map (normalizeShard epoch) (cat_Shards c)),
        cat_Nodes := map (\<lambda>(id, node). (id, normalizeNode node)) (cat_Nodes c)\<rparr>)"

section \<open>Validation\<close>

datatype placement_error =
    UnsupportedVersion uint64
  | UnsupportedStrategy string
  | NoShards
  | NonContiguousShard uint32 nat
  | DuplicateShard uint32
  | InvalidShardState uint32 string
  | ShardWithoutRanges uint32
  | NoRoutableRanges
  | RangesStartAt int
  | RangeGapOrOverlap int int
  | RangesEndAt int

fun coverageChain :: "int \<Rightarrow> tokenSegment list \<Rightarrow> placement_error + int" where
  "coverageChain prevEnd [] = Inr prevEnd"
| "coverageChain prevEnd (seg # segs) =
     (if seg_start seg \<noteq> prevEnd then Inl (RangeGapOrOverlap prevEnd (seg_start seg))
      else coverageChain (seg_end seg) segs)"

text \<open>The segments of the routable shards, in the order the loops collect them.\<close>

definition routableRanges :: "ShardPlacement list \<Rightarrow> (uint32 \<times> TokenRange) list" where
  "routableRanges shards =
     concat (map (\<lambda>sh. if \<not> Routable (sh_State sh) then [] else map (\<lambda>r. (sh_ID sh, r)) (sh_Ranges sh)) shards)"

definition routableSegments :: "ShardPlacement list \<Rightarrow> tokenSegment list" where
  "routableSegments shards =
     concat (map (\<lambda>sh. if \<not> Routable (sh_State sh) then [] else concat (map tokenRangeSegments (sh_Ranges sh))) shards)"

definition validateTokenCoverage :: "ShardPlacement list \<Rightarrow> placement_error + unit" where
  "validateTokenCoverage shards =
     (case sort_key seg_start (routableSegments shards) of
        [] \<Rightarrow> Inl NoRoutableRanges
      | seg # segs \<Rightarrow>
          if seg_start seg \<noteq> 0 then Inl (RangesStartAt (seg_start seg))
          else bindr (coverageChain (seg_end seg) segs) (\<lambda>prevEnd.
            if prevEnd \<noteq> bigTokenSpace then Inl (RangesEndAt prevEnd) else Inr ()))"

fun validateShards :: "string \<Rightarrow> nat \<Rightarrow> uint32 list \<Rightarrow> ShardPlacement list \<Rightarrow> placement_error + unit" where
  "validateShards strategy i seen [] = Inr ()"
| "validateShards strategy i seen (sh # shards) =
     (if sh_ID sh \<noteq> of_nat i then Inl (NonContiguousShard (sh_ID sh) i)
      else if sh_ID sh \<in> set seen then Inl (DuplicateShard (sh_ID sh))
      else if sh_State sh = ShardStateDecommissioned then validateShards strategy (Suc i) (sh_ID sh # seen) shards
      else if \<not> Routable (sh_State sh) \<and> sh_State sh \<noteq> ShardStateDraining \<and> sh_State sh \<noteq> ShardStateCreating
           then Inl (InvalidShardState (sh_ID sh) (sh_State sh))
      else if strategy = PlacementStrategyTokenRange \<and> Routable (sh_State sh) \<and> sh_Ranges sh = []
           then Inl (ShardWithoutRanges (sh_ID sh))
      else validateShards strategy (Suc i) (sh_ID sh # seen) shards)"

definition validateNormalized :: "PlacementCatalog \<Rightarrow> placement_error + unit" where
  "validateNormalized cat =
     (if cat_Version cat \<noteq> PlacementVersion then Inl (UnsupportedVersion (cat_Version cat))
      else if cat_Strategy cat \<noteq> PlacementStrategyTokenRange \<and> cat_Strategy cat \<noteq> PlacementStrategyLegacyModulo
           then Inl (UnsupportedStrategy (cat_Strategy cat))
      else if cat_Shards cat = [] then Inl NoShards
      else bindr (validateShards (cat_Strategy cat) 0 [] (cat_Shards cat)) (\<lambda>_.
        if cat_Strategy cat = PlacementStrategyTokenRange then validateTokenCoverage (cat_Shards cat)
        else Inr ()))"

definition ValidatePlacement :: "int \<Rightarrow> PlacementCatalog \<Rightarrow> placement_error + unit" where
  "ValidatePlacement now cat = validateNormalized (Normalize now cat)"

section \<open>The default placement\<close>

definition splitTokenRanges :: "int \<Rightarrow> TokenRange list" where
  "splitTokenRanges n =
     (if n \<le> 1 then [mkRange 0 0]
      else map (\<lambda>i.
        let start = bigTokenSpace * int i div n;
            end' = bigTokenSpace * int (i + 1) div n
        in mkRange (word_of_int start) (if end' = bigTokenSpace then 0 else word_of_int end'))
        [0 ..< nat n])"

definition rotatingVoters :: "string list \<Rightarrow> nat \<Rightarrow> int \<Rightarrow> string list" where
  "rotatingVoters voters shardIndex replicationFactor =
     (let vs = sortedUnique voters in
      if replicationFactor \<le> 0 \<or> int (length vs) \<le> replicationFactor then vs
      else sort (map (\<lambda>i. vs ! ((shardIndex mod length vs + i) mod length vs))
                   [0 ..< nat replicationFactor]))"

text \<open>The keys of Go maps, collected in a set and sorted.\<close>

definition sortedMapKeys :: "string gomap \<Rightarrow> string list" where
  "sortedMapKeys m = sort (remdups (map fst m))"

definition sortedNodeIDs :: "string \<Rightarrow> string gomap list \<Rightarrow> string list" where
  "sortedNodeIDs selfID maps =
     sort (remdups ((if selfID \<noteq> '''' then [selfID] else []) @ concat (map (map fst) maps)))"

definition lookupString :: "string gomap \<Rightarrow> string \<Rightarrow> string" where
  "lookupString m k = (case map_of m k of None \<Rightarrow> '''' | Some v \<Rightarrow> v)"

definition zeroCapacity :: NodeCapacity where
  "zeroCapacity = \<lparr>cap_Weight = 0, cap_CPU = 0, cap_MemoryBytes = 0, cap_DiskBytes = 0, cap_Zone = '''', cap_Tags = []\<rparr>"

definition defaultNode ::
  "int \<Rightarrow> string \<Rightarrow> string gomap \<Rightarrow> string gomap \<Rightarrow> NodeCapacity \<Rightarrow> string \<Rightarrow> NodeDescriptor" where
  "defaultNode now selfID peers httpPeers capacity nid =
     \<lparr>node_ID = nid, node_RaftAddr = lookupString peers nid, node_HTTPAddr = lookupString httpPeers nid,
      node_State = NodeStateActive,
      node_Capacity = (if nid = selfID then capacity else zeroCapacity\<lparr>cap_Weight := 1\<rparr>),
      node_LastSeenUnix = now\<rparr>"

definition defaultShard ::
  "string \<Rightarrow> string list \<Rightarrow> int \<Rightarrow> TokenRange list \<Rightarrow> nat \<Rightarrow> ShardPlacement" where
  "defaultShard strategy voters dataRF ranges i =
     (let shardVoters =
        (if 0 < i \<and> 0 < dataRF \<and> dataRF < int (length voters) then rotatingVoters voters i dataRF else voters)
      in \<lparr>sh_ID = of_nat i,
          sh_Ranges = (if strategy = PlacementStrategyTokenRange then [ranges ! i] else []),
          sh_State = ShardStateActive, sh_Epoch = 1, sh_Voters = shardVoters, sh_NonVoters = [],
          sh_LeaderHint = leaderHintForShard shardVoters (of_nat i)\<rparr>)"

definition DefaultPlacementWithReplicationFactor ::
  "int \<Rightarrow> int \<Rightarrow> string \<Rightarrow> string gomap \<Rightarrow> string gomap \<Rightarrow> NodeCapacity \<Rightarrow> string \<Rightarrow> int \<Rightarrow> PlacementCatalog" where
  "DefaultPlacementWithReplicationFactor now shards0 selfID peers httpPeers capacity0 strategy0 replicationFactor =
     (let shards = (if shards0 \<le> 0 then 1 else shards0);
          strategy = (if strategy0 = '''' then PlacementStrategyTokenRange else strategy0);
          capacity = (if cap_Weight capacity0 = 0 then capacity0\<lparr>cap_Weight := 1\<rparr> else capacity0);
          nodes = map (\<lambda>id. (id, defaultNode now selfID peers httpPeers capacity id))
                    (sortedNodeIDs selfID [peers, httpPeers]);
          voters0 = sortedMapKeys peers;
          voters = (if voters0 = [] \<and> selfID \<noteq> '''' then [selfID] else voters0);
          dataRF = (if replicationFactor \<le> 0 \<or> int (length voters) < replicationFactor
                    then int (length voters) else replicationFactor);
          ranges = splitTokenRanges shards
      in Normalize now
           \<lparr>cat_Version = PlacementVersion, cat_Epoch = 1, cat_Strategy = strategy,
            cat_Shards = map (defaultShard strategy voters dataRF ranges) [0 ..< nat shards],
            cat_Nodes = nodes, cat_UpdatedAtUnix = now\<rparr>)"

definition DefaultPlacement ::
  "int \<Rightarrow> int \<Rightarrow> string \<Rightarrow> string gomap \<Rightarrow> string gomap \<Rightarrow> NodeCapacity \<Rightarrow> string \<Rightarrow> PlacementCatalog" where
  "DefaultPlacement now shards selfID peers httpPeers capacity strategy =
     DefaultPlacementWithReplicationFactor now shards selfID peers httpPeers capacity strategy 0"

definition BackfillLeaderHints :: "int \<Rightarrow> PlacementCatalog \<Rightarrow> PlacementCatalog" where
  "BackfillLeaderHints now cat0 =
     (let cat = Normalize now cat0 in
      cat\<lparr>cat_Shards := map (\<lambda>sh. if sh_LeaderHint sh = ''''
            then sh\<lparr>sh_LeaderHint := leaderHintForShard (sh_Voters sh) (sh_ID sh)\<rparr> else sh) (cat_Shards cat)\<rparr>)"

section \<open>Facts about the helpers\<close>

lemma containsString_iff [simp]: "containsString xs v \<longleftrightarrow> v \<in> set xs"
  by (induction xs) auto

lemma sortedUniqueFrom_props:
  "distinct out \<Longrightarrow> distinct (sortedUniqueFrom xs out) \<and> set (sortedUniqueFrom xs out) = set out \<union> (set xs - {''''})"
  by (induction xs out rule: sortedUniqueFrom.induct) auto

lemma sortedUnique_props [simp]:
  "sorted (sortedUnique xs)" "distinct (sortedUnique xs)" "set (sortedUnique xs) = set xs - {''''}"
  using sortedUniqueFrom_props [of "[]" xs] by (simp_all add: sortedUnique_def)

lemma sameTokenRanges_iff [simp]: "sameTokenRanges a b \<longleftrightarrow> a = b"
proof -
  have "length a = length b \<Longrightarrow> sameTokenRangesFrom a b \<longleftrightarrow> a = b"
    by (induction a b rule: list_induct2) simp_all
  then show ?thesis unfolding sameTokenRanges_def by (cases "length a = length b") (simp, metis)
qed

lemma leaderHint_voter: "leaderHintForShard voters i \<noteq> '''' \<Longrightarrow> leaderHintForShard voters i \<in> set voters"
proof -
  assume "leaderHintForShard voters i \<noteq> ''''"
  then have "sortedUnique voters \<noteq> []" and
    "leaderHintForShard voters i = sortedUnique voters ! (unat i mod length (sortedUnique voters))"
    by (simp_all add: leaderHintForShard_def Let_def split: if_splits)
  then have "leaderHintForShard voters i \<in> set (sortedUnique voters)"
    by (metis length_greater_0_conv mod_less_divisor nth_mem)
  then show ?thesis by simp
qed

lemma replaceVoterFrom_props:
  "distinct out \<Longrightarrow> replaceVoterFrom vs s t b out = (b', out') \<Longrightarrow>
     distinct out' \<and> b' = (b \<or> s \<in> set vs) \<and>
     set out' = set out \<union> (set vs - {s}) \<union> (if s \<in> set vs then {t} else {})"
proof (induction vs s t b out arbitrary: b' out' rule: replaceVoterFrom.induct)
  case (2 v vs s t b out)
  show ?case
  proof (cases "v = s")
    case True
    then show ?thesis
      using 2(1) [OF True, of b' out'] 2(3,4) by (cases "t \<in> set out"; cases "s \<in> set vs") auto
  next
    case False
    then show ?thesis
      using 2(2) [OF False, of b' out'] 2(3,4) by (cases "v \<in> set out"; cases "s \<in> set vs") auto
  qed
qed auto

text \<open>
  Replacing a voter yields a sorted, duplicate-free set: the source is gone, the target is
  in, everyone else stays.
\<close>

lemma replace_voter_correct:
  assumes "source \<noteq> target"
  shows "sorted (replaceVoter voters source target) \<and> distinct (replaceVoter voters source target) \<and>
    set (replaceVoter voters source target) = (set voters - {source}) \<union> {target}"
proof -
  obtain b out where r: "replaceVoterFrom voters source target False [] = (b, out)"
    by (cases "replaceVoterFrom voters source target False []")
  from replaceVoterFrom_props [OF _ r] assms show ?thesis
    by (auto simp: replaceVoter_def r)
qed

theorem replace_voter_correct_witness:
  "set (replaceVoter [''a'', ''b''] ''a'' ''c'') = {''b'', ''c''}"
  using replace_voter_correct [of "''a''" "''c''" "[''a'', ''b'']"] by auto

section \<open>Normalisation is idempotent\<close>

lemma normalizeShard_sel [simp]:
  "sh_ID (normalizeShard e sh) = sh_ID sh" "sh_Ranges (normalizeShard e sh) = sh_Ranges sh"
  "sh_Voters (normalizeShard e sh) = sort (sh_Voters sh)"
  "sh_NonVoters (normalizeShard e sh) = sort (sh_NonVoters sh)"
  by (simp_all add: normalizeShard_def Let_def)

lemma normalizeShard_State:
  "sh_State (normalizeShard e sh) = (if sh_State sh = '''' then ShardStateActive else sh_State sh)"
  by (simp add: normalizeShard_def Let_def)

lemma normalizeShard_Epoch: "sh_Epoch (normalizeShard e sh) = (if sh_Epoch sh = 0 then e else sh_Epoch sh)"
  by (simp add: normalizeShard_def Let_def)

lemma normalizeShard_LeaderHint:
  "sh_LeaderHint (normalizeShard e sh) =
     (if sh_LeaderHint sh \<in> set (sh_Voters sh) then sh_LeaderHint sh else '''')"
  by (simp add: normalizeShard_def Let_def)

lemma normalizeShard_Routable [simp]: "Routable (sh_State (normalizeShard e sh)) = Routable (sh_State sh)"
  by (simp add: normalizeShard_State Routable_def)

lemma normalizeShard_idem: "normalizeShard e (normalizeShard e sh) = normalizeShard e sh"
  by (rule ShardPlacement.equality)
    (simp_all add: normalizeShard_State normalizeShard_Epoch normalizeShard_LeaderHint ShardStateActive_def)

lemma normalizeNode_idem: "normalizeNode (normalizeNode n) = normalizeNode n"
proof -
  have sel: "node_ID (normalizeNode m) = node_ID m" "node_RaftAddr (normalizeNode m) = node_RaftAddr m"
    "node_HTTPAddr (normalizeNode m) = node_HTTPAddr m" "node_LastSeenUnix (normalizeNode m) = node_LastSeenUnix m"
    "node_State (normalizeNode m) = (if node_State m = '''' then NodeStateActive else node_State m)"
    "node_Capacity (normalizeNode m) =
       (node_Capacity m)\<lparr>cap_Weight := if cap_Weight (node_Capacity m) = 0 then 1 else cap_Weight (node_Capacity m),
         cap_Tags := sort (cap_Tags (node_Capacity m))\<rparr>" for m
    by (simp_all add: normalizeNode_def Let_def)
  show ?thesis
    by (rule NodeDescriptor.equality) (simp_all add: sel NodeStateActive_def)
qed

lemma Normalize_idem [simp]: "Normalize now (Normalize now cat) = Normalize now cat"
proof -
  have shards: "sort_key sh_ID (map (normalizeShard e) (sort_key sh_ID (map (normalizeShard e) shs)))
      = sort_key sh_ID (map (normalizeShard e) shs)" for e shs
  proof -
    have "map (normalizeShard e) (sort_key sh_ID (map (normalizeShard e) shs))
        = sort_key sh_ID (map (normalizeShard e) shs)"
      by (rule map_idI) (auto simp: normalizeShard_idem)
    then show ?thesis by simp
  qed
  have nodes: "map ((\<lambda>(id, node). (id, normalizeNode node)) \<circ> (\<lambda>(id, node). (id, normalizeNode node))) ns
      = map (\<lambda>(id, node). (id, normalizeNode node)) ns" for ns :: "NodeDescriptor gomap"
    by (simp add: fun_eq_iff normalizeNode_idem split_beta)
  show ?thesis
    unfolding Normalize_def Let_def
    by (simp add: shards nodes PlacementVersion_def PlacementStrategyTokenRange_def)
qed

text \<open>
  Normalising twice is normalising once, so every layer that normalises a catalog it was
  handed sees the catalog the layer before it saw.
\<close>

lemma normalize_idempotent: "Normalize now (Normalize now cat) = Normalize now cat"
  by (rule Normalize_idem)

section \<open>Coverage\<close>

definition seg_count :: "int \<Rightarrow> tokenSegment list \<Rightarrow> nat" where
  "seg_count x segs = length (filter (\<lambda>s. seg_start s \<le> x \<and> x < seg_end s) segs)"

text \<open>How many of the listed ranges hold a token.\<close>

definition owner_count :: "uint64 \<Rightarrow> (uint32 \<times> TokenRange) list \<Rightarrow> nat" where
  "owner_count t rs = length (filter (\<lambda>(_, r). Contains r t) rs)"

lemma seg_count_simps [simp]:
  "seg_count x [] = 0"
  "seg_count x (s # ss) = (if seg_start s \<le> x \<and> x < seg_end s then 1 else 0) + seg_count x ss"
  "seg_count x (ss @ ts) = seg_count x ss + seg_count x ts"
  by (simp_all add: seg_count_def)

lemma seg_count_sort [simp]: "seg_count x (sort_key f segs) = seg_count x segs"
proof -
  have "mset (filter P (sort_key f segs)) = mset (filter P segs)" for P
    by simp
  then show ?thesis unfolding seg_count_def by (metis size_mset)
qed

lemma seg_count_range: "seg_count (uint t) (tokenRangeSegments r) = (if Contains r t then 1 else 0)"
  using uint_lt_64 [of t]
  by (auto simp: tokenRangeSegments_def Contains_def Let_def bigTokenSpace_def word_less_def word_le_def)

lemma routableSegments_ranges:
  "routableSegments shards = concat (map (\<lambda>e. tokenRangeSegments (snd e)) (routableRanges shards))"
  by (induction shards) (auto simp: routableSegments_def routableRanges_def o_def)

lemma seg_count_routable: "seg_count (uint t) (routableSegments shards) = owner_count t (routableRanges shards)"
proof -
  have "seg_count (uint t) (concat (map (\<lambda>e. tokenRangeSegments (snd e)) es)) = owner_count t es" for es
    by (induction es) (auto simp: owner_count_def seg_count_range)
  then show ?thesis by (simp add: routableSegments_ranges)
qed

lemma routableSegments_wf: "list_all seg_wf (routableSegments shards)"
  unfolding routableSegments_ranges using segments_wf by (induction "routableRanges shards") (auto simp: list_all_iff)

lemma coverageChain_count:
  "list_all seg_wf segs \<Longrightarrow> coverageChain p segs = Inr q \<Longrightarrow>
     p \<le> q \<and> (\<forall>x. seg_count x segs = (if p \<le> x \<and> x < q then 1 else 0))"
proof (induction p segs rule: coverageChain.induct)
  case (2 p s segs)
  then have p: "seg_start s = p" "p < seg_end s" by (auto simp: seg_wf_def split: if_splits)
  with 2 have "seg_end s \<le> q" "\<And>x. seg_count x segs = (if seg_end s \<le> x \<and> x < q then 1 else 0)" by simp_all
  with p show ?case by auto
qed auto

lemma coverageChain_complete:
  "list_all seg_wf segs \<Longrightarrow> sorted (map seg_start segs) \<Longrightarrow> p \<le> q \<Longrightarrow>
   (\<And>x. seg_count x segs = (if p \<le> x \<and> x < q then 1 else 0)) \<Longrightarrow> coverageChain p segs = Inr q"
proof (induction segs arbitrary: p)
  case Nil
  from Nil(4) [of p] Nil(3) show ?case by (simp split: if_splits)
next
  case (Cons s segs)
  have s: "seg_start s < seg_end s" using Cons.prems(1) by (simp add: seg_wf_def)
  have "p \<le> seg_start s" "seg_start s < q"
    using Cons.prems(4) [of "seg_start s"] s by (auto split: if_splits)
  have "seg_end s \<le> q"
    using Cons.prems(4) [of "seg_end s - 1"] s by (auto split: if_splits)
  have start: "seg_start s = p"
  proof (rule ccontr)
    assume "seg_start s \<noteq> p"
    with \<open>p \<le> seg_start s\<close> have lt: "p < seg_start s" by simp
    have "seg_count p (s # segs) = 0"
      unfolding seg_count_def using lt Cons.prems(2) by (auto simp: filter_empty_conv)
    with Cons.prems(4) [of p] lt \<open>seg_start s < q\<close> show False by simp
  qed
  have "seg_count x segs = (if seg_end s \<le> x \<and> x < q then 1 else 0)" for x
    using Cons.prems(4) [of x] start s \<open>seg_end s \<le> q\<close> by (auto split: if_splits)
  with Cons.IH [of "seg_end s"] Cons.prems(1,2) \<open>seg_end s \<le> q\<close> start show ?case by simp
qed

lemma seg_count_bounds:
  assumes "list_all seg_wf segs" and "\<And>t :: uint64. seg_count (uint t) segs = 1"
  shows "seg_count x segs = (if 0 \<le> x \<and> x < 2 ^ 64 then 1 else 0)"
proof (cases "0 \<le> x \<and> x < 2 ^ 64")
  case True
  then have "x = uint (word_of_int x :: uint64)" by (simp add: uint_word_of_int)
  with assms(2) [of "word_of_int x"] True show ?thesis by simp
next
  case False
  then have "filter (\<lambda>s. seg_start s \<le> x \<and> x < seg_end s) segs = []"
    using assms(1) by (auto simp: filter_empty_conv list_all_iff seg_wf_def)
  then show ?thesis using False by (simp add: seg_count_def)
qed

lemma validateTokenCoverage_chain:
  "validateTokenCoverage shards = Inr () \<longleftrightarrow>
     routableSegments shards \<noteq> [] \<and>
     coverageChain 0 (sort_key seg_start (routableSegments shards)) = Inr (2 ^ 64)"
proof (cases "sort_key seg_start (routableSegments shards)")
  case Nil
  then have "routableSegments shards = []" by (metis length_0_conv length_sort)
  with Nil show ?thesis by (simp add: validateTokenCoverage_def)
next
  case (Cons s segs)
  then have "routableSegments shards \<noteq> []" by auto
  with Cons show ?thesis
    by (auto simp: validateTokenCoverage_def bindr_Inr_iff bigTokenSpace_def)
qed

lemma coverage_exact:
  "validateTokenCoverage shards = Inr () \<longleftrightarrow> (\<forall>t. owner_count t (routableRanges shards) = 1)"
proof
  assume "validateTokenCoverage shards = Inr ()"
  then have "coverageChain 0 (sort_key seg_start (routableSegments shards)) = Inr (2 ^ 64)"
    by (simp add: validateTokenCoverage_chain)
  from coverageChain_count [OF _ this]
  have "\<forall>x. seg_count x (routableSegments shards) = (if 0 \<le> x \<and> x < 2 ^ 64 then 1 else 0)"
    using routableSegments_wf [of shards] by (simp add: list_all_iff)
  then have "seg_count (uint t) (routableSegments shards) = 1" for t :: uint64
    using uint_lt_64 [of t] by simp
  then show "\<forall>t. owner_count t (routableRanges shards) = 1" by (simp add: seg_count_routable)
next
  assume "\<forall>t. owner_count t (routableRanges shards) = 1"
  then have one: "seg_count (uint t) (routableSegments shards) = 1" for t :: uint64
    by (simp add: seg_count_routable)
  then have ne: "routableSegments shards \<noteq> []" by (metis seg_count_simps(1) zero_neq_one)
  have "seg_count x (routableSegments shards) = (if 0 \<le> x \<and> x < 2 ^ 64 then 1 else 0)" for x
    using seg_count_bounds [OF routableSegments_wf one] .
  then have "coverageChain 0 (sort_key seg_start (routableSegments shards)) = Inr (2 ^ 64)"
    using routableSegments_wf [of shards]
    by (intro coverageChain_complete) (simp_all add: list_all_iff)
  with ne show "validateTokenCoverage shards = Inr ()" by (simp add: validateTokenCoverage_chain)
qed

text \<open>
  C34. The coverage check is exact: it accepts a list of shards if and only if every token of
  the ring lies in exactly one range of exactly one routable shard.
\<close>

theorem coverage_check_exact:
  "validateTokenCoverage shards = Inr () \<longleftrightarrow> (\<forall>t. owner_count t (routableRanges shards) = 1)"
  by (rule coverage_exact)

section \<open>The default placement is valid\<close>

lemma segment_range_segments:
  assumes "0 \<le> a" "a < b" "b \<le> 2 ^ 64"
  shows "tokenRangeSegments (mkRange (word_of_int a) (if b = bigTokenSpace then 0 else word_of_int b))
    = [mkSegment a b]"
proof -
  have ua: "uint (word_of_int a :: uint64) = a" using assms by (simp add: uint_word_of_int)
  have ub: "uint (word_of_int b :: uint64) = b" if "b \<noteq> 2 ^ 64"
    using assms that by (simp add: uint_word_of_int)
  show ?thesis
  proof (cases "b = 2 ^ 64")
    case True
    then show ?thesis
      using assms ua
      by (auto simp: tokenRangeSegments_def Let_def bigTokenSpace_def word_less_def word_uint_eq_iff)
  next
    case False
    then show ?thesis
      using assms ua ub [OF False]
      by (auto simp: tokenRangeSegments_def Let_def bigTokenSpace_def word_less_def word_uint_eq_iff)
  qed
qed

definition boundary :: "int \<Rightarrow> nat \<Rightarrow> int" where
  "boundary n i = bigTokenSpace * int i div n"

lemma boundary_props:
  assumes "1 \<le> n" "n \<le> 2 ^ 64"
  shows "boundary n 0 = 0" "boundary n (nat n) = 2 ^ 64" "boundary n i < boundary n (Suc i)"
    "i \<le> j \<Longrightarrow> boundary n i \<le> boundary n j"
proof -
  show "boundary n 0 = 0" by (simp add: boundary_def)
  show "boundary n (nat n) = 2 ^ 64" using assms by (simp add: boundary_def bigTokenSpace_def)
  have "boundary n i + 1 = (bigTokenSpace * int i + n) div n"
    using assms by (simp add: boundary_def div_add_self2)
  also have "\<dots> \<le> boundary n (Suc i)"
    unfolding boundary_def using assms
    by (intro zdiv_mono1) (simp_all add: bigTokenSpace_def distrib_left)
  finally show "boundary n i < boundary n (Suc i)" by simp
  show "i \<le> j \<Longrightarrow> boundary n i \<le> boundary n j"
    unfolding boundary_def using assms by (intro zdiv_mono1) (simp_all add: bigTokenSpace_def)
qed

lemma splitTokenRanges_segments:
  assumes "1 \<le> n" "n \<le> 2 ^ 64" "i < nat n"
  shows "tokenRangeSegments (splitTokenRanges n ! i) = [mkSegment (boundary n i) (boundary n (Suc i))]"
proof (cases "n = 1")
  case True
  then show ?thesis
    using assms(3) by (simp add: splitTokenRanges_def tokenRangeSegments_def boundary_def bigTokenSpace_def)
next
  case False
  have lo: "0 \<le> boundary n i" using boundary_props(1) [OF assms(1,2)] boundary_props(4) [OF assms(1,2), of 0 i] by simp
  have hi: "boundary n (Suc i) \<le> 2 ^ 64"
    using boundary_props(2) [OF assms(1,2)] boundary_props(4) [OF assms(1,2), of "Suc i" "nat n"] assms(3) by simp
  have "splitTokenRanges n ! i = mkRange (word_of_int (boundary n i))
      (if boundary n (Suc i) = bigTokenSpace then 0 else word_of_int (boundary n (Suc i)))"
    using False assms by (simp add: splitTokenRanges_def boundary_def Let_def)
  then show ?thesis
    using segment_range_segments [OF lo boundary_props(3) [OF assms(1,2)] hi] by simp
qed

lemma chain_upt:
  "k \<le> m \<Longrightarrow> coverageChain (f k) (map (\<lambda>i. mkSegment (f i) (f (Suc i))) [k ..< m]) = Inr (f m)"
proof (induction "m - k" arbitrary: k)
  case (Suc d)
  then have "[k ..< m] = k # [Suc k ..< m]" by (simp add: upt_conv_Cons)
  with Suc(1) [of "Suc k"] Suc(2,3) show ?case by simp
qed simp

lemma of_nat_uint32_less: "i < 2 ^ 32 \<Longrightarrow> j < 2 ^ 32 \<Longrightarrow> (of_nat i :: uint32) < of_nat j \<longleftrightarrow> i < j"
  by (simp add: word_less_nat_alt unat_of_nat)

lemma validateShards_ok:
  assumes "\<And>k. k < length shs \<Longrightarrow> sh_ID (shs ! k) = of_nat (i + k)"
    and "i + length shs \<le> 2 ^ 32" and "set seen \<subseteq> of_nat ` {..< i}"
    and "\<And>sh. sh \<in> set shs \<Longrightarrow> sh_State sh = ShardStateActive \<and>
           (strategy = PlacementStrategyTokenRange \<longrightarrow> sh_Ranges sh \<noteq> [])"
  shows "validateShards strategy i seen shs = Inr ()"
  using assms
proof (induction shs arbitrary: i seen)
  case (Cons sh shs)
  have id: "sh_ID sh = of_nat i" using Cons.prems(1) [of 0] by simp
  have new: "sh_ID sh \<notin> set seen"
  proof
    assume "sh_ID sh \<in> set seen"
    then obtain j where "j < i" "(of_nat i :: uint32) = of_nat j" using Cons.prems(3) id by auto
    then show False using of_nat_uint32_less [of j i] Cons.prems(2) by simp
  qed
  have "validateShards strategy (Suc i) (sh_ID sh # seen) shs = Inr ()"
  proof (rule Cons.IH)
    show "sh_ID (shs ! k) = of_nat (Suc i + k)" if "k < length shs" for k
      using Cons.prems(1) [of "Suc k"] that by simp
    show "set (sh_ID sh # seen) \<subseteq> of_nat ` {..< Suc i}" using Cons.prems(3) id by auto
  qed (use Cons.prems in auto)
  moreover have "sh_State sh = ShardStateActive" "strategy = PlacementStrategyTokenRange \<longrightarrow> sh_Ranges sh \<noteq> []"
    using Cons.prems(4) [of sh] by simp_all
  ultimately show ?case using id new by (simp add: Routable_def state_defs)
qed simp

lemma map_sorted_ids:
  assumes "\<And>i. i < n \<Longrightarrow> sh_ID (g i) = of_nat i" and "n \<le> 2 ^ 32"
  shows "sort_key sh_ID (map g [0 ..< n]) = map g [0 ..< n]"
proof (rule sort_key_id_if_sorted)
  have "sorted_wrt (\<lambda>a b. sh_ID a \<le> sh_ID b) (map g [0 ..< n])"
    unfolding sorted_wrt_map
  proof (rule sorted_wrt_mono_rel [of _ "(<)"])
    fix i j assume "i \<in> set [0 ..< n]" "j \<in> set [0 ..< n]" "i < j"
    then show "sh_ID (g i) \<le> sh_ID (g j)"
      using assms of_nat_uint32_less [of i j] by (simp add: less_imp_le)
  qed simp
  then show "sorted (map sh_ID (map g [0 ..< n]))" by (simp add: sorted_wrt_map)
qed

lemma default_shard_facts:
  "sh_ID (defaultShard s vs rf rs i) = of_nat i"
  "sh_State (normalizeShard e (defaultShard s vs rf rs i)) = ShardStateActive"
  "sh_State (defaultShard s vs rf rs i) = ShardStateActive"
  "sh_Ranges (defaultShard s vs rf rs i) = (if s = PlacementStrategyTokenRange then [rs ! i] else [])"
  by (simp_all add: defaultShard_def Let_def normalizeShard_State)

lemma default_shards_coverage:
  assumes "1 \<le> m" "m \<le> 2 ^ 32"
  shows "validateTokenCoverage (map (\<lambda>i. normalizeShard e (defaultShard PlacementStrategyTokenRange vs rf
      (splitTokenRanges m) i)) [0 ..< nat m]) = Inr ()"
proof -
  have m: "m \<le> 2 ^ 64" using assms(2) by simp
  let ?seg = "\<lambda>i. mkSegment (boundary m i) (boundary m (Suc i))"
  have act: "Routable ShardStateActive" by (simp add: Routable_def)
  have segs: "routableSegments (map (\<lambda>i. normalizeShard e (defaultShard PlacementStrategyTokenRange vs rf
      (splitTokenRanges m) i)) is) = map ?seg is" if "\<And>i. i \<in> set is \<Longrightarrow> i < nat m" for "is"
    using that
    by (induction "is")
      (simp_all add: routableSegments_def default_shard_facts act splitTokenRanges_segments [OF assms(1) m])
  have "sorted (map seg_start (map ?seg [0 ..< nat m]))"
    using boundary_props(4) [OF assms(1) m] by (auto simp: sorted_map sorted_iff_nth_mono)
  then have "sort_key seg_start (map ?seg [0 ..< nat m]) = map ?seg [0 ..< nat m]"
    by (rule sort_key_id_if_sorted)
  moreover have "coverageChain 0 (map ?seg [0 ..< nat m]) = Inr (2 ^ 64)"
    using chain_upt [of 0 "nat m" "boundary m"] boundary_props(1,2) [OF assms(1) m] by simp
  moreover have "map ?seg [0 ..< nat m] \<noteq> []" using assms(1) by simp
  ultimately show ?thesis
    using segs [of "[0 ..< nat m]"] by (simp add: validateTokenCoverage_chain)
qed

lemma default_shards_valid:
  assumes "m \<le> 2 ^ 32"
  shows "validateShards s 0 [] (map (\<lambda>i. normalizeShard e (defaultShard s vs rf rs i)) [0 ..< nat m]) = Inr ()"
proof (rule validateShards_ok)
  show "0 + length (map (\<lambda>i. normalizeShard e (defaultShard s vs rf rs i)) [0 ..< nat m]) \<le> 2 ^ 32"
    using assms by simp
qed (auto simp: default_shard_facts)

lemma default_valid:
  assumes "shards \<le> 2 ^ 32"
    and "strategy \<in> {'''', PlacementStrategyTokenRange, PlacementStrategyLegacyModulo}"
  shows "ValidatePlacement now
    (DefaultPlacementWithReplicationFactor now shards selfID peers httpPeers capacity strategy rf) = Inr ()"
proof -
  define m where "m = (if shards \<le> 0 then 1 else shards)"
  define s where "s = (if strategy = '''' then PlacementStrategyTokenRange else strategy)"
  have m: "1 \<le> m" "m \<le> 2 ^ 32" using assms(1) by (auto simp: m_def)
  have s: "s \<noteq> ''''" "s = PlacementStrategyTokenRange \<or> s = PlacementStrategyLegacyModulo"
    using assms(2) by (auto simp: s_def state_defs)
  obtain vs rf' nodes where d: "DefaultPlacementWithReplicationFactor now shards selfID peers httpPeers capacity strategy rf
      = Normalize now \<lparr>cat_Version = PlacementVersion, cat_Epoch = 1, cat_Strategy = s,
          cat_Shards = map (defaultShard s vs rf' (splitTokenRanges m)) [0 ..< nat m],
          cat_Nodes = nodes, cat_UpdatedAtUnix = now\<rparr>"
    unfolding DefaultPlacementWithReplicationFactor_def Let_def m_def s_def by blast
  let ?G = "\<lambda>i. normalizeShard 1 (defaultShard s vs rf' (splitTokenRanges m) i)"
  have sorted: "sort_key sh_ID (map ?G [0 ..< nat m]) = map ?G [0 ..< nat m]"
    using m(2) by (intro map_sorted_ids) (simp_all add: default_shard_facts)
  have ne: "map ?G [0 ..< nat m] \<noteq> []" using m(1) by simp
  have "validateNormalized (Normalize now \<lparr>cat_Version = PlacementVersion, cat_Epoch = 1, cat_Strategy = s,
          cat_Shards = map (defaultShard s vs rf' (splitTokenRanges m)) [0 ..< nat m],
          cat_Nodes = nodes, cat_UpdatedAtUnix = now\<rparr>) = Inr ()"
    using s ne default_shards_coverage [OF m, of 1 vs rf'] default_shards_valid [OF m(2), of s 1 vs rf' "splitTokenRanges m"]
    by (auto simp: validateNormalized_def Normalize_def Let_def o_def sorted PlacementVersion_def)
  then show ?thesis by (simp add: ValidatePlacement_def d)
qed

text \<open>
  Every default placement passes validation, for every shard count up to the number of
  shard IDs, any peers, capacities and replication factor, and the two known strategies. In
  particular the panic of \<^verbatim>\<open>NewRouter\<close> is unreachable for those counts.
\<close>

lemma default_placement_valid:
  assumes "shards \<le> 2 ^ 32"
    and "strategy \<in> {'''', PlacementStrategyTokenRange, PlacementStrategyLegacyModulo}"
  shows "ValidatePlacement now
    (DefaultPlacementWithReplicationFactor now shards selfID peers httpPeers capacity strategy rf) = Inr ()"
  using assms by (rule default_valid)

theorem default_placement_valid_witness:
  "ValidatePlacement 1700000000 (DefaultPlacementWithReplicationFactor 1700000000 3 ''n1''
     [(''n1'', ''h1''), (''n2'', ''h2'')] [] zeroCapacity '''' 1) = Inr ()"
  by (rule default_placement_valid) simp_all

end
