(* ===== verification/PlacementPolicy.thy ===== *)
theory PlacementPolicy
  imports Placement "HOL-Library.Product_Lexorder"
begin

text \<open>
  The voter-selection policy of \<^verbatim>\<open>internal/placement/placement_policy.go\<close>: candidates and their
  scores, and the three passes of \<^verbatim>\<open>selectPlacementVoters\<close>. The texts of warnings and error
  messages are not modelled; every error is a constructor of \<open>plan_error\<close>.

  A \<^verbatim>\<open>map[string]struct{}\<close> used as a set of the things already selected is read off the list of
  selected candidates.
\<close>

datatype plan_error =
    PlanCatalog placement_error
  | UnknownOperation
  | ShardDoesNotExist uint32
  | TooFewNodes int nat
  | EmptyNodeID
  | DuplicateNode string
  | UnknownNode string
  | InactiveNode string string
  | TooFewActive nat int
  | RequiredInactive string
  | WrongStrategy string
  | NotRoutable uint32
  | NeedsOneRange uint32
  | SplitTokenOutside uint64
  | WrongNewShardID nat
  | NoVoters uint32
  | MoveNeedsNodes
  | SourceEqualsTarget
  | SourceNotVoter string
  | TooFewVoters nat int
  | NeedsRangeBounds
  | SourceNotActive uint32
  | RangeNotOwned token_error
  | RangeUnchanged
  | NeedsNodeID
  | TargetIsDraining string
  | NodeUnreferenced string
  | AlreadyDecommissioned string
  | MustBeDraining string
  | StillReferenced string

section \<open>Node sets\<close>

fun validateNodes :: "NodeDescriptor gomap \<Rightarrow> string list \<Rightarrow> string list \<Rightarrow> plan_error + unit" where
  "validateNodes nodes seen [] = Inr ()"
| "validateNodes nodes seen (nid # ids) =
     (if nid = '''' then Inl EmptyNodeID
      else if nid \<in> set seen then Inl (DuplicateNode nid)
      else (case map_of nodes nid of
              None \<Rightarrow> Inl (UnknownNode nid)
            | Some node \<Rightarrow>
                if node_State node \<noteq> '''' \<and> node_State node \<noteq> NodeStateActive
                then Inl (InactiveNode nid (node_State node))
                else validateNodes nodes (nid # seen) ids))"

definition validateNodeSet :: "PlacementCatalog \<Rightarrow> string list \<Rightarrow> int \<Rightarrow> plan_error + unit" where
  "validateNodeSet cat ids min' =
     (if int (length ids) < min' then Inl (TooFewNodes min' (length ids))
      else validateNodes (cat_Nodes cat) [] ids)"

definition minVoters :: "int \<Rightarrow> int" where
  "minVoters v = (if v \<le> 0 then 1 else v)"

definition targetVoterCount :: "int \<Rightarrow> string list \<Rightarrow> int" where
  "targetVoterCount min' current =
     (let cnt = int (length (sortedUnique current));
          cnt' = (if cnt < 1 then 1 else cnt)
      in if cnt' < min' then min' else cnt')"

section \<open>Loads and scores\<close>

record placementNodeLoad =
  ld_shardCount :: int
  ld_rangeCount :: int

definition zeroLoad :: placementNodeLoad where
  "zeroLoad = \<lparr>ld_shardCount = 0, ld_rangeCount = 0\<rparr>"

definition addLoad :: "int \<Rightarrow> (string \<Rightarrow> placementNodeLoad) \<Rightarrow> string \<Rightarrow> (string \<Rightarrow> placementNodeLoad)" where
  "addLoad rangeCount loads nodeID =
     loads(nodeID := \<lparr>ld_shardCount = ld_shardCount (loads nodeID) + 1,
                      ld_rangeCount = ld_rangeCount (loads nodeID) + rangeCount\<rparr>)"

fun placementLoadsFrom :: "ShardPlacement list \<Rightarrow> (string \<Rightarrow> placementNodeLoad) \<Rightarrow> (string \<Rightarrow> placementNodeLoad)" where
  "placementLoadsFrom [] loads = loads"
| "placementLoadsFrom (shard # shards) loads =
     (if sh_State shard = ShardStateDecommissioned then placementLoadsFrom shards loads
      else
        (let rangeCount = (if sh_Ranges shard = [] then 1 else int (length (sh_Ranges shard)));
             members = sortedUnique (sh_Voters shard @ sh_NonVoters shard)
         in placementLoadsFrom shards (foldl (addLoad rangeCount) loads members)))"

definition placementLoads :: "PlacementCatalog \<Rightarrow> string \<Rightarrow> placementNodeLoad" where
  "placementLoads cat = placementLoadsFrom (cat_Shards cat) (\<lambda>_. zeroLoad)"

definition placementPositiveInt :: "int \<Rightarrow> int" where
  "placementPositiveInt v = (if v \<le> 0 then 1 else if 1000000 < v then 1000000 else v)"

definition placementNonNegativeInt :: "int \<Rightarrow> int" where
  "placementNonNegativeInt v = (if v \<le> 0 then 0 else if 1000000 < v then 1000000 else v)"

definition placementGiB :: "uint64 \<Rightarrow> int" where
  "placementGiB bytes' = uint bytes' div 2 ^ 30"

text \<open>Integer arithmetic is exact here; that it stays inside \<^verbatim>\<open>int64\<close> is a theorem below.\<close>

definition placementCandidateScore :: "NodeCapacity \<Rightarrow> placementNodeLoad \<Rightarrow> int" where
  "placementCandidateScore capacity load =
     placementPositiveInt (cap_Weight capacity) * 1000000000000
     + placementNonNegativeInt (cap_CPU capacity) * 1000000000
     + placementGiB (cap_MemoryBytes capacity) * 1000000
     + placementGiB (cap_DiskBytes capacity) * 1000
     + int (length (cap_Tags capacity)) * 10
     - ld_shardCount load * 10000000
     - ld_rangeCount load * 1000000"

record placementCandidate =
  cd_id :: string
  cd_node :: NodeDescriptor
  cd_load :: placementNodeLoad
  cd_score :: int
  cd_zone :: string
  cd_tags :: "string list"
  cd_memoryGB :: int
  cd_diskGB :: int

section \<open>Candidates\<close>

definition candidateNode :: "string \<Rightarrow> NodeDescriptor \<Rightarrow> NodeDescriptor" where
  "candidateNode nid node0 =
     (let node1 = (if node_ID node0 = '''' then node0\<lparr>node_ID := nid\<rparr> else node0)
      in if node_State node1 = '''' then node1\<lparr>node_State := NodeStateActive\<rparr> else node1)"

definition mkCandidate :: "string \<Rightarrow> NodeDescriptor \<Rightarrow> placementNodeLoad \<Rightarrow> placementCandidate" where
  "mkCandidate nid node0 load =
     (let cap0 = node_Capacity node0;
          cap1 = (if cap_Weight cap0 \<le> 0 then cap0\<lparr>cap_Weight := 1\<rparr> else cap0);
          tags = sort (cap_Tags cap1);
          cap = cap1\<lparr>cap_Tags := tags\<rparr>
      in \<lparr>cd_id = nid, cd_node = node0\<lparr>node_Capacity := cap\<rparr>, cd_load = load,
          cd_score = placementCandidateScore cap load, cd_zone = cap_Zone cap, cd_tags = tags,
          cd_memoryGB = placementGiB (cap_MemoryBytes cap), cd_diskGB = placementGiB (cap_DiskBytes cap)\<rparr>)"

text \<open>The loop over the sorted node IDs; the list of ignored nodes only feeds a warning.\<close>

definition placementCandidates :: "PlacementCatalog \<Rightarrow> placementCandidate list" where
  "placementCandidates cat =
     concat (map (\<lambda>nid.
       case map_of (cat_Nodes cat) nid of
         None \<Rightarrow> []
       | Some node0 \<Rightarrow>
           (let node = candidateNode nid node0 in
            if node_State node \<noteq> NodeStateActive then []
            else [mkCandidate nid node (placementLoads cat nid)]))
       (sort (remdups (map fst (cat_Nodes cat)))))"

definition betterPlacementCandidate :: "placementCandidate \<Rightarrow> placementCandidate \<Rightarrow> bool" where
  "betterPlacementCandidate a b =
     (if cd_score a \<noteq> cd_score b then cd_score b < cd_score a
      else if ld_shardCount (cd_load a) \<noteq> ld_shardCount (cd_load b)
           then ld_shardCount (cd_load a) < ld_shardCount (cd_load b)
      else if ld_rangeCount (cd_load a) \<noteq> ld_rangeCount (cd_load b)
           then ld_rangeCount (cd_load a) < ld_rangeCount (cd_load b)
      else cd_id a < cd_id b)"

text \<open>
  \<^verbatim>\<open>sort.Slice\<close> with \<^verbatim>\<open>betterPlacementCandidate\<close>: a strict total order on candidates with
  distinct IDs, so the sorted list is unique. It sorts by this key.
\<close>

definition candidateKey :: "placementCandidate \<Rightarrow> int \<times> int \<times> int \<times> string" where
  "candidateKey c = (- cd_score c, ld_shardCount (cd_load c), ld_rangeCount (cd_load c), cd_id c)"

lemma betterPlacementCandidate_key: "betterPlacementCandidate a b \<longleftrightarrow> candidateKey a < candidateKey b"
  by (auto simp: betterPlacementCandidate_def candidateKey_def)

definition placementZoneKey :: "placementCandidate \<Rightarrow> string" where
  "placementZoneKey c = (if cd_zone c \<noteq> '''' then ''zone:'' @ cd_zone c else ''node:'' @ cd_id c)"

definition placementHasEnoughZones :: "placementCandidate list \<Rightarrow> int \<Rightarrow> bool" where
  "placementHasEnoughZones candidates cnt \<longleftrightarrow>
     cnt \<le> int (length (remdups (filter (\<lambda>z. z \<noteq> '''') (map cd_zone candidates))))"

section \<open>Selection\<close>

text \<open>A pass over the ranked candidates: stop when full, skip what \<open>skip\<close> rejects, add the rest.\<close>

fun selectPass :: "(placementCandidate list \<Rightarrow> placementCandidate \<Rightarrow> bool) \<Rightarrow> int \<Rightarrow>
    placementCandidate list \<Rightarrow> placementCandidate list \<Rightarrow> placementCandidate list" where
  "selectPass skip cnt [] selected = selected"
| "selectPass skip cnt (c # cs) selected =
     (if int (length selected) = cnt then selected
      else if skip selected c then selectPass skip cnt cs selected
      else selectPass skip cnt cs (selected @ [c]))"

definition isSelected :: "placementCandidate list \<Rightarrow> placementCandidate \<Rightarrow> bool" where
  "isSelected selected c \<longleftrightarrow> cd_id c \<in> set (map cd_id selected)"

definition zoneUsed :: "placementCandidate list \<Rightarrow> placementCandidate \<Rightarrow> bool" where
  "zoneUsed selected c \<longleftrightarrow> placementZoneKey c \<in> set (map placementZoneKey selected)"

definition skipZonePass :: "placementCandidate list \<Rightarrow> placementCandidate \<Rightarrow> bool" where
  "skipZonePass selected c \<longleftrightarrow> cd_zone c = '''' \<or> isSelected selected c \<or> zoneUsed selected c"

definition skipSpreadPass :: "placementCandidate list \<Rightarrow> placementCandidate \<Rightarrow> bool" where
  "skipSpreadPass selected c \<longleftrightarrow> isSelected selected c \<or> zoneUsed selected c"

fun selectRequired :: "placementCandidate list \<Rightarrow> string list \<Rightarrow> placementCandidate list \<Rightarrow>
    plan_error + placementCandidate list" where
  "selectRequired candidates [] selected = Inr selected"
| "selectRequired candidates (nid # ids) selected =
     (case find (\<lambda>c. cd_id c = nid) candidates of
        None \<Rightarrow> Inl (RequiredInactive nid)
      | Some c \<Rightarrow> selectRequired candidates ids (selected @ [c]))"

text \<open>The selected candidates, in the order they were added.\<close>

definition selectCandidates :: "PlacementCatalog \<Rightarrow> int \<Rightarrow> string list \<Rightarrow> plan_error + placementCandidate list" where
  "selectCandidates cat cnt0 required0 =
     (let cnt1 = (if cnt0 < 1 then 1 else cnt0);
          required = sortedUnique required0;
          cnt = (if cnt1 < int (length required) then int (length required) else cnt1)
      in bindr (validateNodeSet cat required 0) (\<lambda>_.
         let candidates = placementCandidates cat in
         if int (length candidates) < cnt then Inl (TooFewActive (length candidates) cnt)
         else
           bindr (selectRequired candidates required []) (\<lambda>sel0.
             let ranked = sort_key candidateKey candidates;
                 sel1 = (if placementHasEnoughZones ranked cnt
                         then selectPass skipZonePass cnt ranked sel0 else sel0);
                 sel2 = selectPass skipSpreadPass cnt ranked sel1
             in Inr (selectPass isSelected cnt ranked sel2))))"

definition selectPlacementVoters :: "PlacementCatalog \<Rightarrow> int \<Rightarrow> string list \<Rightarrow> plan_error + string list" where
  "selectPlacementVoters cat cnt required =
     bindr (selectCandidates cat cnt required) (\<lambda>selected. Inr (sort (map cd_id selected)))"

section \<open>Facts about candidates\<close>

definition node_active :: "PlacementCatalog \<Rightarrow> string \<Rightarrow> bool" where
  "node_active cat nid \<longleftrightarrow>
     (case map_of (cat_Nodes cat) nid of None \<Rightarrow> False
      | Some node \<Rightarrow> node_State node = '''' \<or> node_State node = NodeStateActive)"

definition active_nodes :: "PlacementCatalog \<Rightarrow> string list" where
  "active_nodes cat = filter (node_active cat) (sort (remdups (map fst (cat_Nodes cat))))"

lemma validateNodes_ok:
  "validateNodes (cat_Nodes cat) seen ids = Inr () \<longleftrightarrow>
     distinct ids \<and> '''' \<notin> set ids \<and> set ids \<inter> set seen = {} \<and> (\<forall>v\<in>set ids. node_active cat v)"
  by (induction ids arbitrary: seen) (auto simp: node_active_def split: option.splits)

lemma candidateNode_State: "node_State (candidateNode nid n) = NodeStateActive \<longleftrightarrow>
    node_State n = '''' \<or> node_State n = NodeStateActive"
  by (simp add: candidateNode_def Let_def)

lemma placementCandidates_ids: "map cd_id (placementCandidates cat) = active_nodes cat"
proof -
  have "map cd_id (concat (map (\<lambda>nid.
       case map_of (cat_Nodes cat) nid of
         None \<Rightarrow> []
       | Some node0 \<Rightarrow>
           (let node = candidateNode nid node0 in
            if node_State node \<noteq> NodeStateActive then []
            else [mkCandidate nid node (placementLoads cat nid)])) ids)) = filter (node_active cat) ids" for ids
    by (induction ids)
      (auto simp: node_active_def candidateNode_State mkCandidate_def Let_def split: option.splits)
  then show ?thesis by (simp add: placementCandidates_def active_nodes_def)
qed

lemma active_nodes_props: "distinct (active_nodes cat)" "set (active_nodes cat) = {v. node_active cat v}"
proof -
  show "distinct (active_nodes cat)" by (simp add: active_nodes_def)
  show "set (active_nodes cat) = {v. node_active cat v}"
    by (auto simp: active_nodes_def node_active_def split: option.splits dest: map_of_SomeD intro: rev_image_eqI)
qed

lemma candidates_distinct: "distinct (map cd_id (placementCandidates cat))"
  by (simp add: placementCandidates_ids active_nodes_props)

lemma candidate_by_id:
  "c \<in> set (placementCandidates cat) \<Longrightarrow> d \<in> set (placementCandidates cat) \<Longrightarrow> cd_id c = cd_id d \<Longrightarrow> c = d"
  using candidates_distinct [of cat] by (auto simp: distinct_map inj_on_def)

section \<open>Facts about the passes\<close>

text \<open>The selection invariant: distinct candidates, at most as many as wanted.\<close>

definition sel_ok :: "placementCandidate list \<Rightarrow> int \<Rightarrow> placementCandidate list \<Rightarrow> bool" where
  "sel_ok cands cnt sel \<longleftrightarrow> distinct (map cd_id sel) \<and> set sel \<subseteq> set cands \<and> int (length sel) \<le> cnt"

lemma selectPass_ok:
  assumes "\<And>sel c. isSelected sel c \<Longrightarrow> skip sel c" and "set cs \<subseteq> set cands"
  shows "sel_ok cands cnt sel \<Longrightarrow> sel_ok cands cnt (selectPass skip cnt cs sel)"
  using assms(2)
proof (induction cs arbitrary: sel)
  case (Cons c cs)
  show ?case
  proof (cases "int (length sel) = cnt \<or> skip sel c")
    case True
    with Cons show ?thesis by (cases "int (length sel) = cnt") simp_all
  next
    case False
    then have "\<not> isSelected sel c" using assms(1) by blast
    with False Cons.prems have "sel_ok cands cnt (sel @ [c])" by (auto simp: sel_ok_def isSelected_def)
    with False Cons show ?thesis by simp
  qed
qed simp

lemma selectPass_prefix: "prefix sel (selectPass skip cnt cs sel)"
proof (induction skip cnt cs sel rule: selectPass.induct)
  case (2 skip cnt c cs sel)
  then show ?case by (auto dest: append_prefixD)
qed simp

lemma selectPass_full: "int (length sel) = cnt \<Longrightarrow> selectPass skip cnt cs sel = sel"
  by (cases cs) simp_all

text \<open>A pass that ends before the selection is full has nothing left to add.\<close>

lemma selectPass_exhaust:
  assumes mono: "\<And>a b c. skip a c \<Longrightarrow> prefix a b \<Longrightarrow> skip b c" and added: "\<And>a c. skip (a @ [c]) c"
  shows "int (length (selectPass skip cnt cs sel)) \<noteq> cnt \<Longrightarrow> c \<in> set cs \<Longrightarrow> skip (selectPass skip cnt cs sel) c"
proof (induction cs arbitrary: sel)
  case (Cons x cs)
  then have ne: "int (length sel) \<noteq> cnt" by auto
  show ?case
  proof (cases "skip sel x")
    case True
    with Cons ne mono [OF True selectPass_prefix] show ?thesis by auto
  next
    case False
    with Cons ne mono [OF added [of sel x] selectPass_prefix [of "sel @ [x]" skip cnt cs]] show ?thesis by auto
  qed
qed simp

lemma isSelected_mono: "isSelected a c \<Longrightarrow> prefix a b \<Longrightarrow> isSelected b c"
  and zoneUsed_mono: "zoneUsed a c \<Longrightarrow> prefix a b \<Longrightarrow> zoneUsed b c"
  by (auto simp: isSelected_def zoneUsed_def prefix_def)

lemmas skip_defs = skipZonePass_def skipSpreadPass_def

lemma ranked_set [simp]: "set (sort_key candidateKey cs) = set cs" by simp

lemma select_fills:
  assumes "sel_ok cands cnt sel" and "set cs = set cands" and "distinct (map cd_id cands)"
    and "cnt \<le> int (length cands)"
  shows "int (length (selectPass isSelected cnt cs sel)) = cnt"
proof (rule ccontr)
  let ?r = "selectPass isSelected cnt cs sel"
  assume ne: "int (length ?r) \<noteq> cnt"
  have ok: "sel_ok cands cnt ?r" by (rule selectPass_ok [OF _ _ assms(1)]) (simp_all add: assms(2))
  have "isSelected ?r c" if "c \<in> set cs" for c
    by (rule selectPass_exhaust [OF isSelected_mono _ ne that]) (simp_all add: isSelected_def)
  then have "set (map cd_id cands) \<subseteq> set (map cd_id ?r)" using assms(2) by (auto simp: isSelected_def)
  then have "card (set (map cd_id cands)) \<le> card (set (map cd_id ?r))" by (intro card_mono) simp_all
  moreover have "card (set (map cd_id cands)) = length cands" using assms(3) by (metis distinct_card length_map)
  moreover have "card (set (map cd_id ?r)) = length ?r"
    using ok unfolding sel_ok_def by (metis distinct_card length_map)
  moreover have "int (length ?r) \<le> cnt" using ok by (simp add: sel_ok_def)
  ultimately show False using ne assms(4) by linarith
qed

lemma selectRequired_ok:
  assumes "\<And>v. v \<in> set ids \<Longrightarrow> v \<in> set (map cd_id cands)"
  shows "\<exists>sel. selectRequired cands ids sel0 = Inr (sel0 @ sel) \<and> map cd_id sel = ids \<and> set sel \<subseteq> set cands"
  using assms
proof (induction ids arbitrary: sel0)
  case (Cons v ids)
  from Cons.prems [of v] obtain c where c: "find (\<lambda>c. cd_id c = v) cands = Some c"
    by (cases "find (\<lambda>c. cd_id c = v) cands") (auto simp: find_None_iff)
  then have "c \<in> set cands" "cd_id c = v" by (auto simp: find_Some_iff)
  moreover obtain sel where "selectRequired cands ids (sel0 @ [c]) = Inr ((sel0 @ [c]) @ sel)"
    "map cd_id sel = ids" "set sel \<subseteq> set cands"
    using Cons.IH [of "sel0 @ [c]"] Cons.prems by auto
  ultimately show ?case using c by (intro exI [of _ "c # sel"]) simp
qed simp

text \<open>The number of voters asked for, after the two adjustments of the code.\<close>

definition wanted :: "int \<Rightarrow> string list \<Rightarrow> int" where
  "wanted cnt required = max (max 1 cnt) (int (length (sortedUnique required)))"

lemma selectCandidates_unfold:
  "selectCandidates cat cnt required =
     bindr (validateNodeSet cat (sortedUnique required) 0) (\<lambda>_.
       if int (length (placementCandidates cat)) < wanted cnt required
       then Inl (TooFewActive (length (placementCandidates cat)) (wanted cnt required))
       else bindr (selectRequired (placementCandidates cat) (sortedUnique required) []) (\<lambda>sel0.
         let ranked = sort_key candidateKey (placementCandidates cat);
             sel1 = (if placementHasEnoughZones ranked (wanted cnt required)
                     then selectPass skipZonePass (wanted cnt required) ranked sel0 else sel0);
             sel2 = selectPass skipSpreadPass (wanted cnt required) ranked sel1
         in Inr (selectPass isSelected (wanted cnt required) ranked sel2)))"
proof -
  have "(if (if cnt < 1 then 1 else cnt) < int (length (sortedUnique required)) then int (length (sortedUnique required))
      else (if cnt < 1 then 1 else cnt)) = wanted cnt required"
    by (simp add: wanted_def)
  then show ?thesis unfolding selectCandidates_def Let_def by presburger
qed

lemma selectCandidates_Inr:
  assumes "selectCandidates cat cnt required = Inr sel"
  shows "sel_ok (placementCandidates cat) (wanted cnt required) sel \<and>
    int (length sel) = wanted cnt required \<and> set (sortedUnique required) \<subseteq> set (map cd_id sel)"
proof -
  let ?cands = "placementCandidates cat" and ?w = "wanted cnt required" and ?req = "sortedUnique required"
  let ?ranked = "sort_key candidateKey ?cands"
  have val: "validateNodeSet cat ?req 0 = Inr ()"
    using assms by (cases "validateNodeSet cat ?req 0") (simp_all add: selectCandidates_unfold)
  have enough: "?w \<le> int (length ?cands)"
    using assms val by (rule_tac ccontr) (simp add: selectCandidates_unfold)
  have mem: "v \<in> set (map cd_id ?cands)" if "v \<in> set ?req" for v
    using val that by (simp add: validateNodeSet_def validateNodes_ok placementCandidates_ids active_nodes_props
        del: sortedUnique_props(3))
  obtain sel0 where sel0: "selectRequired ?cands ?req [] = Inr sel0" "map cd_id sel0 = ?req" "set sel0 \<subseteq> set ?cands"
    using selectRequired_ok [of ?req ?cands "[]", OF mem] by auto
  have ok0: "sel_ok ?cands ?w sel0"
    using sel0(2,3) length_map [of cd_id sel0] by (simp add: sel_ok_def wanted_def)
  define sel1 where "sel1 = (if placementHasEnoughZones ?ranked ?w then selectPass skipZonePass ?w ?ranked sel0 else sel0)"
  define sel2 where "sel2 = selectPass skipSpreadPass ?w ?ranked sel1"
  have sel: "sel = selectPass isSelected ?w ?ranked sel2"
    using assms unfolding selectCandidates_unfold val bindr.simps sel0(1) sel2_def sel1_def Let_def
    using enough by (simp only: not_le [symmetric] simp_thms if_False sum.inject)
  have ok1: "sel_ok ?cands ?w sel1"
    unfolding sel1_def using ok0 selectPass_ok [of skipZonePass ?ranked ?cands] by (simp add: skip_defs)
  have ok2: "sel_ok ?cands ?w sel2"
    unfolding sel2_def using ok1 selectPass_ok [of skipSpreadPass ?ranked ?cands] by (simp add: skip_defs)
  have "sel_ok ?cands ?w sel" unfolding sel using ok2 selectPass_ok [of isSelected ?ranked ?cands] by simp
  moreover have "int (length sel) = ?w"
    unfolding sel by (rule select_fills [OF ok2]) (simp_all add: candidates_distinct enough)
  moreover have "prefix sel0 sel"
  proof -
    have "prefix sel0 sel1" by (simp add: sel1_def selectPass_prefix)
    also have "prefix sel1 sel2" by (simp add: sel2_def selectPass_prefix)
    also have "prefix sel2 sel" by (simp add: sel selectPass_prefix)
    finally show ?thesis .
  qed
  then have "set ?req \<subseteq> set (map cd_id sel)"
    unfolding sel0(2) [symmetric] by (auto simp: prefix_def)
  ultimately show ?thesis by simp
qed

lemma selectCandidates_ok_iff:
  "is_ok (selectCandidates cat cnt required) \<longleftrightarrow>
     (\<forall>v\<in>set required - {''''}. node_active cat v) \<and> wanted cnt required \<le> int (length (active_nodes cat))"
proof -
  let ?cands = "placementCandidates cat" and ?req = "sortedUnique required"
  have val: "validateNodeSet cat ?req 0 = Inr () \<longleftrightarrow> (\<forall>v\<in>set required - {''''}. node_active cat v)"
    by (auto simp: validateNodeSet_def validateNodes_ok)
  have len: "length ?cands = length (active_nodes cat)" by (metis length_map placementCandidates_ids)
  have req: "\<exists>sel. selectRequired ?cands ?req [] = Inr sel" if "validateNodeSet cat ?req 0 = Inr ()"
    using selectRequired_ok [of ?req ?cands "[]"] that
    by (fastforce simp: validateNodeSet_def validateNodes_ok placementCandidates_ids active_nodes_props
        simp del: sortedUnique_props(3))
  show ?thesis
  proof (cases "validateNodeSet cat ?req 0")
    case (Inl e)
    then show ?thesis using val by (auto simp: selectCandidates_unfold)
  next
    case (Inr u)
    with req val len show ?thesis by (auto simp: selectCandidates_unfold Let_def)
  qed
qed

section \<open>Properties\<close>

lemma selectPlacementVoters_Inr:
  assumes "selectPlacementVoters cat cnt required = Inr voters"
  shows "sorted voters" "distinct voters" "int (length voters) = wanted cnt required"
    "set required - {''''} \<subseteq> set voters" "\<forall>v\<in>set voters. node_active cat v"
proof -
  from assms obtain sel where sel: "selectCandidates cat cnt required = Inr sel" "voters = sort (map cd_id sel)"
    by (auto simp: selectPlacementVoters_def elim!: bindr_InrE)
  note props = selectCandidates_Inr [OF sel(1)]
  have "set (map cd_id sel) \<subseteq> set (map cd_id (placementCandidates cat))" using props by (auto simp: sel_ok_def)
  then have act: "\<forall>v\<in>set (map cd_id sel). node_active cat v"
    by (auto simp: placementCandidates_ids active_nodes_props)
  show "sorted voters" "distinct voters" "int (length voters) = wanted cnt required"
    "set required - {''''} \<subseteq> set voters" "\<forall>v\<in>set voters. node_active cat v"
    using props act by (simp_all add: sel(2) sel_ok_def)
qed

text \<open>
  C36. Voter selection is correct and as permissive as it can be. It succeeds exactly when every
  required node is an active node of the catalog and there are enough active nodes; the result
  is then a sorted, duplicate-free list of active nodes of exactly the wanted size that keeps
  every required node.
\<close>

theorem select_voters_correct:
  "(is_ok (selectPlacementVoters cat cnt required) \<longleftrightarrow>
      (\<forall>v\<in>set required - {''''}. node_active cat v) \<and> wanted cnt required \<le> int (length (active_nodes cat))) \<and>
   (\<forall>voters. selectPlacementVoters cat cnt required = Inr voters \<longrightarrow>
      sorted voters \<and> distinct voters \<and> int (length voters) = wanted cnt required \<and>
      set required - {''''} \<subseteq> set voters \<and> (\<forall>v\<in>set voters. node_active cat v))"
proof (intro conjI allI impI)
  show "is_ok (selectPlacementVoters cat cnt required) \<longleftrightarrow>
      (\<forall>v\<in>set required - {''''}. node_active cat v) \<and> wanted cnt required \<le> int (length (active_nodes cat))"
    using selectCandidates_ok_iff [of cat cnt required]
    by (cases "selectCandidates cat cnt required") (simp_all add: selectPlacementVoters_def)
next
  fix voters assume a: "selectPlacementVoters cat cnt required = Inr voters"
  note r = selectPlacementVoters_Inr [OF a]
  show "sorted voters" by (rule r(1))
  show "distinct voters" by (rule r(2))
  show "int (length voters) = wanted cnt required" by (rule r(3))
  show "set required - {''''} \<subseteq> set voters" by (rule r(4))
  show "\<forall>v\<in>set voters. node_active cat v" by (rule r(5))
qed

text \<open>A catalog of three nodes in two zones, one of them draining.\<close>

definition demo_node :: "string \<Rightarrow> string \<Rightarrow> NodeState \<Rightarrow> string \<times> NodeDescriptor" where
  "demo_node nid zone st = (nid, \<lparr>node_ID = nid, node_RaftAddr = [], node_HTTPAddr = [], node_State = st,
     node_Capacity = zeroCapacity\<lparr>cap_Zone := zone\<rparr>, node_LastSeenUnix = 0\<rparr>)"

definition demo_nodes :: "NodeDescriptor gomap" where
  "demo_nodes = [demo_node ''a'' ''z1'' ''active'', demo_node ''b'' ''z1'' ''active'', demo_node ''c'' ''z2'' ''active'',
     demo_node ''d'' ''z3'' ''draining'']"

definition demo_shard :: ShardPlacement where
  "demo_shard = \<lparr>sh_ID = 0, sh_Ranges = [mkRange 0 0], sh_State = ''active'', sh_Epoch = 1,
     sh_Voters = [''a''], sh_NonVoters = [], sh_LeaderHint = ''a''\<rparr>"

definition demo_catalog :: PlacementCatalog where
  "demo_catalog = \<lparr>cat_Version = 1, cat_Epoch = 1, cat_Strategy = ''token-range-v1'', cat_Shards = [demo_shard],
     cat_Nodes = demo_nodes, cat_UpdatedAtUnix = 1\<rparr>"

theorem select_voters_correct_witness:
  "is_ok (selectPlacementVoters demo_catalog 2 [''a'']) \<and> \<not> is_ok (selectPlacementVoters demo_catalog 1 [''d''])"
proof -
  have "active_nodes demo_catalog = [''a'', ''b'', ''c'']" by code_simp
  moreover have "node_active demo_catalog ''a''" "\<not> node_active demo_catalog ''d''" by code_simp+
  moreover have "wanted 2 [''a''] = 2" by code_simp
  ultimately show ?thesis
    using select_voters_correct [of demo_catalog 2 "[''a'']"] select_voters_correct [of demo_catalog 1 "[''d'']"]
    by simp
qed

lemma zone_key_inject: "cd_zone c \<noteq> '''' \<Longrightarrow> cd_zone d \<noteq> '''' \<Longrightarrow> placementZoneKey c = placementZoneKey d \<longleftrightarrow> cd_zone c = cd_zone d"
  by (simp add: placementZoneKey_def)

lemma zonePass_zones:
  "distinct (map cd_zone sel) \<Longrightarrow> '''' \<notin> set (map cd_zone sel) \<Longrightarrow>
   distinct (map cd_zone (selectPass skipZonePass cnt cs sel)) \<and> '''' \<notin> set (map cd_zone (selectPass skipZonePass cnt cs sel))"
proof (induction cs arbitrary: sel)
  case (Cons c cs)
  show ?case
  proof (cases "int (length sel) = cnt \<or> skipZonePass sel c")
    case True
    with Cons show ?thesis by (cases "int (length sel) = cnt") simp_all
  next
    case False
    then have z: "cd_zone c \<noteq> ''''" and nu: "\<not> zoneUsed sel c" by (auto simp: skipZonePass_def)
    have "cd_zone c \<notin> set (map cd_zone sel)"
    proof
      assume "cd_zone c \<in> set (map cd_zone sel)"
      then obtain d where "d \<in> set sel" "cd_zone d = cd_zone c" by auto
      moreover from this z have "placementZoneKey d = placementZoneKey c" by (simp add: placementZoneKey_def)
      ultimately show False using nu unfolding zoneUsed_def by (metis image_eqI set_map)
    qed
    with Cons.prems z have "distinct (map cd_zone (sel @ [c]))" "'''' \<notin> set (map cd_zone (sel @ [c]))" by auto
    with Cons.IH False show ?thesis by simp
  qed
qed simp

lemma zonePass_fills:
  assumes "placementHasEnoughZones cands cnt" and "sel_ok cands cnt []" and "set cs = set cands"
    and "distinct (map cd_id cands)"
  shows "int (length (selectPass skipZonePass cnt cs [])) = cnt"
proof (rule ccontr)
  let ?r = "selectPass skipZonePass cnt cs []"
  assume ne: "int (length ?r) \<noteq> cnt"
  have ok: "sel_ok cands cnt ?r"
    by (rule selectPass_ok [OF _ _ assms(2)]) (simp_all add: assms(3) skip_defs)
  have skip: "skipZonePass ?r c" if "c \<in> set cs" for c
    by (rule selectPass_exhaust [OF _ _ ne that])
      (auto simp: skipZonePass_def isSelected_def zoneUsed_def prefix_def)
  have "set (filter (\<lambda>z. z \<noteq> '''') (map cd_zone cands)) \<subseteq> set (map cd_zone ?r)"
  proof
    fix z assume "z \<in> set (filter (\<lambda>z. z \<noteq> '''') (map cd_zone cands))"
    then obtain c where c: "c \<in> set cands" "cd_zone c = z" "z \<noteq> ''''" by auto
    with skip [of c] assms(3) consider "isSelected ?r c" | "zoneUsed ?r c" by (auto simp: skipZonePass_def)
    then show "z \<in> set (map cd_zone ?r)"
    proof cases
      case 1
      then obtain d where "d \<in> set ?r" "cd_id d = cd_id c" by (auto simp: isSelected_def)
      moreover from this ok have "d \<in> set cands" by (auto simp: sel_ok_def)
      ultimately have "d = c" using assms(4) c(1) by (auto simp: distinct_map inj_on_def)
      with \<open>d \<in> set ?r\<close> c show ?thesis by auto
    next
      case 2
      then obtain d where d: "d \<in> set ?r" "placementZoneKey d = placementZoneKey c" by (auto simp: zoneUsed_def)
      have "cd_zone d \<noteq> ''''" using zonePass_zones [of "[]" cnt cs] d(1) by force
      with d c zone_key_inject [of d c] show ?thesis by auto
    qed
  qed
  then have "card (set (filter (\<lambda>z. z \<noteq> '''') (map cd_zone cands))) \<le> length ?r"
    by (metis (no_types) List.finite_set card_length card_mono le_trans length_map)
  then have "length (remdups (filter (\<lambda>z. z \<noteq> '''') (map cd_zone cands))) \<le> length ?r"
    by (simp add: length_remdups_card_conv)
  with assms(1) ne ok show False by (simp add: placementHasEnoughZones_def sel_ok_def)
qed

text \<open>
  C37. Zone anti-affinity: when no voter is prescribed and the active nodes span at least as many
  zones as voters are wanted, the selected voters lie in pairwise distinct, named zones.
\<close>

theorem voters_spread_over_zones:
  assumes "selectCandidates cat cnt [] = Inr sel"
    and "placementHasEnoughZones (placementCandidates cat) (wanted cnt [])"
  shows "distinct (map cd_zone sel) \<and> '''' \<notin> set (map cd_zone sel)"
proof -
  let ?cands = "placementCandidates cat" and ?w = "wanted cnt []"
  let ?ranked = "sort_key candidateKey ?cands"
  let ?sel1 = "selectPass skipZonePass ?w ?ranked []"
  have empty: "sortedUnique [] = []" by (simp add: sortedUnique_def)
  have val: "validateNodeSet cat [] 0 = Inr ()" by (simp add: validateNodeSet_def)
  have zones: "placementHasEnoughZones ?ranked ?w"
    using assms(2) by (simp add: placementHasEnoughZones_def length_remdups_card_conv)
  have enough: "\<not> int (length ?cands) < ?w"
  proof
    assume "int (length ?cands) < ?w"
    with assms(1) show False unfolding selectCandidates_unfold empty val bindr.simps by simp
  qed
  have "sel_ok ?cands ?w []" by (simp add: sel_ok_def wanted_def)
  from zonePass_fills [OF assms(2) this _ candidates_distinct, of ?ranked]
  have full: "int (length ?sel1) = ?w" by simp
  have "sel = ?sel1"
    using assms(1) enough zones
    unfolding selectCandidates_unfold empty val bindr.simps selectRequired.simps Let_def
    by (simp add: selectPass_full full)
  then show ?thesis using zonePass_zones [of "[]" ?w ?ranked] by simp
qed

theorem voters_spread_over_zones_witness:
  "\<exists>sel. selectCandidates demo_catalog 2 [] = Inr sel \<and> distinct (map cd_zone sel)"
proof -
  have "is_ok (selectCandidates demo_catalog 2 [])"
  proof -
    have "active_nodes demo_catalog = [''a'', ''b'', ''c'']" "wanted 2 [] = 2" by code_simp+
    then show ?thesis by (simp add: selectCandidates_ok_iff)
  qed
  then obtain sel where sel: "selectCandidates demo_catalog 2 [] = Inr sel" by (auto simp: is_ok_iff)
  have "placementHasEnoughZones (placementCandidates demo_catalog) (wanted 2 [])" by code_simp
  from voters_spread_over_zones [OF sel this] sel show ?thesis by auto
qed

text \<open>
  The score of a candidate never leaves \<^verbatim>\<open>int64\<close>, whatever capacity a node reports, as long as
  its loads and its number of tags stay below a billion.
\<close>

lemma score_fits_int64:
  assumes "0 \<le> ld_shardCount load" "ld_shardCount load < 10 ^ 9" "0 \<le> ld_rangeCount load"
    "ld_rangeCount load < 10 ^ 9" "length (cap_Tags capacity) < 10 ^ 9"
  shows "- (2 ^ 63) \<le> placementCandidateScore capacity load \<and> placementCandidateScore capacity load < 2 ^ 63"
proof -
  have w: "1 \<le> placementPositiveInt v \<and> placementPositiveInt v \<le> 1000000" for v
    by (simp add: placementPositiveInt_def)
  have c: "0 \<le> placementNonNegativeInt v \<and> placementNonNegativeInt v \<le> 1000000" for v
    by (simp add: placementNonNegativeInt_def)
  have g: "0 \<le> placementGiB b \<and> placementGiB b < 17179869184" for b
  proof -
    have "0 \<le> x div 1073741824 \<and> x div 1073741824 < 17179869184" if "0 \<le> x" "x < 18446744073709551616" for x :: int
      using that by auto
    from this [OF uint_ge_0 uint_lt_64] show ?thesis by (simp add: placementGiB_def)
  qed
  show ?thesis
    unfolding placementCandidateScore_def
    using w [of "cap_Weight capacity"] c [of "cap_CPU capacity"] g [of "cap_MemoryBytes capacity"]
      g [of "cap_DiskBytes capacity"] assms
    by simp
qed

theorem score_fits_int64_witness:
  "placementCandidateScore (zeroCapacity\<lparr>cap_Weight := 10 ^ 20, cap_MemoryBytes := - 1\<rparr>) zeroLoad < 2 ^ 63"
  using score_fits_int64 [of zeroLoad "zeroCapacity\<lparr>cap_Weight := 10 ^ 20, cap_MemoryBytes := - 1\<rparr>"]
  by (simp add: zeroLoad_def zeroCapacity_def)

end
