(* ===== verification/Routing.thy ===== *)
theory Routing
  imports Placement KeyRanges
begin

text \<open>
  The router of \<^verbatim>\<open>internal/routing/router.go\<close>: the lookup table it builds from a placement catalog
  and the lookup itself, with Go's \<^verbatim>\<open>sort.Search\<close> as the binary search it is.

  What the router relies on is the interface \<open>ring_partition\<close>: a list of owned ranges in which
  every token occurs exactly once. Validation of the catalog provides it.

  A nil \<^verbatim>\<open>*Router\<close> is \<open>None\<close>. \<^verbatim>\<open>sort.Slice\<close> by range end is \<^const>\<open>sort_key\<close>: in a valid catalog the
  ends of the ordered ranges are pairwise distinct.
\<close>

section \<open>Binary search\<close>

text \<open>\<^verbatim>\<open>sort.Search(n, f)\<close>: the invariant is that \<open>f\<close> is false below \<open>i\<close> and true from \<open>j\<close> on.\<close>

function searchLoop :: "(nat \<Rightarrow> bool) \<Rightarrow> nat \<Rightarrow> nat \<Rightarrow> nat" where
  "searchLoop f i j =
     (if i < j then
        (let h = (i + j) div 2 in
         if \<not> f h then searchLoop f (h + 1) j else searchLoop f i h)
      else i)"
  by pat_completeness auto
termination
  by (relation "measure (\<lambda>(f, i, j). j - i)") auto

declare searchLoop.simps [simp del]

definition sortSearch :: "nat \<Rightarrow> (nat \<Rightarrow> bool) \<Rightarrow> nat" where
  "sortSearch n f = searchLoop f 0 n"

lemma searchLoop_least:
  assumes mono: "\<And>a b. a \<le> b \<Longrightarrow> b < n \<Longrightarrow> f a \<Longrightarrow> f b"
  shows "i \<le> j \<Longrightarrow> j \<le> n \<Longrightarrow> (\<And>k. k < i \<Longrightarrow> \<not> f k) \<Longrightarrow> (\<And>k. j \<le> k \<Longrightarrow> k < n \<Longrightarrow> f k) \<Longrightarrow>
    searchLoop f i j \<le> n \<and> (\<forall>k < searchLoop f i j. \<not> f k) \<and>
    (\<forall>k. searchLoop f i j \<le> k \<and> k < n \<longrightarrow> f k)"
proof (induction "j - i" arbitrary: i j rule: less_induct)
  case less
  show ?case
  proof (cases "i < j")
    case False
    with less.prems show ?thesis unfolding searchLoop.simps [of f i j] by simp
  next
    case True
    let ?h = "(i + j) div 2"
    have h: "i \<le> ?h" "?h < j" using True by auto
    show ?thesis
    proof (cases "f ?h")
      case fh: True
      have "f k" if "?h \<le> k" "k < n" for k using mono that fh by blast
      then have "searchLoop f i ?h \<le> n \<and> (\<forall>k < searchLoop f i ?h. \<not> f k) \<and>
          (\<forall>k. searchLoop f i ?h \<le> k \<and> k < n \<longrightarrow> f k)"
        using h less.prems(2,3) by (intro less.hyps) simp_all
      then show ?thesis using True fh unfolding searchLoop.simps [of f i j] by (simp add: Let_def)
    next
      case fh: False
      have "\<not> f k" if "k < ?h + 1" for k
        using mono [of k ?h] that fh h less.prems(2) by auto
      then have "searchLoop f (?h + 1) j \<le> n \<and> (\<forall>k < searchLoop f (?h + 1) j. \<not> f k) \<and>
          (\<forall>k. searchLoop f (?h + 1) j \<le> k \<and> k < n \<longrightarrow> f k)"
        using h less.prems(2,4) by (intro less.hyps) simp_all
      then show ?thesis using True fh unfolding searchLoop.simps [of f i j] by (simp add: Let_def)
    qed
  qed
qed

lemma sortSearch_least:
  assumes "\<forall>a b. a \<le> b \<and> b < n \<and> f a \<longrightarrow> f b"
  shows "sortSearch n f \<le> n" and "k < sortSearch n f \<Longrightarrow> \<not> f k" and "sortSearch n f < n \<Longrightarrow> f (sortSearch n f)"
  using searchLoop_least [of n f 0 n] assms by (auto simp: sortSearch_def)

section \<open>The router\<close>

record routeRange =
  rr_shardID :: uint32
  rr_rng :: TokenRange

record Router =
  rt_catalog :: PlacementCatalog
  rt_normalRanges :: "routeRange list"
  rt_specialRanges :: "routeRange list"

datatype routing_error = InvalidCatalog placement_error | ErrNoShardForToken uint64 uint64

definition mkRouteRange :: "uint32 \<times> TokenRange \<Rightarrow> routeRange" where
  "mkRouteRange e = \<lparr>rr_shardID = fst e, rr_rng = snd e\<rparr>"

definition isNormal :: "TokenRange \<Rightarrow> bool" where
  "isNormal r \<longleftrightarrow> rng_Start r < rng_End r"

definition normalTable :: "(uint32 \<times> TokenRange) list \<Rightarrow> routeRange list" where
  "normalTable entries =
     sort_key (\<lambda>rr. rng_End (rr_rng rr)) (filter (\<lambda>rr. isNormal (rr_rng rr)) (map mkRouteRange entries))"

definition specialTable :: "(uint32 \<times> TokenRange) list \<Rightarrow> routeRange list" where
  "specialTable entries = filter (\<lambda>rr. \<not> isNormal (rr_rng rr)) (map mkRouteRange entries)"

text \<open>
  The nested loops walk the ranges of the routable shards in order, which is
  \<^const>\<open>routableRanges\<close>; the switch sends each to one of the two slices.
\<close>

definition NewRouterFromCatalog :: "int \<Rightarrow> PlacementCatalog \<Rightarrow> placement_error + Router" where
  "NewRouterFromCatalog now cat0 =
     (let cat = Normalize now cat0 in
      bindr (ValidatePlacement now cat) (\<lambda>_.
        if cat_Strategy cat = PlacementStrategyTokenRange then
          Inr \<lparr>rt_catalog = cat,
               rt_normalRanges = normalTable (routableRanges (cat_Shards cat)),
               rt_specialRanges = specialTable (routableRanges (cat_Shards cat))\<rparr>
        else Inr \<lparr>rt_catalog = cat, rt_normalRanges = [], rt_specialRanges = []\<rparr>))"

text \<open>\<^verbatim>\<open>NewRouter\<close> panics on an invalid default placement: \<open>None\<close>.\<close>

definition NewRouter :: "int \<Rightarrow> int \<Rightarrow> Router option" where
  "NewRouter now n =
     (case NewRouterFromCatalog now
             (DefaultPlacement now n '''' [] [] zeroCapacity PlacementStrategyTokenRange) of
        Inl _ \<Rightarrow> None | Inr r \<Rightarrow> Some r)"

definition lookupNormal :: "routeRange list \<Rightarrow> uint64 \<Rightarrow> uint32 option" where
  "lookupNormal normals h =
     (let idx = sortSearch (length normals) (\<lambda>i. h < rng_End (rr_rng (normals ! i))) in
      if idx < length normals \<and> rng_Start (rr_rng (normals ! idx)) \<le> h
      then Some (rr_shardID (normals ! idx)) else None)"

fun lookupSpecial :: "routeRange list \<Rightarrow> uint64 \<Rightarrow> uint32 option" where
  "lookupSpecial [] h = None"
| "lookupSpecial (rr # rrs) h = (if Contains (rr_rng rr) h then Some (rr_shardID rr) else lookupSpecial rrs h)"

definition ShardForUint64 :: "Router option \<Rightarrow> uint64 \<Rightarrow> routing_error + uint32" where
  "ShardForUint64 router h =
     (case router of
        None \<Rightarrow> Inr 0
      | Some r \<Rightarrow>
          (let cat = rt_catalog r in
           if cat_Shards cat = [] then Inr 0
           else if cat_Strategy cat = PlacementStrategyLegacyModulo then
             (if length (cat_Shards cat) = 1 then Inr 0
              else Inr (ucast (h mod of_nat (length (cat_Shards cat)))))
           else
             (case lookupNormal (rt_normalRanges r) h of
                Some s \<Rightarrow> Inr s
              | None \<Rightarrow>
                  (case lookupSpecial (rt_specialRanges r) h of
                     Some s \<Rightarrow> Inr s
                   | None \<Rightarrow> Inl (ErrNoShardForToken (cat_Epoch cat) h)))))"

definition TokenForPK :: "hasher \<Rightarrow> bytes \<Rightarrow> uint64" where
  "TokenForPK H pkBytes = Sum64 H pkBytes"

definition ShardForPK :: "hasher \<Rightarrow> Router option \<Rightarrow> bytes \<Rightarrow> routing_error + uint32" where
  "ShardForPK H router pkBytes = ShardForUint64 router (TokenForPK H pkBytes)"

definition Count :: "Router option \<Rightarrow> nat" where
  "Count router = (case router of None \<Rightarrow> 0 | Some r \<Rightarrow> length (cat_Shards (rt_catalog r)))"

definition ShardIDs :: "Router option \<Rightarrow> uint32 list" where
  "ShardIDs router = (case router of None \<Rightarrow> [] | Some r \<Rightarrow> map sh_ID (cat_Shards (rt_catalog r)))"

definition GroupID :: "Router option \<Rightarrow> uint32 \<Rightarrow> uint32" where
  "GroupID router shard = shard"

lemma normalTable_mem: "rr \<in> set (normalTable es) \<longleftrightarrow> (rr_shardID rr, rr_rng rr) \<in> set es \<and> isNormal (rr_rng rr)"
  by (force simp: normalTable_def mkRouteRange_def image_iff)

lemma specialTable_mem: "rr \<in> set (specialTable es) \<longleftrightarrow> (rr_shardID rr, rr_rng rr) \<in> set es \<and> \<not> isNormal (rr_rng rr)"
  by (force simp: specialTable_def mkRouteRange_def image_iff)

text \<open>The search finds the first ordered range that ends above the token.\<close>

lemma normalTable_search:
  assumes idx: "idx = sortSearch (length (normalTable es)) (\<lambda>i. h < rng_End (rr_rng (normalTable es ! i)))"
  shows "idx < length (normalTable es) \<Longrightarrow> h < rng_End (rr_rng (normalTable es ! idx))"
    and "k < length (normalTable es) \<Longrightarrow> h < rng_End (rr_rng (normalTable es ! k)) \<Longrightarrow>
      idx \<le> k \<and> rng_End (rr_rng (normalTable es ! idx)) \<le> rng_End (rr_rng (normalTable es ! k))"
proof -
  let ?f = "\<lambda>i. h < rng_End (rr_rng (normalTable es ! i))"
  have sorted: "rng_End (rr_rng (normalTable es ! a)) \<le> rng_End (rr_rng (normalTable es ! b))"
    if "a \<le> b" "b < length (normalTable es)" for a b
  proof -
    have "sorted (map (\<lambda>rr. rng_End (rr_rng rr)) (normalTable es))" by (simp add: normalTable_def)
    from sorted_nth_mono [OF this that(1)] that show ?thesis by simp
  qed
  have mono: "\<forall>a b. a \<le> b \<and> b < length (normalTable es) \<and> ?f a \<longrightarrow> ?f b"
    using sorted less_le_trans by blast
  show "idx < length (normalTable es) \<Longrightarrow> ?f idx"
    using sortSearch_least(3) [OF mono] unfolding idx .
  assume k: "k < length (normalTable es)" "?f k"
  then have "idx \<le> k" using sortSearch_least(2) [OF mono, of k] unfolding idx by (meson not_le)
  with sorted k show "idx \<le> k \<and> rng_End (rr_rng (normalTable es ! idx)) \<le> rng_End (rr_rng (normalTable es ! k))"
    by blast
qed

section \<open>Interface: a partition of the token ring\<close>

text \<open>
  What a lookup table may assume of the catalog it is built from: every token lies in exactly
  one of the listed ranges. From this alone the two-stage lookup finds the owner.
\<close>

locale ring_partition =
  fixes entries :: "'c \<Rightarrow> (uint32 \<times> TokenRange) list"
    and ok :: "'c \<Rightarrow> bool"
  assumes one_owner: "ok c \<Longrightarrow> owner_count t (entries c) = 1"
begin

lemma owner_exists: "ok c \<Longrightarrow> \<exists>e\<in>set (entries c). Contains (snd e) t"
  using one_owner [of c t] by (auto simp: owner_count_def length_Suc_conv filter_eq_Cons_iff)

lemma owner_unique:
  assumes "ok c" and "e \<in> set (entries c)" "Contains (snd e) t" and "e' \<in> set (entries c)" "Contains (snd e') t"
  shows "e = e'"
proof -
  from one_owner [OF assms(1), of t] obtain x where "filter (\<lambda>(_, r). Contains r t) (entries c) = [x]"
    by (auto simp: owner_count_def length_Suc_conv)
  then have "set (filter (\<lambda>(_, r). Contains r t) (entries c)) = {x}" by simp
  moreover have "e \<in> set (filter (\<lambda>(_, r). Contains r t) (entries c))"
    and "e' \<in> set (filter (\<lambda>(_, r). Contains r t) (entries c))"
    using assms by (auto simp: split_beta)
  ultimately show ?thesis by auto
qed

lemma lookupNormal_sound:
  assumes "lookupNormal (normalTable (entries c)) h = Some s"
  shows "\<exists>r. (s, r) \<in> set (entries c) \<and> isNormal r \<and> Contains r h"
proof -
  define i where "i = sortSearch (length (normalTable (entries c)))
    (\<lambda>i. h < rng_End (rr_rng (normalTable (entries c) ! i)))"
  from assms have i: "i < length (normalTable (entries c))" "rng_Start (rr_rng (normalTable (entries c) ! i)) \<le> h"
    and s: "s = rr_shardID (normalTable (entries c) ! i)"
    by (auto simp: lookupNormal_def Let_def i_def split: if_splits)
  from normalTable_search(1) [OF i_def i(1)] i nth_mem [OF i(1)] show ?thesis
    unfolding normalTable_mem s isNormal_def Contains_def by auto
qed

lemma lookupNormal_complete:
  assumes c: "ok c" and e: "(s, r) \<in> set (entries c)" "isNormal r" "Contains r h"
  shows "lookupNormal (normalTable (entries c)) h = Some s"
proof -
  define i where "i = sortSearch (length (normalTable (entries c)))
    (\<lambda>i. h < rng_End (rr_rng (normalTable (entries c) ! i)))"
  have "\<lparr>rr_shardID = s, rr_rng = r\<rparr> \<in> set (normalTable (entries c))" using e by (simp add: normalTable_mem)
  then obtain k where k: "k < length (normalTable (entries c))" "normalTable (entries c) ! k = \<lparr>rr_shardID = s, rr_rng = r\<rparr>"
    by (auto simp: in_set_conv_nth)
  have r: "rng_Start r \<le> h" "h < rng_End r" using e(2,3) by (auto simp: isNormal_def Contains_def)
  have i: "i \<le> k" "rng_End (rr_rng (normalTable (entries c) ! i)) \<le> rng_End r"
    using normalTable_search(2) [OF i_def k(1)] k(2) r(2) by simp_all
  let ?rr = "normalTable (entries c) ! i"
  have len: "i < length (normalTable (entries c))" using i(1) k(1) by simp
  have mem: "(rr_shardID ?rr, rr_rng ?rr) \<in> set (entries c)" "isNormal (rr_rng ?rr)"
    using nth_mem [OF len] by (simp_all add: normalTable_mem)
  have h: "h < rng_End (rr_rng ?rr)" by (rule normalTable_search(1) [OF i_def len])
  have start: "rng_Start (rr_rng ?rr) \<le> h"
  proof (rule ccontr)
    assume less: "\<not> rng_Start (rr_rng ?rr) \<le> h"
    let ?t = "rng_Start (rr_rng ?rr)"
    have "Contains (rr_rng ?rr) ?t" using mem(2) by (simp add: isNormal_def Contains_def)
    moreover have "Contains r ?t"
      using less r i(2) mem(2) e(2) by (auto simp: isNormal_def Contains_def intro: less_le_trans less_imp_le le_less_trans)
    ultimately have "(rr_shardID ?rr, rr_rng ?rr) = (s, r)"
      using owner_unique [OF c mem(1), of ?t "(s, r)"] e(1) by simp
    with less r show False by simp
  qed
  then have "Contains (rr_rng ?rr) h" using h mem(2) by (simp add: isNormal_def Contains_def)
  then have "(rr_shardID ?rr, rr_rng ?rr) = (s, r)" using owner_unique [OF c mem(1), of h "(s, r)"] e by simp
  then show ?thesis using len start by (simp add: lookupNormal_def Let_def i_def [symmetric])
qed

lemma lookupSpecial_Some:
  "lookupSpecial rrs h = Some s \<Longrightarrow> \<exists>rr\<in>set rrs. rr_shardID rr = s \<and> Contains (rr_rng rr) h"
  by (induction rrs) (auto split: if_splits)

lemma lookupSpecial_None: "lookupSpecial rrs h = None \<Longrightarrow> rr \<in> set rrs \<Longrightarrow> \<not> Contains (rr_rng rr) h"
  by (induction rrs) (auto split: if_splits)

text \<open>The two stages together find exactly the owner.\<close>

lemma lookup_owner:
  assumes "ok c"
  shows "(case lookupNormal (normalTable (entries c)) h of Some s \<Rightarrow> Some s
           | None \<Rightarrow> lookupSpecial (specialTable (entries c)) h) = Some s \<longleftrightarrow>
         (\<exists>r. (s, r) \<in> set (entries c) \<and> Contains r h)"
proof -
  obtain s0 r0 where e: "(s0, r0) \<in> set (entries c)" "Contains r0 h"
    using owner_exists [OF assms, of h] by auto
  have uniq: "(s', r') = (s0, r0)" if "(s', r') \<in> set (entries c)" "Contains r' h" for s' r'
    using owner_unique [OF assms that(1) _ e(1)] that(2) e(2) by simp
  have "(case lookupNormal (normalTable (entries c)) h of Some s \<Rightarrow> Some s
           | None \<Rightarrow> lookupSpecial (specialTable (entries c)) h) = Some s0"
  proof (cases "isNormal r0")
    case True
    then show ?thesis using lookupNormal_complete [OF assms e(1) _ e(2)] by simp
  next
    case False
    have none: "lookupNormal (normalTable (entries c)) h = None"
    proof (rule ccontr)
      assume "lookupNormal (normalTable (entries c)) h \<noteq> None"
      then obtain s' where "lookupNormal (normalTable (entries c)) h = Some s'" by blast
      from lookupNormal_sound [OF this] uniq False show False by blast
    qed
    have "\<lparr>rr_shardID = s0, rr_rng = r0\<rparr> \<in> set (specialTable (entries c))"
      using e(1) False by (simp add: specialTable_mem)
    with lookupSpecial_None [of "specialTable (entries c)" h] e(2)
    obtain s' where s': "lookupSpecial (specialTable (entries c)) h = Some s'" by force
    from lookupSpecial_Some [OF s'] obtain rr where "rr \<in> set (specialTable (entries c))"
      "rr_shardID rr = s'" "Contains (rr_rng rr) h" by blast
    with uniq [of s' "rr_rng rr"] have "s' = s0" by (simp add: specialTable_mem)
    with none s' show ?thesis by simp
  qed
  moreover have "(\<exists>r. (s, r) \<in> set (entries c) \<and> Contains r h) \<longleftrightarrow> s0 = s" using e uniq by blast
  ultimately show ?thesis by simp
qed

end

interpretation validated: ring_partition "\<lambda>cat. routableRanges (cat_Shards cat)"
  "\<lambda>cat. validateNormalized cat = Inr () \<and> cat_Strategy cat = PlacementStrategyTokenRange"
proof
  fix cat t
  assume "validateNormalized cat = Inr () \<and> cat_Strategy cat = PlacementStrategyTokenRange"
  then have "validateTokenCoverage (cat_Shards cat) = Inr ()"
    by (auto simp: validateNormalized_def split: if_splits elim!: bindr_InrE)
  then show "owner_count t (routableRanges (cat_Shards cat)) = 1"
    by (simp add: coverage_exact)
qed

section \<open>Properties of the router\<close>

lemma NewRouter_catalog:
  assumes "NewRouterFromCatalog now cat = Inr r"
  shows "rt_catalog r = Normalize now cat" and "validateNormalized (Normalize now cat) = Inr ()"
  using assms
  by (auto simp: NewRouterFromCatalog_def Let_def ValidatePlacement_def elim!: bindr_InrE split: if_splits)

lemma routableRanges_mem:
  "(s, r) \<in> set (routableRanges shards) \<longleftrightarrow>
     (\<exists>sh\<in>set shards. sh_ID sh = s \<and> Routable (sh_State sh) \<and> r \<in> set (sh_Ranges sh))"
  by (auto simp: routableRanges_def)

lemma validated_shards_nonempty: "validateNormalized cat = Inr () \<Longrightarrow> cat_Shards cat \<noteq> []"
  by (auto simp: validateNormalized_def split: if_splits)

lemma route_token_range:
  assumes "NewRouterFromCatalog now cat = Inr r" and "cat_Strategy (rt_catalog r) = PlacementStrategyTokenRange"
  shows "ShardForUint64 (Some r) h = Inr s \<longleftrightarrow> (\<exists>rng. (s, rng) \<in> set (routableRanges (cat_Shards (rt_catalog r))) \<and> Contains rng h)"
proof -
  note cat = NewRouter_catalog [OF assms(1)]
  have ok: "validateNormalized (rt_catalog r) = Inr () \<and> cat_Strategy (rt_catalog r) = PlacementStrategyTokenRange"
    using cat assms(2) by simp
  have tables: "rt_normalRanges r = normalTable (routableRanges (cat_Shards (rt_catalog r)))"
    "rt_specialRanges r = specialTable (routableRanges (cat_Shards (rt_catalog r)))"
    using assms cat by (auto simp: NewRouterFromCatalog_def Let_def elim!: bindr_InrE split: if_splits)
  have "cat_Shards (rt_catalog r) \<noteq> []" using validated_shards_nonempty ok by blast
  moreover have "PlacementStrategyTokenRange \<noteq> PlacementStrategyLegacyModulo" by (simp add: state_defs)
  ultimately have "ShardForUint64 (Some r) h = Inr s \<longleftrightarrow>
      (case lookupNormal (rt_normalRanges r) h of Some s \<Rightarrow> Some s
       | None \<Rightarrow> lookupSpecial (rt_specialRanges r) h) = Some s"
    using assms(2) by (auto simp: ShardForUint64_def Let_def split: option.splits)
  also have "\<dots> \<longleftrightarrow> (\<exists>rng. (s, rng) \<in> set (routableRanges (cat_Shards (rt_catalog r))) \<and> Contains rng h)"
    unfolding tables by (rule validated.lookup_owner [OF ok])
  finally show ?thesis .
qed

lemma default_router:
  assumes "n \<le> 2 ^ 32"
  shows "\<exists>r. NewRouterFromCatalog now (DefaultPlacement now n '''' [] [] zeroCapacity PlacementStrategyTokenRange) = Inr r \<and>
    rt_catalog r = DefaultPlacement now n '''' [] [] zeroCapacity PlacementStrategyTokenRange \<and>
    cat_Strategy (rt_catalog r) = PlacementStrategyTokenRange \<and>
    length (cat_Shards (rt_catalog r)) = nat (max 1 n)"
proof -
  let ?c = "DefaultPlacement now n '''' [] [] zeroCapacity PlacementStrategyTokenRange"
  have v: "ValidatePlacement now ?c = Inr ()"
    unfolding DefaultPlacement_def by (rule default_valid) (use assms in simp_all)
  have "Normalize now ?c = ?c" by (simp add: DefaultPlacement_def DefaultPlacementWithReplicationFactor_def Let_def)
  moreover have "length (cat_Shards ?c) = nat (max 1 n)" "cat_Strategy ?c = PlacementStrategyTokenRange"
    by (simp_all add: DefaultPlacement_def DefaultPlacementWithReplicationFactor_def Let_def Normalize_def)
  ultimately show ?thesis
    using v by (auto simp: NewRouterFromCatalog_def Let_def)
qed

text \<open>
  A router built from a token-range catalog returns, for every token, the shard that owns
  it: the one routable shard with a range that contains the token. The binary search over
  ordered ranges followed by the scan of the wrapping ones never picks another.
\<close>

lemma router_returns_owner:
  assumes "NewRouterFromCatalog now cat = Inr r"
    and "cat_Strategy (rt_catalog r) = PlacementStrategyTokenRange"
  shows "ShardForUint64 (Some r) h = Inr s \<longleftrightarrow>
    (\<exists>sh\<in>set (cat_Shards (Normalize now cat)). sh_ID sh = s \<and> Routable (sh_State sh) \<and>
       (\<exists>rng\<in>set (sh_Ranges sh). Contains rng h))"
  using route_token_range [OF assms, of h s] NewRouter_catalog(1) [OF assms(1)]
  by (auto simp: routableRanges_mem)

theorem router_returns_owner_witness:
  "\<exists>r. NewRouterFromCatalog 5 (DefaultPlacement 5 1 '''' [] [] zeroCapacity PlacementStrategyTokenRange) = Inr r \<and>
     ShardForUint64 (Some r) 9 = Inr 0"
proof -
  let ?c = "DefaultPlacement 5 1 '''' [] [] zeroCapacity PlacementStrategyTokenRange"
  obtain r where r: "NewRouterFromCatalog 5 ?c = Inr r" "cat_Strategy (rt_catalog r) = PlacementStrategyTokenRange"
    using default_router [of 1 5] by auto
  have "\<exists>sh\<in>set (cat_Shards (Normalize 5 ?c)). sh_ID sh = 0 \<and> Routable (sh_State sh) \<and>
      (\<exists>rng\<in>set (sh_Ranges sh). Contains rng 9)"
    by (simp add: DefaultPlacement_def DefaultPlacementWithReplicationFactor_def Let_def Normalize_def
        default_shard_facts splitTokenRanges_def Contains_def normalizeShard_idem Routable_def)
  with router_returns_owner [OF r] r(1) show ?thesis by blast
qed

lemma validateShards_ids:
  "validateShards st i seen shs = Inr () \<Longrightarrow>
     (\<forall>k < length shs. sh_ID (shs ! k) = of_nat (i + k)) \<and> distinct (map sh_ID shs) \<and>
     set (map sh_ID shs) \<inter> set seen = {}"
proof (induction st i seen shs rule: validateShards.induct)
  case (2 st i seen sh shs)
  then have id: "sh_ID sh = of_nat i" and new: "sh_ID sh \<notin> set seen"
    and rest: "validateShards st (Suc i) (sh_ID sh # seen) shs = Inr ()"
    by (auto split: if_splits)
  have IH: "(\<forall>k < length shs. sh_ID (shs ! k) = of_nat (Suc i + k)) \<and> distinct (map sh_ID shs) \<and>
      set (map sh_ID shs) \<inter> set (sh_ID sh # seen) = {}"
    using 2 rest by (auto split: if_splits)
  then show ?case using id new by (auto simp: nth_Cons split: nat.splits)
qed simp

lemma validated_ids:
  assumes "validateNormalized cat = Inr ()"
  shows "k < length (cat_Shards cat) \<Longrightarrow> sh_ID (cat_Shards cat ! k) = of_nat k"
    and "length (cat_Shards cat) \<le> 2 ^ 32" and "distinct (map sh_ID (cat_Shards cat))"
proof -
  have v: "validateShards (cat_Strategy cat) 0 [] (cat_Shards cat) = Inr ()"
    using assms by (auto simp: validateNormalized_def split: if_splits elim!: bindr_InrE)
  from validateShards_ids [OF v]
  show "k < length (cat_Shards cat) \<Longrightarrow> sh_ID (cat_Shards cat ! k) = of_nat k"
    and d: "distinct (map sh_ID (cat_Shards cat))" by simp_all
  have "length (cat_Shards cat) = card (set (map sh_ID (cat_Shards cat)))"
    using distinct_card [OF d] by simp
  also have "\<dots> \<le> card (UNIV :: uint32 set)" by (rule card_mono) simp_all
  finally show "length (cat_Shards cat) \<le> 2 ^ 32" by (simp add: card_word)
qed

lemma legacy_route_mem:
  assumes "validateNormalized cat = Inr ()"
  shows "ucast (h mod of_nat (length (cat_Shards cat)) :: uint64) \<in> set (map sh_ID (cat_Shards cat))"
proof -
  let ?n = "length (cat_Shards cat)" and ?k = "unat (h mod of_nat (length (cat_Shards cat)))"
  have n: "0 < ?n" "?n \<le> 2 ^ 32" using validated_ids(2) [OF assms] validated_shards_nonempty [OF assms] by simp_all
  have "unat (of_nat ?n :: uint64) = ?n" using n by (simp add: unat_of_nat)
  then have k: "?k < ?n" using n by (simp add: unat_mod)
  have "ucast (h mod of_nat ?n) = (of_nat ?k :: uint32)" by simp
  also have "\<dots> = sh_ID (cat_Shards cat ! ?k)" using validated_ids(1) [OF assms k] by simp
  finally show ?thesis using k by auto
qed

lemma route_exists:
  assumes "NewRouterFromCatalog now cat = Inr r"
  shows "\<exists>s. ShardForUint64 (Some r) h = Inr s \<and> s \<in> set (ShardIDs (Some r))"
proof (cases "cat_Strategy (rt_catalog r) = PlacementStrategyTokenRange")
  case True
  have "validateNormalized (rt_catalog r) = Inr () \<and> cat_Strategy (rt_catalog r) = PlacementStrategyTokenRange"
    using NewRouter_catalog [OF assms] True by simp
  from validated.owner_exists [OF this, of h] obtain s rng
    where "(s, rng) \<in> set (routableRanges (cat_Shards (rt_catalog r)))" "Contains rng h" by auto
  with route_token_range [OF assms True] show ?thesis
    by (auto simp: routableRanges_mem ShardIDs_def)
next
  case False
  have v: "validateNormalized (rt_catalog r) = Inr ()" using NewRouter_catalog [OF assms] by simp
  with False have "cat_Strategy (rt_catalog r) = PlacementStrategyLegacyModulo"
    by (auto simp: validateNormalized_def split: if_splits)
  moreover have "(0 :: uint32) \<in> set (map sh_ID (cat_Shards (rt_catalog r)))"
    using validated_ids(1) [OF v, of 0] validated_shards_nonempty [OF v] by (cases "cat_Shards (rt_catalog r)") auto
  ultimately show ?thesis
    using legacy_route_mem [OF v, of h] validated_shards_nonempty [OF v]
    by (auto simp: ShardForUint64_def ShardIDs_def Let_def)
qed

text \<open>
  C35. Routing is total: with a router built from any accepted catalog, of either strategy, a
  token is routed to one of the catalog's shards and \<^verbatim>\<open>ErrNoShardForToken\<close> never occurs.
\<close>

theorem routing_total:
  assumes "NewRouterFromCatalog now cat = Inr r"
  shows "\<exists>s. ShardForUint64 (Some r) h = Inr s \<and> s \<in> set (ShardIDs (Some r))"
  using assms by (rule route_exists)

theorem routing_total_witness:
  "\<exists>r s. NewRouterFromCatalog 5 (DefaultPlacement 5 3 '''' [] [] zeroCapacity PlacementStrategyTokenRange) = Inr r \<and>
     ShardForUint64 (Some r) 123456789 = Inr s \<and> s \<in> set (ShardIDs (Some r))"
  using default_router [of 3 5] routing_total [of 5 "DefaultPlacement 5 3 '''' [] [] zeroCapacity PlacementStrategyTokenRange"]
  by force

text \<open>
  \<^verbatim>\<open>NewRouter(n)\<close> does not panic for any \<open>n\<close> up to the number of shard IDs, and it routes over
  \<open>n\<close> shards (one, when \<open>n\<close> is not positive).
\<close>

lemma new_router_total:
  assumes "n \<le> 2 ^ 32"
  shows "\<exists>r. NewRouter now n = Some r \<and> Count (Some r) = nat (max 1 n)"
  using default_router [OF assms, of now] by (auto simp: NewRouter_def Count_def)

theorem new_router_total_witness: "\<exists>r. NewRouter 5 16 = Some r \<and> Count (Some r) = 16"
  using new_router_total [of 16 5] by simp

end
