(* ===== verification/PlacementPlans.thy ===== *)
theory PlacementPlans
  imports PlacementPolicy Routing GoStrings
begin

text \<open>
  Placement plans: \<^verbatim>\<open>planner.go\<close>, \<^verbatim>\<open>plan_strategy.go\<close> and the five strategies \<^verbatim>\<open>plan_split.go\<close>,
  \<^verbatim>\<open>plan_move.go\<close>, \<^verbatim>\<open>plan_range_move.go\<close>, \<^verbatim>\<open>plan_drain.go\<close>, \<^verbatim>\<open>plan_decommission.go\<close> of
  \<^verbatim>\<open>internal/placement\<close>, and \<^verbatim>\<open>NewNodeID\<close> of \<^verbatim>\<open>internal/core/model/ids.go\<close>.

  A plan carries the catalog before and after and the steps to get there. The operator-facing
  texts (\<^verbatim>\<open>Warnings\<close> of a plan, \<^verbatim>\<open>Detail\<close> of a step) are not modelled. \<^verbatim>\<open>now\<close> is the clock. A nil
  pointer in a request is \<open>None\<close>.
\<close>

section \<open>Requests and plans\<close>

datatype PlacementOperation =
    OperationSplit | OperationMove | OperationRangeMove | OperationDrain | OperationDecommission
  | OperationOther string

record PlacementPlanRequest =
  rq_Operation :: PlacementOperation
  rq_ShardID :: uint32
  rq_SplitToken :: "uint64 option"
  rq_NewShardID :: "uint32 option"
  rq_TargetShardID :: "uint32 option"
  rq_RangeStart :: "uint64 option"
  rq_RangeEnd :: "uint64 option"
  rq_SourceNode :: string
  rq_TargetNode :: string
  rq_TargetNodes :: "string list"
  rq_TargetVoters :: "string list"
  rq_NodeID :: string
  rq_MinVoters :: int

record PlacementPlanStep =
  st_Action :: string
  st_ShardID :: "uint32 option"
  st_NodeID :: string
  st_Addr :: string

record PlacementPlan =
  pl_Operation :: PlacementOperation
  pl_BeforeEpoch :: uint64
  pl_AfterEpoch :: uint64
  pl_Before :: PlacementCatalog
  pl_After :: PlacementCatalog
  pl_Steps :: "PlacementPlanStep list"
  pl_RequiresDataCopy :: bool
  pl_RequiresRestart :: bool
  pl_ApplySupported :: bool

definition mkStep :: "string \<Rightarrow> uint32 option \<Rightarrow> string \<Rightarrow> string \<Rightarrow> PlacementPlanStep" where
  "mkStep action shard node addr =
     \<lparr>st_Action = action, st_ShardID = shard, st_NodeID = node, st_Addr = addr\<rparr>"

definition mkPlan :: "PlacementOperation \<Rightarrow> PlacementCatalog \<Rightarrow> PlacementCatalog \<Rightarrow> PlacementPlanStep list \<Rightarrow>
    bool \<Rightarrow> PlacementPlan" where
  "mkPlan op before after steps copy =
     \<lparr>pl_Operation = op, pl_BeforeEpoch = cat_Epoch before, pl_AfterEpoch = cat_Epoch after,
      pl_Before = before, pl_After = after, pl_Steps = steps, pl_RequiresDataCopy = copy,
      pl_RequiresRestart = False, pl_ApplySupported = True\<rparr>"

section \<open>Shared steps\<close>

definition NextCatalog :: "int \<Rightarrow> PlacementCatalog \<Rightarrow> PlacementCatalog" where
  "NextCatalog now cat = cat\<lparr>cat_Epoch := cat_Epoch cat + 1, cat_UpdatedAtUnix := now\<rparr>"

fun findShardFrom :: "nat \<Rightarrow> ShardPlacement list \<Rightarrow> uint32 \<Rightarrow> plan_error + (nat \<times> ShardPlacement)" where
  "findShardFrom i [] shardID = Inl (ShardDoesNotExist shardID)"
| "findShardFrom i (sh # shards) shardID =
     (if sh_ID sh = shardID then Inr (i, sh) else findShardFrom (Suc i) shards shardID)"

definition FindShard :: "PlacementCatalog \<Rightarrow> uint32 \<Rightarrow> plan_error + (nat \<times> ShardPlacement)" where
  "FindShard cat shardID = findShardFrom 0 (cat_Shards cat) shardID"

text \<open>\<^verbatim>\<open>after.Normalize(); if err := ValidatePlacement(after)\<close>, the end of every strategy.\<close>

definition finishCatalog :: "int \<Rightarrow> PlacementCatalog \<Rightarrow> plan_error + PlacementCatalog" where
  "finishCatalog now after0 =
     (let after = Normalize now after0 in
      bindr (wrapr PlanCatalog (ValidatePlacement now after)) (\<lambda>_. Inr after))"

definition nodeRaftAddr :: "PlacementCatalog \<Rightarrow> string \<Rightarrow> string" where
  "nodeRaftAddr cat nid = (case map_of (cat_Nodes cat) nid of None \<Rightarrow> '''' | Some node \<Rightarrow> node_RaftAddr node)"

definition membershipDiffSteps ::
  "PlacementCatalog \<Rightarrow> uint32 \<Rightarrow> string list \<Rightarrow> string list \<Rightarrow> PlacementPlanStep list" where
  "membershipDiffSteps cat shardID current target =
     map (\<lambda>n. mkStep ''add_voter'' (Some shardID) n (nodeRaftAddr cat n))
       (filter (\<lambda>n. \<not> containsString current n) target) @
     map (\<lambda>n. mkStep ''wait_catchup'' (Some shardID) n '''')
       (filter (\<lambda>n. \<not> containsString current n) target) @
     map (\<lambda>n. mkStep ''remove_voter'' (Some shardID) n '''')
       (filter (\<lambda>n. \<not> containsString target n) current)"

text \<open>
  How many references the node still has. The code builds one message per reference; only
  whether there is any matters to the caller.
\<close>

definition PlacementNodeActiveReferences :: "PlacementCatalog \<Rightarrow> string \<Rightarrow> nat" where
  "PlacementNodeActiveReferences cat key =
     sum_list (map (\<lambda>shard.
       if sh_State shard = ShardStateDecommissioned then 0
       else (if containsString (sh_Voters shard) key then 1 else 0) +
            (if containsString (sh_NonVoters shard) key then 1 else 0) +
            (if sh_LeaderHint shard = key then 1 else 0)) (cat_Shards cat))"

definition targetVoters ::
  "PlacementCatalog \<Rightarrow> ShardPlacement \<Rightarrow> PlacementPlanRequest \<Rightarrow> plan_error + string list" where
  "targetVoters cat parent req =
     (if rq_TargetVoters req \<noteq> [] then
        bindr (validateNodeSet cat (rq_TargetVoters req) (minVoters (rq_MinVoters req))) (\<lambda>_.
          Inr (sortedUnique (rq_TargetVoters req)))
      else selectPlacementVoters cat (targetVoterCount (rq_MinVoters req) (sh_Voters parent)) [])"

text \<open>The next shard ID, which a request may only confirm.\<close>

definition nextShardID :: "PlacementCatalog \<Rightarrow> uint32 option \<Rightarrow> plan_error + uint32" where
  "nextShardID cat requested =
     (let newShardID = (case requested of None \<Rightarrow> of_nat (length (cat_Shards cat)) | Some v \<Rightarrow> v) in
      if unat newShardID \<noteq> length (cat_Shards cat) then Inl (WrongNewShardID (length (cat_Shards cat)))
      else Inr newShardID)"

text \<open>
  The transition of a split or a range move: the source enters \<open>state\<close> and keeps its ranges, a
  new shard is appended in state \<^verbatim>\<open>creating\<close>.
\<close>

definition applyTransition :: "int \<Rightarrow> ShardState \<Rightarrow> PlacementCatalog \<Rightarrow> nat \<Rightarrow> uint32 \<Rightarrow> TokenRange \<Rightarrow>
    string list \<Rightarrow> plan_error + PlacementCatalog" where
  "applyTransition now state cat idx newID rng voters =
     (let after = NextCatalog now cat;
          epoch = cat_Epoch after;
          source = (cat_Shards after ! idx)\<lparr>sh_State := state, sh_Epoch := epoch\<rparr>;
          child = \<lparr>sh_ID = newID, sh_Ranges = [rng], sh_State = ShardStateCreating, sh_Epoch = epoch,
                   sh_Voters = voters, sh_NonVoters = [], sh_LeaderHint = leaderHintForShard voters newID\<rparr>
      in finishCatalog now (after\<lparr>cat_Shards := (cat_Shards after)[idx := source] @ [child]\<rparr>))"

section \<open>Split\<close>

definition validateSplitTarget ::
  "PlacementCatalog \<Rightarrow> PlacementPlanRequest \<Rightarrow> plan_error + (nat \<times> ShardPlacement)" where
  "validateSplitTarget cat req =
     (if cat_Strategy cat \<noteq> PlacementStrategyTokenRange then Inl (WrongStrategy (cat_Strategy cat))
      else bindr (FindShard cat (rq_ShardID req)) (\<lambda>(idx, shard).
        if \<not> Routable (sh_State shard) then Inl (NotRoutable (sh_ID shard))
        else if length (sh_Ranges shard) \<noteq> 1 then Inl (NeedsOneRange (sh_ID shard))
        else Inr (idx, shard)))"

definition splitChildRange :: "ShardPlacement \<Rightarrow> PlacementPlanRequest \<Rightarrow> plan_error + TokenRange" where
  "splitChildRange shard req =
     (let rng = sh_Ranges shard ! 0;
          split = (case rq_SplitToken req of None \<Rightarrow> midpointToken rng | Some t \<Rightarrow> t)
      in if \<not> TokenStrictlyInside rng split then Inl (SplitTokenOutside split)
         else Inr (snd (SplitRange rng split)))"

definition splitNewShardID :: "PlacementCatalog \<Rightarrow> PlacementPlanRequest \<Rightarrow> plan_error + uint32" where
  "splitNewShardID cat req = nextShardID cat (rq_NewShardID req)"

definition splitChildVoters ::
  "PlacementCatalog \<Rightarrow> ShardPlacement \<Rightarrow> PlacementPlanRequest \<Rightarrow> plan_error + string list" where
  "splitChildVoters cat parent req = targetVoters cat parent req"

definition applySplitTransition :: "int \<Rightarrow> PlacementCatalog \<Rightarrow> nat \<Rightarrow> uint32 \<Rightarrow> TokenRange \<Rightarrow> string list \<Rightarrow>
    plan_error + PlacementCatalog" where
  "applySplitTransition now cat idx newShardID childRange voters =
     applyTransition now ShardStateSplitting cat idx newShardID childRange voters"

definition planSplit :: "int \<Rightarrow> PlacementCatalog \<Rightarrow> PlacementPlanRequest \<Rightarrow> plan_error + PlacementPlan" where
  "planSplit now cat req =
     bindr (validateSplitTarget cat req) (\<lambda>(idx, shard).
     bindr (splitNewShardID cat req) (\<lambda>newShardID.
     bindr (splitChildRange shard req) (\<lambda>childRange.
     bindr (splitChildVoters cat shard req) (\<lambda>voters.
     bindr (applySplitTransition now cat idx newShardID childRange voters) (\<lambda>after.
       Inr (mkPlan OperationSplit cat after [mkStep ''create_shard'' (Some newShardID) '''' ''''] True))))))"

section \<open>Move\<close>

definition moveVoterPlan :: "PlacementCatalog \<Rightarrow> ShardPlacement \<Rightarrow> PlacementPlanRequest \<Rightarrow>
    plan_error + (string list \<times> PlacementPlanStep list)" where
  "moveVoterPlan cat shard req =
     (let minV = minVoters (rq_MinVoters req) in
      if rq_TargetVoters req \<noteq> [] then
        (let voters = sortedUnique (rq_TargetVoters req) in
         bindr (validateNodeSet cat voters minV) (\<lambda>_.
           Inr (voters, membershipDiffSteps cat (sh_ID shard) (sh_Voters shard) voters)))
      else if rq_SourceNode req = '''' \<or> rq_TargetNode req = '''' then Inl MoveNeedsNodes
      else if rq_SourceNode req = rq_TargetNode req then Inl SourceEqualsTarget
      else
        bindr (validateNodeSet cat [rq_TargetNode req] 1) (\<lambda>_.
          if \<not> containsString (sh_Voters shard) (rq_SourceNode req) then Inl (SourceNotVoter (rq_SourceNode req))
          else
            (let voters = replaceVoter (sh_Voters shard) (rq_SourceNode req) (rq_TargetNode req) in
             if int (length voters) < minV then Inl (TooFewVoters (length voters) minV)
             else Inr (voters,
               [mkStep ''add_voter'' (Some (sh_ID shard)) (rq_TargetNode req) (nodeRaftAddr cat (rq_TargetNode req)),
                mkStep ''wait_catchup'' (Some (sh_ID shard)) (rq_TargetNode req) '''',
                mkStep ''remove_voter'' (Some (sh_ID shard)) (rq_SourceNode req) '''']))))"

definition planMove :: "int \<Rightarrow> PlacementCatalog \<Rightarrow> PlacementPlanRequest \<Rightarrow> plan_error + PlacementPlan" where
  "planMove now cat req =
     bindr (FindShard cat (rq_ShardID req)) (\<lambda>(idx, shard).
       if sh_Voters shard = [] then Inl (NoVoters (sh_ID shard))
       else
         bindr (moveVoterPlan cat shard req) (\<lambda>(voters, steps).
           let after = NextCatalog now cat;
               sh0 = cat_Shards after ! idx;
               sh1 = sh0\<lparr>sh_State := ShardStateActive, sh_Epoch := cat_Epoch after, sh_Voters := voters,
                          sh_NonVoters := removeAny (sh_NonVoters sh0) voters\<rparr>;
               sh2 = sh1\<lparr>sh_LeaderHint := normalizeLeaderHint sh1\<rparr>
           in bindr (finishCatalog now (after\<lparr>cat_Shards := (cat_Shards after)[idx := sh2]\<rparr>)) (\<lambda>after'.
                Inr (mkPlan OperationMove cat after' steps False))))"

section \<open>Range move\<close>

definition validateRangeOwnedBySource :: "ShardPlacement \<Rightarrow> TokenRange \<Rightarrow> plan_error + unit" where
  "validateRangeOwnedBySource source moveRange =
     bindr (wrapr RangeNotOwned (SubtractTokenRanges (sh_Ranges source) moveRange)) (\<lambda>sourceRangesAfter.
       if length sourceRangesAfter = length (sh_Ranges source) \<and> sameTokenRanges sourceRangesAfter (sh_Ranges source)
       then Inl RangeUnchanged else Inr ())"

definition validateRangeMoveInputs ::
  "PlacementCatalog \<Rightarrow> PlacementPlanRequest \<Rightarrow> plan_error + (nat \<times> ShardPlacement \<times> TokenRange)" where
  "validateRangeMoveInputs cat req =
     (if cat_Strategy cat \<noteq> PlacementStrategyTokenRange then Inl (WrongStrategy (cat_Strategy cat))
      else
        (case (rq_RangeStart req, rq_RangeEnd req) of
           (Some s, Some e) \<Rightarrow>
             bindr (FindShard cat (rq_ShardID req)) (\<lambda>(idx, source).
               if sh_State source \<noteq> ShardStateActive then Inl (SourceNotActive (sh_ID source))
               else bindr (validateRangeOwnedBySource source (mkRange s e)) (\<lambda>_.
                 Inr (idx, source, mkRange s e)))
         | _ \<Rightarrow> Inl NeedsRangeBounds))"

definition rangeMoveTargetID :: "PlacementCatalog \<Rightarrow> PlacementPlanRequest \<Rightarrow> plan_error + uint32" where
  "rangeMoveTargetID cat req = nextShardID cat (rq_TargetShardID req)"

definition rangeMoveVoters ::
  "PlacementCatalog \<Rightarrow> ShardPlacement \<Rightarrow> PlacementPlanRequest \<Rightarrow> plan_error + string list" where
  "rangeMoveVoters cat source req = targetVoters cat source req"

definition rangeMoveSteps :: "uint32 \<Rightarrow> uint32 \<Rightarrow> PlacementPlanStep list" where
  "rangeMoveSteps sourceID targetID =
     [mkStep ''create_shard'' (Some targetID) '''' '''', mkStep ''target_membership'' (Some targetID) '''' '''',
      mkStep ''copy_range'' (Some sourceID) '''' '''', mkStep ''wait_catchup'' (Some targetID) '''' '''',
      mkStep ''publish_cutover'' (Some targetID) '''' '''', mkStep ''cleanup_source'' (Some sourceID) '''' '''']"

definition applyRangeMoveTransition :: "int \<Rightarrow> PlacementCatalog \<Rightarrow> nat \<Rightarrow> uint32 \<Rightarrow> TokenRange \<Rightarrow> string list \<Rightarrow>
    plan_error + PlacementCatalog" where
  "applyRangeMoveTransition now cat idx targetShardID moveRange voters =
     applyTransition now ShardStateMoving cat idx targetShardID moveRange voters"

definition planRangeMove :: "int \<Rightarrow> PlacementCatalog \<Rightarrow> PlacementPlanRequest \<Rightarrow> plan_error + PlacementPlan" where
  "planRangeMove now cat req =
     bindr (validateRangeMoveInputs cat req) (\<lambda>(idx, source, moveRange).
     bindr (rangeMoveTargetID cat req) (\<lambda>targetShardID.
     bindr (rangeMoveVoters cat source req) (\<lambda>voters.
       if voters = [] then Inl (NoVoters targetShardID)
       else bindr (applyRangeMoveTransition now cat idx targetShardID moveRange voters) (\<lambda>after.
         Inr (mkPlan OperationRangeMove cat after (rangeMoveSteps (sh_ID source) targetShardID) True)))))"

section \<open>Drain\<close>

text \<open>
  \<^verbatim>\<open>strings.TrimSpace(v) != v\<close>: the UTF-8 form of a Unicode white-space character stands at an
  end of the string.
\<close>

definition hasEdgeSpace :: "string \<Rightarrow> bool" where
  "hasEdgeSpace v \<longleftrightarrow> list_ex (\<lambda>e. prefix e v \<or> prefix (rev e) (rev v)) spaceEncodings"

definition NewNodeID :: "string \<Rightarrow> string option" where
  "NewNodeID v = (if v = '''' then None else if hasEdgeSpace v then None else Some v)"

definition validateDrainInputs :: "PlacementCatalog \<Rightarrow> PlacementPlanRequest \<Rightarrow> plan_error + string" where
  "validateDrainInputs cat req =
     (case NewNodeID (rq_NodeID req) of
        None \<Rightarrow> Inl NeedsNodeID
      | Some nodeID \<Rightarrow>
          if map_of (cat_Nodes cat) nodeID = None then Inl (UnknownNode nodeID) else Inr nodeID)"

definition drainTargets :: "PlacementCatalog \<Rightarrow> PlacementPlanRequest \<Rightarrow> plan_error + string list" where
  "drainTargets cat req =
     (let targets0 = sortedUnique (rq_TargetNodes req);
          targets = (if targets0 = [] \<and> rq_TargetNode req \<noteq> '''' then [rq_TargetNode req] else targets0)
      in bindr (validateNodeSet cat targets 0) (\<lambda>_.
           if containsString targets (rq_NodeID req) then Inl (TargetIsDraining (rq_NodeID req)) else Inr targets))"

text \<open>\<^verbatim>\<open>node := after.Nodes[key]; node.State = st; after.Nodes[key] = node\<close> for a key that is present.\<close>

definition setNodeState :: "NodeState \<Rightarrow> string \<Rightarrow> PlacementCatalog \<Rightarrow> PlacementCatalog" where
  "setNodeState st key cat =
     cat\<lparr>cat_Nodes := map (\<lambda>(nid, node). if nid = key then (nid, node\<lparr>node_State := st\<rparr>) else (nid, node))
           (cat_Nodes cat)\<rparr>"

definition markNodeDraining :: "int \<Rightarrow> PlacementCatalog \<Rightarrow> string \<Rightarrow> PlacementCatalog" where
  "markNodeDraining now cat nodeID = setNodeState NodeStateDraining nodeID (NextCatalog now cat)"

definition drainShardReferences :: "ShardPlacement \<Rightarrow> string \<Rightarrow> bool" where
  "drainShardReferences sh nodeID \<longleftrightarrow>
     containsString (sh_Voters sh) nodeID \<or> containsString (sh_NonVoters sh) nodeID \<or> sh_LeaderHint sh = nodeID"

fun appendMissing :: "string list \<Rightarrow> string list \<Rightarrow> string list" where
  "appendMissing voters [] = voters"
| "appendMissing voters (t # ts) =
     appendMissing (if \<not> containsString voters t then voters @ [t] else voters) ts"

definition drainPickVoters :: "PlacementCatalog \<Rightarrow> ShardPlacement \<Rightarrow> string list \<Rightarrow> string list \<Rightarrow>
    PlacementPlanRequest \<Rightarrow> plan_error + string list" where
  "drainPickVoters cat sh remainingVoters targets req =
     (if targets \<noteq> [] then
        (let voters = sort (appendMissing remainingVoters targets) in
         if int (length voters) < minVoters (rq_MinVoters req)
         then Inl (TooFewVoters (length voters) (minVoters (rq_MinVoters req)))
         else Inr voters)
      else selectPlacementVoters cat (targetVoterCount (rq_MinVoters req) (sh_Voters sh)) remainingVoters)"

text \<open>
  The loop of \<^verbatim>\<open>drainShards\<close>, which rewrites \<^verbatim>\<open>after.Shards\<close> in place and reads the catalog again for
  every shard (the policy's loads count the shards already rewritten): \<open>i\<close> is the position.
\<close>

fun drainShardsFrom :: "nat \<Rightarrow> nat \<Rightarrow> PlacementCatalog \<Rightarrow> PlacementPlanRequest \<Rightarrow> string list \<Rightarrow> PlacementPlanStep list \<Rightarrow>
    nat \<Rightarrow> plan_error + (PlacementCatalog \<times> PlacementPlanStep list \<times> nat)" where
  "drainShardsFrom 0 i after req targets steps affected = Inr (after, steps, affected)"
| "drainShardsFrom (Suc left) i after req targets steps affected =
     (let sh = cat_Shards after ! i in
      if \<not> drainShardReferences sh (rq_NodeID req)
      then drainShardsFrom left (Suc i) after req targets steps affected
      else
        bindr (drainPickVoters after sh (RemoveString (sh_Voters sh) (rq_NodeID req)) targets req) (\<lambda>voters.
          let sh' = sh\<lparr>sh_Voters := voters, sh_NonVoters := RemoveString (sh_NonVoters sh) (rq_NodeID req),
                       sh_LeaderHint := (if sh_LeaderHint sh = rq_NodeID req \<or> \<not> containsString voters (sh_LeaderHint sh)
                                         then '''' else sh_LeaderHint sh),
                       sh_State := ShardStateActive, sh_Epoch := cat_Epoch after\<rparr>
          in drainShardsFrom left (Suc i) (after\<lparr>cat_Shards := (cat_Shards after)[i := sh']\<rparr>) req targets
               (steps @ membershipDiffSteps after (sh_ID sh) (sh_Voters sh) voters) (Suc affected)))"

definition executeDrainShards :: "PlacementCatalog \<Rightarrow> PlacementPlanRequest \<Rightarrow> string \<Rightarrow> string list \<Rightarrow>
    plan_error + (PlacementCatalog \<times> PlacementPlanStep list)" where
  "executeDrainShards after req nodeID targets =
     bindr (drainShardsFrom (length (cat_Shards after)) 0 after req targets [] 0) (\<lambda>(after', steps, affected).
       if affected = 0 then Inl (NodeUnreferenced nodeID) else Inr (after', steps))"

definition planDrain :: "int \<Rightarrow> PlacementCatalog \<Rightarrow> PlacementPlanRequest \<Rightarrow> plan_error + PlacementPlan" where
  "planDrain now cat req =
     bindr (validateDrainInputs cat req) (\<lambda>nodeID.
     bindr (drainTargets cat req) (\<lambda>targets.
     bindr (executeDrainShards (markNodeDraining now cat nodeID) req nodeID targets) (\<lambda>(after0, steps).
     bindr (finishCatalog now after0) (\<lambda>after.
       Inr (mkPlan OperationDrain cat after steps False)))))"

section \<open>Decommission\<close>

definition validateDecommissionInputs :: "PlacementCatalog \<Rightarrow> PlacementPlanRequest \<Rightarrow> plan_error + string" where
  "validateDecommissionInputs cat req =
     (case NewNodeID (rq_NodeID req) of
        None \<Rightarrow> Inl NeedsNodeID
      | Some key \<Rightarrow>
          (case map_of (cat_Nodes cat) key of
             None \<Rightarrow> Inl (UnknownNode key)
           | Some node \<Rightarrow>
               if node_State node = NodeStateDecommissioned then Inl (AlreadyDecommissioned key)
               else if node_State node \<noteq> NodeStateDraining then Inl (MustBeDraining key)
               else if 0 < PlacementNodeActiveReferences cat key then Inl (StillReferenced key)
               else Inr key))"

definition applyDecommissionTransition :: "int \<Rightarrow> PlacementCatalog \<Rightarrow> string \<Rightarrow> plan_error + PlacementCatalog" where
  "applyDecommissionTransition now cat key =
     finishCatalog now (setNodeState NodeStateDecommissioned key (NextCatalog now cat))"

definition planDecommission :: "int \<Rightarrow> PlacementCatalog \<Rightarrow> PlacementPlanRequest \<Rightarrow> plan_error + PlacementPlan" where
  "planDecommission now cat req =
     bindr (validateDecommissionInputs cat req) (\<lambda>key.
     bindr (applyDecommissionTransition now cat key) (\<lambda>after.
       Inr (mkPlan OperationDecommission cat after
         [mkStep ''verify_no_active_references'' None key '''', mkStep ''cleanup_unowned_data'' None key '''',
          mkStep ''compact_unowned_data'' None key '''', mkStep ''decommission_node'' None key ''''] False)))"

section \<open>Dispatch\<close>

definition BuildPlacementPlan :: "int \<Rightarrow> PlacementCatalog \<Rightarrow> PlacementPlanRequest \<Rightarrow> plan_error + PlacementPlan" where
  "BuildPlacementPlan now cat0 req =
     (let cat = Normalize now cat0 in
      bindr (wrapr PlanCatalog (ValidatePlacement now cat)) (\<lambda>_.
        case rq_Operation req of
          OperationSplit \<Rightarrow> planSplit now cat req
        | OperationMove \<Rightarrow> planMove now cat req
        | OperationRangeMove \<Rightarrow> planRangeMove now cat req
        | OperationDrain \<Rightarrow> planDrain now cat req
        | OperationDecommission \<Rightarrow> planDecommission now cat req
        | OperationOther _ \<Rightarrow> Inl UnknownOperation))"

section \<open>Every plan ends in a valid catalog\<close>

lemma finishCatalog_Inr:
  "finishCatalog now c = Inr after \<longleftrightarrow> after = Normalize now c \<and> validateNormalized after = Inr ()"
  by (auto simp: finishCatalog_def Let_def ValidatePlacement_def elim!: bindr_InrE)

text \<open>What all five strategies have in common.\<close>

definition plan_from :: "int \<Rightarrow> PlacementCatalog \<Rightarrow> PlacementPlan \<Rightarrow> bool" where
  "plan_from now cat plan \<longleftrightarrow>
     (\<exists>c. finishCatalog now c = Inr (pl_After plan) \<and> cat_Epoch c = cat_Epoch cat + 1) \<and>
     pl_Before plan = cat \<and> pl_BeforeEpoch plan = cat_Epoch cat \<and> pl_AfterEpoch plan = cat_Epoch (pl_After plan)"

lemma plan_fromI:
  "finishCatalog now c = Inr after \<Longrightarrow> cat_Epoch c = cat_Epoch cat + 1 \<Longrightarrow> plan_from now cat (mkPlan op cat after steps copy)"
  by (auto simp: plan_from_def mkPlan_def)

lemma NextCatalog_Epoch [simp]: "cat_Epoch (NextCatalog now cat) = cat_Epoch cat + 1"
  by (simp add: NextCatalog_def)

lemma NextCatalog_sel [simp]:
  "cat_Shards (NextCatalog now cat) = cat_Shards cat" "cat_Nodes (NextCatalog now cat) = cat_Nodes cat"
  "cat_Version (NextCatalog now cat) = cat_Version cat" "cat_Strategy (NextCatalog now cat) = cat_Strategy cat"
  by (simp_all add: NextCatalog_def)

lemma setNodeState_sel [simp]:
  "cat_Epoch (setNodeState st k cat) = cat_Epoch cat" "cat_Shards (setNodeState st k cat) = cat_Shards cat"
  "cat_Version (setNodeState st k cat) = cat_Version cat" "cat_Strategy (setNodeState st k cat) = cat_Strategy cat"
  by (simp_all add: setNodeState_def)

lemma planSplit_from: "planSplit now cat req = Inr plan \<Longrightarrow> plan_from now cat plan"
  by (auto simp: planSplit_def applySplitTransition_def applyTransition_def Let_def elim!: bindr_InrE intro!: plan_fromI)

lemma planMove_from: "planMove now cat req = Inr plan \<Longrightarrow> plan_from now cat plan"
  by (auto simp: planMove_def Let_def elim!: bindr_InrE intro!: plan_fromI split: if_splits)

lemma planRangeMove_from: "planRangeMove now cat req = Inr plan \<Longrightarrow> plan_from now cat plan"
  by (auto simp: planRangeMove_def applyRangeMoveTransition_def applyTransition_def Let_def elim!: bindr_InrE
      intro!: plan_fromI split: if_splits)

lemma planDecommission_from: "planDecommission now cat req = Inr plan \<Longrightarrow> plan_from now cat plan"
  by (auto simp: planDecommission_def applyDecommissionTransition_def elim!: bindr_InrE intro!: plan_fromI)

lemma drainShardsFrom_keeps:
  "drainShardsFrom k i c req targets steps n = Inr (c', steps', n') \<Longrightarrow>
     cat_Epoch c' = cat_Epoch c \<and> cat_Nodes c' = cat_Nodes c \<and> cat_Version c' = cat_Version c \<and>
     cat_Strategy c' = cat_Strategy c \<and> length (cat_Shards c') = length (cat_Shards c)"
proof (induction k i c req targets steps n rule: drainShardsFrom.induct)
  case (2 k i c req targets steps n)
  show ?case
  proof (cases "drainShardReferences (cat_Shards c ! i) (rq_NodeID req)")
    case False
    with 2(1) 2(3) show ?thesis by (simp add: Let_def)
  next
    case True
    with 2(3) obtain voters where
      v: "drainPickVoters c (cat_Shards c ! i) (RemoveString (sh_Voters (cat_Shards c ! i)) (rq_NodeID req)) targets req = Inr voters"
      by (auto simp: Let_def elim!: bindr_InrE)
    from 2(2) [OF refl _ v refl] 2(3) True v show ?thesis by (simp add: Let_def)
  qed
qed simp

lemma planDrain_from: "planDrain now cat req = Inr plan \<Longrightarrow> plan_from now cat plan"
  by (auto simp: planDrain_def executeDrainShards_def markNodeDraining_def elim!: bindr_InrE split: if_splits
      dest!: drainShardsFrom_keeps intro!: plan_fromI)

lemma plan_valid:
  assumes "BuildPlacementPlan now cat req = Inr plan"
  shows "ValidatePlacement now (pl_After plan) = Inr () \<and> Normalize now (pl_After plan) = pl_After plan \<and>
    pl_Before plan = Normalize now cat \<and>
    pl_AfterEpoch plan = (if pl_BeforeEpoch plan = - 1 then 1 else pl_BeforeEpoch plan + 1)"
proof -
  have "plan_from now (Normalize now cat) plan"
    using assms
    by (auto simp: BuildPlacementPlan_def Let_def elim!: bindr_InrE split: PlacementOperation.splits
        intro: planSplit_from planMove_from planRangeMove_from planDrain_from planDecommission_from)
  then obtain c where c: "pl_After plan = Normalize now c" "validateNormalized (pl_After plan) = Inr ()"
    "cat_Epoch c = cat_Epoch (Normalize now cat) + 1"
    and pl: "pl_Before plan = Normalize now cat" "pl_BeforeEpoch plan = cat_Epoch (Normalize now cat)"
      "pl_AfterEpoch plan = cat_Epoch (pl_After plan)"
    by (auto simp: plan_from_def finishCatalog_Inr)
  have "cat_Epoch (pl_After plan) = (if cat_Epoch c = 0 then 1 else cat_Epoch c)"
    by (simp add: c(1) Normalize_def Let_def)
  moreover have "cat_Epoch (Normalize now cat) + 1 = 0 \<longleftrightarrow> cat_Epoch (Normalize now cat) = - 1"
    by (metis add.commute add_eq_0_iff)
  ultimately show ?thesis using c pl by (simp add: ValidatePlacement_def)
qed

text \<open>
  C38. Whatever the operation, a plan ends in a valid catalog with the next epoch, so that it can
  be published and clients with the old epoch notice: the catalog after validates and is
  normalised, and its epoch is one above the catalog before (at the maximum \<^verbatim>\<open>uint64\<close> it restarts
  at 1).
\<close>

theorem plan_ends_in_valid_catalog:
  assumes "BuildPlacementPlan now cat req = Inr plan"
  shows "ValidatePlacement now (pl_After plan) = Inr () \<and> Normalize now (pl_After plan) = pl_After plan \<and>
    pl_Before plan = Normalize now cat \<and>
    pl_AfterEpoch plan = (if pl_BeforeEpoch plan = - 1 then 1 else pl_BeforeEpoch plan + 1)"
  using assms by (rule plan_valid)

text \<open>Requests on the three-node catalog: a split of shard 0, and a drain of its only voter.\<close>

definition demo_split :: PlacementPlanRequest where
  "demo_split = \<lparr>rq_Operation = OperationSplit, rq_ShardID = 0, rq_SplitToken = Some 0x8000000000000000,
     rq_NewShardID = None, rq_TargetShardID = None, rq_RangeStart = None, rq_RangeEnd = None, rq_SourceNode = [],
     rq_TargetNode = [], rq_TargetNodes = [], rq_TargetVoters = [], rq_NodeID = [], rq_MinVoters = 1\<rparr>"

definition demo_drain :: PlacementPlanRequest where
  "demo_drain = demo_split\<lparr>rq_Operation := OperationDrain, rq_NodeID := ''a''\<rparr>"

lemma demo_plans: "is_ok (BuildPlacementPlan 5 demo_catalog demo_split)" "is_ok (BuildPlacementPlan 5 demo_catalog demo_drain)"
  "is_ok (NewRouterFromCatalog 5 demo_catalog)"
  by code_simp+

theorem plan_ends_in_valid_catalog_witness:
  "\<exists>plan. BuildPlacementPlan 5 demo_catalog demo_split = Inr plan \<and> ValidatePlacement 5 (pl_After plan) = Inr () \<and>
     pl_BeforeEpoch plan = 1 \<and> pl_AfterEpoch plan = 2"
proof -
  obtain plan where plan: "BuildPlacementPlan 5 demo_catalog demo_split = Inr plan" using demo_plans(1) by (auto simp: is_ok_iff)
  moreover have "map_sum id pl_BeforeEpoch (BuildPlacementPlan 5 demo_catalog demo_split) = Inr 1" by code_simp
  ultimately show ?thesis using plan_ends_in_valid_catalog [OF plan] by simp
qed

section \<open>Splits and range moves keep routing\<close>

lemma findShardFrom_Inr:
  "findShardFrom i shs sid = Inr (j, sh) \<Longrightarrow> i \<le> j \<and> j - i < length shs \<and> sh = shs ! (j - i) \<and> sh_ID sh = sid"
proof (induction shs arbitrary: i)
  case (Cons x shs)
  show ?case
  proof (cases "sh_ID x = sid")
    case False
    with Cons.prems have "findShardFrom (Suc i) shs sid = Inr (j, sh)" by simp
    from Cons.IH [OF this] show ?thesis by (auto simp: nth_Cons split: nat.splits) (metis Suc_diff_Suc Suc_le_eq nth_Cons_Suc)+
  qed (use Cons.prems in auto)
qed simp

lemma FindShard_Inr:
  "FindShard cat sid = Inr (j, sh) \<Longrightarrow> j < length (cat_Shards cat) \<and> sh = cat_Shards cat ! j \<and> sh_ID sh = sid"
  using findShardFrom_Inr [of 0] by (auto simp: FindShard_def)

lemma routableRanges_normalize: "routableRanges (map (normalizeShard e) shs) = routableRanges shs"
  by (simp add: routableRanges_def o_def cong: if_cong)

lemma routableRanges_update:
  assumes "i < length shs" and "sh_ID y = sh_ID (shs ! i)" "sh_Ranges y = sh_Ranges (shs ! i)"
    "Routable (sh_State y) = Routable (sh_State (shs ! i))"
  shows "routableRanges (shs[i := y]) = routableRanges shs"
proof -
  let ?f = "\<lambda>sh. if \<not> Routable (sh_State sh) then [] else map (\<lambda>r. (sh_ID sh, r)) (sh_Ranges sh)"
  have "?f y = ?f (shs ! i)" using assms(2-4) by (simp cong: if_cong)
  then have "map ?f (shs[i := y]) = (map ?f shs)[i := ?f (shs ! i)]" by (simp only: map_update)
  also have "?f (shs ! i) = map ?f shs ! i" by (rule nth_map [OF assms(1), symmetric])
  also have "(map ?f shs)[i := map ?f shs ! i] = map ?f shs" by (rule list_update_id)
  finally show ?thesis by (simp add: routableRanges_def)
qed

lemma sort_contiguous:
  assumes "\<And>k. k < length shs \<Longrightarrow> sh_ID (shs ! k) = of_nat k" and "length shs \<le> 2 ^ 32"
  shows "sort_key sh_ID shs = shs"
proof -
  have "map (\<lambda>i. shs ! i) [0 ..< length shs] = shs" by (rule map_nth)
  with map_sorted_ids [of "length shs" "\<lambda>i. shs ! i"] assms show ?thesis by simp
qed

lemma transition_ranges:
  assumes "validateNormalized cat = Inr ()" and "idx < length (cat_Shards cat)"
    and "unat newID = length (cat_Shards cat)" and "Routable (sh_State (cat_Shards cat ! idx))" and "Routable st"
    and "applyTransition now st cat idx newID rng voters = Inr after"
  shows "routableRanges (cat_Shards after) = routableRanges (cat_Shards cat)"
    and "cat_Strategy after = cat_Strategy cat"
proof -
  let ?src = "(cat_Shards cat ! idx)\<lparr>sh_State := st, sh_Epoch := cat_Epoch cat + 1\<rparr>"
  let ?child = "\<lparr>sh_ID = newID, sh_Ranges = [rng], sh_State = ShardStateCreating, sh_Epoch = cat_Epoch cat + 1,
                   sh_Voters = voters, sh_NonVoters = [], sh_LeaderHint = leaderHintForShard voters newID\<rparr>"
  let ?shs = "(cat_Shards cat)[idx := ?src] @ [?child]"
  from assms(6) have after: "after = Normalize now ((NextCatalog now cat)\<lparr>cat_Shards := ?shs\<rparr>)"
    by (simp add: applyTransition_def Let_def finishCatalog_Inr)
  obtain e where shards: "cat_Shards after = sort_key sh_ID (map (normalizeShard e) ?shs)"
    unfolding after Normalize_def Let_def by simp
  have new: "newID = of_nat (length (cat_Shards cat))" by (simp add: assms(3) [symmetric])
  have ids: "sh_ID (map (normalizeShard e) ?shs ! k) = of_nat k" if "k < length (map (normalizeShard e) ?shs)" for k
  proof (cases "k < length (cat_Shards cat)")
    case True
    then show ?thesis
      using validated_ids(1) [OF assms(1), of k] validated_ids(1) [OF assms(1), of idx] assms(2)
      by (cases "k = idx") (simp_all add: nth_append)
  next
    case False
    with that have "k = length (cat_Shards cat)" by simp
    then show ?thesis using new by (simp add: nth_append)
  qed
  have "length (cat_Shards cat) < 2 ^ 32" using assms(3) unsigned_less [of newID, where ?'a = nat] by simp
  then have "sort_key sh_ID (map (normalizeShard e) ?shs) = map (normalizeShard e) ?shs"
    by (intro sort_contiguous ids) simp_all
  then have "routableRanges (cat_Shards after) = routableRanges ?shs"
    by (simp only: shards routableRanges_normalize)
  also have "\<dots> = routableRanges ((cat_Shards cat)[idx := ?src])"
    by (simp add: routableRanges_def Routable_def state_defs)
  also have "\<dots> = routableRanges (cat_Shards cat)"
    using assms(2,4,5) by (intro routableRanges_update) simp_all
  finally show "routableRanges (cat_Shards after) = routableRanges (cat_Shards cat)" .
  have "cat_Strategy cat \<noteq> ''''"
    using assms(1) by (auto simp: validateNormalized_def state_defs split: if_splits)
  then show "cat_Strategy after = cat_Strategy cat" by (simp add: after Normalize_def Let_def)
qed

lemma plan_transition:
  assumes "validateNormalized cat = Inr ()" and "planSplit now cat req = Inr plan \<or> planRangeMove now cat req = Inr plan"
  shows "routableRanges (cat_Shards (pl_After plan)) = routableRanges (cat_Shards cat) \<and>
    cat_Strategy (pl_After plan) = PlacementStrategyTokenRange \<and> cat_Strategy cat = PlacementStrategyTokenRange"
  using assms(2)
proof
  assume "planSplit now cat req = Inr plan"
  then obtain idx sh newID rng voters where f: "FindShard cat (rq_ShardID req) = Inr (idx, sh)"
    and s: "cat_Strategy cat = PlacementStrategyTokenRange" "Routable (sh_State sh)"
    and n: "nextShardID cat (rq_NewShardID req) = Inr newID"
    and t: "applyTransition now ShardStateSplitting cat idx newID rng voters = Inr (pl_After plan)"
    by (auto simp: planSplit_def validateSplitTarget_def splitNewShardID_def applySplitTransition_def mkPlan_def
        elim!: bindr_InrE split: if_splits)
  have "unat newID = length (cat_Shards cat)" using n by (simp add: nextShardID_def Let_def split: if_splits)
  from transition_ranges [OF assms(1) _ this _ _ t] FindShard_Inr [OF f] s show ?thesis by (auto simp: Routable_def)
next
  assume "planRangeMove now cat req = Inr plan"
  then obtain idx sh newID rng voters where f: "FindShard cat (rq_ShardID req) = Inr (idx, sh)"
    and s: "cat_Strategy cat = PlacementStrategyTokenRange" "sh_State sh = ShardStateActive"
    and n: "nextShardID cat (rq_TargetShardID req) = Inr newID"
    and t: "applyTransition now ShardStateMoving cat idx newID rng voters = Inr (pl_After plan)"
    by (auto simp: planRangeMove_def validateRangeMoveInputs_def rangeMoveTargetID_def applyRangeMoveTransition_def
        mkPlan_def elim!: bindr_InrE split: if_splits option.splits)
  have "unat newID = length (cat_Shards cat)" using n by (simp add: nextShardID_def Let_def split: if_splits)
  from transition_ranges [OF assms(1) _ this _ _ t] FindShard_Inr [OF f] s show ?thesis by (auto simp: Routable_def)
qed

text \<open>
  C39. Planning a split or a range move does not reroute anything: a router built from the
  transition catalog exists and sends every token to the shard that served it before, since
  the source keeps its ranges until the move is finalised.
\<close>

theorem transition_keeps_routing:
  assumes "BuildPlacementPlan now cat req = Inr plan" and "rq_Operation req \<in> {OperationSplit, OperationRangeMove}"
    and "NewRouterFromCatalog now cat = Inr r"
  shows "\<exists>r'. NewRouterFromCatalog now (pl_After plan) = Inr r' \<and>
    (\<forall>h. ShardForUint64 (Some r') h = ShardForUint64 (Some r) h)"
proof -
  let ?cat = "Normalize now cat"
  have valid: "validateNormalized ?cat = Inr ()" and r: "rt_catalog r = ?cat"
    using NewRouter_catalog [OF assms(3)] by simp_all
  from assms(1,2) have "planSplit now ?cat req = Inr plan \<or> planRangeMove now ?cat req = Inr plan"
    by (auto simp: BuildPlacementPlan_def Let_def elim!: bindr_InrE)
  note same = plan_transition [OF valid this]
  have after: "ValidatePlacement now (pl_After plan) = Inr ()" "Normalize now (pl_After plan) = pl_After plan"
    using plan_valid [OF assms(1)] by simp_all
  then obtain r' where r': "NewRouterFromCatalog now (pl_After plan) = Inr r'"
    by (cases "cat_Strategy (pl_After plan) = PlacementStrategyTokenRange")
      (simp_all add: NewRouterFromCatalog_def Let_def)
  have cat': "rt_catalog r' = pl_After plan" using NewRouter_catalog(1) [OF r'] after by simp
  have "ShardForUint64 (Some r') h = ShardForUint64 (Some r) h" for h
  proof -
    from route_exists [OF assms(3), of h] obtain s where s: "ShardForUint64 (Some r) h = Inr s" by blast
    with route_token_range [OF assms(3), of h s] same r
    have "\<exists>rng. (s, rng) \<in> set (routableRanges (cat_Shards ?cat)) \<and> Contains rng h" by simp
    with route_token_range [OF r', of h s] same cat' show ?thesis by (simp add: s)
  qed
  with r' show ?thesis by blast
qed

theorem transition_keeps_routing_witness:
  "\<exists>plan r r'. BuildPlacementPlan 5 demo_catalog demo_split = Inr plan \<and> NewRouterFromCatalog 5 demo_catalog = Inr r \<and>
     NewRouterFromCatalog 5 (pl_After plan) = Inr r' \<and> ShardForUint64 (Some r') 7 = ShardForUint64 (Some r) 7"
proof -
  obtain plan r where "BuildPlacementPlan 5 demo_catalog demo_split = Inr plan" "NewRouterFromCatalog 5 demo_catalog = Inr r"
    using demo_plans(1,3) by (auto simp: is_ok_iff)
  with transition_keeps_routing [of 5 demo_catalog demo_split plan r] show ?thesis by (auto simp: demo_split_def)
qed

section \<open>Draining\<close>

lemma map_of_setNodeState:
  "map_of (cat_Nodes (setNodeState st key cat)) n =
     (if n = key then map_option (\<lambda>node. node\<lparr>node_State := st\<rparr>) (map_of (cat_Nodes cat) n) else map_of (cat_Nodes cat) n)"
proof -
  have "map_of (map (\<lambda>(nid, node). if nid = key then (nid, node\<lparr>node_State := st\<rparr>) else (nid, node)) ns) n =
     (if n = key then map_option (\<lambda>node. node\<lparr>node_State := st\<rparr>) (map_of ns n) else map_of ns n)"
    for ns :: "NodeDescriptor gomap" and n
    by (induction ns) auto
  then show ?thesis by (simp add: setNodeState_def)
qed

lemma set_appendMissing: "set (appendMissing vs ts) = set vs \<union> set ts"
  by (induction vs ts rule: appendMissing.induct) auto

text \<open>The new voters of a shard never include the node that leaves.\<close>

lemma drainPickVoters_without:
  assumes "drainPickVoters c sh (RemoveString (sh_Voters sh) nid) targets req = Inr voters"
    and "nid \<notin> set targets" and "\<not> node_active c nid"
  shows "nid \<notin> set voters"
proof (cases "targets = []")
  case False
  with assms show ?thesis
    by (auto simp: drainPickVoters_def Let_def set_appendMissing RemoveString_def split: if_splits)
next
  case True
  with assms(1) have "selectPlacementVoters c (targetVoterCount (rq_MinVoters req) (sh_Voters sh))
      (RemoveString (sh_Voters sh) nid) = Inr voters"
    by (simp add: drainPickVoters_def)
  then have "\<forall>v\<in>set voters. node_active c v" by (rule selectPlacementVoters_Inr(5))
  with assms(3) show ?thesis by blast
qed

lemma drainShardsFrom_clears:
  "drainShardsFrom k i c req targets steps n = Inr (c', steps', n') \<Longrightarrow> i + k = length (cat_Shards c) \<Longrightarrow>
     rq_NodeID req \<notin> set targets \<Longrightarrow> \<not> node_active c (rq_NodeID req) \<Longrightarrow> rq_NodeID req \<noteq> '''' \<Longrightarrow>
     (\<forall>j<i. \<not> drainShardReferences (cat_Shards c ! j) (rq_NodeID req)) \<Longrightarrow>
     \<forall>sh\<in>set (cat_Shards c'). \<not> drainShardReferences sh (rq_NodeID req)"
proof (induction k i c req targets steps n rule: drainShardsFrom.induct)
  case (1 i c req targets steps n)
  then show ?case by (auto simp: in_set_conv_nth)
next
  case (2 k i c req targets steps n)
  let ?sh = "cat_Shards c ! i"
  show ?case
  proof (cases "drainShardReferences ?sh (rq_NodeID req)")
    case False
    with 2(3) have "drainShardsFrom k (Suc i) c req targets steps n = Inr (c', steps', n')" by (simp add: Let_def)
    from 2(1) [OF refl False this] 2(4-8) False show ?thesis by (simp add: less_Suc_eq)
  next
    case True
    with 2(3) obtain voters where
      v: "drainPickVoters c ?sh (RemoveString (sh_Voters ?sh) (rq_NodeID req)) targets req = Inr voters"
      by (auto simp: Let_def elim!: bindr_InrE)
    define sh' where "sh' = ?sh\<lparr>sh_Voters := voters, sh_NonVoters := RemoveString (sh_NonVoters ?sh) (rq_NodeID req),
        sh_LeaderHint := (if sh_LeaderHint ?sh = rq_NodeID req \<or> \<not> containsString voters (sh_LeaderHint ?sh)
                          then '''' else sh_LeaderHint ?sh),
        sh_State := ShardStateActive, sh_Epoch := cat_Epoch c\<rparr>"
    have clear: "\<not> drainShardReferences sh' (rq_NodeID req)"
      using drainPickVoters_without [OF v 2(5,6)] 2(7) by (simp add: drainShardReferences_def sh'_def RemoveString_def)
    have rec: "drainShardsFrom k (Suc i) (c\<lparr>cat_Shards := (cat_Shards c)[i := sh']\<rparr>) req targets
        (steps @ membershipDiffSteps c (sh_ID ?sh) (sh_Voters ?sh) voters) (Suc n) = Inr (c', steps', n')"
      using 2(3) True v by (simp add: Let_def sh'_def)
    have act: "\<not> node_active (c\<lparr>cat_Shards := (cat_Shards c)[i := sh']\<rparr>) (rq_NodeID req)"
      using 2(6) by (simp add: node_active_def)
    have "\<forall>j<Suc i. \<not> drainShardReferences ((cat_Shards c)[i := sh'] ! j) (rq_NodeID req)"
      using 2(4,8) clear by (auto simp: less_Suc_eq nth_list_update)
    with 2(2) [OF refl _ v refl, folded sh'_def, OF _ rec] True 2(4,5,7) act show ?thesis by simp
  qed
qed

lemma normalizeShard_references:
  "nid \<noteq> '''' \<Longrightarrow> \<not> drainShardReferences sh nid \<Longrightarrow> \<not> drainShardReferences (normalizeShard e sh) nid"
  by (auto simp: drainShardReferences_def normalizeShard_LeaderHint)

lemma no_references:
  "(\<forall>sh\<in>set (cat_Shards c). \<not> drainShardReferences sh nid) \<Longrightarrow> PlacementNodeActiveReferences c nid = 0"
  by (auto simp: PlacementNodeActiveReferences_def drainShardReferences_def sum_list_eq_0_iff)

text \<open>
  C40. A drain plan really empties the node: in the catalog it ends with no shard names the node
  as voter, non-voter or leader hint and the node is marked draining, so the checks that guard
  decommissioning pass right after it.
\<close>

theorem drain_enables_decommission:
  assumes "BuildPlacementPlan now cat req = Inr plan" and "rq_Operation req = OperationDrain"
  shows "PlacementNodeActiveReferences (pl_After plan) (rq_NodeID req) = 0 \<and>
    validateDecommissionInputs (pl_After plan) req = Inr (rq_NodeID req)"
proof -
  let ?cat = "Normalize now cat" and ?nid = "rq_NodeID req"
  from assms have "planDrain now ?cat req = Inr plan"
    by (auto simp: BuildPlacementPlan_def Let_def elim!: bindr_InrE)
  then obtain targets c' steps steps' n' where inp: "validateDrainInputs ?cat req = Inr ?nid"
    and tg: "drainTargets ?cat req = Inr targets"
    and dr: "drainShardsFrom (length (cat_Shards ?cat)) 0 (markNodeDraining now ?cat ?nid) req targets [] 0 = Inr (c', steps', n')"
    and fin: "pl_After plan = Normalize now c'"
    by (auto simp: planDrain_def validateDrainInputs_def NewNodeID_def executeDrainShards_def markNodeDraining_def
        finishCatalog_Inr mkPlan_def elim!: bindr_InrE split: if_splits)
  have nid: "NewNodeID ?nid = Some ?nid" "?nid \<noteq> ''''" "map_of (cat_Nodes ?cat) ?nid \<noteq> None"
    using inp by (auto simp: validateDrainInputs_def NewNodeID_def split: if_splits)
  have "?nid \<notin> set targets"
    using tg by (auto simp: drainTargets_def Let_def elim!: bindr_InrE split: if_splits)
  moreover obtain node where node: "map_of (cat_Nodes (markNodeDraining now ?cat ?nid)) ?nid = Some node"
    "node_State node = NodeStateDraining"
    using nid(3) by (auto simp: markNodeDraining_def map_of_setNodeState)
  then have "\<not> node_active (markNodeDraining now ?cat ?nid) ?nid" by (simp add: node_active_def state_defs)
  ultimately have "\<forall>sh\<in>set (cat_Shards c'). \<not> drainShardReferences sh ?nid"
    using drainShardsFrom_clears [OF dr] nid(2) by (simp add: markNodeDraining_def)
  then have refs: "PlacementNodeActiveReferences (pl_After plan) ?nid = 0"
    using normalizeShard_references [OF nid(2)]
    by (intro no_references) (auto simp: fin Normalize_def Let_def)
  have "cat_Nodes c' = cat_Nodes (markNodeDraining now ?cat ?nid)" using drainShardsFrom_keeps [OF dr] by simp
  then have "map_of (cat_Nodes (pl_After plan)) ?nid = Some (normalizeNode node)"
    using node(1) by (simp add: fin Normalize_def Let_def map_of_map)
  moreover have "node_State (normalizeNode node) = NodeStateDraining"
    using node(2) by (simp add: normalizeNode_def Let_def state_defs)
  ultimately show ?thesis
    using refs nid(1) by (simp add: validateDecommissionInputs_def state_defs)
qed

theorem drain_enables_decommission_witness:
  "\<exists>plan. BuildPlacementPlan 5 demo_catalog demo_drain = Inr plan \<and>
     validateDecommissionInputs (pl_After plan) demo_drain = Inr ''a''"
proof -
  obtain plan where plan: "BuildPlacementPlan 5 demo_catalog demo_drain = Inr plan" using demo_plans(2) by (auto simp: is_ok_iff)
  with drain_enables_decommission [OF plan] show ?thesis by (simp add: demo_drain_def)
qed

end
