(* ===== verification/ClusterManager.thy ===== *)
theory ClusterManager
  imports ShardCopy PlacementPlans
begin

text \<open>
  The part of \<^verbatim>\<open>internal/cluster/manager.go\<close> that routes requests and installs placements: the node's open
  shards with their stores, the placement in memory, in the placement file and under the system
  key of shard 0, routing of reads and writes with the mirrors of a transition, refreshing and
  publishing the placement, and recording voters.

  A nil shard is \<open>None\<close>; an open shard has its store. Opening a shard (files, Raft groups), the
  JSON texts, the clock and the outcome of file writes are the record \<open>cluster_env\<close>. The mutexes
  make each operation one step.
\<close>

section \<open>State\<close>

record Shard =
  cs_ID :: uint32
  cs_State :: ShardState
  cs_Epoch :: uint64
  cs_Ranges :: "TokenRange list"
  cs_Voters :: "string list"
  cs_NonVoters :: "string list"
  cs_LeaderHint :: string
  cs_IsLocalVoter :: bool
  cs_IsLocalNonVoter :: bool
  cs_Storage :: DB
  cs_Raft :: "bool option"

text \<open>\<open>cs_Raft\<close> is \<open>None\<close> without a Raft group, and otherwise whether this node leads it.\<close>

record Manager =
  mg_SelfID :: string
  mg_router :: "Router option"
  mg_cat :: PlacementCatalog
  mg_file :: "PlacementCatalog option"
  mg_shards :: "Shard option list"

datatype cluster_error =
    StaleRoute uint64 uint64
  | RouteErr routing_error
  | MissingShard uint32
  | NilShard
  | NonRoutableShard uint32 string
  | NoLocalReplica string uint32
  | TransitionTargetClosed uint32
  | Shard0Unavailable
  | BadPlacement placement_error
  | DecodePlacement
  | DecodeState
  | StoreErr engine_error
  | FileWriteErr
  | FewerShards nat nat
  | ShardCountMismatch nat nat
  | NotContiguous uint32 nat
  | OpenErr uint32
  | NotInPlacement uint32
  | InvalidPlan plan_error
  | InvalidState string
  | MoveErr move_error
  | NotLeading uint32
  | NotOpen uint32
  | CatalogLoadErr
  | HookErr
  | NoRaftGroup uint32
  | RaftErr uint32
  | ConfigErr string
  | MuxErr
  | FileReadErr

record cluster_env =
  ce_now :: int
  ce_hash :: hasher
  ce_fileOk :: bool
  ce_encodeCatalog :: "PlacementCatalog \<Rightarrow> bytes"
  ce_decodeCatalog :: "bytes \<Rightarrow> PlacementCatalog option"
  ce_open :: "uint32 \<Rightarrow> ShardPlacement \<Rightarrow> (DB \<times> bool option) option"
  ce_tables :: "DB \<Rightarrow> TableDescriptor list option"

definition placementSystemKey :: bytes where
  "placementSystemKey = bytes_of_string (Namespace @ ''cluster/placement'')"

definition theShard :: "Manager \<Rightarrow> uint32 \<Rightarrow> Shard option" where
  "theShard m shardID = (if unat shardID < length (mg_shards m) then mg_shards m ! unat shardID else None)"

definition setShard :: "uint32 \<Rightarrow> Shard \<Rightarrow> Manager \<Rightarrow> Manager" where
  "setShard shardID sh m = m\<lparr>mg_shards := (mg_shards m)[unat shardID := Some sh]\<rparr>"

definition storeSet :: "DB \<Rightarrow> bytes \<Rightarrow> bytes \<Rightarrow> DB \<times> (engine_error + unit)" where
  "storeSet db key value = CommitBatch db [IndexOpSet key value]"

text \<open>Writing a system key to the store of shard 0.\<close>

definition setSystem :: "bytes \<Rightarrow> bytes \<Rightarrow> Manager \<Rightarrow> Manager \<times> (cluster_error + unit)" where
  "setSystem key raw m =
     (case theShard m 0 of
        None \<Rightarrow> (m, Inl Shard0Unavailable)
      | Some sh0 \<Rightarrow>
          (case storeSet (cs_Storage sh0) key raw of
             (db, Inl err) \<Rightarrow> (setShard 0 (sh0\<lparr>cs_Storage := db\<rparr>) m, Inl (StoreErr err))
           | (db, Inr _) \<Rightarrow> (setShard 0 (sh0\<lparr>cs_Storage := db\<rparr>) m, Inr ())))"

section \<open>Routing\<close>

definition checkRoutingEpoch :: "uint64 \<Rightarrow> uint64 \<Rightarrow> cluster_error + unit" where
  "checkRoutingEpoch clientEpoch currentEpoch =
     (if clientEpoch = 0 \<or> clientEpoch = currentEpoch then Inr () else Inl (StaleRoute clientEpoch currentEpoch))"

definition hasLocalReplica :: "Shard \<Rightarrow> bool" where
  "hasLocalReplica sh \<longleftrightarrow> (cs_Voters sh = [] \<and> cs_NonVoters sh = []) \<or> cs_IsLocalVoter sh \<or> cs_IsLocalNonVoter sh"

definition routable :: "Manager \<Rightarrow> uint32 \<Rightarrow> cluster_error + Shard" where
  "routable m shardID =
     (case theShard m shardID of
        None \<Rightarrow> Inl (MissingShard shardID)
      | Some sh \<Rightarrow> if \<not> Routable (cs_State sh) then Inl (NonRoutableShard shardID (cs_State sh)) else Inr sh)"

definition RouteForPK :: "hasher \<Rightarrow> Manager \<Rightarrow> bytes \<Rightarrow> uint64 \<Rightarrow> cluster_error + Shard" where
  "RouteForPK H m pkBytes epoch =
     bindr (checkRoutingEpoch epoch (cat_Epoch (mg_cat m))) (\<lambda>_.
     bindr (wrapr RouteErr (ShardForPK H (mg_router m) pkBytes)) (\<lambda>shardID.
       routable m shardID))"

definition ReadShardForPK :: "hasher \<Rightarrow> Manager \<Rightarrow> bytes \<Rightarrow> uint64 \<Rightarrow> cluster_error + Shard" where
  "ReadShardForPK H m pkBytes epoch =
     bindr (RouteForPK H m pkBytes epoch) (\<lambda>sh.
       if \<not> hasLocalReplica sh then Inl (NoLocalReplica (mg_SelfID m) (cs_ID sh)) else Inr sh)"

fun readLoop :: "string \<Rightarrow> Shard option list \<Rightarrow> cluster_error + Shard list" where
  "readLoop self [] = Inr []"
| "readLoop self (None # shs) = Inl NilShard"
| "readLoop self (Some sh # shs) =
     (if \<not> Routable (cs_State sh) then Inl (NonRoutableShard (cs_ID sh) (cs_State sh))
      else if \<not> hasLocalReplica sh then Inl (NoLocalReplica self (cs_ID sh))
      else bindr (readLoop self shs) (\<lambda>out. Inr (sh # out)))"

definition ReadShards :: "Manager \<Rightarrow> uint64 \<Rightarrow> cluster_error + Shard list" where
  "ReadShards m epoch =
     bindr (checkRoutingEpoch epoch (cat_Epoch (mg_cat m))) (\<lambda>_. readLoop (mg_SelfID m) (mg_shards m))"

record WriteTargets =
  wt_Primary :: Shard
  wt_Mirrors :: "Shard list"

fun mirrorLoop :: "Manager \<Rightarrow> uint64 \<Rightarrow> uint32 list \<Rightarrow> ShardPlacement list \<Rightarrow> cluster_error + Shard list" where
  "mirrorLoop m token seen [] = Inr []"
| "mirrorLoop m token seen (meta # metas) =
     (if sh_State meta \<noteq> ShardStateCreating then mirrorLoop m token seen metas
      else if \<not> list_ex (\<lambda>rng. Contains rng token) (sh_Ranges meta) then mirrorLoop m token seen metas
      else if sh_ID meta \<in> set seen then mirrorLoop m token seen metas
      else (case theShard m (sh_ID meta) of
              None \<Rightarrow> Inl (TransitionTargetClosed (sh_ID meta))
            | Some sh \<Rightarrow> bindr (mirrorLoop m token (sh_ID meta # seen) metas) (\<lambda>out. Inr (sh # out))))"

definition writeTargetsForPKLocked :: "hasher \<Rightarrow> Manager \<Rightarrow> bytes \<Rightarrow> uint64 \<Rightarrow> cluster_error + WriteTargets" where
  "writeTargetsForPKLocked H m pkBytes epoch =
     bindr (checkRoutingEpoch epoch (cat_Epoch (mg_cat m))) (\<lambda>_.
     bindr (wrapr RouteErr (ShardForUint64 (mg_router m) (TokenForPK H pkBytes))) (\<lambda>shardID.
     bindr (routable m shardID) (\<lambda>primary.
       if (cs_State primary \<noteq> ShardStateSplitting \<and> cs_State primary \<noteq> ShardStateMoving) \<or>
          cat_Strategy (mg_cat m) \<noteq> PlacementStrategyTokenRange
       then Inr \<lparr>wt_Primary = primary, wt_Mirrors = []\<rparr>
       else bindr (mirrorLoop m (TokenForPK H pkBytes) [cs_ID primary] (cat_Shards (mg_cat m))) (\<lambda>mirrors.
         Inr \<lparr>wt_Primary = primary, wt_Mirrors = mirrors\<rparr>))))"

section \<open>Installing a placement\<close>

definition EncodePlacement :: "cluster_env \<Rightarrow> PlacementCatalog \<Rightarrow> cluster_error + bytes" where
  "EncodePlacement E cat =
     (let cat' = Normalize (ce_now E) cat in
      bindr (wrapr BadPlacement (ValidatePlacement (ce_now E) cat')) (\<lambda>_. Inr (ce_encodeCatalog E cat')))"

definition ParsePlacement :: "cluster_env \<Rightarrow> bytes \<Rightarrow> cluster_error + PlacementCatalog" where
  "ParsePlacement E raw =
     (case ce_decodeCatalog E raw of
        None \<Rightarrow> Inl DecodePlacement
      | Some cat0 \<Rightarrow>
          let cat = Normalize (ce_now E) cat0 in
          bindr (wrapr BadPlacement (ValidatePlacement (ce_now E) cat)) (\<lambda>_. Inr cat))"

definition SavePlacementFile :: "cluster_env \<Rightarrow> PlacementCatalog \<Rightarrow> Manager \<Rightarrow> Manager \<times> (cluster_error + unit)" where
  "SavePlacementFile E cat m =
     (let cat' = Normalize (ce_now E) cat in
      case ValidatePlacement (ce_now E) cat' of
        Inl err \<Rightarrow> (m, Inl (BadPlacement err))
      | Inr _ \<Rightarrow> if ce_fileOk E then (m\<lparr>mg_file := Some cat'\<rparr>, Inr ()) else (m, Inl FileWriteErr))"

text \<open>Opening the store of a shard, and its Raft group on a node with peers, and the handle built for it.\<close>

definition openShardWithPlacement :: "cluster_env \<Rightarrow> string \<Rightarrow> uint32 \<Rightarrow> ShardPlacement \<Rightarrow> cluster_error + Shard" where
  "openShardWithPlacement E self shardID meta =
     (case ce_open E shardID meta of
        None \<Rightarrow> Inl (OpenErr shardID)
      | Some (st, rdb) \<Rightarrow>
          Inr \<lparr>cs_ID = shardID, cs_State = sh_State meta, cs_Epoch = sh_Epoch meta, cs_Ranges = sh_Ranges meta, cs_Voters = sh_Voters meta,
               cs_NonVoters = sh_NonVoters meta, cs_LeaderHint = sh_LeaderHint meta, cs_IsLocalVoter = containsString (sh_Voters meta) self,
               cs_IsLocalNonVoter = containsString (sh_NonVoters meta) self, cs_Storage = st, cs_Raft = rdb\<rparr>)"

text \<open>The loop that opens the shards a placement adds; \<open>n\<close> of them are missing.\<close>

fun openLoop :: "cluster_env \<Rightarrow> PlacementCatalog \<Rightarrow> nat \<Rightarrow> Manager \<Rightarrow> Manager \<times> (cluster_error + unit)" where
  "openLoop E cat 0 m = (m, Inr ())"
| "openLoop E cat (Suc n) m =
     (let i = length (mg_shards m); meta = cat_Shards cat ! i in
      if sh_ID meta \<noteq> of_nat i then (m, Inl (NotContiguous (sh_ID meta) i))
      else (case openShardWithPlacement E (mg_SelfID m) (of_nat i) meta of
              Inl err \<Rightarrow> (m, Inl err)
            | Inr sh \<Rightarrow> openLoop E cat n (m\<lparr>mg_shards := mg_shards m @ [Some sh]\<rparr>)))"

definition openMissingShardsForPlacement :: "cluster_env \<Rightarrow> PlacementCatalog \<Rightarrow> Manager \<Rightarrow> Manager \<times> (cluster_error + unit)" where
  "openMissingShardsForPlacement E cat0 m =
     (let cat = Normalize (ce_now E) cat0 in
      case ValidatePlacement (ce_now E) cat of
        Inl err \<Rightarrow> (m, Inl (BadPlacement err))
      | Inr _ \<Rightarrow>
          if length (cat_Shards cat) < length (mg_shards m)
          then (m, Inl (FewerShards (length (cat_Shards cat)) (length (mg_shards m))))
          else openLoop E cat (length (cat_Shards cat) - length (mg_shards m)) m)"

definition withMeta :: "ShardPlacement \<Rightarrow> Shard \<Rightarrow> Shard" where
  "withMeta meta sh = sh\<lparr>cs_State := sh_State meta, cs_Epoch := sh_Epoch meta, cs_Ranges := sh_Ranges meta,
     cs_Voters := sh_Voters meta, cs_NonVoters := sh_NonVoters meta, cs_LeaderHint := sh_LeaderHint meta\<rparr>"

definition installMeta :: "ShardPlacement \<Rightarrow> Shard option list \<Rightarrow> Shard option list" where
  "installMeta meta shards =
     (if unat (sh_ID meta) < length shards
      then shards[unat (sh_ID meta) := map_option (withMeta meta) (shards ! unat (sh_ID meta))] else shards)"

definition applyPlacement :: "cluster_env \<Rightarrow> PlacementCatalog \<Rightarrow> bool \<Rightarrow> Manager \<Rightarrow> Manager \<times> (cluster_error + unit)" where
  "applyPlacement E cat save m =
     (case (if length (mg_shards m) < length (cat_Shards cat) then openMissingShardsForPlacement E cat m else (m, Inr ())) of
        (m1, Inl err) \<Rightarrow> (m1, Inl err)
      | (m1, Inr _) \<Rightarrow>
          if length (cat_Shards cat) \<noteq> length (mg_shards m1)
          then (m1, Inl (ShardCountMismatch (length (cat_Shards cat)) (length (mg_shards m1))))
          else
            (case NewRouterFromCatalog (ce_now E) cat of
               Inl err \<Rightarrow> (m1, Inl (BadPlacement err))
             | Inr router \<Rightarrow>
                 (case m1\<lparr>mg_cat := cat, mg_router := Some router, mg_shards := fold installMeta (cat_Shards cat) (mg_shards m1)\<rparr> of
                    m2 \<Rightarrow> if save then SavePlacementFile E cat m2 else (m2, Inr ()))))"

definition RefreshPlacement :: "cluster_env \<Rightarrow> Manager \<Rightarrow> Manager \<times> (cluster_error + unit)" where
  "RefreshPlacement E m =
     (case theShard m 0 of
        None \<Rightarrow> (m, Inr ())
      | Some sh0 \<Rightarrow>
          (case snapshotGet (cs_Storage sh0) placementSystemKey of
             None \<Rightarrow> (m, Inr ())
           | Some raw \<Rightarrow>
               (case ParsePlacement E raw of
                  Inl err \<Rightarrow> (m, Inl err)
                | Inr cat \<Rightarrow>
                    if cat_Epoch cat \<le> cat_Epoch (mg_cat m) then (m, Inr ())
                    else (case openMissingShardsForPlacement E cat m of
                            (m1, Inl err) \<Rightarrow> (m1, Inl err)
                          | (m1, Inr _) \<Rightarrow> applyPlacement E cat True m1))))"

definition PublishPlacement :: "cluster_env \<Rightarrow> Manager \<Rightarrow> Manager \<times> (cluster_error + unit)" where
  "PublishPlacement E m =
     (case EncodePlacement E (mg_cat m) of
        Inl err \<Rightarrow> (m, Inl err)
      | Inr raw \<Rightarrow> setSystem placementSystemKey raw m)"

definition isNotLeader :: "cluster_error \<Rightarrow> bool" where
  "isNotLeader err \<longleftrightarrow> (case err of StoreErr (NotLeaderError _) \<Rightarrow> True | _ \<Rightarrow> False)"

definition persistPlacementSnapshot :: "cluster_env \<Rightarrow> PlacementCatalog \<Rightarrow> Manager \<Rightarrow> Manager \<times> (cluster_error + unit)" where
  "persistPlacementSnapshot E snapshot m =
     (case SavePlacementFile E snapshot m of
        (m1, Inl err) \<Rightarrow> (m1, Inl err)
      | (m1, Inr _) \<Rightarrow>
          (case EncodePlacement E snapshot of
             Inl err \<Rightarrow> (m1, Inl err)
           | Inr raw \<Rightarrow>
               if theShard m1 0 = None then (m1, Inr ())
               else (case setSystem placementSystemKey raw m1 of
                       (m2, Inl err) \<Rightarrow> (m2, if isNotLeader err then Inr () else Inl err)
                     | (m2, Inr _) \<Rightarrow> (m2, Inr ()))))"

definition persistPlacementSnapshotStrict :: "cluster_env \<Rightarrow> PlacementCatalog \<Rightarrow> Manager \<Rightarrow> Manager \<times> (cluster_error + unit)" where
  "persistPlacementSnapshotStrict E snapshot m =
     (case EncodePlacement E snapshot of
        Inl err \<Rightarrow> (m, Inl err)
      | Inr raw \<Rightarrow>
          (case setSystem placementSystemKey raw m of
             (m1, Inl err) \<Rightarrow> (m1, Inl err)
           | (m1, Inr _) \<Rightarrow> SavePlacementFile E snapshot m1))"

definition appendUnique :: "string list \<Rightarrow> string \<Rightarrow> string list" where
  "appendUnique xs v = (if v \<in> set xs then xs else xs @ [v])"

text \<open>Adding or removing a voter of a shard: a new epoch, a new router, and the new placement stored.\<close>

definition recordShardVoter :: "cluster_env \<Rightarrow> uint32 \<Rightarrow> string \<Rightarrow> bool \<Rightarrow> Manager \<Rightarrow> Manager \<times> (cluster_error + unit)" where
  "recordShardVoter E shardID nodeID add m =
     (case findShardFrom 0 (cat_Shards (mg_cat m)) shardID of
        Inl _ \<Rightarrow> (m, Inl (NotInPlacement shardID))
      | Inr (i, sh) \<Rightarrow>
          (case (if add then sh\<lparr>sh_Voters := appendUnique (sh_Voters sh) nodeID\<rparr>
                 else sh\<lparr>sh_Voters := RemoveString (sh_Voters sh) nodeID, sh_NonVoters := RemoveString (sh_NonVoters sh) nodeID\<rparr>)
                \<lparr>sh_Epoch := cat_Epoch (mg_cat m) + 1\<rparr> of sh' \<Rightarrow>
             (case (mg_cat m)\<lparr>cat_Shards := (cat_Shards (mg_cat m))[i := sh'], cat_Epoch := cat_Epoch (mg_cat m) + 1,
                      cat_UpdatedAtUnix := ce_now E\<rparr> of cat' \<Rightarrow>
                (case NewRouterFromCatalog (ce_now E) cat' of
                   Inl err \<Rightarrow> (m\<lparr>mg_cat := cat'\<rparr>, Inl (BadPlacement err))
                 | Inr router \<Rightarrow>
                     (case m\<lparr>mg_cat := cat', mg_router := Some router,
                             mg_shards := (if unat shardID < length (mg_shards m)
                               then (mg_shards m)[unat shardID := map_option (\<lambda>s. s\<lparr>cs_Voters := sh_Voters sh',
                                      cs_NonVoters := sh_NonVoters sh', cs_Epoch := sh_Epoch sh'\<rparr>) (mg_shards m ! unat shardID)]
                               else mg_shards m)\<rparr> of m1 \<Rightarrow>
                        persistPlacementSnapshot E cat' m1)))))"


section \<open>The open shards follow the placement\<close>

definition shards_follow :: "PlacementCatalog \<Rightarrow> Shard option list \<Rightarrow> bool" where
  "shards_follow cat shards \<longleftrightarrow>
     (\<forall>i sh. i < length (cat_Shards cat) \<longrightarrow> shards ! i = Some sh \<longrightarrow>
        (\<exists>meta\<in>set (cat_Shards cat). sh_ID meta = of_nat i \<and> withMeta meta sh = sh))"

definition own_ids :: "Shard option list \<Rightarrow> bool" where
  "own_ids shards \<longleftrightarrow> (\<forall>i sh. i < length shards \<longrightarrow> shards ! i = Some sh \<longrightarrow> cs_ID sh = of_nat i)"

text \<open>
  The router is that of the catalog, and every shard of the catalog is in its place with the state the
  catalog gives it. Opening the shards of a newer placement may fail half way, so there may be more
  open shards than the catalog has.
\<close>

definition manager_ok :: "Manager \<Rightarrow> bool" where
  "manager_ok m \<longleftrightarrow>
     (\<exists>now r. mg_router m = Some r \<and> NewRouterFromCatalog now (mg_cat m) = Inr r) \<and>
     length (cat_Shards (mg_cat m)) \<le> length (mg_shards m) \<and> own_ids (mg_shards m) \<and>
     shards_follow (mg_cat m) (mg_shards m)"

lemma withMeta_simps [simp]:
  "cs_ID (withMeta meta sh) = cs_ID sh" "cs_State (withMeta meta sh) = sh_State meta" "cs_Ranges (withMeta meta sh) = sh_Ranges meta"
  "cs_Storage (withMeta meta sh) = cs_Storage sh" "cs_Raft (withMeta meta sh) = cs_Raft sh"
  "withMeta meta (withMeta meta' sh) = withMeta meta sh"
  by (simp_all add: withMeta_def)

lemma length_installMeta [simp]: "length (installMeta meta shards) = length shards"
  by (simp add: installMeta_def)

lemma length_fold_installMeta [simp]: "length (fold installMeta metas shards) = length shards"
  by (induction metas arbitrary: shards) simp_all

lemma fold_installMeta_nth:
  assumes "distinct (map sh_ID metas)" and "i < length shards"
  shows "fold installMeta metas shards ! i =
    (case find (\<lambda>meta. unat (sh_ID meta) = i) metas of None \<Rightarrow> shards ! i | Some meta \<Rightarrow> map_option (withMeta meta) (shards ! i))"
  using assms
proof (induction metas arbitrary: shards)
  case (Cons meta metas)
  have one: "installMeta meta shards ! i = (if unat (sh_ID meta) = i then map_option (withMeta meta) (shards ! i) else shards ! i)"
    using Cons.prems(2) by (simp add: installMeta_def nth_list_update)
  have IH: "fold installMeta metas (installMeta meta shards) ! i =
      (case find (\<lambda>meta. unat (sh_ID meta) = i) metas of None \<Rightarrow> installMeta meta shards ! i
       | Some meta' \<Rightarrow> map_option (withMeta meta') (installMeta meta shards ! i))"
    using Cons by simp
  have "find (\<lambda>meta. unat (sh_ID meta) = i) metas = None" if "unat (sh_ID meta) = i"
    using that Cons.prems(1) by (auto simp: find_None_iff image_iff simp flip: word_unat_eq_iff)
  with IH one show ?case by (auto split: option.splits)
qed simp

lemma normalized_ids:
  assumes "NewRouterFromCatalog now cat = Inr r"
  shows "distinct (map sh_ID (cat_Shards cat))" and "i < length (cat_Shards cat) \<Longrightarrow> \<exists>meta\<in>set (cat_Shards cat). sh_ID meta = of_nat i"
    and "length (cat_Shards cat) \<le> 2 ^ 32"
proof -
  note v = validated_ids [OF NewRouter_catalog(2) [OF assms]]
  have ids: "mset (map sh_ID (cat_Shards (Normalize now cat))) = mset (map sh_ID (cat_Shards cat))"
    by (simp add: Normalize_def Let_def multiset.map_comp o_def)
  then show "distinct (map sh_ID (cat_Shards cat))" using v(3) mset_eq_imp_distinct_iff by blast
  from ids have len: "length (cat_Shards (Normalize now cat)) = length (cat_Shards cat)" by (metis length_map size_mset)
  from v(2) len show "length (cat_Shards cat) \<le> 2 ^ 32" by simp
  assume "i < length (cat_Shards cat)"
  with len have i: "i < length (cat_Shards (Normalize now cat))" by simp
  from v(1) [OF i] nth_mem [OF i] have "of_nat i \<in> set (map sh_ID (cat_Shards (Normalize now cat)))" by (metis image_eqI list.set_map)
  with ids show "\<exists>meta\<in>set (cat_Shards cat). sh_ID meta = of_nat i" by (metis (mono_tags, lifting) imageE list.set_map mset_eq_setD)
qed

lemma install_follows:
  assumes "NewRouterFromCatalog now cat = Inr r" and "own_ids shards" and "length shards = length (cat_Shards cat)"
  shows "shards_follow cat (fold installMeta (cat_Shards cat) shards)"
  unfolding shards_follow_def
proof (intro allI impI)
  fix i sh assume i: "i < length (cat_Shards cat)" and sh: "fold installMeta (cat_Shards cat) shards ! i = Some sh"
  then have len: "i < length shards" "i < length (cat_Shards cat)" using assms(3) by simp_all
  from normalized_ids(2) [OF assms(1) len(2)] obtain meta where meta: "meta \<in> set (cat_Shards cat)" "sh_ID meta = of_nat i" by blast
  have "unat (of_nat i :: uint32) = i" using len(2) normalized_ids(3) [OF assms(1)] by (simp add: unat_of_nat)
  with meta obtain meta' where f: "find (\<lambda>meta. unat (sh_ID meta) = i) (cat_Shards cat) = Some meta'"
    by (cases "find (\<lambda>meta. unat (sh_ID meta) = i) (cat_Shards cat)") (auto simp: find_None_iff)
  then have m': "meta' \<in> set (cat_Shards cat)" "unat (sh_ID meta') = i" by (auto simp: find_Some_iff)
  from m'(2) have id: "sh_ID meta' = of_nat i" by auto
  from fold_installMeta_nth [OF normalized_ids(1) [OF assms(1)] len(1)] sh f
  obtain sh0 where "shards ! i = Some sh0" "sh = withMeta meta' sh0" by (cases "shards ! i") auto
  with m'(1) id
  show "\<exists>meta\<in>set (cat_Shards cat). sh_ID meta = of_nat i \<and> withMeta meta sh = sh" by auto
qed

lemma install_own_ids:
  assumes "own_ids shards"
  shows "own_ids (fold installMeta metas shards)"
  using assms
proof (induction metas arbitrary: shards)
  case (Cons meta metas)
  have "own_ids (installMeta meta shards)" using Cons.prems by (auto simp: own_ids_def installMeta_def nth_list_update split: if_splits)
  with Cons.IH show ?case by simp
qed simp

lemma opened_shard:
  assumes "openShardWithPlacement E self i meta = Inr sh"
  shows "cs_ID sh = i" and "withMeta meta sh = sh"
  using assms by (auto simp: openShardWithPlacement_def withMeta_def split: option.splits)

lemma openLoop_own_ids: "openLoop E cat n m = (m', r) \<Longrightarrow> own_ids (mg_shards m) \<Longrightarrow> own_ids (mg_shards m')"
proof (induction n arbitrary: m)
  case (Suc n)
  show ?case
  proof (cases "openShardWithPlacement E (mg_SelfID m) (of_nat (length (mg_shards m))) (cat_Shards cat ! length (mg_shards m))")
    case (Inl err)
    with Suc.prems show ?thesis by (auto simp: Let_def split: if_splits)
  next
    case (Inr sh)
    have "own_ids (mg_shards m @ [Some sh])"
      using Suc.prems(2) opened_shard(1) [OF Inr] by (auto simp: own_ids_def nth_append less_Suc_eq)
    with Suc Inr show ?thesis by (auto simp: Let_def split: if_splits)
  qed
qed simp

lemma openMissing_own_ids:
  "openMissingShardsForPlacement E cat m = (m', r) \<Longrightarrow> own_ids (mg_shards m) \<Longrightarrow> own_ids (mg_shards m')"
  using openLoop_own_ids by (auto simp: openMissingShardsForPlacement_def Let_def split: sum.splits if_splits)

lemma SavePlacementFile_rest:
  "SavePlacementFile E cat m = (m', r) \<Longrightarrow> mg_cat m' = mg_cat m \<and> mg_router m' = mg_router m \<and> mg_shards m' = mg_shards m"
  by (auto simp: SavePlacementFile_def Let_def split: sum.splits if_splits)

lemma openMissing_keeps:
  assumes "openMissingShardsForPlacement E cat m = (m1, r)" and "manager_ok m"
  shows "manager_ok m1 \<and> mg_cat m1 = mg_cat m"
proof -
  have loop: "mg_cat (fst (openLoop E c n y)) = mg_cat y \<and> mg_router (fst (openLoop E c n y)) = mg_router y \<and>
      (\<exists>new. mg_shards (fst (openLoop E c n y)) = mg_shards y @ new)" for c n y
  proof (induction n arbitrary: y)
    case (Suc n)
    show ?case
    proof (cases "openShardWithPlacement E (mg_SelfID y) (of_nat (length (mg_shards y))) (cat_Shards c ! length (mg_shards y))")
      case (Inr sh)
      with Suc [of "y\<lparr>mg_shards := mg_shards y @ [Some sh]\<rparr>"] show ?thesis by (auto simp: Let_def)
    qed (simp add: Let_def)
  qed simp
  have "m1 = m \<or> (\<exists>c n. m1 = fst (openLoop E c n m))"
    using assms(1) by (auto simp: openMissingShardsForPlacement_def Let_def prod_eq_iff split: if_splits sum.splits)
  then obtain new where "mg_cat m1 = mg_cat m" "mg_router m1 = mg_router m" "mg_shards m1 = mg_shards m @ new"
  proof
    assume "m1 = m"
    then show ?thesis using that [of "[]"] by simp
  next
    assume "\<exists>c n. m1 = fst (openLoop E c n m)"
    then show ?thesis using that loop by metis
  qed
  moreover have "own_ids (mg_shards m1)"
    using openMissing_own_ids [OF assms(1)] assms(2) by (simp add: manager_ok_def)
  ultimately show ?thesis using assms(2) by (auto simp: manager_ok_def shards_follow_def nth_append)
qed

lemma applyPlacement_spec:
  assumes "applyPlacement E cat save m = (m', r)" and "manager_ok m"
  shows "manager_ok m' \<and> (mg_cat m' = cat \<or> mg_cat m' = mg_cat m \<and> (\<exists>err. r = Inl err))"
proof -
  obtain m1 x where opened: "(if length (mg_shards m) < length (cat_Shards cat) then openMissingShardsForPlacement E cat m else (m, Inr ())) = (m1, x)"
    by fastforce
  have m1: "manager_ok m1 \<and> mg_cat m1 = mg_cat m" using opened assms(2) openMissing_keeps by (auto split: if_splits)
  show ?thesis
  proof (cases "(\<exists>err. x = Inl err) \<or> length (cat_Shards cat) \<noteq> length (mg_shards m1) \<or> (\<exists>err. NewRouterFromCatalog (ce_now E) cat = Inl err)")
    case True
    have "(case x of Inl err \<Rightarrow> (m1, Inl err) | Inr _ \<Rightarrow> if length (cat_Shards cat) \<noteq> length (mg_shards m1)
        then (m1, Inl (ShardCountMismatch (length (cat_Shards cat)) (length (mg_shards m1))))
        else (case NewRouterFromCatalog (ce_now E) cat of Inl err \<Rightarrow> (m1, Inl (BadPlacement err)) | Inr router \<Rightarrow> (m', r))) = (m', r)"
      using assms(1) opened by (auto simp: applyPlacement_def split: sum.splits)
    with True have "m' = m1 \<and> (\<exists>err. r = Inl err)" by (auto split: sum.splits if_splits)
    with m1 show ?thesis by auto
  next
    case False
    then obtain router where ok: "x = Inr ()" "length (cat_Shards cat) = length (mg_shards m1)" "NewRouterFromCatalog (ce_now E) cat = Inr router"
      by (cases x; cases "NewRouterFromCatalog (ce_now E) cat") auto
    let ?m2 = "m1\<lparr>mg_cat := cat, mg_router := Some router, mg_shards := fold installMeta (cat_Shards cat) (mg_shards m1)\<rparr>"
    have "manager_ok ?m2"
      using install_follows [OF ok(3)] install_own_ids m1 ok by (auto simp: manager_ok_def)
    moreover from assms(1) opened ok have "(if save then SavePlacementFile E cat ?m2 else (?m2, Inr ())) = (m', r)"
      by (simp add: applyPlacement_def)
    then have "mg_cat m' = cat \<and> mg_router m' = Some router \<and> mg_shards m' = mg_shards ?m2"
      using SavePlacementFile_rest [of E cat ?m2] by (auto split: if_splits)
    ultimately show ?thesis by (simp add: manager_ok_def)
  qed
qed

text \<open>Changing a store leaves routing alone.\<close>

lemma setStorage_ok:
  assumes "theShard m i = Some sh" and "manager_ok m"
  shows "manager_ok (setShard i (sh\<lparr>cs_Storage := db\<rparr>) m)"
proof -
  have i: "unat i < length (mg_shards m)" "mg_shards m ! unat i = Some sh" using assms(1) by (auto simp: theShard_def split: if_splits)
  have "withMeta meta (s\<lparr>cs_Storage := db\<rparr>) = s\<lparr>cs_Storage := db\<rparr> \<longleftrightarrow> withMeta meta s = s" for meta s
    by (cases s) (simp add: withMeta_def)
  with i assms(2) show ?thesis
    by (auto simp: manager_ok_def setShard_def own_ids_def shards_follow_def nth_list_update split: if_splits)
qed

lemma setSystem_ok: "setSystem key raw m = (m', r) \<Longrightarrow> manager_ok m \<Longrightarrow> manager_ok m' \<and> mg_cat m' = mg_cat m"
  using setStorage_ok [of m 0] by (fastforce simp: setSystem_def setShard_def split: option.splits prod.splits sum.splits)

lemma SavePlacementFile_ok: "SavePlacementFile E cat m = (m', r) \<Longrightarrow> manager_ok m \<Longrightarrow> manager_ok m' \<and> mg_cat m' = mg_cat m"
  using SavePlacementFile_rest by (fastforce simp: manager_ok_def)

lemma persistStrict_ok:
  "persistPlacementSnapshotStrict E cat m = (m', r) \<Longrightarrow> manager_ok m \<Longrightarrow> manager_ok m' \<and> mg_cat m' = mg_cat m"
  using setSystem_ok SavePlacementFile_ok
  by (fastforce simp: persistPlacementSnapshotStrict_def split: sum.splits prod.splits)

lemma RefreshPlacement_ok:
  assumes "RefreshPlacement E m = (m', r)" and "manager_ok m"
  shows "manager_ok m' \<and> cat_Epoch (mg_cat m) \<le> cat_Epoch (mg_cat m')"
proof -
  consider "m' = m" | cat m1 x where "cat_Epoch (mg_cat m) < cat_Epoch cat" "openMissingShardsForPlacement E cat m = (m1, x)"
      "m' = m1 \<or> applyPlacement E cat True m1 = (m', r)"
    using assms(1) by (auto simp: RefreshPlacement_def not_le split: option.splits sum.splits prod.splits if_splits)
  then show ?thesis
  proof cases
    case 2
    from openMissing_keeps [OF 2(2) assms(2)] have m1: "manager_ok m1" "mg_cat m1 = mg_cat m" by auto
    from 2(3) show ?thesis
      using m1 2(1) applyPlacement_spec [OF _ m1(1)] by fastforce
  qed (use assms(2) in simp)
qed


section \<open>Requests and the placement\<close>

lemma normalized_shards:
  "set (cat_Shards (Normalize now cat)) = normalizeShard (cat_Epoch (Normalize now cat)) ` set (cat_Shards cat)"
  by (simp add: Normalize_def Let_def)

lemma meta_position:
  assumes "NewRouterFromCatalog now cat = Inr r" and "meta \<in> set (cat_Shards cat)"
  shows "unat (sh_ID meta) < length (cat_Shards cat)"
proof -
  note v = validated_ids [OF NewRouter_catalog(2) [OF assms(1)]]
  have "sh_ID meta \<in> sh_ID ` set (cat_Shards (Normalize now cat))" unfolding normalized_shards image_image using assms(2) by simp
  then obtain k where "k < length (cat_Shards (Normalize now cat))" "sh_ID meta = sh_ID (cat_Shards (Normalize now cat) ! k)"
    by (auto simp: in_set_conv_nth)
  moreover have "length (cat_Shards (Normalize now cat)) = length (cat_Shards cat)" by (simp add: Normalize_def Let_def)
  ultimately show ?thesis using v(1,2) by (simp add: unat_of_nat)
qed

lemma follows_meta:
  assumes "manager_ok m" and "theShard m i = Some sh" and "meta \<in> set (cat_Shards (mg_cat m))" and "sh_ID meta = i"
  shows "withMeta meta sh = sh" and "cs_ID sh = i"
proof -
  from assms(1) obtain now r where r: "NewRouterFromCatalog now (mg_cat m) = Inr r" and ok: "own_ids (mg_shards m)"
    "shards_follow (mg_cat m) (mg_shards m)" "length (cat_Shards (mg_cat m)) \<le> length (mg_shards m)" by (auto simp: manager_ok_def)
  have sh: "unat i < length (mg_shards m)" "mg_shards m ! unat i = Some sh" using assms(2) by (auto simp: theShard_def split: if_splits)
  then show "cs_ID sh = i" using ok(1) by (auto simp: own_ids_def)
  have "unat i < length (cat_Shards (mg_cat m))" using meta_position [OF r assms(3)] assms(4) by simp
  with ok(2) sh obtain meta' where "meta' \<in> set (cat_Shards (mg_cat m))" "sh_ID meta' = i" "withMeta meta' sh = sh"
    unfolding shards_follow_def by (metis of_nat_unat ucast_id)
  with assms(3,4) normalized_ids(1) [OF r] show "withMeta meta sh = sh" by (metis distinct_map inj_onD)
qed

lemma follows_sel:
  assumes "withMeta meta sh = sh"
  shows "cs_State sh = sh_State meta" and "cs_Ranges sh = sh_Ranges meta"
  using assms withMeta_simps(2,3) by metis+

lemma route_iff:
  assumes "manager_ok m" and "cat_Strategy (mg_cat m) = PlacementStrategyTokenRange"
  shows "ShardForUint64 (mg_router m) h = Inr i \<longleftrightarrow>
    (\<exists>meta\<in>set (cat_Shards (mg_cat m)). sh_ID meta = i \<and> Routable (sh_State meta) \<and> (\<exists>rng\<in>set (sh_Ranges meta). Contains rng h))"
proof -
  from assms(1) obtain now r where r: "mg_router m = Some r" "NewRouterFromCatalog now (mg_cat m) = Inr r" by (auto simp: manager_ok_def)
  have "rt_catalog r = Normalize now (mg_cat m)" by (rule NewRouter_catalog(1) [OF r(2)])
  moreover from this have "cat_Strategy (rt_catalog r) = PlacementStrategyTokenRange"
    using assms(2) by (simp add: Normalize_def Let_def PlacementStrategyTokenRange_def)
  ultimately show ?thesis
    unfolding r(1) using route_token_range [OF r(2), of h i]
    by (auto simp: routableRanges_mem normalized_shards)
qed

lemma shard_meta:
  assumes "manager_ok m" and "theShard m i = Some sh" and "Contains rng h" "rng \<in> set (cs_Ranges sh)" and "unat i < length (cat_Shards (mg_cat m))"
  shows "\<exists>meta\<in>set (cat_Shards (mg_cat m)). sh_ID meta = i \<and> withMeta meta sh = sh"
  using assms by (auto simp: manager_ok_def shards_follow_def theShard_def split: if_splits)

text \<open>
  C5. A request for a partition key goes to the shard that owns it: with a consistent manager and a
  token-range placement, routing returns a shard if and only if it is the open, routable shard of the
  placement with a range that contains the key's token.
\<close>

theorem requests_reach_the_owner:
  assumes "manager_ok m" and "cat_Strategy (mg_cat m) = PlacementStrategyTokenRange"
  shows "RouteForPK H m pk 0 = Inr sh \<longleftrightarrow>
    theShard m (cs_ID sh) = Some sh \<and> Routable (cs_State sh) \<and> unat (cs_ID sh) < length (cat_Shards (mg_cat m)) \<and>
    (\<exists>rng\<in>set (cs_Ranges sh). Contains rng (TokenForPK H pk))"
    (is "?route = ?owner")
proof
  assume ?route
  then obtain i where i: "ShardForUint64 (mg_router m) (TokenForPK H pk) = Inr i" and sh: "theShard m i = Some sh" "Routable (cs_State sh)"
    by (auto simp: RouteForPK_def checkRoutingEpoch_def ShardForPK_def routable_def elim!: bindr_InrE split: option.splits if_splits)
  from i route_iff [OF assms] obtain meta rng where meta: "meta \<in> set (cat_Shards (mg_cat m))" "sh_ID meta = i"
    "rng \<in> set (sh_Ranges meta)" "Contains rng (TokenForPK H pk)" by blast
  note f = follows_meta [OF assms(1) sh(1) meta(1,2)]
  from assms(1) obtain now r where r: "NewRouterFromCatalog now (mg_cat m) = Inr r" by (auto simp: manager_ok_def)
  have "unat i < length (cat_Shards (mg_cat m))" using meta_position [OF r meta(1)] meta(2) by simp
  with f sh meta follows_sel [OF f(1)] show ?owner by auto
next
  assume o: ?owner
  then obtain rng where rng: "rng \<in> set (cs_Ranges sh)" "Contains rng (TokenForPK H pk)" by blast
  from shard_meta [OF assms(1) _ rng(2,1)] o obtain meta where meta: "meta \<in> set (cat_Shards (mg_cat m))" "sh_ID meta = cs_ID sh" "withMeta meta sh = sh"
    by blast
  with o rng follows_sel [OF meta(3)] route_iff [OF assms, of "TokenForPK H pk" "cs_ID sh"]
  have "ShardForUint64 (mg_router m) (TokenForPK H pk) = Inr (cs_ID sh)" by auto
  with o show ?route by (simp add: RouteForPK_def checkRoutingEpoch_def ShardForPK_def routable_def)
qed


lemma mirrorLoop_spec:
  assumes "mirrorLoop m token seen metas = Inr out" and "distinct (map sh_ID metas)" and "set seen \<inter> sh_ID ` set metas \<subseteq> {p}" "p \<in> set seen"
  shows "map Some out = map (\<lambda>meta. theShard m (sh_ID meta))
    (filter (\<lambda>meta. sh_State meta = ShardStateCreating \<and> (\<exists>rng\<in>set (sh_Ranges meta). Contains rng token) \<and> sh_ID meta \<noteq> p) metas)"
  using assms
proof (induction metas arbitrary: seen out)
  case (Cons meta metas)
  let ?P = "\<lambda>meta. sh_State meta = ShardStateCreating \<and> (\<exists>rng\<in>set (sh_Ranges meta). Contains rng token) \<and> sh_ID meta \<noteq> p"
  have seen: "sh_ID meta \<in> set seen \<longleftrightarrow> sh_ID meta = p" using Cons.prems(3,4) by auto
  show ?case
  proof (cases "?P meta")
    case True
    with Cons.prems(1) seen obtain sh out' where "theShard m (sh_ID meta) = Some sh" "out = sh # out'"
      "mirrorLoop m token (sh_ID meta # seen) metas = Inr out'"
      by (auto simp: list_ex_iff split: if_splits option.splits elim!: bindr_InrE)
    moreover from this Cons.IH [of "sh_ID meta # seen" out'] Cons.prems(2-4)
    have "map Some out' = map (\<lambda>meta. theShard m (sh_ID meta)) (filter ?P metas)" by auto
    ultimately show ?thesis using True by simp
  next
    case False
    with Cons.prems(1) seen have "mirrorLoop m token seen metas = Inr out"
      by (auto simp: list_ex_iff split: if_splits option.splits elim!: bindr_InrE)
    with Cons.IH [of seen out] Cons.prems(2-4) False show ?thesis by auto
  qed
qed simp

text \<open>
  C6. While a shard splits or moves, a write goes to its owner and to every shard under construction that
  will own the key, each of them once and no other; otherwise it goes to the owner alone.
\<close>

theorem writes_are_mirrored:
  assumes "manager_ok m" and "cat_Strategy (mg_cat m) = PlacementStrategyTokenRange"
    and "writeTargetsForPKLocked H m pk 0 = Inr t"
  shows "RouteForPK H m pk 0 = Inr (wt_Primary t) \<and>
    map Some (wt_Mirrors t) =
      (if cs_State (wt_Primary t) = ShardStateSplitting \<or> cs_State (wt_Primary t) = ShardStateMoving
       then map (\<lambda>meta. theShard m (sh_ID meta))
         (filter (\<lambda>meta. sh_State meta = ShardStateCreating \<and> (\<exists>rng\<in>set (sh_Ranges meta). Contains rng (TokenForPK H pk)))
           (cat_Shards (mg_cat m)))
       else [])"
proof -
  from assms(3) obtain i where i: "ShardForUint64 (mg_router m) (TokenForPK H pk) = Inr i" "routable m i = Inr (wt_Primary t)"
    and mirrors: "if cs_State (wt_Primary t) \<noteq> ShardStateSplitting \<and> cs_State (wt_Primary t) \<noteq> ShardStateMoving then wt_Mirrors t = []
      else mirrorLoop m (TokenForPK H pk) [cs_ID (wt_Primary t)] (cat_Shards (mg_cat m)) = Inr (wt_Mirrors t)"
    using assms(2) by (auto simp: writeTargetsForPKLocked_def elim!: bindr_InrE split: if_splits)
  have route: "RouteForPK H m pk 0 = Inr (wt_Primary t)"
    using i by (simp add: RouteForPK_def ShardForPK_def checkRoutingEpoch_def)
  show ?thesis
  proof (cases "cs_State (wt_Primary t) = ShardStateSplitting \<or> cs_State (wt_Primary t) = ShardStateMoving")
    case False
    with mirrors route show ?thesis by auto
  next
    case True
    from assms(1) obtain now r where r: "NewRouterFromCatalog now (mg_cat m) = Inr r" by (auto simp: manager_ok_def)
    from i(2) have sh: "theShard m i = Some (wt_Primary t)" by (auto simp: routable_def split: option.splits if_splits)
    have "sh_ID meta \<noteq> cs_ID (wt_Primary t)" if "meta \<in> set (cat_Shards (mg_cat m))" "sh_State meta = ShardStateCreating" for meta
    proof
      assume id: "sh_ID meta = cs_ID (wt_Primary t)"
      have "cs_ID (wt_Primary t) = i"
        using sh assms(1) by (auto simp: theShard_def manager_ok_def own_ids_def split: if_splits)
      with id follows_meta(1) [OF assms(1) sh that(1)] have "cs_State (wt_Primary t) = ShardStateCreating"
        using follows_sel(1) that(2) by metis
      with True show False by (auto simp: state_defs)
    qed
    then have "filter (\<lambda>meta. sh_State meta = ShardStateCreating \<and> (\<exists>rng\<in>set (sh_Ranges meta). Contains rng (TokenForPK H pk)) \<and>
        sh_ID meta \<noteq> cs_ID (wt_Primary t)) (cat_Shards (mg_cat m)) =
      filter (\<lambda>meta. sh_State meta = ShardStateCreating \<and> (\<exists>rng\<in>set (sh_Ranges meta). Contains rng (TokenForPK H pk))) (cat_Shards (mg_cat m))"
      by (intro filter_cong) auto
    moreover have "mirrorLoop m (TokenForPK H pk) [cs_ID (wt_Primary t)] (cat_Shards (mg_cat m)) = Inr (wt_Mirrors t)"
      using mirrors True by auto
    ultimately show ?thesis
      using mirrorLoop_spec [OF _ normalized_ids(1) [OF r]] True route by fastforce
  qed
qed


section \<open>Examples\<close>

text \<open>A node with two shards in the middle of a split: shard 0 still owns the ring, shard 1 is being built for the tokens from 1 on.\<close>

definition splitting_catalog :: PlacementCatalog where
  "splitting_catalog = \<lparr>cat_Version = PlacementVersion, cat_Epoch = 4, cat_Strategy = PlacementStrategyTokenRange,
     cat_Shards =
       [\<lparr>sh_ID = 0, sh_Ranges = [mkRange 0 0], sh_State = ShardStateSplitting, sh_Epoch = 4, sh_Voters = [], sh_NonVoters = [], sh_LeaderHint = ''''\<rparr>,
        \<lparr>sh_ID = 1, sh_Ranges = [mkRange 1 0], sh_State = ShardStateCreating, sh_Epoch = 4, sh_Voters = [], sh_NonVoters = [], sh_LeaderHint = ''''\<rparr>],
     cat_Nodes = [], cat_UpdatedAtUnix = 5\<rparr>"

definition bare_shard :: "uint32 \<Rightarrow> DB \<Rightarrow> Shard" where
  "bare_shard i db =
     \<lparr>cs_ID = i, cs_State = '''', cs_Epoch = 0, cs_Ranges = [], cs_Voters = [], cs_NonVoters = [], cs_LeaderHint = '''',
      cs_IsLocalVoter = True, cs_IsLocalNonVoter = False, cs_Storage = db, cs_Raft = None\<rparr>"

definition two_shards :: "PlacementCatalog \<Rightarrow> DB \<Rightarrow> DB \<Rightarrow> Manager" where
  "two_shards cat db0 db1 = \<lparr>mg_SelfID = ''n1'',
     mg_router = (case NewRouterFromCatalog 5 cat of Inl _ \<Rightarrow> None | Inr r \<Rightarrow> Some r), mg_cat = cat, mg_file = None,
     mg_shards = [Some (withMeta (cat_Shards cat ! 0) (bare_shard 0 db0)), Some (withMeta (cat_Shards cat ! 1) (bare_shard 1 db1))]\<rparr>"

lemma two_shards_ok:
  assumes "is_ok (NewRouterFromCatalog 5 cat)" and "map sh_ID (cat_Shards cat) = [0, 1]"
  shows "manager_ok (two_shards cat db0 db1)"
proof -
  from assms(1) obtain r where r: "NewRouterFromCatalog 5 cat = Inr r" by (auto simp: is_ok_iff)
  from assms(2) have len: "length (cat_Shards cat) = 2" by (metis One_nat_def Suc_1 length_Cons length_map list.size(3))
  with assms(2) obtain a b where ab: "cat_Shards cat = [a, b]" "sh_ID a = 0" "sh_ID b = 1"
    by (auto simp: numeral_2_eq_2 length_Suc_conv)
  show ?thesis
    using r ab by (auto simp: manager_ok_def own_ids_def shards_follow_def two_shards_def bare_shard_def less_Suc_eq)
qed

definition demo_shard :: "uint32 \<Rightarrow> DB \<Rightarrow> Shard" where
  "demo_shard i db = withMeta (cat_Shards splitting_catalog ! unat i) (bare_shard i db)"

definition splitting_manager :: Manager where
  "splitting_manager = two_shards splitting_catalog one_row_shard empty_shard"

lemma splitting_sel:
  "mg_cat splitting_manager = splitting_catalog" "cat_Strategy splitting_catalog = PlacementStrategyTokenRange"
  "theShard splitting_manager 0 = Some (demo_shard 0 one_row_shard)" "theShard splitting_manager 1 = Some (demo_shard 1 empty_shard)"
  by (simp_all add: splitting_manager_def two_shards_def demo_shard_def splitting_catalog_def theShard_def)

lemma splitting_ok: "manager_ok splitting_manager"
  unfolding splitting_manager_def
proof (rule two_shards_ok)
  show "is_ok (NewRouterFromCatalog 5 splitting_catalog)" by code_simp
qed (simp add: splitting_catalog_def)

lemma splitting_route: "RouteForPK length_hasher splitting_manager [0x37] 0 = Inr (demo_shard 0 one_row_shard)"
proof -
  have "ShardForPK length_hasher (mg_router splitting_manager) [0x37] = Inr 0" by code_simp
  moreover have "Routable (cs_State (demo_shard 0 one_row_shard))" by (simp add: demo_shard_def bare_shard_def splitting_catalog_def Routable_def)
  ultimately show ?thesis by (simp add: RouteForPK_def routable_def checkRoutingEpoch_def splitting_sel)
qed

theorem requests_reach_the_owner_witness:
  "\<exists>rng\<in>set (cs_Ranges (demo_shard 0 one_row_shard)). Contains rng (TokenForPK length_hasher [0x37])"
  using requests_reach_the_owner [of splitting_manager length_hasher "[0x37]" "demo_shard 0 one_row_shard"] splitting_ok splitting_route
  by (simp add: splitting_sel)

theorem writes_are_mirrored_witness:
  "\<exists>t. writeTargetsForPKLocked length_hasher splitting_manager [0x37] 0 = Inr t \<and> wt_Primary t = demo_shard 0 one_row_shard \<and>
     wt_Mirrors t = [demo_shard 1 empty_shard]"
proof -
  have "is_ok (writeTargetsForPKLocked length_hasher splitting_manager [0x37] 0)" by code_simp
  then obtain t where t: "writeTargetsForPKLocked length_hasher splitting_manager [0x37] 0 = Inr t" by (auto simp: is_ok_iff)
  have c: "Contains (mkRange 1 0) (TokenForPK length_hasher [0x37])" by code_simp
  from writes_are_mirrored [OF splitting_ok _ t]
  have w: "wt_Primary t = demo_shard 0 one_row_shard"
    "map Some (wt_Mirrors t) = (if cs_State (wt_Primary t) = ShardStateSplitting \<or> cs_State (wt_Primary t) = ShardStateMoving
       then map (\<lambda>meta. theShard splitting_manager (sh_ID meta))
         (filter (\<lambda>meta. sh_State meta = ShardStateCreating \<and> (\<exists>rng\<in>set (sh_Ranges meta). Contains rng (TokenForPK length_hasher [0x37])))
           (cat_Shards splitting_catalog)) else [])"
    by (simp_all add: splitting_sel splitting_route)
  moreover have "cs_State (demo_shard 0 one_row_shard) = ShardStateSplitting" by (simp add: demo_shard_def bare_shard_def splitting_catalog_def)
  ultimately have "map Some (wt_Mirrors t) = [Some (demo_shard 1 empty_shard)]"
    using c by (simp add: splitting_sel(3,4)) (simp add: splitting_catalog_def state_defs splitting_sel(3,4))
  then have "wt_Mirrors t = [demo_shard 1 empty_shard]" by (cases "wt_Mirrors t") auto
  with t w(1) show ?thesis by blast
qed


end
