(* ===== verification/ShardMove.thy ===== *)
theory ShardMove
  imports ClusterManager
begin

text \<open>
  What the two finalisers (\<^verbatim>\<open>internal/cluster/split_finalize.go\<close> and \<^verbatim>\<open>range_move_finalize.go\<close>) share: the
  operations of one phase on the stores of the node's shards, and the effect of the phases (copying,
  publishing, deleting) between two saves of the finaliser's state. Saving the state is the interface
  \<open>saved_phases\<close>: it changes a system key and nothing else.
\<close>

section \<open>Operations on shards\<close>

datatype MoveStage = StageCatalog | StageCopy | StageDigestParent | StageDigestChild | StageDelete | StageDropData | StageDropCatalog

definition notLeading :: "Shard \<Rightarrow> bool" where
  "notLeading sh \<longleftrightarrow> cs_Raft sh = Some False"

definition loadSplitCopyTables :: "cluster_env \<Rightarrow> DB \<Rightarrow> cluster_error + TableDescriptor list" where
  "loadSplitCopyTables E db = (case ce_tables E db of None \<Rightarrow> Inl CatalogLoadErr | Some tables \<Rightarrow> Inr tables)"

text \<open>An operation on the store of one shard, and one that reads another shard's store.\<close>

definition onShard :: "uint32 \<Rightarrow> (DB \<Rightarrow> DB \<times> (move_error + 'a)) \<Rightarrow> Manager \<Rightarrow> Manager \<times> (cluster_error + 'a)" where
  "onShard i f m =
     (case theShard m i of
        None \<Rightarrow> (m, Inl (NotOpen i))
      | Some sh \<Rightarrow>
          (case f (cs_Storage sh) of
             (db, Inl err) \<Rightarrow> (setShard i (sh\<lparr>cs_Storage := db\<rparr>) m, Inl (MoveErr err))
           | (db, Inr x) \<Rightarrow> (setShard i (sh\<lparr>cs_Storage := db\<rparr>) m, Inr x)))"

definition fromShard :: "uint32 \<Rightarrow> (DB \<Rightarrow> Manager \<Rightarrow> Manager \<times> (cluster_error + 'a)) \<Rightarrow> Manager \<Rightarrow> Manager \<times> (cluster_error + 'a)" where
  "fromShard i f m = (case theShard m i of None \<Rightarrow> (m, Inl (NotOpen i)) | Some sh \<Rightarrow> f (cs_Storage sh) m)"

section \<open>Steps that keep the rows\<close>

definition storeOf :: "Manager \<Rightarrow> uint32 \<Rightarrow> DB option" where
  "storeOf m i = map_option cs_Storage (theShard m i)"

text \<open>A step that changes system keys and placements only: every shard keeps its rows.\<close>

definition keeps :: "spatial_env \<Rightarrow> TableDescriptor set \<Rightarrow> (bytes \<times> bytes) set \<Rightarrow> Manager \<Rightarrow> Manager \<Rightarrow> bool" where
  "keeps hf T K m m' \<longleftrightarrow>
     (\<forall>i db. storeOf m i = Some db \<longrightarrow> shard_inv hf T K db \<longrightarrow>
        (\<exists>db'. storeOf m' i = Some db' \<and> shard_inv hf T K db' \<and> rows T db' = rows T db))"

lemma keeps_refl [simp]: "keeps hf T K m m"
  by (auto simp: keeps_def)

lemma keeps_trans: "keeps hf T K m m1 \<Longrightarrow> keeps hf T K m1 m2 \<Longrightarrow> keeps hf T K m m2"
  unfolding keeps_def by metis

lemma keepsD:
  assumes "keeps hf T K m m'" and "storeOf m i = Some db" and "shard_inv hf T K db"
  obtains db' where "storeOf m' i = Some db'" "shard_inv hf T K db'" "rows T db' = rows T db"
  using assms unfolding keeps_def by blast

lemma theShard_bound: "theShard m i = Some sh \<Longrightarrow> unat i < length (mg_shards m)"
  by (auto simp: theShard_def split: if_splits)

lemma theShard_setShard:
  assumes "theShard m i = Some sh0"
  shows "theShard (setShard i sh m) j = (if j = i then Some sh else theShard m j)"
  using theShard_bound [OF assms] by (auto simp: theShard_def setShard_def nth_list_update simp flip: word_unat_eq_iff)

lemma storeOf_setShard:
  assumes "theShard m i = Some sh0"
  shows "storeOf (setShard i (sh\<lparr>cs_Storage := db\<rparr>) m) j = (if j = i then Some db else storeOf m j)"
  using theShard_setShard [OF assms] by (simp add: storeOf_def)

lemma setShard_cat [simp]: "mg_cat (setShard i sh m) = mg_cat m"
  by (simp add: setShard_def)

definition system_key :: "bytes \<Rightarrow> bool" where
  "system_key k \<longleftrightarrow> prefix (bytes_of_string (Namespace @ ''cluster/'')) k"

lemma system_not_table: "system_key k \<Longrightarrow> \<not> table_key_of t k"
proof
  assume "system_key k" and "table_key_of t k"
  then have "prefix (bytes_of_string (Namespace @ ''cluster/'')) k" and "prefix (bytes_of_string pTables) k"
    using table_key_slash [of t k] by (auto simp: system_key_def in_seg_def TableBase_def prefix_def)
  then show False by (auto simp: prefix_def pTables_def Namespace_def bytes_of_string_def)
qed

lemma placement_key: "system_key placementSystemKey"
  by (simp add: system_key_def placementSystemKey_def)

lemma storeSet_cases:
  assumes "storeSet db key raw = (db', r)"
  shows "db' = db \<and> (\<exists>err. r = Inl err) \<or> r = Inr () \<and> db' = db\<lparr>db_store := gomap_put key raw (db_store db)\<rparr>"
  using CommitBatch_spec [OF assms [unfolded storeSet_def]] by (auto simp: applyOne_def)

lemma setSystem_keeps:
  assumes "setSystem key raw m = (m', r)" and "system_key key"
  shows "keeps hf T K m m' \<and> mg_cat m' = mg_cat m"
proof (cases "theShard m 0")
  case None
  with assms(1) show ?thesis by (simp add: setSystem_def)
next
  case (Some sh0)
  obtain db x where st: "storeSet (cs_Storage sh0) key raw = (db, x)" by fastforce
  have m': "m' = setShard 0 (sh0\<lparr>cs_Storage := db\<rparr>) m" using assms(1) Some st by (auto simp: setSystem_def split: sum.splits)
  have "shard_inv hf T K db \<and> rows T db = rows T (cs_Storage sh0)" if inv: "shard_inv hf T K (cs_Storage sh0)"
  proof -
    have canon: "gomap_canon (db_store (cs_Storage sh0))" by (rule shard_inv_canon [OF inv])
    have "map_of (gomap_put key raw (db_store (cs_Storage sh0))) k = map_of (db_store (cs_Storage sh0)) k" if "table_key_of t k" for t k
      using that system_not_table [OF assms(2)] by (auto simp: map_of_gomap_put [OF canon])
    from table_frame [OF inv _ this] canon storeSet_cases [OF st] inv show ?thesis by auto
  qed
  moreover have "storeOf m 0 = Some (cs_Storage sh0)" using Some by (simp add: storeOf_def)
  ultimately show ?thesis by (auto simp: keeps_def m' storeOf_setShard [OF Some])
qed

lemma installMeta_storage:
  "map (map_option cs_Storage) (fold installMeta metas shards) = map (map_option cs_Storage) shards"
proof (induction metas arbitrary: shards)
  case (Cons meta metas)
  have "map (map_option cs_Storage) (installMeta meta shards) = map (map_option cs_Storage) shards"
    by (rule nth_equalityI) (auto simp: installMeta_def nth_list_update option.map_comp o_def split: if_splits)
  with Cons show ?case by simp
qed simp

lemma storeOf_cong: "map (map_option cs_Storage) (mg_shards m') = map (map_option cs_Storage) (mg_shards m) \<Longrightarrow> storeOf m' i = storeOf m i"
proof -
  assume eq: "map (map_option cs_Storage) (mg_shards m') = map (map_option cs_Storage) (mg_shards m)"
  then have "length (mg_shards m') = length (mg_shards m)" by (metis length_map)
  moreover have "map_option cs_Storage (mg_shards m' ! k) = map_option cs_Storage (mg_shards m ! k)" if "k < length (mg_shards m)" for k
    using that eq calculation by (metis nth_map)
  ultimately show ?thesis by (auto simp: storeOf_def theShard_def)
qed

text \<open>Installing a placement with as many shards as are open changes no store.\<close>

lemma applyPlacement_stores:
  assumes "applyPlacement E cat save m = (m', Inr ())" and "length (cat_Shards cat) \<le> length (mg_shards m)"
  shows "storeOf m' i = storeOf m i" and "mg_cat m' = cat"
proof -
  from assms obtain router where "NewRouterFromCatalog (ce_now E) cat = Inr router"
    and m': "(if save then SavePlacementFile E cat (m\<lparr>mg_cat := cat, mg_router := Some router, mg_shards := fold installMeta (cat_Shards cat) (mg_shards m)\<rparr>)
       else (m\<lparr>mg_cat := cat, mg_router := Some router, mg_shards := fold installMeta (cat_Shards cat) (mg_shards m)\<rparr>, Inr ())) = (m', Inr ())"
    by (auto simp: applyPlacement_def split: sum.splits if_splits)
  then have "mg_shards m' = fold installMeta (cat_Shards cat) (mg_shards m)" and "mg_cat m' = cat"
    using SavePlacementFile_rest [of E cat] by (auto split: if_splits)
  then show "storeOf m' i = storeOf m i" and "mg_cat m' = cat"
    using installMeta_storage storeOf_cong [of m' m] by simp_all
qed

lemma persistStrict_keeps:
  assumes "persistPlacementSnapshotStrict E cat m = (m', r)"
  shows "keeps hf T K m m' \<and> mg_cat m' = mg_cat m \<and> length (mg_shards m') = length (mg_shards m)"
proof -
  have len: "length (mg_shards (fst (setSystem k v y))) = length (mg_shards y)" for k v y
    by (auto simp: setSystem_def setShard_def split: option.splits prod.splits sum.splits)
  consider "m' = m" | raw m1 x where "setSystem placementSystemKey raw m = (m1, x)" "m' = m1 \<or> SavePlacementFile E cat m1 = (m', r)"
    using assms by (auto simp: persistPlacementSnapshotStrict_def split: sum.splits prod.splits)
  then show ?thesis
  proof cases
    case 2
    from setSystem_keeps [OF 2(1) placement_key] have k: "keeps hf T K m m1 \<and> mg_cat m1 = mg_cat m" .
    from 2(2) have "mg_shards m' = mg_shards m1 \<and> mg_cat m' = mg_cat m1" using SavePlacementFile_rest by blast
    moreover from this have "storeOf m' = storeOf m1" by (simp add: storeOf_def theShard_def fun_eq_iff)
    ultimately show ?thesis using k len [of placementSystemKey raw m] 2(1) by (simp add: keeps_def)
  qed simp
qed


lemma bindS_ok:
  assumes "bindS r k = (s, Inr x)"
  obtains s1 y where "r = (s1, Inr y)" "k s1 y = (s, Inr x)"
  using assms by (rule bindSE) auto

lemma fromShard_ok:
  assumes "fromShard i f m = (m', Inr x)"
  obtains db where "storeOf m i = Some db" "f db m = (m', Inr x)"
  using assms by (auto simp: fromShard_def storeOf_def split: option.splits)

lemma onShard_ok:
  assumes "onShard i f m = (m', Inr x)"
  obtains db db' where "storeOf m i = Some db" "f db = (db', Inr x)" "\<And>j. storeOf m' j = (if j = i then Some db' else storeOf m j)"
    "mg_cat m' = mg_cat m" "length (mg_shards m') = length (mg_shards m)" "manager_ok m \<Longrightarrow> manager_ok m'"
proof -
  from assms obtain sh db' where sh: "theShard m i = Some sh" "f (cs_Storage sh) = (db', Inr x)" "m' = setShard i (sh\<lparr>cs_Storage := db'\<rparr>) m"
    by (auto simp: onShard_def split: option.splits prod.splits sum.splits)
  show ?thesis
  proof (rule that)
    show "storeOf m i = Some (cs_Storage sh)" using sh(1) by (simp add: storeOf_def)
    show "storeOf m' j = (if j = i then Some db' else storeOf m j)" for j by (simp add: sh(3) storeOf_setShard [OF sh(1)])
    show "manager_ok m \<Longrightarrow> manager_ok m'" using setStorage_ok [OF sh(1)] by (simp add: sh(3))
  qed (use sh in \<open>simp_all add: setShard_def\<close>)
qed

text \<open>The two shards of a split, and their rows.\<close>

definition pair :: "spatial_env \<Rightarrow> TableDescriptor set \<Rightarrow> (bytes \<times> bytes) set \<Rightarrow> Manager \<Rightarrow> uint32 \<Rightarrow> uint32 \<Rightarrow>
    (bytes \<Rightarrow> bytes option) \<Rightarrow> (bytes \<Rightarrow> bytes option) \<Rightarrow> bool" where
  "pair hf T K m p c rp rc \<longleftrightarrow> p \<noteq> c \<and>
     (\<exists>P C. storeOf m p = Some P \<and> shard_inv hf T K P \<and> rows T P = rp \<and> storeOf m c = Some C \<and> shard_inv hf T K C \<and> rows T C = rc)"

lemma pair_keeps: "pair hf T K m p c rp rc \<Longrightarrow> keeps hf T K m m' \<Longrightarrow> pair hf T K m' p c rp rc"
  unfolding pair_def keeps_def by metis



text \<open>The node is as it was but for its stores, and it stays consistent.\<close>

definition same_node :: "Manager \<Rightarrow> Manager \<Rightarrow> bool" where
  "same_node m m' \<longleftrightarrow> mg_cat m' = mg_cat m \<and> length (mg_shards m') = length (mg_shards m) \<and> (manager_ok m \<longrightarrow> manager_ok m')"

lemma same_node_refl [simp]: "same_node m m"
  by (simp add: same_node_def)

lemma same_node_trans: "same_node m m1 \<Longrightarrow> same_node m1 m2 \<Longrightarrow> same_node m m2"
  by (simp add: same_node_def)

lemma setSystem_same_node: "setSystem key raw m = (m', r) \<Longrightarrow> same_node m m'"
  using setSystem_ok [of key raw m m' r]
  by (auto simp: same_node_def setSystem_def setShard_def split: option.splits prod.splits sum.splits)

lemma onShard_same_node:
  assumes "onShard i f m = (m', Inr x)"
  shows "same_node m m'"
  using assms by (rule onShard_ok) (auto simp: same_node_def)

text \<open>What a phase is given: tables that can be told apart, hashes that do not collide, one process.\<close>

definition setting :: "spatial_env \<Rightarrow> (bytes \<times> bytes) set \<Rightarrow> TableDescriptor list \<Rightarrow> (MoveStage \<Rightarrow> world) \<Rightarrow> bool" where
  "setting hf K tables W \<longleftrightarrow> catalog_ok (set tables) \<and> collision_free (fst hf) K \<and> (\<forall>st. world_ok hf (W st))"

section \<open>Phases\<close>

lemma copy_step:
  assumes s2: "fromShard p (\<lambda>src. onShard c (copyCatalogKeys (wo_cancelledAt (W StageCatalog)) src)) m1 = (m2, Inr n1)"
    and s3: "fromShard p (\<lambda>src. onShard c (\<lambda>dst. copyPrimaryTokenRangeWithIndexes (W StageCopy) tables src dst R)) m2 = (m3, Inr n2)"
    and set: "setting hf K tables W" and "pair hf (set tables) K m1 p c rp rc"
  shows "pair hf (set tables) K m3 p c rp (rc ++ (rp |` Collect (tokenInRange R))) \<and> same_node m1 m3"
proof -
  let ?T = "set tables"
  note st = set [unfolded setting_def]
  from assms(4) obtain P C where pc: "p \<noteq> c"
    and P: "storeOf m1 p = Some P" "shard_inv hf ?T K P" "rows ?T P = rp" and C: "storeOf m1 c = Some C" "shard_inv hf ?T K C" "rows ?T C = rc"
    by (auto simp: pair_def)
  from s2 P(1) have o2: "onShard c (copyCatalogKeys (wo_cancelledAt (W StageCatalog)) P) m1 = (m2, Inr n1)"
    by (auto elim: fromShard_ok)
  then obtain C1 where C1: "copyCatalogKeys (wo_cancelledAt (W StageCatalog)) P C = (C1, Inr n1)"
    "\<And>j. storeOf m2 j = (if j = c then Some C1 else storeOf m1 j)"
    by (rule onShard_ok) (use C(1) in auto)
  note inv1 = copyCatalogKeys_frame [OF C1(1) shard_inv_canon [OF P(2)] C(2)]
  from s3 P(1) C1(2) pc have o3: "onShard c (\<lambda>dst. copyPrimaryTokenRangeWithIndexes (W StageCopy) tables P dst R) m2 = (m3, Inr n2)"
    by (auto elim: fromShard_ok)
  then obtain C2 where C2: "copyPrimaryTokenRangeWithIndexes (W StageCopy) tables P C1 R = (C2, Inr n2)"
    "\<And>j. storeOf m3 j = (if j = c then Some C2 else storeOf m2 j)"
    by (rule onShard_ok) (use C1(2) in auto)
  from copyTables_spec [OF C2(1) [unfolded copyPrimaryTokenRangeWithIndexes_def] inv1(1) subset_refl P(2)] st
  have "shard_inv hf ?T K C2" "rows ?T C2 = rc ++ (rp |` Collect (tokenInRange R))" by (auto simp: range_rows_def inv1(2) C(3) P(3))
  then show ?thesis
    using P pc C1(2) C2(2) same_node_trans [OF onShard_same_node [OF o2] onShard_same_node [OF o3]] by (auto simp: pair_def)
qed

lemma delete_step:
  assumes "onShard p (\<lambda>db. deletePrimaryTokenRangeWithIndexes (W StageDelete) tables db R) m1 = (m2, Inr n)"
    and set: "setting hf K tables W" and "pair hf (set tables) K m1 p c rp rc"
  shows "pair hf (set tables) K m2 p c (rp |` (- Collect (tokenInRange R))) rc \<and> same_node m1 m2"
proof -
  let ?T = "set tables"
  from assms(3) obtain P C where pc: "p \<noteq> c"
    and P: "storeOf m1 p = Some P" "shard_inv hf ?T K P" "rows ?T P = rp" and C: "storeOf m1 c = Some C" "shard_inv hf ?T K C" "rows ?T C = rc"
    by (auto simp: pair_def)
  from assms(1) obtain P' where P': "deletePrimaryTokenRangeWithIndexes (W StageDelete) tables P R = (P', Inr n)"
    "\<And>j. storeOf m2 j = (if j = p then Some P' else storeOf m1 j)"
    by (rule onShard_ok) (use P(1) in auto)
  have "r |` (- dom (r |` A)) = r |` (- A)" for r :: "bytes \<Rightarrow> bytes option" and A
    by (auto simp: restrict_map_def fun_eq_iff dom_def)
  with deleteTables_spec [OF P'(1) [unfolded deletePrimaryTokenRangeWithIndexes_def] P(2) subset_refl] set [unfolded setting_def] P(3)
  have "shard_inv hf ?T K P'" "rows ?T P' = rp |` (- Collect (tokenInRange R))" by (auto simp: range_rows_def)
  then show ?thesis using C pc P'(2) onShard_same_node [OF assms(1)] by (auto simp: pair_def)
qed

lemma publish_step:
  assumes "persistPlacementSnapshotStrict E after m1 = (m2, Inr v)" and "applyPlacement E after False m2 = (m3, Inr w)"
    and "length (cat_Shards after) \<le> length (mg_shards m1)"
  shows "keeps hf T K m1 m3 \<and> mg_cat m3 = after \<and> (manager_ok m1 \<longrightarrow> manager_ok m3)"
proof -
  note p2 = persistStrict_keeps [OF assms(1)]
  have ap: "applyPlacement E after False m2 = (m3, Inr ())" and len: "length (cat_Shards after) \<le> length (mg_shards m2)"
    using assms(2,3) p2 by simp_all
  note a3 = applyPlacement_stores [OF ap len]
  have "keeps hf T K m2 m3" using a3(1) by (simp add: keeps_def)
  then show ?thesis
    using p2 keeps_trans a3(2) persistStrict_ok [OF assms(1)] applyPlacement_spec [OF assms(2)] by blast
qed

text \<open>
  Saving the state of a finaliser: rows, placement and consistency stay. Under this law the phases
  between two saves are those above.
\<close>

locale saved_phases =
  fixes save :: "'st \<Rightarrow> Manager \<Rightarrow> Manager \<times> (cluster_error + unit)"
  assumes save_keeps: "save s m = (m', r) \<Longrightarrow> keeps hf T K m m'"
    and save_same_node: "save s m = (m', r) \<Longrightarrow> same_node m m'"
begin

lemma copy_between_saves:
  assumes "save s m = (m1, Inr u)"
    and "fromShard p (\<lambda>src. onShard c (copyCatalogKeys (wo_cancelledAt (W StageCatalog)) src)) m1 = (m2, Inr n1)"
    and "fromShard p (\<lambda>src. onShard c (\<lambda>dst. copyPrimaryTokenRangeWithIndexes (W StageCopy) tables src dst R)) m2 = (m3, Inr n2)"
    and "save s' m3 = (m', Inr u')" and "setting hf K tables W" and "pair hf (set tables) K m p c rp rc"
  shows "pair hf (set tables) K m' p c rp (rc ++ (rp |` Collect (tokenInRange R))) \<and> same_node m m'"
proof -
  from copy_step [OF assms(2,3,5) pair_keeps [OF assms(6) save_keeps [OF assms(1)]]]
  have "pair hf (set tables) K m3 p c rp (rc ++ (rp |` Collect (tokenInRange R)))" "same_node m1 m3" by simp_all
  then show ?thesis
    using pair_keeps [OF _ save_keeps [OF assms(4)]] save_same_node [OF assms(1)] save_same_node [OF assms(4)] same_node_trans by metis
qed

lemma delete_between_saves:
  assumes "save s m = (m1, Inr u)"
    and "onShard p (\<lambda>db. deletePrimaryTokenRangeWithIndexes (W StageDelete) tables db R) m1 = (m2, Inr n)"
    and "save s' m2 = (m', Inr u')" and "setting hf K tables W" and "pair hf (set tables) K m p c rp rc"
  shows "pair hf (set tables) K m' p c (rp |` (- Collect (tokenInRange R))) rc \<and> same_node m m'"
proof -
  from delete_step [OF assms(2,4) pair_keeps [OF assms(5) save_keeps [OF assms(1)]]]
  have "pair hf (set tables) K m2 p c (rp |` (- Collect (tokenInRange R))) rc" "same_node m1 m2" by simp_all
  then show ?thesis
    using pair_keeps [OF _ save_keeps [OF assms(3)]] save_same_node [OF assms(1)] save_same_node [OF assms(3)] same_node_trans by metis
qed

lemma publish_between_saves:
  assumes "save s m = (m1, Inr u)" and "persistPlacementSnapshotStrict E after m1 = (m2, Inr v)"
    and "applyPlacement E after False m2 = (m3, Inr w)" and "save s' m3 = (m', Inr u')"
    and "length (cat_Shards after) \<le> length (mg_shards m)"
  shows "keeps hf T K m m' \<and> mg_cat m' = after \<and> (manager_ok m \<longrightarrow> manager_ok m')"
proof -
  from save_same_node [OF assms(1)] have m1: "length (cat_Shards after) \<le> length (mg_shards m1)" "manager_ok m \<longrightarrow> manager_ok m1"
    using assms(5) by (simp_all add: same_node_def)
  from publish_step [OF assms(2,3) m1(1), of hf T K] save_keeps [OF assms(1), of hf T K] save_keeps [OF assms(4), of hf T K]
  have "keeps hf T K m m'" "mg_cat m3 = after" "manager_ok m1 \<longrightarrow> manager_ok m3" using keeps_trans by blast+
  then show ?thesis using m1(2) save_same_node [OF assms(4)] by (simp add: same_node_def)
qed

end

section \<open>Rows and routes\<close>

lemma routes_to:
  assumes "manager_ok m" and "cat_Strategy (mg_cat m) = PlacementStrategyTokenRange" and "meta \<in> set (cat_Shards (mg_cat m))"
    and "Routable (sh_State meta)" and "rng \<in> set (sh_Ranges meta)" "Contains rng (TokenForPK H pk)" and "theShard m (sh_ID meta) = Some sh"
  shows "RouteForPK H m pk 0 = Inr sh"
proof -
  have "ShardForUint64 (mg_router m) (TokenForPK H pk) = Inr (sh_ID meta)" using route_iff [OF assms(1,2)] assms(3-6) by blast
  moreover have "Routable (cs_State sh)" using follows_sel(1) [OF follows_meta(1) [OF assms(1,7,3) refl]] assms(4) by simp
  ultimately show ?thesis using assms(7) by (simp add: RouteForPK_def checkRoutingEpoch_def ShardForPK_def routable_def)
qed

lemma routed_meta:
  assumes "manager_ok m" and "cat_Strategy (mg_cat m) = PlacementStrategyTokenRange" and "RouteForPK H m pk 0 = Inr sh"
    and "meta \<in> set (cat_Shards (mg_cat m))" and "sh_ID meta = cs_ID sh"
  obtains rng where "rng \<in> set (sh_Ranges meta)" "Contains rng (TokenForPK H pk)"
proof -
  from assms(3) obtain i where i: "ShardForUint64 (mg_router m) (TokenForPK H pk) = Inr i" and sh: "theShard m i = Some sh"
    by (auto simp: RouteForPK_def checkRoutingEpoch_def ShardForPK_def routable_def elim!: bindr_InrE split: option.splits if_splits)
  from i route_iff [OF assms(1,2)] obtain meta' rng where meta: "meta' \<in> set (cat_Shards (mg_cat m))" "sh_ID meta' = i"
    "rng \<in> set (sh_Ranges meta')" "Contains rng (TokenForPK H pk)" by blast
  have "cs_ID sh = i" using assms(1) sh by (auto simp: manager_ok_def own_ids_def theShard_def split: if_splits)
  moreover from assms(1) obtain now r where "NewRouterFromCatalog now (mg_cat m) = Inr r" by (auto simp: manager_ok_def)
  ultimately have "meta' = meta" using meta(1,2) assms(4,5) normalized_ids(1) by (metis distinct_map inj_onD)
  with meta(3,4) that show ?thesis by blast
qed

text \<open>
  Two shards, one of them with the rows of a range, the other without: when the placement gives the range
  to the one and the rest to the other, a row is where requests for its key go.
\<close>

lemma moved_row_reached:
  assumes ok: "manager_ok m'" and strat: "cat_Strategy (mg_cat m') = PlacementStrategyTokenRange"
    and pair: "pair (H, g) (set tables) K m' p c (rp |` (- Collect (tokenInRange R))) (rc ++ (rp |` Collect (tokenInRange R)))"
    and child: "mc \<in> set (cat_Shards (mg_cat m'))" "sh_ID mc = c" "Routable (sh_State mc)" "sh_Ranges mc = [R]"
    and parent: "\<not> Contains R (TokenForPK H pk) \<Longrightarrow> \<exists>mp\<in>set (cat_Shards (mg_cat m')). sh_ID mp = p \<and> Routable (sh_State mp) \<and>
        (\<exists>rng\<in>set (sh_Ranges mp). Contains rng (TokenForPK H pk))"
    and td: "td \<in> set tables" "slash_free (td_Name td)" and row: "rp (KeyPrimary H (td_Name td) pk sk) = Some raw"
  shows "\<exists>sh'. RouteForPK H m' pk 0 = Inr sh' \<and> cs_ID sh' \<in> {p, c} \<and> rows (set tables) (cs_Storage sh') (KeyPrimary H (td_Name td) pk sk) = Some raw"
proof -
  let ?T = "set tables"
  have tok: "tokenInRange R (KeyPrimary H (td_Name td) pk sk) = Contains R (TokenForPK H pk)"
    using td(2) by (simp add: tokenInRange_def primary_token_from_key slash_free_def TokenForPK_def)
  from pair obtain Ps Cs where Ps: "theShard m' p = Some Ps" "rows ?T (cs_Storage Ps) = rp |` (- Collect (tokenInRange R))"
    and Cs: "theShard m' c = Some Cs" "rows ?T (cs_Storage Cs) = rc ++ (rp |` Collect (tokenInRange R))"
    by (auto simp: pair_def storeOf_def)
  from ok Ps(1) Cs(1) have ids: "cs_ID Ps = p" "cs_ID Cs = c" by (auto simp: manager_ok_def own_ids_def theShard_def split: if_splits)
  show ?thesis
  proof (cases "Contains R (TokenForPK H pk)")
    case True
    with routes_to [OF ok strat child(1,3)] child(2,4) Cs(1) have "RouteForPK H m' pk 0 = Inr Cs" by simp
    with True tok Cs(2) row ids show ?thesis by auto
  next
    case False
    from parent [OF False] obtain mp rng where "mp \<in> set (cat_Shards (mg_cat m'))" "sh_ID mp = p" "Routable (sh_State mp)"
      "rng \<in> set (sh_Ranges mp)" "Contains rng (TokenForPK H pk)" by blast
    with routes_to [OF ok strat] Ps(1) have "RouteForPK H m' pk 0 = Inr Ps" by blast
    with False tok Ps(2) row ids show ?thesis by auto
  qed
qed

end
