(* ===== verification/SplitFinalize.thy ===== *)
theory SplitFinalize
  imports ShardMove
begin

text \<open>
  Ending and undoing a split (\<^verbatim>\<open>internal/cluster/split_finalize.go\<close>, the upper half): the checks, the
  phases copying, verifying, publishing and cleaning up with the state saved between them, the
  resumption after the placement was published, and the rollback.

  The state is saved as JSON under a key of shard 0; the JSON texts, the hook that tests install to
  stop between phases, and the surroundings of each phase are the record \<open>split_env\<close>. The write
  fence (\<^verbatim>\<open>splitMu\<close>) keeps other writes out, so a call is one step.
\<close>

section \<open>State\<close>

datatype SplitFinalizePhase =
    PhaseCopying | PhaseCopied | PhaseVerified | PhasePublishing | PhasePublished | PhaseCleanup | PhaseDone
  | PhaseVerifyFailed | PhaseRolledBack | PhaseOther string

record SplitFinalizeRequest =
  fq_ParentShardID :: uint32
  fq_ChildShardID :: uint32
  fq_ExpectedEpoch :: uint64

record SplitFinalizeState =
  fs_ParentShardID :: uint32
  fs_ChildShardID :: uint32
  fs_BeforeEpoch :: uint64
  fs_AfterEpoch :: uint64
  fs_ParentRangeBefore :: TokenRange
  fs_ParentRangeAfter :: TokenRange
  fs_ChildRange :: TokenRange
  fs_Phase :: SplitFinalizePhase
  fs_CopiedKeys :: int
  fs_CopiedCatalogKeys :: int
  fs_DeletedKeys :: int
  fs_Verification :: SplitVerification
  fs_UpdatedAtUnix :: int
  fs_LastError :: "move_error option"

text \<open>
  The result repeats the fields of the state beside the placement. The timeout of a request is read by the
  server, which turns it into the context's deadline; its flag \<^verbatim>\<open>WritesQuiesced\<close> is read by no code here.
\<close>

record SplitFinalizeResult =
  fr_State :: SplitFinalizeState
  fr_Placement :: PlacementCatalog

record split_env =
  se_cluster :: cluster_env
  se_encodeState :: "SplitFinalizeState \<Rightarrow> bytes"
  se_decodeState :: "bytes \<Rightarrow> SplitFinalizeState option"
  se_hook :: "SplitFinalizePhase \<Rightarrow> SplitFinalizeState \<Rightarrow> bool"
  se_world :: "MoveStage \<Rightarrow> world"

definition splitFinalizeStateKey :: "uint32 \<Rightarrow> uint32 \<Rightarrow> bytes" where
  "splitFinalizeStateKey parentShardID childShardID =
     bytes_of_string (Namespace @ ''cluster/split/finalize/'' @ formatNat (unat parentShardID) @ ''/'' @ formatNat (unat childShardID))"

definition loadSplitFinalizeState :: "split_env \<Rightarrow> uint32 \<Rightarrow> uint32 \<Rightarrow> Manager \<Rightarrow> cluster_error + SplitFinalizeState option" where
  "loadSplitFinalizeState E parentShardID childShardID m =
     (case theShard m 0 of
        None \<Rightarrow> Inl Shard0Unavailable
      | Some sh0 \<Rightarrow>
          (case snapshotGet (cs_Storage sh0) (splitFinalizeStateKey parentShardID childShardID) of
             None \<Rightarrow> Inr None
           | Some raw \<Rightarrow> (case se_decodeState E raw of None \<Rightarrow> Inl DecodeState | Some state \<Rightarrow> Inr (Some state))))"

definition saveSplitFinalizeState :: "split_env \<Rightarrow> SplitFinalizeState \<Rightarrow> Manager \<Rightarrow> Manager \<times> (cluster_error + unit)" where
  "saveSplitFinalizeState E state m =
     setSystem (splitFinalizeStateKey (fs_ParentShardID state) (fs_ChildShardID state))
       (se_encodeState E (state\<lparr>fs_UpdatedAtUnix := ce_now (se_cluster E)\<rparr>)) m"

definition runSplitFinalizeHook :: "split_env \<Rightarrow> SplitFinalizeState \<Rightarrow> cluster_error + unit" where
  "runSplitFinalizeHook E state = (if se_hook E (fs_Phase state) state then Inl HookErr else Inr ())"

text \<open>Saving the state of a phase, and then the hook.\<close>

definition checkpoint :: "split_env \<Rightarrow> SplitFinalizeState \<Rightarrow> Manager \<Rightarrow> Manager \<times> (cluster_error + unit)" where
  "checkpoint E state m = bindS (saveSplitFinalizeState E state m) (\<lambda>m1 _. (m1, runSplitFinalizeHook E state))"

section \<open>Checks\<close>

definition splitPhasePublishedOrDone :: "SplitFinalizePhase \<Rightarrow> bool" where
  "splitPhasePublishedOrDone phase \<longleftrightarrow> phase \<in> {PhasePublished, PhaseCleanup, PhaseDone}"

definition validateFinalizeSplit :: "PlacementCatalog \<Rightarrow> SplitFinalizeRequest \<Rightarrow>
    cluster_error + (nat \<times> nat \<times> ShardPlacement \<times> ShardPlacement \<times> TokenRange)" where
  "validateFinalizeSplit cat req =
     (if cat_Strategy cat \<noteq> PlacementStrategyTokenRange then Inl (InvalidState ''strategy'')
      else if fq_ExpectedEpoch req \<noteq> 0 \<and> fq_ExpectedEpoch req \<noteq> cat_Epoch cat
      then Inl (StaleRoute (fq_ExpectedEpoch req) (cat_Epoch cat))
      else
        bindr (wrapr InvalidPlan (FindShard cat (fq_ParentShardID req))) (\<lambda>(parentIdx, parent).
        bindr (wrapr InvalidPlan (FindShard cat (fq_ChildShardID req))) (\<lambda>(childIdx, child).
          if sh_State parent \<noteq> ShardStateSplitting then Inl (InvalidState ''parent not splitting'')
          else if sh_State child \<noteq> ShardStateCreating then Inl (InvalidState ''child not creating'')
          else if length (sh_Ranges parent) \<noteq> 1 \<or> length (sh_Ranges child) \<noteq> 1 then Inl (InvalidState ''one range each'')
          else
            let parentRange = sh_Ranges parent ! 0; childRange = sh_Ranges child ! 0 in
            if rng_End childRange \<noteq> rng_End parentRange then Inl (InvalidState ''child range end'')
            else if \<not> TokenStrictlyInside parentRange (rng_Start childRange) then Inl (InvalidState ''child range start'')
            else if snd (SplitRange parentRange (rng_Start childRange)) \<noteq> childRange then Inl (InvalidState ''child range'')
            else Inr (parentIdx, childIdx, parent, child, fst (SplitRange parentRange (rng_Start childRange))))))"

definition validatePublishedSplitPlacement :: "PlacementCatalog \<Rightarrow> SplitFinalizeState \<Rightarrow> cluster_error + unit" where
  "validatePublishedSplitPlacement cat state =
     (if cat_Strategy cat \<noteq> PlacementStrategyTokenRange then Inl (InvalidState ''strategy'')
      else
        bindr (wrapr InvalidPlan (FindShard cat (fs_ParentShardID state))) (\<lambda>(_, parent).
        bindr (wrapr InvalidPlan (FindShard cat (fs_ChildShardID state))) (\<lambda>(_, child).
          if sh_State parent \<noteq> ShardStateActive \<or> sh_State child \<noteq> ShardStateActive then Inl (InvalidState ''not active'')
          else if sh_Ranges parent \<noteq> [fs_ParentRangeAfter state] then Inl (InvalidState ''parent range mismatch'')
          else if sh_Ranges child \<noteq> [fs_ChildRange state] then Inl (InvalidState ''child range mismatch'')
          else Inr ())))"

definition requireSplitFinalizeLeaders :: "Manager \<Rightarrow> Shard \<Rightarrow> Shard \<Rightarrow> cluster_error + unit" where
  "requireSplitFinalizeLeaders m parent child =
     (case theShard m 0 of
        None \<Rightarrow> Inl Shard0Unavailable
      | Some shard0 \<Rightarrow>
          (case find notLeading [parent, child, shard0] of Some sh \<Rightarrow> Inl (NotLeading (cs_ID sh)) | None \<Rightarrow> Inr ()))"

text \<open>The two shards of a request, open and led by this node where they must be.\<close>

definition openShards :: "uint32 \<Rightarrow> uint32 \<Rightarrow> Manager \<Rightarrow> cluster_error + (Shard \<times> Shard)" where
  "openShards parentID childID m =
     (case theShard m parentID of
        None \<Rightarrow> Inl (NotOpen parentID)
      | Some parent \<Rightarrow>
          (case theShard m childID of
             None \<Rightarrow> Inl (NotOpen childID)
           | Some child \<Rightarrow> bindr (requireSplitFinalizeLeaders m parent child) (\<lambda>_. Inr (parent, child))))"

section \<open>Phases\<close>

definition copyPhase :: "split_env \<Rightarrow> TableDescriptor list \<Rightarrow> SplitFinalizeState \<Rightarrow> Manager \<Rightarrow> Manager \<times> (cluster_error + SplitFinalizeState)" where
  "copyPhase E tables state m =
     bindS (checkpoint E state m) (\<lambda>m1 _.
     bindS (fromShard (fs_ParentShardID state) (\<lambda>src. onShard (fs_ChildShardID state)
              (copyCatalogKeys (wo_cancelledAt (se_world E StageCatalog)) src)) m1) (\<lambda>m2 catalogKeys.
     bindS (fromShard (fs_ParentShardID state) (\<lambda>src. onShard (fs_ChildShardID state)
              (\<lambda>dst. copyPrimaryTokenRangeWithIndexes (se_world E StageCopy) tables src dst (fs_ChildRange state))) m2) (\<lambda>m3 copied.
       (case state\<lparr>fs_CopiedCatalogKeys := catalogKeys, fs_CopiedKeys := copied, fs_Phase := PhaseCopied\<rparr> of state1 \<Rightarrow>
          bindS (checkpoint E state1 m3) (\<lambda>m4 _. (m4, Inr state1))))))"

definition verifyPhase :: "split_env \<Rightarrow> TableDescriptor list \<Rightarrow> SplitFinalizeState \<Rightarrow> Manager \<Rightarrow> Manager \<times> (cluster_error + SplitFinalizeState)" where
  "verifyPhase E tables state m =
     fromShard (fs_ParentShardID state) (\<lambda>parent. fromShard (fs_ChildShardID state) (\<lambda>child m1.
       case verifySplitRange (ce_hash (se_cluster E)) (wo_cancelledAt (se_world E StageDigestParent))
              (wo_cancelledAt (se_world E StageDigestChild)) tables parent child (fs_ChildRange state) of
         (verification, Some err) \<Rightarrow>
           (fst (saveSplitFinalizeState E
              (state\<lparr>fs_Verification := verification, fs_Phase := PhaseVerifyFailed, fs_LastError := Some err\<rparr>) m1), Inl (MoveErr err))
       | (verification, None) \<Rightarrow>
           (case state\<lparr>fs_Verification := verification, fs_Phase := PhaseVerified\<rparr> of state1 \<Rightarrow>
              bindS (checkpoint E state1 m1) (\<lambda>m2 _. (m2, Inr state1))))) m"

definition splitCatalog :: "int \<Rightarrow> PlacementCatalog \<Rightarrow> nat \<Rightarrow> nat \<Rightarrow> TokenRange \<Rightarrow> PlacementCatalog" where
  "splitCatalog now current parentIdx childIdx parentRangeAfter =
     (let after = NextCatalog now current;
          parent = (cat_Shards after ! parentIdx)\<lparr>sh_Ranges := [parentRangeAfter], sh_State := ShardStateActive, sh_Epoch := cat_Epoch after\<rparr>;
          shards1 = (cat_Shards after)[parentIdx := parent];
          child = (shards1 ! childIdx)\<lparr>sh_State := ShardStateActive, sh_Epoch := cat_Epoch after\<rparr>
      in after\<lparr>cat_Shards := shards1[childIdx := child]\<rparr>)"

definition publishPhase :: "split_env \<Rightarrow> PlacementCatalog \<Rightarrow> SplitFinalizeState \<Rightarrow> Manager \<Rightarrow> Manager \<times> (cluster_error + SplitFinalizeState)" where
  "publishPhase E after state m =
     (case state\<lparr>fs_AfterEpoch := cat_Epoch after, fs_Phase := PhasePublishing\<rparr> of state1 \<Rightarrow>
        bindS (checkpoint E state1 m) (\<lambda>m1 _.
        bindS (persistPlacementSnapshotStrict (se_cluster E) after m1) (\<lambda>m2 _.
        bindS (applyPlacement (se_cluster E) after False m2) (\<lambda>m3 _.
          (case state1\<lparr>fs_Phase := PhasePublished\<rparr> of state2 \<Rightarrow>
             bindS (checkpoint E state2 m3) (\<lambda>m4 _. (m4, Inr state2)))))))"

text \<open>Deleting the moved rows from the parent; the count is added to \<open>before\<close>.\<close>

definition cleanupPhase :: "split_env \<Rightarrow> uint32 \<Rightarrow> TableDescriptor list \<Rightarrow> int \<Rightarrow> SplitFinalizeState \<Rightarrow> Manager \<Rightarrow> Manager \<times> (cluster_error + SplitFinalizeState)" where
  "cleanupPhase E parentID tables before state m =
     (case state\<lparr>fs_Phase := PhaseCleanup\<rparr> of state1 \<Rightarrow>
        bindS (saveSplitFinalizeState E state1 m) (\<lambda>m1 _.
        bindS (onShard parentID
                 (\<lambda>db. deletePrimaryTokenRangeWithIndexes (se_world E StageDelete) tables db (fs_ChildRange state)) m1) (\<lambda>m2 deleted.
          (case state1\<lparr>fs_DeletedKeys := before + deleted, fs_Phase := PhaseDone\<rparr> of state2 \<Rightarrow>
             bindS (saveSplitFinalizeState E state2 m2) (\<lambda>m3 _. (m3, Inr state2))))))"

section \<open>Operations\<close>

definition splitFinalizeResultFromState :: "SplitFinalizeState \<Rightarrow> PlacementCatalog \<Rightarrow> SplitFinalizeResult" where
  "splitFinalizeResultFromState state cat = \<lparr>fr_State = state, fr_Placement = cat\<rparr>"

text \<open>\<open>Inr None\<close> means that nothing was published and the caller goes on.\<close>

definition resumePublishedSplit :: "split_env \<Rightarrow> SplitFinalizeRequest \<Rightarrow> Manager \<Rightarrow> Manager \<times> (cluster_error + SplitFinalizeResult option)" where
  "resumePublishedSplit E req m =
     (case loadSplitFinalizeState E (fq_ParentShardID req) (fq_ChildShardID req) m of
        Inl err \<Rightarrow> (m, Inl err)
      | Inr None \<Rightarrow> (m, Inr None)
      | Inr (Some state) \<Rightarrow>
          if \<not> splitPhasePublishedOrDone (fs_Phase state) then (m, Inr None)
          else if fq_ExpectedEpoch req \<noteq> 0 \<and> fq_ExpectedEpoch req \<noteq> cat_Epoch (mg_cat m) \<and> fq_ExpectedEpoch req \<noteq> fs_BeforeEpoch state
          then (m, Inl (StaleRoute (fq_ExpectedEpoch req) (cat_Epoch (mg_cat m))))
          else
            (case bindr (openShards (fq_ParentShardID req) (fq_ChildShardID req) m) (\<lambda>(parent, child).
                    bindr (validatePublishedSplitPlacement (mg_cat m) state) (\<lambda>_. Inr parent)) of
               Inl err \<Rightarrow> (m, Inl err)
             | Inr parent \<Rightarrow>
                 if fs_Phase state = PhaseDone then (m, Inr (Some (splitFinalizeResultFromState state (mg_cat m))))
                 else
                   (case loadSplitCopyTables (se_cluster E) (cs_Storage parent) of
                      Inl err \<Rightarrow> (m, Inl err)
                    | Inr tables \<Rightarrow>
                        bindS (cleanupPhase E (fq_ParentShardID req) tables (fs_DeletedKeys state) state m) (\<lambda>m1 state1.
                          (m1, Inr (Some (splitFinalizeResultFromState state1 (mg_cat m))))))))"

definition firstState :: "SplitFinalizeRequest \<Rightarrow> PlacementCatalog \<Rightarrow> TokenRange \<Rightarrow> TokenRange \<Rightarrow> TokenRange \<Rightarrow> SplitFinalizeState" where
  "firstState req current parentRange parentRangeAfter childRange =
     \<lparr>fs_ParentShardID = fq_ParentShardID req, fs_ChildShardID = fq_ChildShardID req, fs_BeforeEpoch = cat_Epoch current,
      fs_AfterEpoch = 0, fs_ParentRangeBefore = parentRange, fs_ParentRangeAfter = parentRangeAfter, fs_ChildRange = childRange,
      fs_Phase = PhaseCopying, fs_CopiedKeys = 0, fs_CopiedCatalogKeys = 0, fs_DeletedKeys = 0,
      fs_Verification = zeroVerification, fs_UpdatedAtUnix = 0, fs_LastError = None\<rparr>"

text \<open>\<^verbatim>\<open>FinalizeSplit\<close> after the resumption found nothing to do.\<close>

definition finalizeFresh :: "split_env \<Rightarrow> SplitFinalizeRequest \<Rightarrow> Manager \<Rightarrow> Manager \<times> (cluster_error + SplitFinalizeResult)" where
  "finalizeFresh E req m =
     (let current = mg_cat m in
      case bindr (validateFinalizeSplit current req) (\<lambda>(parentIdx, childIdx, parent, child, parentRangeAfter).
             bindr (openShards (fq_ParentShardID req) (fq_ChildShardID req) m) (\<lambda>(parentShard, childShard).
             bindr (loadSplitCopyTables (se_cluster E) (cs_Storage parentShard)) (\<lambda>tables.
               Inr (parentIdx, childIdx, parentRangeAfter, tables,
                    firstState req current (sh_Ranges parent ! 0) parentRangeAfter (sh_Ranges child ! 0))))) of
        Inl err \<Rightarrow> (m, Inl err)
      | Inr (parentIdx, childIdx, parentRangeAfter, tables, state) \<Rightarrow>
          bindS (copyPhase E tables state m) (\<lambda>m1 state1.
          bindS (verifyPhase E tables state1 m1) (\<lambda>m2 state2.
            (case wrapr InvalidPlan (finishCatalog (ce_now (se_cluster E))
                    (splitCatalog (ce_now (se_cluster E)) current parentIdx childIdx parentRangeAfter)) of
               Inl err \<Rightarrow> (m2, Inl err)
             | Inr after \<Rightarrow>
                 bindS (publishPhase E after state2 m2) (\<lambda>m3 state3.
                 bindS (cleanupPhase E (fq_ParentShardID req) tables 0 state3 m3) (\<lambda>m4 state4.
                   (m4, Inr (splitFinalizeResultFromState state4 after))))))))"

definition FinalizeSplit :: "split_env \<Rightarrow> SplitFinalizeRequest \<Rightarrow> Manager \<Rightarrow> Manager \<times> (cluster_error + SplitFinalizeResult)" where
  "FinalizeSplit E req m =
     bindS (RefreshPlacement (se_cluster E) m) (\<lambda>m1 _.
     bindS (resumePublishedSplit E req m1) (\<lambda>m2 resumed.
       (case resumed of Some res \<Rightarrow> (m2, Inr res) | None \<Rightarrow> finalizeFresh E req m2)))"

record SplitRollbackResult =
  rr_ParentShardID :: uint32
  rr_ChildShardID :: uint32
  rr_BeforeEpoch :: uint64
  rr_AfterEpoch :: uint64
  rr_ChildRange :: TokenRange
  rr_DeletedChildKeys :: int
  rr_DeletedCatalogKeys :: int
  rr_Phase :: SplitFinalizePhase
  rr_Placement :: PlacementCatalog

definition rollbackCatalog :: "int \<Rightarrow> PlacementCatalog \<Rightarrow> nat \<Rightarrow> nat \<Rightarrow> PlacementCatalog" where
  "rollbackCatalog now current parentIdx childIdx =
     (let after = NextCatalog now current;
          parent = (cat_Shards after ! parentIdx)\<lparr>sh_State := ShardStateActive, sh_Epoch := cat_Epoch after\<rparr>;
          shards1 = (cat_Shards after)[parentIdx := parent];
          child = (shards1 ! childIdx)\<lparr>sh_State := ShardStateDecommissioned, sh_Ranges := [], sh_Epoch := cat_Epoch after\<rparr>
      in after\<lparr>cat_Shards := shards1[childIdx := child]\<rparr>)"

definition zeroState :: SplitFinalizeState where
  "zeroState = \<lparr>fs_ParentShardID = 0, fs_ChildShardID = 0, fs_BeforeEpoch = 0, fs_AfterEpoch = 0, fs_ParentRangeBefore = mkRange 0 0,
     fs_ParentRangeAfter = mkRange 0 0, fs_ChildRange = mkRange 0 0, fs_Phase = PhaseOther '''', fs_CopiedKeys = 0,
     fs_CopiedCatalogKeys = 0, fs_DeletedKeys = 0, fs_Verification = zeroVerification, fs_UpdatedAtUnix = 0, fs_LastError = None\<rparr>"

text \<open>
  The variable \<^verbatim>\<open>ok\<close> that says whether a state was loaded is assigned again when the shards are looked up,
  so it is true when it is tested at the end: the state built for the other case is never used, and
  without a stored state the zero state is saved.
\<close>

definition RollbackSplit :: "split_env \<Rightarrow> SplitFinalizeRequest \<Rightarrow> Manager \<Rightarrow> Manager \<times> (cluster_error + SplitRollbackResult)" where
  "RollbackSplit E req m0 =
     bindS (RefreshPlacement (se_cluster E) m0) (\<lambda>m _.
       case bindr (loadSplitFinalizeState E (fq_ParentShardID req) (fq_ChildShardID req) m) (\<lambda>stored.
              bindr (case stored of None \<Rightarrow> Inr zeroState
                     | Some s \<Rightarrow> if splitPhasePublishedOrDone (fs_Phase s) then Inl (InvalidState ''published'') else Inr s) (\<lambda>state.
              bindr (validateFinalizeSplit (mg_cat m) req) (\<lambda>(parentIdx, childIdx, parent, child, _).
              bindr (openShards (fq_ParentShardID req) (fq_ChildShardID req) m) (\<lambda>_.
                Inr (state, parentIdx, childIdx, sh_Ranges child ! 0))))) of
         Inl err \<Rightarrow> (m, Inl err)
       | Inr (state, parentIdx, childIdx, childRange) \<Rightarrow>
           bindS (onShard (fq_ChildShardID req) (deleteAllKeys (wo_cancelledAt (se_world E StageDropData)) PrefixTables) m) (\<lambda>m1 deletedData.
           bindS (onShard (fq_ChildShardID req) (deleteAllKeys (wo_cancelledAt (se_world E StageDropCatalog)) PrefixCatalog) m1) (\<lambda>m2 deletedCatalog.
             (case wrapr InvalidPlan (finishCatalog (ce_now (se_cluster E))
                     (rollbackCatalog (ce_now (se_cluster E)) (mg_cat m) parentIdx childIdx)) of
                Inl err \<Rightarrow> (m2, Inl err)
              | Inr after \<Rightarrow>
                  bindS (persistPlacementSnapshotStrict (se_cluster E) after m2) (\<lambda>m3 _.
                  bindS (applyPlacement (se_cluster E) after False m3) (\<lambda>m4 _.
                  bindS (saveSplitFinalizeState E (state\<lparr>fs_AfterEpoch := cat_Epoch after, fs_Phase := PhaseRolledBack\<rparr>) m4) (\<lambda>m5 _.
                    (m5, Inr \<lparr>rr_ParentShardID = fq_ParentShardID req, rr_ChildShardID = fq_ChildShardID req,
                              rr_BeforeEpoch = cat_Epoch (mg_cat m), rr_AfterEpoch = cat_Epoch after, rr_ChildRange = childRange,
                              rr_DeletedChildKeys = deletedData, rr_DeletedCatalogKeys = deletedCatalog,
                              rr_Phase = PhaseRolledBack, rr_Placement = after\<rparr>))))))))"


section \<open>What each phase does\<close>

lemma state_key: "system_key (splitFinalizeStateKey p c)"
  by (simp add: system_key_def splitFinalizeStateKey_def)

interpretation split_save: saved_phases "saveSplitFinalizeState E" for E
  by unfold_locales
    (auto simp: saveSplitFinalizeState_def dest: setSystem_keeps [OF _ state_key] setSystem_same_node)

interpretation split_point: saved_phases "checkpoint E" for E
  by unfold_locales
    (auto simp: checkpoint_def elim!: bindSE dest: split_save.save_keeps split_save.save_same_node)

definition same_split :: "SplitFinalizeState \<Rightarrow> SplitFinalizeState \<Rightarrow> bool" where
  "same_split s s' \<longleftrightarrow> fs_ParentShardID s' = fs_ParentShardID s \<and> fs_ChildShardID s' = fs_ChildShardID s \<and> fs_ChildRange s' = fs_ChildRange s"

lemma copyPhase_spec:
  assumes "copyPhase E tables state m = (m', Inr state')" and "setting hf K tables (se_world E)"
    and "pair hf (set tables) K m (fs_ParentShardID state) (fs_ChildShardID state) rp rc"
  shows "pair hf (set tables) K m' (fs_ParentShardID state) (fs_ChildShardID state) rp (rc ++ (rp |` Collect (tokenInRange (fs_ChildRange state))))"
    and "same_split state state'" and "same_node m m'"
proof -
  let ?p = "fs_ParentShardID state" and ?c = "fs_ChildShardID state" and ?R = "fs_ChildRange state"
  from assms(1) obtain m1 m2 m3 n1 n2 u u' where
    s1: "checkpoint E state m = (m1, Inr u)"
    and s2: "fromShard ?p (\<lambda>src. onShard ?c (copyCatalogKeys (wo_cancelledAt (se_world E StageCatalog)) src)) m1 = (m2, Inr n1)"
    and s3: "fromShard ?p (\<lambda>src. onShard ?c (\<lambda>dst. copyPrimaryTokenRangeWithIndexes (se_world E StageCopy) tables src dst ?R)) m2 = (m3, Inr n2)"
    and s4: "checkpoint E (state\<lparr>fs_CopiedCatalogKeys := n1, fs_CopiedKeys := n2, fs_Phase := PhaseCopied\<rparr>) m3 = (m', Inr u')"
    and state': "state' = state\<lparr>fs_CopiedCatalogKeys := n1, fs_CopiedKeys := n2, fs_Phase := PhaseCopied\<rparr>"
    unfolding copyPhase_def by (auto elim!: bindS_ok)
  from split_point.copy_between_saves [OF s1 s2 s3 s4 assms(2,3)]
  show "pair hf (set tables) K m' ?p ?c rp (rc ++ (rp |` Collect (tokenInRange ?R)))" and "same_node m m'" by simp_all
  show "same_split state state'" by (simp add: same_split_def state')
qed

lemma verifyPhase_spec:
  assumes "verifyPhase E tables state m = (m', Inr state')"
  shows "keeps hf T K m m'" and "same_split state state'" and "same_node m m'"
proof -
  from assms obtain v u where c: "checkpoint E (state\<lparr>fs_Verification := v, fs_Phase := PhaseVerified\<rparr>) m = (m', Inr u)"
    and state': "state' = state\<lparr>fs_Verification := v, fs_Phase := PhaseVerified\<rparr>"
    unfolding verifyPhase_def by (auto elim!: fromShard_ok bindS_ok split: prod.splits option.splits)
  show "keeps hf T K m m'" and "same_node m m'" by (rule split_point.save_keeps [OF c], rule split_point.save_same_node [OF c])
  show "same_split state state'" by (simp add: same_split_def state')
qed

lemma publishPhase_spec:
  assumes "publishPhase E after state m = (m', Inr state')" and "length (cat_Shards after) \<le> length (mg_shards m)"
  shows "keeps hf T K m m'" and "same_split state state'" and "mg_cat m' = after" and "manager_ok m \<Longrightarrow> manager_ok m'"
proof -
  let ?s1 = "state\<lparr>fs_AfterEpoch := cat_Epoch after, fs_Phase := PhasePublishing\<rparr>"
  from assms(1) obtain m1 m2 m3 u u' v w where
    s1: "checkpoint E ?s1 m = (m1, Inr u)" and s2: "persistPlacementSnapshotStrict (se_cluster E) after m1 = (m2, Inr v)"
    and s3: "applyPlacement (se_cluster E) after False m2 = (m3, Inr w)"
    and s4: "checkpoint E (?s1\<lparr>fs_Phase := PhasePublished\<rparr>) m3 = (m', Inr u')" and state': "state' = ?s1\<lparr>fs_Phase := PhasePublished\<rparr>"
    unfolding publishPhase_def by (auto elim!: bindS_ok)
  from split_point.publish_between_saves [OF s1 s2 s3 s4 assms(2)]
  show "keeps hf T K m m'" and "mg_cat m' = after" and "manager_ok m \<Longrightarrow> manager_ok m'" by simp_all
  show "same_split state state'" by (simp add: same_split_def state')
qed

lemma cleanupPhase_spec:
  assumes "cleanupPhase E (fs_ParentShardID state) tables before state m = (m', Inr state')" and "setting hf K tables (se_world E)"
    and "pair hf (set tables) K m (fs_ParentShardID state) c rp rc"
  shows "pair hf (set tables) K m' (fs_ParentShardID state) c (rp |` (- Collect (tokenInRange (fs_ChildRange state)))) rc"
    and "same_node m m'" and "fs_Phase state' = PhaseDone"
proof -
  let ?p = "fs_ParentShardID state" and ?R = "fs_ChildRange state"
  from assms(1) obtain m1 m2 u u' n where s1: "saveSplitFinalizeState E (state\<lparr>fs_Phase := PhaseCleanup\<rparr>) m = (m1, Inr u)"
    and s2: "onShard ?p (\<lambda>db. deletePrimaryTokenRangeWithIndexes (se_world E StageDelete) tables db ?R) m1 = (m2, Inr n)"
    and s3: "saveSplitFinalizeState E (state\<lparr>fs_Phase := PhaseCleanup, fs_DeletedKeys := before + n, fs_Phase := PhaseDone\<rparr>) m2 = (m', Inr u')"
    and ph: "fs_Phase state' = PhaseDone"
    unfolding cleanupPhase_def by (auto elim!: bindS_ok)
  from split_save.delete_between_saves [OF s1 s2 s3 assms(2,3)] ph
  show "pair hf (set tables) K m' ?p c (rp |` (- Collect (tokenInRange ?R))) rc"
    and "same_node m m'" and "fs_Phase state' = PhaseDone" by simp_all
qed


section \<open>A finished split\<close>

lemma validateFinalizeSplit_ok:
  assumes "validateFinalizeSplit cat req = Inr (pi, ci, parent, child, ra)"
  obtains PR CR where "cat_Strategy cat = PlacementStrategyTokenRange"
    "FindShard cat (fq_ParentShardID req) = Inr (pi, parent)" "FindShard cat (fq_ChildShardID req) = Inr (ci, child)"
    "sh_State parent = ShardStateSplitting" "sh_State child = ShardStateCreating" "sh_Ranges parent = [PR]" "sh_Ranges child = [CR]"
    "TokenStrictlyInside PR (rng_Start CR)" "SplitRange PR (rng_Start CR) = (ra, CR)" "fq_ParentShardID req \<noteq> fq_ChildShardID req"
proof -
  have len: "\<exists>x. xs = [x]" if "length xs = 1" for xs :: "TokenRange list" using that by (cases xs) auto
  from assms have v: "cat_Strategy cat = PlacementStrategyTokenRange"
    "FindShard cat (fq_ParentShardID req) = Inr (pi, parent)" "FindShard cat (fq_ChildShardID req) = Inr (ci, child)"
    "sh_State parent = ShardStateSplitting" "sh_State child = ShardStateCreating" "length (sh_Ranges parent) = 1" "length (sh_Ranges child) = 1"
    "TokenStrictlyInside (sh_Ranges parent ! 0) (rng_Start (sh_Ranges child ! 0))"
    "snd (SplitRange (sh_Ranges parent ! 0) (rng_Start (sh_Ranges child ! 0))) = sh_Ranges child ! 0"
    "fst (SplitRange (sh_Ranges parent ! 0) (rng_Start (sh_Ranges child ! 0))) = ra"
    by (auto simp: validateFinalizeSplit_def Let_def split: if_splits elim!: bindr_InrE)
  from len [OF v(6)] len [OF v(7)] obtain PR CR where r: "sh_Ranges parent = [PR]" "sh_Ranges child = [CR]" by blast
  have "fq_ParentShardID req \<noteq> fq_ChildShardID req" using v(2-5) by (auto simp: state_defs)
  with v r show ?thesis by (intro that) (auto simp: prod_eq_iff)
qed

lemma openShards_ok: "openShards p c m = Inr (a, b) \<Longrightarrow> theShard m p = Some a \<and> theShard m c = Some b"
  by (auto simp: openShards_def split: option.splits elim!: bindr_InrE)

text \<open>The whole run: which rows are where at the end, and the placement it installs.\<close>

lemma finalizeFresh_spec:
  assumes run: "finalizeFresh E req m = (m', Inr res)" and "storeOf m (fq_ParentShardID req) = Some P" and "storeOf m (fq_ChildShardID req) = Some C"
    and tables: "ce_tables (se_cluster E) P = Some tables" and set: "setting hf K tables (se_world E)" and ok: "manager_ok m"
    and inv: "shard_inv hf (set tables) K P" "shard_inv hf (set tables) K C"
  obtains pi ci parent child ra PR CR where "validateFinalizeSplit (mg_cat m) req = Inr (pi, ci, parent, child, ra)" "sh_Ranges parent = [PR]" "sh_Ranges child = [CR]"
    "pair hf (set tables) K m' (fq_ParentShardID req) (fq_ChildShardID req)
       (rows (set tables) P |` (- Collect (tokenInRange CR))) (rows (set tables) C ++ (rows (set tables) P |` Collect (tokenInRange CR)))"
    "mg_cat m' = Normalize (ce_now (se_cluster E)) (splitCatalog (ce_now (se_cluster E)) (mg_cat m) pi ci ra)" "manager_ok m'"
    "fr_Placement res = mg_cat m'" "fs_Phase (fr_State res) = PhaseDone"
proof -
  let ?now = "ce_now (se_cluster E)" and ?p = "fq_ParentShardID req" and ?c = "fq_ChildShardID req" and ?T = "set tables"
  from run obtain pi ci parent child ra ps chs tables' where
    v: "validateFinalizeSplit (mg_cat m) req = Inr (pi, ci, parent, child, ra)" and o: "openShards ?p ?c m = Inr (ps, chs)"
    and t: "loadSplitCopyTables (se_cluster E) (cs_Storage ps) = Inr tables'"
    and rest: "bindS (copyPhase E tables' (firstState req (mg_cat m) (sh_Ranges parent ! 0) ra (sh_Ranges child ! 0)) m) (\<lambda>m1 state1.
          bindS (verifyPhase E tables' state1 m1) (\<lambda>m2 state2.
            (case wrapr InvalidPlan (finishCatalog ?now (splitCatalog ?now (mg_cat m) pi ci ra)) of
               Inl err \<Rightarrow> (m2, Inl err)
             | Inr after \<Rightarrow>
                 bindS (publishPhase E after state2 m2) (\<lambda>m3 state3.
                 bindS (cleanupPhase E ?p tables' 0 state3 m3) (\<lambda>m4 state4.
                   (m4, Inr (splitFinalizeResultFromState state4 after))))))) = (m', Inr res)"
    unfolding finalizeFresh_def Let_def by (auto split: sum.splits elim!: bindr_InrE)
  from v obtain PR CR where r: "sh_Ranges parent = [PR]" "sh_Ranges child = [CR]" and ne: "?p \<noteq> ?c"
    and fp: "FindShard (mg_cat m) ?p = Inr (pi, parent)" and fc: "FindShard (mg_cat m) ?c = Inr (ci, child)" by (rule validateFinalizeSplit_ok)
  from openShards_ok [OF o] assms(2) have "cs_Storage ps = P" by (simp add: storeOf_def)
  with t tables have [simp]: "tables' = tables" by (simp add: loadSplitCopyTables_def)
  let ?s0 = "firstState req (mg_cat m) PR ra CR"
  from rest r obtain m1 m2 m3 s1 s2 s3 s4 after where
    c: "copyPhase E tables ?s0 m = (m1, Inr s1)" and ve: "verifyPhase E tables s1 m1 = (m2, Inr s2)"
    and af: "finishCatalog ?now (splitCatalog ?now (mg_cat m) pi ci ra) = Inr after"
    and pu: "publishPhase E after s2 m2 = (m3, Inr s3)" and cl: "cleanupPhase E ?p tables 0 s3 m3 = (m', Inr s4)"
    and res: "res = splitFinalizeResultFromState s4 after"
    by (auto elim!: bindS_ok split: sum.splits)
  have s0: "fs_ParentShardID ?s0 = ?p" "fs_ChildShardID ?s0 = ?c" "fs_ChildRange ?s0 = CR" by (simp_all add: firstState_def)
  have "pair hf ?T K m ?p ?c (rows ?T P) (rows ?T C)" using assms(2,3) inv ne by (simp add: pair_def)
  then have "pair hf ?T K m (fs_ParentShardID ?s0) (fs_ChildShardID ?s0) (rows ?T P) (rows ?T C)" by (simp add: s0)
  note q1 = copyPhase_spec [OF c set this, unfolded s0] and v2 = verifyPhase_spec [OF ve]
  have after: "after = Normalize ?now (splitCatalog ?now (mg_cat m) pi ci ra)" using af by (auto simp: finishCatalog_def Let_def elim!: bindr_InrE)
  have "length (cat_Shards after) = length (cat_Shards (mg_cat m))"
    by (simp add: after Normalize_def splitCatalog_def NextCatalog_def Let_def)
  then have len: "length (cat_Shards after) \<le> length (mg_shards m2)" and ok2: "manager_ok m2"
    using ok q1(3) v2(3) by (simp_all add: manager_ok_def [of m] same_node_def)
  note v3 = publishPhase_spec [OF pu len]
  have p3: "pair hf ?T K m3 ?p ?c (rows ?T P) (rows ?T C ++ (rows ?T P |` Collect (tokenInRange CR)))"
    using pair_keeps [OF pair_keeps [OF q1(1) v2(1)] v3(1)] .
  have s3: "fs_ParentShardID s3 = ?p" "fs_ChildRange s3 = CR" using q1(2) v2(2) v3(2) s0 by (simp_all add: same_split_def)
  note cleaned = cleanupPhase_spec [where state = s3, unfolded s3, OF cl set p3]
  have "mg_cat m' = after" "manager_ok m'" using cleaned(2) v3(3) v3(4) [OF ok2] by (simp_all add: same_node_def)
  with cleaned(1,3) have "pair hf ?T K m' ?p ?c (rows ?T P |` (- Collect (tokenInRange CR))) (rows ?T C ++ (rows ?T P |` Collect (tokenInRange CR)))"
    "mg_cat m' = after" "manager_ok m'" "fs_Phase s4 = PhaseDone" by simp_all
  then show ?thesis using that [OF v r] by (simp add: after res splitFinalizeResultFromState_def)
qed

text \<open>
  A split that finishes has moved exactly the rows of the child's range: the child holds them byte for
  byte beside its own, the parent holds the others, and on both every row lies under its own key and
  the indexes are exact; the placement it returns is the one installed.
\<close>

lemma split_moves_rows:
  assumes "finalizeFresh E req m = (m', Inr res)" and "storeOf m (fq_ParentShardID req) = Some P" and "storeOf m (fq_ChildShardID req) = Some C"
    and "ce_tables (se_cluster E) P = Some tables" and "setting hf K tables (se_world E)" and "manager_ok m"
    and "shard_inv hf (set tables) K P" "shard_inv hf (set tables) K C"
  shows "\<exists>P' C' R. storeOf m' (fq_ParentShardID req) = Some P' \<and> storeOf m' (fq_ChildShardID req) = Some C' \<and>
    (\<exists>j child. FindShard (mg_cat m) (fq_ChildShardID req) = Inr (j, child) \<and> sh_Ranges child = [R]) \<and>
    rows (set tables) P' = rows (set tables) P |` (- Collect (tokenInRange R)) \<and>
    rows (set tables) C' = rows (set tables) C ++ range_rows (set tables) R P \<and>
    shard_inv hf (set tables) K P' \<and> shard_inv hf (set tables) K C' \<and> fr_Placement res = mg_cat m'"
  using assms
proof (rule finalizeFresh_spec)
  fix pi ci parent child ra PR CR
  assume v: "validateFinalizeSplit (mg_cat m) req = Inr (pi, ci, parent, child, ra)" and CR: "sh_Ranges child = [CR]"
    and pair: "pair hf (set tables) K m' (fq_ParentShardID req) (fq_ChildShardID req)
       (rows (set tables) P |` (- Collect (tokenInRange CR))) (rows (set tables) C ++ (rows (set tables) P |` Collect (tokenInRange CR)))"
    and cat: "fr_Placement res = mg_cat m'"
  from v have "FindShard (mg_cat m) (fq_ChildShardID req) = Inr (ci, child)" by (rule validateFinalizeSplit_ok)
  with pair CR cat show ?thesis unfolding pair_def range_rows_def by blast
qed


section \<open>Rows and routes after a split\<close>

lemma splitCatalog_shards:
  assumes "FindShard cat p = Inr (pi, parent)" and "FindShard cat c = Inr (ci, child)" and "p \<noteq> c" and "sh_Ranges child = [CR]"
    and "cat_Strategy cat = PlacementStrategyTokenRange" and cat'_def: "cat' = Normalize now (splitCatalog now cat pi ci ra)"
  shows "\<exists>meta\<in>set (cat_Shards cat'). sh_ID meta = p \<and> Routable (sh_State meta) \<and> sh_Ranges meta = [ra]"
    and "\<exists>meta\<in>set (cat_Shards cat'). sh_ID meta = c \<and> Routable (sh_State meta) \<and> sh_Ranges meta = [CR]"
    and "cat_Strategy cat' = PlacementStrategyTokenRange"
proof -
  note fp = FindShard_Inr [OF assms(1)] and fc = FindShard_Inr [OF assms(2)]
  have "pi \<noteq> ci" using fp fc assms(3) by auto
  let ?sc = "splitCatalog now cat pi ci ra"
  let ?parent = "cat_Shards ?sc ! pi" and ?child = "cat_Shards ?sc ! ci"
  have mem: "?parent \<in> set (cat_Shards ?sc)" "?child \<in> set (cat_Shards ?sc)"
    by (rule nth_mem; use fp fc in \<open>simp add: splitCatalog_def Let_def\<close>)+
  have sel: "sh_ID ?parent = p" "sh_State ?parent = ShardStateActive" "sh_Ranges ?parent = [ra]"
    "sh_ID ?child = c" "sh_State ?child = ShardStateActive" "sh_Ranges ?child = [CR]"
    using fp fc \<open>pi \<noteq> ci\<close> assms(4) by (simp_all add: splitCatalog_def Let_def) metis+
  have active: "Routable ShardStateActive" "ShardStateActive \<noteq> ''''" by (simp_all add: Routable_def ShardStateActive_def)
  have norm: "normalizeShard e sh \<in> set (cat_Shards cat')" if "sh \<in> set (cat_Shards ?sc)" "e = cat_Epoch (Normalize now ?sc)" for sh e
    unfolding cat'_def normalized_shards using that by simp
  show "\<exists>meta\<in>set (cat_Shards cat'). sh_ID meta = p \<and> Routable (sh_State meta) \<and> sh_Ranges meta = [ra]"
    by (rule bexI [OF _ norm [OF mem(1) refl]]) (simp add: normalizeShard_State sel active)
  show "\<exists>meta\<in>set (cat_Shards cat'). sh_ID meta = c \<and> Routable (sh_State meta) \<and> sh_Ranges meta = [CR]"
    by (rule bexI [OF _ norm [OF mem(2) refl]]) (simp add: normalizeShard_State sel active)
  show "cat_Strategy cat' = PlacementStrategyTokenRange"
    using assms(5) by (simp add: cat'_def Normalize_def splitCatalog_def Let_def PlacementStrategyTokenRange_def)
qed

lemma finalizeFresh_routes:
  assumes "finalizeFresh E req m = (m', Inr res)" and "storeOf m (fq_ParentShardID req) = Some P" and "storeOf m (fq_ChildShardID req) = Some C"
    and "ce_tables (se_cluster E) P = Some tables" and "setting (H, g) K tables (se_world E)" and ok: "manager_ok m"
    and "shard_inv (H, g) (set tables) K P" "shard_inv (H, g) (set tables) K C"
    and td: "td \<in> set tables" and row: "rows (set tables) P (KeyPrimary H (td_Name td) pk sk) = Some raw"
    and route: "RouteForPK H m pk 0 = Inr sh" "cs_ID sh = fq_ParentShardID req"
  shows "\<exists>sh'. RouteForPK H m' pk 0 = Inr sh' \<and> cs_ID sh' \<in> {fq_ParentShardID req, fq_ChildShardID req} \<and>
    rows (set tables) (cs_Storage sh') (KeyPrimary H (td_Name td) pk sk) = Some raw"
  using assms(1-8)
proof (rule finalizeFresh_spec)
  let ?p = "fq_ParentShardID req" and ?c = "fq_ChildShardID req" and ?k = "KeyPrimary H (td_Name td) pk sk" and ?T = "set tables"
  fix pi ci parent child ra PR CR
  assume v: "validateFinalizeSplit (mg_cat m) req = Inr (pi, ci, parent, child, ra)" and PR: "sh_Ranges parent = [PR]" and CR: "sh_Ranges child = [CR]"
    and pair: "pair (H, g) ?T K m' ?p ?c (rows ?T P |` (- Collect (tokenInRange CR))) (rows ?T C ++ (rows ?T P |` Collect (tokenInRange CR)))"
    and cat: "mg_cat m' = Normalize (ce_now (se_cluster E)) (splitCatalog (ce_now (se_cluster E)) (mg_cat m) pi ci ra)" and ok': "manager_ok m'"
  from v PR CR have strat: "cat_Strategy (mg_cat m) = PlacementStrategyTokenRange" and fp: "FindShard (mg_cat m) ?p = Inr (pi, parent)"
    and fc: "FindShard (mg_cat m) ?c = Inr (ci, child)" and ne: "?p \<noteq> ?c"
    and split: "TokenStrictlyInside PR (rng_Start CR)" "SplitRange PR (rng_Start CR) = (ra, CR)"
    by (auto elim!: validateFinalizeSplit_ok)
  note cat' = splitCatalog_shards [OF fp fc ne CR strat cat]
  have slash: "slash_free (td_Name td)" using assms(5) td by (auto simp: setting_def catalog_ok_def)
  from FindShard_Inr [OF fp] have "parent \<in> set (cat_Shards (mg_cat m))" "sh_ID parent = cs_ID sh" using route(2) by auto
  from routed_meta [OF ok strat route(1) this] PR have "Contains PR (TokenForPK H pk)" by auto
  with split_contains [OF split(1)] split(2) have half: "Contains ra (TokenForPK H pk) \<longleftrightarrow> \<not> Contains CR (TokenForPK H pk)" by (metis fst_conv snd_conv)
  from cat'(2) obtain me where "me \<in> set (cat_Shards (mg_cat m'))" "sh_ID me = ?c" "Routable (sh_State me)" "sh_Ranges me = [CR]" by blast
  from moved_row_reached [OF ok' cat'(3) pair this _ td slash row] cat'(1) half show ?thesis by fastforce
qed


section \<open>Examples\<close>

definition demo_cluster :: cluster_env where
  "demo_cluster = \<lparr>ce_now = 5, ce_hash = length_hasher, ce_fileOk = True, ce_encodeCatalog = (\<lambda>_. [1]), ce_decodeCatalog = (\<lambda>_. None),
     ce_open = (\<lambda>_ _. None), ce_tables = (\<lambda>_. Some [demo_td ''''])\<rparr>"

definition demo_split_env :: split_env where
  "demo_split_env = \<lparr>se_cluster = demo_cluster, se_encodeState = (\<lambda>_. [2]), se_decodeState = (\<lambda>_. None), se_hook = (\<lambda>_ _. False),
     se_world = (\<lambda>_. demo_world)\<rparr>"

definition demo_finalize :: SplitFinalizeRequest where
  "demo_finalize = \<lparr>fq_ParentShardID = 0, fq_ChildShardID = 1, fq_ExpectedEpoch = 4\<rparr>"

lemma demo_fresh: "is_ok (snd (finalizeFresh demo_split_env demo_finalize splitting_manager))"
  by code_simp

lemma demo_split_runs:
  "RefreshPlacement demo_cluster splitting_manager = (splitting_manager, Inr ())"
  "resumePublishedSplit demo_split_env demo_finalize splitting_manager = (splitting_manager, Inr None)"
proof -
  have "snapshotGet one_row_shard placementSystemKey = None" "snapshotGet one_row_shard (splitFinalizeStateKey 0 1) = None" by code_simp+
  then show "RefreshPlacement demo_cluster splitting_manager = (splitting_manager, Inr ())"
    "resumePublishedSplit demo_split_env demo_finalize splitting_manager = (splitting_manager, Inr None)"
    by (simp_all add: RefreshPlacement_def resumePublishedSplit_def loadSplitFinalizeState_def splitting_sel demo_shard_def bare_shard_def demo_finalize_def)
qed


lemma demo_split_facts:
  "storeOf splitting_manager 0 = Some one_row_shard" "storeOf splitting_manager 1 = Some empty_shard"
  "ce_tables (se_cluster demo_split_env) one_row_shard = Some [demo_td '''']"
  "setting (HF demo_env) {([0x37], [])} [demo_td ''''] (se_world demo_split_env)"
  "fq_ParentShardID demo_finalize = 0" "fq_ChildShardID demo_finalize = 1" "fst (HF demo_env) = length_hasher" "td_Name (demo_td '''') = ''t''"
  using demo_catalog_ok demo_free demo_world_ok
  by (simp_all add: storeOf_def splitting_sel demo_shard_def bare_shard_def demo_split_env_def demo_cluster_def setting_def demo_finalize_def demo_env_def
      demo_td_def bareDescriptor_def)

theorem split_moves_rows_witness:
  "\<exists>P' C'. storeOf (fst (finalizeFresh demo_split_env demo_finalize splitting_manager)) 0 = Some P' \<and>
     storeOf (fst (finalizeFresh demo_split_env demo_finalize splitting_manager)) 1 = Some C' \<and>
     rows {demo_td ''''} P' = Map.empty \<and>
     rows {demo_td ''''} C' = [KeyPrimary length_hasher ''t'' [0x37] [] \<mapsto> itemBytes (demo_item ''rome'' ''x'')]"
proof -
  let ?run = "finalizeFresh demo_split_env demo_finalize splitting_manager" and ?T = "set [demo_td '''']"
  from demo_fresh obtain res where run: "?run = (fst ?run, Inr res)" by (auto simp: is_ok_iff prod_eq_iff)
  from split_moves_rows [OF run _ _ demo_split_facts(3,4) splitting_ok one_row_shard_inv(1) empty_shard_inv] demo_split_facts(1,2,5,6)
  obtain P' C' R j child where s: "storeOf (fst ?run) 0 = Some P'" "storeOf (fst ?run) 1 = Some C'"
    and R: "FindShard splitting_catalog 1 = Inr (j, child)" "sh_Ranges child = [R]"
    and rw: "rows ?T P' = rows ?T one_row_shard |` (- Collect (tokenInRange R))" "rows ?T C' = rows ?T empty_shard ++ range_rows ?T R one_row_shard"
    by (auto simp: splitting_sel(1))
  have [simp]: "R = mkRange 1 0" using R by (auto simp: FindShard_def splitting_catalog_def)
  have tok: "tokenInRange (mkRange 1 0) (KeyPrimary length_hasher ''t'' [0x37] [])" by code_simp
  have none: "rows ?T empty_shard = Map.empty" by (auto simp: rows_def empty_shard_def demo_db_def)
  have "rows {demo_td ''''} P' = Map.empty" using rw(1) tok by (auto simp: one_row_shard_inv(2) restrict_map_def fun_eq_iff)
  moreover have "rows {demo_td ''''} C' = [KeyPrimary length_hasher ''t'' [0x37] [] \<mapsto> itemBytes (demo_item ''rome'' ''x'')]"
    using rw(2) tok none by (auto simp: range_rows_def one_row_shard_inv(2) restrict_map_def fun_eq_iff)
  ultimately show ?thesis using s by blast
qed


text \<open>
  C31. The phase "publishing" is a trap: when the placement was stored but the phase "published" was not (a failed
  write of the placement file, a crash, a failed save), the parent is active in the placement and no later call ends
  the split or undoes it, and none deletes the moved rows from the parent: each fails and changes nothing beyond the refresh.
\<close>

theorem unpublished_phase_is_stuck:
  assumes "RefreshPlacement (se_cluster E) m0 = (m, Inr ())"
    and "loadSplitFinalizeState E (fq_ParentShardID req) (fq_ChildShardID req) m = Inr (Some state)" and "fs_Phase state = PhasePublishing"
    and "FindShard (mg_cat m) (fq_ParentShardID req) = Inr (i, parent)" and "sh_State parent = ShardStateActive"
  shows "(\<exists>err. FinalizeSplit E req m0 = (m, Inl err)) \<and> (\<exists>err. RollbackSplit E req m0 = (m, Inl err))"
proof -
  have fails: "\<exists>err. validateFinalizeSplit (mg_cat m) req = Inl err"
    using assms(4,5) by (cases "FindShard (mg_cat m) (fq_ChildShardID req)") (auto simp: validateFinalizeSplit_def state_defs)
  have phase: "\<not> splitPhasePublishedOrDone (fs_Phase state)" using assms(3) by (simp add: splitPhasePublishedOrDone_def)
  have "resumePublishedSplit E req m = (m, Inr None)" using assms(2) phase by (simp add: resumePublishedSplit_def)
  moreover have "\<exists>err. finalizeFresh E req m = (m, Inl err)" using fails by (auto simp: finalizeFresh_def)
  moreover have "\<exists>err. RollbackSplit E req m0 = (m, Inl err)"
    using assms(1,2) fails phase by (auto simp: RollbackSplit_def bindS_def)
  ultimately show ?thesis using assms(1) by (auto simp: FinalizeSplit_def bindS_def)
qed

definition publishing_env :: split_env where
  "publishing_env = demo_split_env\<lparr>se_decodeState := (\<lambda>_. Some (zeroState\<lparr>fs_Phase := PhasePublishing\<rparr>))\<rparr>"

definition published_manager :: Manager where
  "published_manager = splitting_manager\<lparr>mg_cat := splitCatalog 5 splitting_catalog 0 1 (mkRange 0 1),
     mg_shards := [Some (demo_shard 0 (fst (storeSet one_row_shard (splitFinalizeStateKey 0 1) [2]))), Some (demo_shard 1 copied_shard)]\<rparr>"

theorem unpublished_phase_is_stuck_witness:
  "(\<exists>err. FinalizeSplit publishing_env demo_finalize published_manager = (published_manager, Inl err)) \<and>
   (\<exists>err. RollbackSplit publishing_env demo_finalize published_manager = (published_manager, Inl err))"
proof -
  let ?db = "fst (storeSet one_row_shard (splitFinalizeStateKey 0 1) [2])"
  have get: "snapshotGet ?db placementSystemKey = None" "snapshotGet ?db (splitFinalizeStateKey 0 1) = Some [2]" by code_simp+
  have sh0: "theShard published_manager 0 = Some (demo_shard 0 ?db)" by (simp add: theShard_def published_manager_def)
  have refresh: "RefreshPlacement (se_cluster publishing_env) published_manager = (published_manager, Inr ())"
    using get(1) by (simp add: RefreshPlacement_def sh0 demo_shard_def bare_shard_def)
  have load: "loadSplitFinalizeState publishing_env (fq_ParentShardID demo_finalize) (fq_ChildShardID demo_finalize) published_manager =
      Inr (Some (zeroState\<lparr>fs_Phase := PhasePublishing\<rparr>))"
    using get(2) by (simp add: loadSplitFinalizeState_def sh0 demo_shard_def bare_shard_def demo_split_facts publishing_env_def)
  obtain parent where "FindShard (mg_cat published_manager) (fq_ParentShardID demo_finalize) = Inr (0, parent)" "sh_State parent = ShardStateActive"
    by (simp add: FindShard_def published_manager_def splitCatalog_def splitting_catalog_def NextCatalog_def demo_split_facts Let_def)
  from unpublished_phase_is_stuck [OF refresh load _ this] show ?thesis by simp
qed

end
