(* ===== verification/RangeMoveFinalize.thy ===== *)
theory RangeMoveFinalize
  imports SplitFinalize
begin

text \<open>
  Ending the move of a token range (\<^verbatim>\<open>internal/cluster/range_move_finalize.go\<close>): the same phases as a split,
  with a source that may own several ranges and is decommissioned when it loses the last of them.
\<close>

section \<open>State\<close>

text \<open>The phases have the names of those of a split, without the rollback.\<close>

record RangeMoveFinalizeRequest =
  mq_SourceShardID :: uint32
  mq_TargetShardID :: uint32
  mq_ExpectedEpoch :: uint64

record RangeMoveFinalizeState =
  ms_SourceShardID :: uint32
  ms_TargetShardID :: uint32
  ms_BeforeEpoch :: uint64
  ms_AfterEpoch :: uint64
  ms_SourceRangesBefore :: "TokenRange list"
  ms_SourceRangesAfter :: "TokenRange list"
  ms_MovedRange :: TokenRange
  ms_Phase :: SplitFinalizePhase
  ms_CopiedKeys :: int
  ms_CopiedCatalogKeys :: int
  ms_DeletedKeys :: int
  ms_Verification :: SplitVerification
  ms_UpdatedAtUnix :: int
  ms_LastError :: "move_error option"

record RangeMoveFinalizeResult =
  mr_State :: RangeMoveFinalizeState
  mr_Placement :: PlacementCatalog

record move_env =
  me_cluster :: cluster_env
  me_encodeState :: "RangeMoveFinalizeState \<Rightarrow> bytes"
  me_decodeState :: "bytes \<Rightarrow> RangeMoveFinalizeState option"
  me_hook :: "SplitFinalizePhase \<Rightarrow> RangeMoveFinalizeState \<Rightarrow> bool"
  me_world :: "MoveStage \<Rightarrow> world"

definition rangeMoveFinalizeStateKey :: "uint32 \<Rightarrow> uint32 \<Rightarrow> bytes" where
  "rangeMoveFinalizeStateKey sourceShardID targetShardID =
     bytes_of_string (Namespace @ ''cluster/range-move/finalize/'' @ formatNat (unat sourceShardID) @ ''/'' @ formatNat (unat targetShardID))"

definition loadRangeMoveFinalizeState :: "move_env \<Rightarrow> uint32 \<Rightarrow> uint32 \<Rightarrow> Manager \<Rightarrow> cluster_error + RangeMoveFinalizeState option" where
  "loadRangeMoveFinalizeState E sourceShardID targetShardID m =
     (case theShard m 0 of
        None \<Rightarrow> Inl Shard0Unavailable
      | Some sh0 \<Rightarrow>
          (case snapshotGet (cs_Storage sh0) (rangeMoveFinalizeStateKey sourceShardID targetShardID) of
             None \<Rightarrow> Inr None
           | Some raw \<Rightarrow> (case me_decodeState E raw of None \<Rightarrow> Inl DecodeState | Some state \<Rightarrow> Inr (Some state))))"

definition saveRangeMoveFinalizeState :: "move_env \<Rightarrow> RangeMoveFinalizeState \<Rightarrow> Manager \<Rightarrow> Manager \<times> (cluster_error + unit)" where
  "saveRangeMoveFinalizeState E state m =
     setSystem (rangeMoveFinalizeStateKey (ms_SourceShardID state) (ms_TargetShardID state))
       (me_encodeState E (state\<lparr>ms_UpdatedAtUnix := ce_now (me_cluster E)\<rparr>)) m"

definition runRangeMoveFinalizeHook :: "move_env \<Rightarrow> RangeMoveFinalizeState \<Rightarrow> cluster_error + unit" where
  "runRangeMoveFinalizeHook E state = (if me_hook E (ms_Phase state) state then Inl HookErr else Inr ())"

definition moveCheckpoint :: "move_env \<Rightarrow> RangeMoveFinalizeState \<Rightarrow> Manager \<Rightarrow> Manager \<times> (cluster_error + unit)" where
  "moveCheckpoint E state m = bindS (saveRangeMoveFinalizeState E state m) (\<lambda>m1 _. (m1, runRangeMoveFinalizeHook E state))"

section \<open>Checks\<close>

definition rangeMovePhasePublishedOrDone :: "SplitFinalizePhase \<Rightarrow> bool" where
  "rangeMovePhasePublishedOrDone phase \<longleftrightarrow> phase \<in> {PhasePublished, PhaseCleanup, PhaseDone}"

definition validateFinalizeRangeMove :: "PlacementCatalog \<Rightarrow> RangeMoveFinalizeRequest \<Rightarrow>
    cluster_error + (nat \<times> nat \<times> ShardPlacement \<times> ShardPlacement \<times> TokenRange list)" where
  "validateFinalizeRangeMove cat req =
     (if cat_Strategy cat \<noteq> PlacementStrategyTokenRange then Inl (InvalidState ''strategy'')
      else if mq_ExpectedEpoch req \<noteq> 0 \<and> mq_ExpectedEpoch req \<noteq> cat_Epoch cat
      then Inl (StaleRoute (mq_ExpectedEpoch req) (cat_Epoch cat))
      else
        bindr (wrapr InvalidPlan (FindShard cat (mq_SourceShardID req))) (\<lambda>(sourceIdx, source).
        bindr (wrapr InvalidPlan (FindShard cat (mq_TargetShardID req))) (\<lambda>(targetIdx, target).
          if sh_ID source = sh_ID target then Inl (InvalidState ''source and target must differ'')
          else if sh_State source \<noteq> ShardStateMoving then Inl (InvalidState ''source not moving'')
          else if sh_State target \<noteq> ShardStateCreating then Inl (InvalidState ''target not creating'')
          else if length (sh_Ranges target) \<noteq> 1 then Inl (InvalidState ''one target range'')
          else
            (case SubtractTokenRanges (sh_Ranges source) (sh_Ranges target ! 0) of
               Inl _ \<Rightarrow> Inl (InvalidState ''range not owned'')
             | Inr sourceRangesAfter \<Rightarrow> Inr (sourceIdx, targetIdx, source, target, sourceRangesAfter)))))"

definition validatePublishedRangeMovePlacement :: "PlacementCatalog \<Rightarrow> RangeMoveFinalizeState \<Rightarrow> cluster_error + unit" where
  "validatePublishedRangeMovePlacement cat state =
     (if cat_Strategy cat \<noteq> PlacementStrategyTokenRange then Inl (InvalidState ''strategy'')
      else
        bindr (wrapr InvalidPlan (FindShard cat (ms_SourceShardID state))) (\<lambda>(_, source).
        bindr (wrapr InvalidPlan (FindShard cat (ms_TargetShardID state))) (\<lambda>(_, target).
          if sh_State source \<noteq> ShardStateActive \<and> sh_State source \<noteq> ShardStateDecommissioned then Inl (InvalidState ''source state'')
          else if sh_State target \<noteq> ShardStateActive then Inl (InvalidState ''target not active'')
          else if \<not> sameTokenRanges (sh_Ranges source) (ms_SourceRangesAfter state) then Inl (InvalidState ''source ranges mismatch'')
          else if length (sh_Ranges target) \<noteq> 1 \<or> sh_Ranges target ! 0 \<noteq> ms_MovedRange state then Inl (InvalidState ''target range mismatch'')
          else Inr ())))"

definition requireRangeMoveFinalizeLeaders :: "Manager \<Rightarrow> Shard \<Rightarrow> Shard \<Rightarrow> cluster_error + unit" where
  "requireRangeMoveFinalizeLeaders m source target =
     (case theShard m 0 of
        None \<Rightarrow> Inl Shard0Unavailable
      | Some shard0 \<Rightarrow>
          (case find notLeading [source, target, shard0] of Some sh \<Rightarrow> Inl (NotLeading (cs_ID sh)) | None \<Rightarrow> Inr ()))"

definition openMoveShards :: "uint32 \<Rightarrow> uint32 \<Rightarrow> Manager \<Rightarrow> cluster_error + (Shard \<times> Shard)" where
  "openMoveShards sourceID targetID m =
     (case theShard m sourceID of
        None \<Rightarrow> Inl (NotOpen sourceID)
      | Some source \<Rightarrow>
          (case theShard m targetID of
             None \<Rightarrow> Inl (NotOpen targetID)
           | Some target \<Rightarrow> bindr (requireRangeMoveFinalizeLeaders m source target) (\<lambda>_. Inr (source, target))))"

section \<open>Phases\<close>

definition moveCopyPhase :: "move_env \<Rightarrow> TableDescriptor list \<Rightarrow> RangeMoveFinalizeState \<Rightarrow> Manager \<Rightarrow> Manager \<times> (cluster_error + RangeMoveFinalizeState)" where
  "moveCopyPhase E tables state m =
     bindS (moveCheckpoint E state m) (\<lambda>m1 _.
     bindS (fromShard (ms_SourceShardID state) (\<lambda>src. onShard (ms_TargetShardID state)
              (copyCatalogKeys (wo_cancelledAt (me_world E StageCatalog)) src)) m1) (\<lambda>m2 catalogKeys.
     bindS (fromShard (ms_SourceShardID state) (\<lambda>src. onShard (ms_TargetShardID state)
              (\<lambda>dst. copyPrimaryTokenRangeWithIndexes (me_world E StageCopy) tables src dst (ms_MovedRange state))) m2) (\<lambda>m3 copied.
       (case state\<lparr>ms_CopiedCatalogKeys := catalogKeys, ms_CopiedKeys := copied, ms_Phase := PhaseCopied\<rparr> of state1 \<Rightarrow>
          bindS (moveCheckpoint E state1 m3) (\<lambda>m4 _. (m4, Inr state1))))))"

definition moveVerifyPhase :: "move_env \<Rightarrow> TableDescriptor list \<Rightarrow> RangeMoveFinalizeState \<Rightarrow> Manager \<Rightarrow> Manager \<times> (cluster_error + RangeMoveFinalizeState)" where
  "moveVerifyPhase E tables state m =
     fromShard (ms_SourceShardID state) (\<lambda>source. fromShard (ms_TargetShardID state) (\<lambda>target m1.
       case verifySplitRange (ce_hash (me_cluster E)) (wo_cancelledAt (me_world E StageDigestParent))
              (wo_cancelledAt (me_world E StageDigestChild)) tables source target (ms_MovedRange state) of
         (verification, Some err) \<Rightarrow>
           (fst (saveRangeMoveFinalizeState E
              (state\<lparr>ms_Verification := verification, ms_Phase := PhaseVerifyFailed, ms_LastError := Some err\<rparr>) m1), Inl (MoveErr err))
       | (verification, None) \<Rightarrow>
           (case state\<lparr>ms_Verification := verification, ms_Phase := PhaseVerified\<rparr> of state1 \<Rightarrow>
              bindS (moveCheckpoint E state1 m1) (\<lambda>m2 _. (m2, Inr state1))))) m"

definition moveCatalog :: "int \<Rightarrow> PlacementCatalog \<Rightarrow> nat \<Rightarrow> nat \<Rightarrow> TokenRange list \<Rightarrow> PlacementCatalog" where
  "moveCatalog now current sourceIdx targetIdx sourceRangesAfter =
     (let after = NextCatalog now current;
          source = (cat_Shards after ! sourceIdx)
            \<lparr>sh_Ranges := sourceRangesAfter,
             sh_State := (if sourceRangesAfter = [] then ShardStateDecommissioned else ShardStateActive), sh_Epoch := cat_Epoch after\<rparr>;
          shards1 = (cat_Shards after)[sourceIdx := source];
          target = (shards1 ! targetIdx)\<lparr>sh_State := ShardStateActive, sh_Epoch := cat_Epoch after\<rparr>
      in after\<lparr>cat_Shards := shards1[targetIdx := target]\<rparr>)"

definition movePublishPhase :: "move_env \<Rightarrow> PlacementCatalog \<Rightarrow> RangeMoveFinalizeState \<Rightarrow> Manager \<Rightarrow> Manager \<times> (cluster_error + RangeMoveFinalizeState)" where
  "movePublishPhase E after state m =
     (case state\<lparr>ms_AfterEpoch := cat_Epoch after, ms_Phase := PhasePublishing\<rparr> of state1 \<Rightarrow>
        bindS (moveCheckpoint E state1 m) (\<lambda>m1 _.
        bindS (persistPlacementSnapshotStrict (me_cluster E) after m1) (\<lambda>m2 _.
        bindS (applyPlacement (me_cluster E) after False m2) (\<lambda>m3 _.
          (case state1\<lparr>ms_Phase := PhasePublished\<rparr> of state2 \<Rightarrow>
             bindS (moveCheckpoint E state2 m3) (\<lambda>m4 _. (m4, Inr state2)))))))"

definition moveCleanupPhase :: "move_env \<Rightarrow> uint32 \<Rightarrow> TableDescriptor list \<Rightarrow> int \<Rightarrow> RangeMoveFinalizeState \<Rightarrow> Manager \<Rightarrow> Manager \<times> (cluster_error + RangeMoveFinalizeState)" where
  "moveCleanupPhase E sourceID tables before state m =
     (case state\<lparr>ms_Phase := PhaseCleanup\<rparr> of state1 \<Rightarrow>
        bindS (saveRangeMoveFinalizeState E state1 m) (\<lambda>m1 _.
        bindS (onShard sourceID
                 (\<lambda>db. deletePrimaryTokenRangeWithIndexes (me_world E StageDelete) tables db (ms_MovedRange state)) m1) (\<lambda>m2 deleted.
          (case state1\<lparr>ms_DeletedKeys := before + deleted, ms_Phase := PhaseDone\<rparr> of state2 \<Rightarrow>
             bindS (saveRangeMoveFinalizeState E state2 m2) (\<lambda>m3 _. (m3, Inr state2))))))"

section \<open>Operations\<close>

definition rangeMoveFinalizeResultFromState :: "RangeMoveFinalizeState \<Rightarrow> PlacementCatalog \<Rightarrow> RangeMoveFinalizeResult" where
  "rangeMoveFinalizeResultFromState state cat = \<lparr>mr_State = state, mr_Placement = cat\<rparr>"

definition resumePublishedRangeMove :: "move_env \<Rightarrow> RangeMoveFinalizeRequest \<Rightarrow> Manager \<Rightarrow> Manager \<times> (cluster_error + RangeMoveFinalizeResult option)" where
  "resumePublishedRangeMove E req m =
     (case loadRangeMoveFinalizeState E (mq_SourceShardID req) (mq_TargetShardID req) m of
        Inl err \<Rightarrow> (m, Inl err)
      | Inr None \<Rightarrow> (m, Inr None)
      | Inr (Some state) \<Rightarrow>
          if \<not> rangeMovePhasePublishedOrDone (ms_Phase state) then (m, Inr None)
          else if mq_ExpectedEpoch req \<noteq> 0 \<and> mq_ExpectedEpoch req \<noteq> cat_Epoch (mg_cat m) \<and> mq_ExpectedEpoch req \<noteq> ms_BeforeEpoch state
          then (m, Inl (StaleRoute (mq_ExpectedEpoch req) (cat_Epoch (mg_cat m))))
          else
            (case bindr (openMoveShards (mq_SourceShardID req) (mq_TargetShardID req) m) (\<lambda>(source, target).
                    bindr (validatePublishedRangeMovePlacement (mg_cat m) state) (\<lambda>_. Inr source)) of
               Inl err \<Rightarrow> (m, Inl err)
             | Inr source \<Rightarrow>
                 if ms_Phase state = PhaseDone then (m, Inr (Some (rangeMoveFinalizeResultFromState state (mg_cat m))))
                 else
                   (case loadSplitCopyTables (me_cluster E) (cs_Storage source) of
                      Inl err \<Rightarrow> (m, Inl err)
                    | Inr tables \<Rightarrow>
                        bindS (moveCleanupPhase E (mq_SourceShardID req) tables (ms_DeletedKeys state) state m) (\<lambda>m1 state1.
                          (m1, Inr (Some (rangeMoveFinalizeResultFromState state1 (mg_cat m))))))))"

definition firstMoveState :: "RangeMoveFinalizeRequest \<Rightarrow> PlacementCatalog \<Rightarrow> TokenRange list \<Rightarrow> TokenRange list \<Rightarrow> TokenRange \<Rightarrow> RangeMoveFinalizeState" where
  "firstMoveState req current sourceRanges sourceRangesAfter movedRange =
     \<lparr>ms_SourceShardID = mq_SourceShardID req, ms_TargetShardID = mq_TargetShardID req, ms_BeforeEpoch = cat_Epoch current,
      ms_AfterEpoch = 0, ms_SourceRangesBefore = sourceRanges, ms_SourceRangesAfter = sourceRangesAfter, ms_MovedRange = movedRange,
      ms_Phase = PhaseCopying, ms_CopiedKeys = 0, ms_CopiedCatalogKeys = 0, ms_DeletedKeys = 0,
      ms_Verification = zeroVerification, ms_UpdatedAtUnix = 0, ms_LastError = None\<rparr>"

text \<open>\<^verbatim>\<open>FinalizeRangeMove\<close> after the resumption found nothing to do.\<close>

definition moveFresh :: "move_env \<Rightarrow> RangeMoveFinalizeRequest \<Rightarrow> Manager \<Rightarrow> Manager \<times> (cluster_error + RangeMoveFinalizeResult)" where
  "moveFresh E req m =
     (let current = mg_cat m in
      case bindr (validateFinalizeRangeMove current req) (\<lambda>(sourceIdx, targetIdx, source, target, sourceRangesAfter).
             bindr (openMoveShards (mq_SourceShardID req) (mq_TargetShardID req) m) (\<lambda>(sourceShard, targetShard).
             bindr (loadSplitCopyTables (me_cluster E) (cs_Storage sourceShard)) (\<lambda>tables.
               Inr (sourceIdx, targetIdx, sourceRangesAfter, tables,
                    firstMoveState req current (sh_Ranges source) sourceRangesAfter (sh_Ranges target ! 0))))) of
        Inl err \<Rightarrow> (m, Inl err)
      | Inr (sourceIdx, targetIdx, sourceRangesAfter, tables, state) \<Rightarrow>
          bindS (moveCopyPhase E tables state m) (\<lambda>m1 state1.
          bindS (moveVerifyPhase E tables state1 m1) (\<lambda>m2 state2.
            (case wrapr InvalidPlan (finishCatalog (ce_now (me_cluster E))
                    (moveCatalog (ce_now (me_cluster E)) current sourceIdx targetIdx sourceRangesAfter)) of
               Inl err \<Rightarrow> (m2, Inl err)
             | Inr after \<Rightarrow>
                 bindS (movePublishPhase E after state2 m2) (\<lambda>m3 state3.
                 bindS (moveCleanupPhase E (mq_SourceShardID req) tables 0 state3 m3) (\<lambda>m4 state4.
                   (m4, Inr (rangeMoveFinalizeResultFromState state4 after))))))))"

definition FinalizeRangeMove :: "move_env \<Rightarrow> RangeMoveFinalizeRequest \<Rightarrow> Manager \<Rightarrow> Manager \<times> (cluster_error + RangeMoveFinalizeResult)" where
  "FinalizeRangeMove E req m =
     bindS (RefreshPlacement (me_cluster E) m) (\<lambda>m1 _.
     bindS (resumePublishedRangeMove E req m1) (\<lambda>m2 resumed.
       (case resumed of Some res \<Rightarrow> (m2, Inr res) | None \<Rightarrow> moveFresh E req m2)))"

section \<open>What each phase does\<close>

lemma move_state_key: "system_key (rangeMoveFinalizeStateKey p c)"
  by (simp add: system_key_def rangeMoveFinalizeStateKey_def)

interpretation move_save: saved_phases "saveRangeMoveFinalizeState E" for E
  by unfold_locales
    (auto simp: saveRangeMoveFinalizeState_def dest: setSystem_keeps [OF _ move_state_key] setSystem_same_node)

interpretation move_point: saved_phases "moveCheckpoint E" for E
  by unfold_locales
    (auto simp: moveCheckpoint_def elim!: bindSE dest: move_save.save_keeps move_save.save_same_node)

definition same_move :: "RangeMoveFinalizeState \<Rightarrow> RangeMoveFinalizeState \<Rightarrow> bool" where
  "same_move s s' \<longleftrightarrow> ms_SourceShardID s' = ms_SourceShardID s \<and> ms_TargetShardID s' = ms_TargetShardID s \<and> ms_MovedRange s' = ms_MovedRange s"

lemma moveCopyPhase_spec:
  assumes "moveCopyPhase E tables state m = (m', Inr state')" and "setting hf K tables (me_world E)"
    and "pair hf (set tables) K m (ms_SourceShardID state) (ms_TargetShardID state) rp rc"
  shows "pair hf (set tables) K m' (ms_SourceShardID state) (ms_TargetShardID state) rp (rc ++ (rp |` Collect (tokenInRange (ms_MovedRange state))))"
    and "same_move state state'" and "same_node m m'"
proof -
  let ?p = "ms_SourceShardID state" and ?c = "ms_TargetShardID state" and ?R = "ms_MovedRange state"
  from assms(1) obtain m1 m2 m3 n1 n2 u u' where
    s1: "moveCheckpoint E state m = (m1, Inr u)"
    and s2: "fromShard ?p (\<lambda>src. onShard ?c (copyCatalogKeys (wo_cancelledAt (me_world E StageCatalog)) src)) m1 = (m2, Inr n1)"
    and s3: "fromShard ?p (\<lambda>src. onShard ?c (\<lambda>dst. copyPrimaryTokenRangeWithIndexes (me_world E StageCopy) tables src dst ?R)) m2 = (m3, Inr n2)"
    and s4: "moveCheckpoint E (state\<lparr>ms_CopiedCatalogKeys := n1, ms_CopiedKeys := n2, ms_Phase := PhaseCopied\<rparr>) m3 = (m', Inr u')"
    and state': "state' = state\<lparr>ms_CopiedCatalogKeys := n1, ms_CopiedKeys := n2, ms_Phase := PhaseCopied\<rparr>"
    unfolding moveCopyPhase_def by (auto elim!: bindS_ok)
  from move_point.copy_between_saves [OF s1 s2 s3 s4 assms(2,3)]
  show "pair hf (set tables) K m' ?p ?c rp (rc ++ (rp |` Collect (tokenInRange ?R)))" and "same_node m m'" by simp_all
  show "same_move state state'" by (simp add: same_move_def state')
qed

lemma moveVerifyPhase_spec:
  assumes "moveVerifyPhase E tables state m = (m', Inr state')"
  shows "keeps hf T K m m'" and "same_move state state'" and "same_node m m'"
proof -
  from assms obtain v u where c: "moveCheckpoint E (state\<lparr>ms_Verification := v, ms_Phase := PhaseVerified\<rparr>) m = (m', Inr u)"
    and state': "state' = state\<lparr>ms_Verification := v, ms_Phase := PhaseVerified\<rparr>"
    unfolding moveVerifyPhase_def by (auto elim!: fromShard_ok bindS_ok split: prod.splits option.splits)
  show "keeps hf T K m m'" and "same_node m m'" by (rule move_point.save_keeps [OF c], rule move_point.save_same_node [OF c])
  show "same_move state state'" by (simp add: same_move_def state')
qed

lemma movePublishPhase_spec:
  assumes "movePublishPhase E after state m = (m', Inr state')" and "length (cat_Shards after) \<le> length (mg_shards m)"
  shows "keeps hf T K m m'" and "same_move state state'" and "mg_cat m' = after" and "manager_ok m \<Longrightarrow> manager_ok m'"
proof -
  let ?s1 = "state\<lparr>ms_AfterEpoch := cat_Epoch after, ms_Phase := PhasePublishing\<rparr>"
  from assms(1) obtain m1 m2 m3 u u' v w where
    s1: "moveCheckpoint E ?s1 m = (m1, Inr u)" and s2: "persistPlacementSnapshotStrict (me_cluster E) after m1 = (m2, Inr v)"
    and s3: "applyPlacement (me_cluster E) after False m2 = (m3, Inr w)"
    and s4: "moveCheckpoint E (?s1\<lparr>ms_Phase := PhasePublished\<rparr>) m3 = (m', Inr u')" and state': "state' = ?s1\<lparr>ms_Phase := PhasePublished\<rparr>"
    unfolding movePublishPhase_def by (auto elim!: bindS_ok)
  from move_point.publish_between_saves [OF s1 s2 s3 s4 assms(2)]
  show "keeps hf T K m m'" and "mg_cat m' = after" and "manager_ok m \<Longrightarrow> manager_ok m'" by simp_all
  show "same_move state state'" by (simp add: same_move_def state')
qed

lemma moveCleanupPhase_spec:
  assumes "moveCleanupPhase E (ms_SourceShardID state) tables before state m = (m', Inr state')" and "setting hf K tables (me_world E)"
    and "pair hf (set tables) K m (ms_SourceShardID state) c rp rc"
  shows "pair hf (set tables) K m' (ms_SourceShardID state) c (rp |` (- Collect (tokenInRange (ms_MovedRange state)))) rc"
    and "same_node m m'" and "ms_Phase state' = PhaseDone"
proof -
  let ?p = "ms_SourceShardID state" and ?R = "ms_MovedRange state"
  from assms(1) obtain m1 m2 u u' n where s1: "saveRangeMoveFinalizeState E (state\<lparr>ms_Phase := PhaseCleanup\<rparr>) m = (m1, Inr u)"
    and s2: "onShard ?p (\<lambda>db. deletePrimaryTokenRangeWithIndexes (me_world E StageDelete) tables db ?R) m1 = (m2, Inr n)"
    and s3: "saveRangeMoveFinalizeState E (state\<lparr>ms_Phase := PhaseCleanup, ms_DeletedKeys := before + n, ms_Phase := PhaseDone\<rparr>) m2 = (m', Inr u')"
    and ph: "ms_Phase state' = PhaseDone"
    unfolding moveCleanupPhase_def by (auto elim!: bindS_ok)
  from move_save.delete_between_saves [OF s1 s2 s3 assms(2,3)] ph
  show "pair hf (set tables) K m' ?p c (rp |` (- Collect (tokenInRange ?R))) rc"
    and "same_node m m'" and "ms_Phase state' = PhaseDone" by simp_all
qed

section \<open>A finished move\<close>

lemma validateFinalizeRangeMove_ok:
  assumes "validateFinalizeRangeMove cat req = Inr (si, ti, source, target, after)"
  obtains R where "cat_Strategy cat = PlacementStrategyTokenRange"
    "FindShard cat (mq_SourceShardID req) = Inr (si, source)" "FindShard cat (mq_TargetShardID req) = Inr (ti, target)"
    "sh_Ranges target = [R]" "SubtractTokenRanges (sh_Ranges source) R = Inr after" "mq_SourceShardID req \<noteq> mq_TargetShardID req"
proof -
  from assms have v: "cat_Strategy cat = PlacementStrategyTokenRange"
    "FindShard cat (mq_SourceShardID req) = Inr (si, source)" "FindShard cat (mq_TargetShardID req) = Inr (ti, target)"
    "sh_ID source \<noteq> sh_ID target" "length (sh_Ranges target) = 1" "SubtractTokenRanges (sh_Ranges source) (sh_Ranges target ! 0) = Inr after"
    by (auto simp: validateFinalizeRangeMove_def Let_def split: if_splits sum.splits elim!: bindr_InrE)
  then obtain R where "sh_Ranges target = [R]" by (cases "sh_Ranges target") auto
  with v FindShard_Inr [OF v(2)] FindShard_Inr [OF v(3)] that show ?thesis by fastforce
qed

lemma openMoveShards_ok: "openMoveShards p c m = Inr (a, b) \<Longrightarrow> theShard m p = Some a \<and> theShard m c = Some b"
  by (auto simp: openMoveShards_def split: option.splits elim!: bindr_InrE)

lemma moveFresh_spec:
  assumes run: "moveFresh E req m = (m', Inr res)" and "storeOf m (mq_SourceShardID req) = Some P" and "storeOf m (mq_TargetShardID req) = Some C"
    and tables: "ce_tables (me_cluster E) P = Some tables" and set: "setting hf K tables (me_world E)" and ok: "manager_ok m"
    and inv: "shard_inv hf (set tables) K P" "shard_inv hf (set tables) K C"
  obtains si ti source target ra R where "validateFinalizeRangeMove (mg_cat m) req = Inr (si, ti, source, target, ra)" "sh_Ranges target = [R]"
    "pair hf (set tables) K m' (mq_SourceShardID req) (mq_TargetShardID req)
       (rows (set tables) P |` (- Collect (tokenInRange R))) (rows (set tables) C ++ (rows (set tables) P |` Collect (tokenInRange R)))"
    "mg_cat m' = Normalize (ce_now (me_cluster E)) (moveCatalog (ce_now (me_cluster E)) (mg_cat m) si ti ra)" "manager_ok m'"
    "mr_Placement res = mg_cat m'" "ms_Phase (mr_State res) = PhaseDone"
proof -
  let ?now = "ce_now (me_cluster E)" and ?p = "mq_SourceShardID req" and ?c = "mq_TargetShardID req" and ?T = "set tables"
  from run obtain si ti source target ra ps chs tables' where
    v: "validateFinalizeRangeMove (mg_cat m) req = Inr (si, ti, source, target, ra)" and o: "openMoveShards ?p ?c m = Inr (ps, chs)"
    and t: "loadSplitCopyTables (me_cluster E) (cs_Storage ps) = Inr tables'"
    and rest: "bindS (moveCopyPhase E tables' (firstMoveState req (mg_cat m) (sh_Ranges source) ra (sh_Ranges target ! 0)) m) (\<lambda>m1 state1.
          bindS (moveVerifyPhase E tables' state1 m1) (\<lambda>m2 state2.
            (case wrapr InvalidPlan (finishCatalog ?now (moveCatalog ?now (mg_cat m) si ti ra)) of
               Inl err \<Rightarrow> (m2, Inl err)
             | Inr after \<Rightarrow>
                 bindS (movePublishPhase E after state2 m2) (\<lambda>m3 state3.
                 bindS (moveCleanupPhase E ?p tables' 0 state3 m3) (\<lambda>m4 state4.
                   (m4, Inr (rangeMoveFinalizeResultFromState state4 after))))))) = (m', Inr res)"
    unfolding moveFresh_def Let_def by (auto split: sum.splits elim!: bindr_InrE)
  from v obtain R where R: "sh_Ranges target = [R]" and ne: "?p \<noteq> ?c" by (rule validateFinalizeRangeMove_ok)
  from openMoveShards_ok [OF o] assms(2) have "cs_Storage ps = P" by (simp add: storeOf_def)
  with t tables have [simp]: "tables' = tables" by (simp add: loadSplitCopyTables_def)
  let ?s0 = "firstMoveState req (mg_cat m) (sh_Ranges source) ra R"
  from rest R obtain m1 m2 m3 s1 s2 s3 s4 after where
    c: "moveCopyPhase E tables ?s0 m = (m1, Inr s1)" and ve: "moveVerifyPhase E tables s1 m1 = (m2, Inr s2)"
    and af: "finishCatalog ?now (moveCatalog ?now (mg_cat m) si ti ra) = Inr after"
    and pu: "movePublishPhase E after s2 m2 = (m3, Inr s3)" and cl: "moveCleanupPhase E ?p tables 0 s3 m3 = (m', Inr s4)"
    and res: "res = rangeMoveFinalizeResultFromState s4 after"
    by (auto elim!: bindS_ok split: sum.splits)
  have s0: "ms_SourceShardID ?s0 = ?p" "ms_TargetShardID ?s0 = ?c" "ms_MovedRange ?s0 = R" by (simp_all add: firstMoveState_def)
  have "pair hf ?T K m (ms_SourceShardID ?s0) (ms_TargetShardID ?s0) (rows ?T P) (rows ?T C)" using assms(2,3) inv ne by (simp add: pair_def s0)
  note q1 = moveCopyPhase_spec [OF c set this, unfolded s0] and v2 = moveVerifyPhase_spec [OF ve]
  have after: "after = Normalize ?now (moveCatalog ?now (mg_cat m) si ti ra)" using af by (auto simp: finishCatalog_def Let_def elim!: bindr_InrE)
  have "length (cat_Shards after) = length (cat_Shards (mg_cat m))"
    by (simp add: after Normalize_def moveCatalog_def NextCatalog_def Let_def)
  then have len: "length (cat_Shards after) \<le> length (mg_shards m2)" and ok2: "manager_ok m2"
    using ok q1(3) v2(3) by (simp_all add: manager_ok_def [of m] same_node_def)
  note v3 = movePublishPhase_spec [OF pu len]
  have p3: "pair hf ?T K m3 ?p ?c (rows ?T P) (rows ?T C ++ (rows ?T P |` Collect (tokenInRange R)))"
    using pair_keeps [OF pair_keeps [OF q1(1) v2(1)] v3(1)] .
  have s3: "ms_SourceShardID s3 = ?p" "ms_MovedRange s3 = R" using q1(2) v2(2) v3(2) s0 by (simp_all add: same_move_def)
  note cleaned = moveCleanupPhase_spec [where state = s3, unfolded s3, OF cl set p3]
  have "mg_cat m' = after" "manager_ok m'" using cleaned(2) v3(3) v3(4) [OF ok2] by (simp_all add: same_node_def)
  with cleaned(1,3) have "pair hf ?T K m' ?p ?c (rows ?T P |` (- Collect (tokenInRange R))) (rows ?T C ++ (rows ?T P |` Collect (tokenInRange R)))"
    "mg_cat m' = after" "manager_ok m'" "ms_Phase s4 = PhaseDone" by simp_all
  then show ?thesis using that [OF v R] by (simp add: after res rangeMoveFinalizeResultFromState_def)
qed


lemma moveCatalog_shards:
  assumes "FindShard cat p = Inr (si, source)" and "FindShard cat c = Inr (ti, target)" and "p \<noteq> c" and "sh_Ranges target = [R]"
    and "cat_Strategy cat = PlacementStrategyTokenRange" and cat'_def: "cat' = Normalize now (moveCatalog now cat si ti ra)"
  shows "ra \<noteq> [] \<Longrightarrow> \<exists>meta\<in>set (cat_Shards cat'). sh_ID meta = p \<and> Routable (sh_State meta) \<and> sh_Ranges meta = ra"
    and "\<exists>meta\<in>set (cat_Shards cat'). sh_ID meta = c \<and> Routable (sh_State meta) \<and> sh_Ranges meta = [R]"
    and "cat_Strategy cat' = PlacementStrategyTokenRange"
proof -
  note fp = FindShard_Inr [OF assms(1)] and fc = FindShard_Inr [OF assms(2)]
  have "si \<noteq> ti" using fp fc assms(3) by auto
  let ?mc = "moveCatalog now cat si ti ra"
  let ?source = "cat_Shards ?mc ! si" and ?target = "cat_Shards ?mc ! ti"
  have mem: "?source \<in> set (cat_Shards ?mc)" "?target \<in> set (cat_Shards ?mc)"
    by (rule nth_mem; use fp fc in \<open>simp add: moveCatalog_def Let_def\<close>)+
  have sel: "sh_ID ?source = p" "ra \<noteq> [] \<Longrightarrow> sh_State ?source = ShardStateActive" "sh_Ranges ?source = ra"
    "sh_ID ?target = c" "sh_State ?target = ShardStateActive" "sh_Ranges ?target = [R]"
    using fp fc \<open>si \<noteq> ti\<close> assms(4) by (simp_all add: moveCatalog_def Let_def) metis+
  have active: "Routable ShardStateActive" "ShardStateActive \<noteq> ''''" by (simp_all add: Routable_def ShardStateActive_def)
  have norm: "normalizeShard e sh \<in> set (cat_Shards cat')" if "sh \<in> set (cat_Shards ?mc)" "e = cat_Epoch (Normalize now ?mc)" for sh e
    unfolding cat'_def normalized_shards using that by simp
  show "\<exists>meta\<in>set (cat_Shards cat'). sh_ID meta = p \<and> Routable (sh_State meta) \<and> sh_Ranges meta = ra" if "ra \<noteq> []"
    by (rule bexI [OF _ norm [OF mem(1) refl]]) (simp add: normalizeShard_State sel that active)
  show "\<exists>meta\<in>set (cat_Shards cat'). sh_ID meta = c \<and> Routable (sh_State meta) \<and> sh_Ranges meta = [R]"
    by (rule bexI [OF _ norm [OF mem(2) refl]]) (simp add: normalizeShard_State sel active)
  show "cat_Strategy cat' = PlacementStrategyTokenRange"
    using assms(5) by (simp add: cat'_def Normalize_def moveCatalog_def Let_def PlacementStrategyTokenRange_def)
qed

lemma moveFresh_routes:
  assumes "moveFresh E req m = (m', Inr res)" and "storeOf m (mq_SourceShardID req) = Some P" and "storeOf m (mq_TargetShardID req) = Some C"
    and "ce_tables (me_cluster E) P = Some tables" and "setting (H, g) K tables (me_world E)" and ok: "manager_ok m"
    and "shard_inv (H, g) (set tables) K P" "shard_inv (H, g) (set tables) K C"
    and td: "td \<in> set tables" and row: "rows (set tables) P (KeyPrimary H (td_Name td) pk sk) = Some raw"
    and route: "RouteForPK H m pk 0 = Inr sh" "cs_ID sh = mq_SourceShardID req"
  shows "\<exists>sh'. RouteForPK H m' pk 0 = Inr sh' \<and> cs_ID sh' \<in> {mq_SourceShardID req, mq_TargetShardID req} \<and>
    rows (set tables) (cs_Storage sh') (KeyPrimary H (td_Name td) pk sk) = Some raw"
  using assms(1-8)
proof (rule moveFresh_spec)
  let ?p = "mq_SourceShardID req" and ?c = "mq_TargetShardID req" and ?T = "set tables"
  fix si ti source target ra R
  assume v: "validateFinalizeRangeMove (mg_cat m) req = Inr (si, ti, source, target, ra)" and R: "sh_Ranges target = [R]"
    and pair: "pair (H, g) ?T K m' ?p ?c (rows ?T P |` (- Collect (tokenInRange R))) (rows ?T C ++ (rows ?T P |` Collect (tokenInRange R)))"
    and cat: "mg_cat m' = Normalize (ce_now (me_cluster E)) (moveCatalog (ce_now (me_cluster E)) (mg_cat m) si ti ra)" and ok': "manager_ok m'"
  from v R have strat: "cat_Strategy (mg_cat m) = PlacementStrategyTokenRange" and fp: "FindShard (mg_cat m) ?p = Inr (si, source)"
    and fc: "FindShard (mg_cat m) ?c = Inr (ti, target)" and ne: "?p \<noteq> ?c" and sub: "SubtractTokenRanges (sh_Ranges source) R = Inr ra"
    by (auto elim!: validateFinalizeRangeMove_ok)
  note cat' = moveCatalog_shards [OF fp fc ne R strat cat]
  have slash: "slash_free (td_Name td)" using assms(5) td by (auto simp: setting_def catalog_ok_def)
  from FindShard_Inr [OF fp] have "source \<in> set (cat_Shards (mg_cat m))" "sh_ID source = cs_ID sh" using route(2) by auto
  from routed_meta [OF ok strat route(1) this] have "\<exists>r\<in>set (sh_Ranges source). Contains r (TokenForPK H pk)" by auto
  with subtract_exact [of "sh_Ranges source" R] sub
  have rest: "\<not> Contains R (TokenForPK H pk) \<Longrightarrow> \<exists>r\<in>set ra. Contains r (TokenForPK H pk)" by blast
  have source: "\<exists>mp\<in>set (cat_Shards (mg_cat m')). sh_ID mp = ?p \<and> Routable (sh_State mp) \<and> (\<exists>rng\<in>set (sh_Ranges mp). Contains rng (TokenForPK H pk))"
    if "\<not> Contains R (TokenForPK H pk)"
  proof -
    have "ra \<noteq> []" using rest [OF that] by auto
    with cat'(1) rest [OF that] show ?thesis by auto
  qed
  from cat'(2) obtain me where "me \<in> set (cat_Shards (mg_cat m'))" "sh_ID me = ?c" "Routable (sh_State me)" "sh_Ranges me = [R]" by blast
  from moved_row_reached [OF ok' cat'(3) pair this source td slash row] show ?thesis .
qed


section \<open>Examples\<close>

text \<open>Shard 0 gives its whole ring to shard 1.\<close>

definition moving_catalog :: PlacementCatalog where
  "moving_catalog = splitting_catalog\<lparr>cat_Shards :=
     [(cat_Shards splitting_catalog ! 0)\<lparr>sh_State := ShardStateMoving\<rparr>, (cat_Shards splitting_catalog ! 1)\<lparr>sh_Ranges := [mkRange 0 0]\<rparr>]\<rparr>"

definition moving_manager :: Manager where
  "moving_manager = two_shards moving_catalog one_row_shard empty_shard"

definition demo_move_env :: move_env where
  "demo_move_env = \<lparr>me_cluster = demo_cluster, me_encodeState = (\<lambda>_. [2]), me_decodeState = (\<lambda>_. None), me_hook = (\<lambda>_ _. False),
     me_world = (\<lambda>_. demo_world)\<rparr>"

definition demo_move_request :: RangeMoveFinalizeRequest where
  "demo_move_request = \<lparr>mq_SourceShardID = 0, mq_TargetShardID = 1, mq_ExpectedEpoch = 4\<rparr>"

lemma demo_move: "is_ok (snd (moveFresh demo_move_env demo_move_request moving_manager))"
  by code_simp


end
