(* ===== verification/ClusterRuns.thy ===== *)
theory ClusterRuns
  imports RangeMoveFinalize
begin

text \<open>
  A node from its start on (\<^verbatim>\<open>internal/cluster/manager.go\<close>): opening the manager from the placement file, changing the
  voters of a shard, and the managers that any sequence of operations can reach.

  Of the configuration, the fields that decide the placement are modelled. Listening for peers, reading the
  directory of shard states, and what a Raft group answers to a membership change are the record \<open>node_env\<close>.
\<close>

section \<open>Starting a node\<close>

record Config =
  cf_Root :: string
  cf_Shards :: int
  cf_SelfID :: string
  cf_Peers :: "string gomap"
  cf_PeerHTTPAddrs :: "string gomap"
  cf_NodeCapacity :: NodeCapacity
  cf_ReplicationFactor :: int

record node_env =
  ne_cluster :: cluster_env
  ne_readable :: bool
  ne_existing :: bool
  ne_muxOk :: bool
  ne_raft :: "uint32 \<Rightarrow> string \<Rightarrow> bool \<Rightarrow> bool"

text \<open>\<open>Inr None\<close> is the error that \<^verbatim>\<open>os.IsNotExist\<close> recognises.\<close>

definition LoadPlacementFile :: "node_env \<Rightarrow> PlacementCatalog option \<Rightarrow> cluster_error + PlacementCatalog option" where
  "LoadPlacementFile N file =
     (case file of
        None \<Rightarrow> Inr None
      | Some raw \<Rightarrow>
          if \<not> ne_readable N then Inl FileReadErr
          else let cat = Normalize (ce_now (ne_cluster N)) raw in
            bindr (wrapr BadPlacement (ValidatePlacement (ce_now (ne_cluster N)) cat)) (\<lambda>_. Inr (Some cat)))"

definition loadOrCreatePlacement :: "node_env \<Rightarrow> Config \<Rightarrow> Manager \<Rightarrow> Manager \<times> (cluster_error + PlacementCatalog)" where
  "loadOrCreatePlacement N cfg m =
     (let now = ce_now (ne_cluster N) in
      case LoadPlacementFile N (mg_file m) of
        Inl err \<Rightarrow> (m, Inl err)
      | Inr (Some cat) \<Rightarrow> (m, Inr (BackfillLeaderHints now cat))
      | Inr None \<Rightarrow>
          let strategy = (if ne_existing N then PlacementStrategyLegacyModulo else PlacementStrategyTokenRange);
              cat = DefaultPlacementWithReplicationFactor now (cf_Shards cfg) (cf_SelfID cfg) (cf_Peers cfg) (cf_PeerHTTPAddrs cfg)
                (cf_NodeCapacity cfg) strategy (cf_ReplicationFactor cfg)
          in bindS (SavePlacementFile (ne_cluster N) cat m) (\<lambda>m1 _. (m1, Inr (BackfillLeaderHints now cat))))"

definition shardPlacement :: "PlacementCatalog \<Rightarrow> uint32 \<Rightarrow> ShardPlacement" where
  "shardPlacement cat shardID =
     (case find (\<lambda>sh. sh_ID sh = shardID) (cat_Shards cat) of
        Some sh \<Rightarrow> sh
      | None \<Rightarrow> \<lparr>sh_ID = shardID, sh_Ranges = [], sh_State = ShardStateActive, sh_Epoch = cat_Epoch cat, sh_Voters = [],
                 sh_NonVoters = [], sh_LeaderHint = ''''\<rparr>)"

fun openAll :: "cluster_env \<Rightarrow> PlacementCatalog \<Rightarrow> uint32 list \<Rightarrow> Manager \<Rightarrow> Manager \<times> (cluster_error + unit)" where
  "openAll E cat [] m = (m, Inr ())"
| "openAll E cat (shardID # ids) m =
     (case openShardWithPlacement E (mg_SelfID m) shardID (shardPlacement cat shardID) of
        Inl err \<Rightarrow> (m, Inl err)
      | Inr sh \<Rightarrow> openAll E cat ids (m\<lparr>mg_shards := mg_shards m @ [Some sh]\<rparr>))"

text \<open>The manager under construction; \<open>file\<close> is the placement file on disk. A failed refresh is only logged.\<close>

definition newManager :: "Config \<Rightarrow> PlacementCatalog option \<Rightarrow> Manager" where
  "newManager cfg file = \<lparr>mg_SelfID = cf_SelfID cfg, mg_router = None,
     mg_cat = \<lparr>cat_Version = 0, cat_Epoch = 0, cat_Strategy = '''', cat_Shards = [], cat_Nodes = [], cat_UpdatedAtUnix = 0\<rparr>,
     mg_file = file, mg_shards = []\<rparr>"

definition Open :: "node_env \<Rightarrow> Config \<Rightarrow> PlacementCatalog option \<Rightarrow> Manager \<times> (cluster_error + unit)" where
  "Open N cfg0 file =
     (let cfg = (if cf_Shards cfg0 \<le> 0 then cfg0\<lparr>cf_Shards := 1\<rparr> else cfg0); m = newManager cfg file in
      if cf_SelfID cfg = '''' then (m, Inl (ConfigErr ''SelfID is required''))
      else if cf_Root cfg = '''' then (m, Inl (ConfigErr ''Root is required''))
      else
        bindS (loadOrCreatePlacement N cfg m) (\<lambda>m1 cat.
          (case NewRouterFromCatalog (ce_now (ne_cluster N)) cat of
             Inl err \<Rightarrow> (m1, Inl (BadPlacement err))
           | Inr router \<Rightarrow>
               if \<not> ne_muxOk N then (m1, Inl MuxErr)
               else
                 bindS (openAll (ne_cluster N) cat (map of_nat [0 ..< Count (Some router)]) (m1\<lparr>mg_cat := cat, mg_router := Some router\<rparr>)) (\<lambda>m2 _.
                   (fst (RefreshPlacement (ne_cluster N) m2), Inr ())))))"

section \<open>Voters\<close>

text \<open>\<^verbatim>\<open>AddShardVoter\<close> and \<^verbatim>\<open>RemoveShardServer\<close>: \<open>add\<close> tells them apart.\<close>

definition changeVoter :: "node_env \<Rightarrow> bool \<Rightarrow> uint32 \<Rightarrow> string \<Rightarrow> Manager \<Rightarrow> Manager \<times> (cluster_error + unit)" where
  "changeVoter N add shardID nodeID m =
     (case theShard m shardID of
        None \<Rightarrow> (m, Inl (NoRaftGroup shardID))
      | Some sh \<Rightarrow>
          if cs_Raft sh = None then (m, Inl (NoRaftGroup shardID))
          else if \<not> ne_raft N shardID nodeID add then (m, Inl (RaftErr shardID))
          else recordShardVoter (ne_cluster N) shardID nodeID add m)"

definition AddShardVoter :: "node_env \<Rightarrow> uint32 \<Rightarrow> string \<Rightarrow> Manager \<Rightarrow> Manager \<times> (cluster_error + unit)" where
  "AddShardVoter N = changeVoter N True"

definition RemoveShardServer :: "node_env \<Rightarrow> uint32 \<Rightarrow> string \<Rightarrow> Manager \<Rightarrow> Manager \<times> (cluster_error + unit)" where
  "RemoveShardServer N = changeVoter N False"

text \<open>The loops run over the list of shards taken at the start.\<close>

fun allShards :: "(uint32 \<Rightarrow> Manager \<Rightarrow> Manager \<times> (cluster_error + unit)) \<Rightarrow> Shard option list \<Rightarrow> Manager \<Rightarrow> Manager \<times> (cluster_error + unit)" where
  "allShards f [] m = (m, Inr ())"
| "allShards f (None # shs) m = allShards f shs m"
| "allShards f (Some sh # shs) m =
     (if cs_Raft sh = None then allShards f shs m
      else bindS (f (cs_ID sh) m) (\<lambda>m1 _. allShards f shs m1))"

definition AddVoterAllShards :: "node_env \<Rightarrow> string \<Rightarrow> Manager \<Rightarrow> Manager \<times> (cluster_error + unit)" where
  "AddVoterAllShards N nodeID m = allShards (\<lambda>i. AddShardVoter N i nodeID) (mg_shards m) m"

definition RemoveServerAllShards :: "node_env \<Rightarrow> string \<Rightarrow> Manager \<Rightarrow> Manager \<times> (cluster_error + unit)" where
  "RemoveServerAllShards N nodeID m = allShards (\<lambda>i. RemoveShardServer N i nodeID) (mg_shards m) m"

section \<open>Reachable managers\<close>

text \<open>
  Each step has its own environment: the clock moves on, files and Raft groups fail or not. A write on a
  shard changes its store, an election its leader.
\<close>

inductive reachable_manager :: "Manager \<Rightarrow> bool" where
  opened: "Open N cfg file = (m, Inr ()) \<Longrightarrow> reachable_manager m"
| refreshed: "reachable_manager m \<Longrightarrow> reachable_manager (fst (RefreshPlacement E m))"
| published: "reachable_manager m \<Longrightarrow> reachable_manager (fst (PublishPlacement E m))"
| voter_added: "reachable_manager m \<Longrightarrow> reachable_manager (fst (AddVoterAllShards N nodeID m))"
| shard_voter_added: "reachable_manager m \<Longrightarrow> reachable_manager (fst (AddShardVoter N i nodeID m))"
| server_removed: "reachable_manager m \<Longrightarrow> reachable_manager (fst (RemoveServerAllShards N nodeID m))"
| shard_server_removed: "reachable_manager m \<Longrightarrow> reachable_manager (fst (RemoveShardServer N i nodeID m))"
| split_finalized: "reachable_manager m \<Longrightarrow> reachable_manager (fst (FinalizeSplit S req m))"
| split_rolled_back: "reachable_manager m \<Longrightarrow> reachable_manager (fst (RollbackSplit S req m))"
| range_moved: "reachable_manager m \<Longrightarrow> reachable_manager (fst (FinalizeRangeMove V mreq m))"
| stored: "reachable_manager m \<Longrightarrow> theShard m i = Some sh \<Longrightarrow>
    reachable_manager (setShard i (sh\<lparr>cs_Storage := db, cs_Raft := map_option (\<lambda>_. leads) (cs_Raft sh)\<rparr>) m)"

section \<open>Every operation keeps the node consistent\<close>

text \<open>Besides the invariant of the manager: no shard is nil.\<close>

definition serving :: "Manager \<Rightarrow> bool" where
  "serving m \<longleftrightarrow> manager_ok m \<and> None \<notin> set (mg_shards m)"

named_theorems node_intros

lemma node_bind [node_intros]:
  assumes "serving (fst r)" and "\<And>m1 x. serving m1 \<Longrightarrow> serving (fst (k m1 x))"
  shows "serving (fst (bindS r k))"
  using assms by (cases r; cases "snd r") auto

lemma setShard_node:
  assumes "serving m" and "theShard m i = Some sh"
  shows "serving (setShard i (sh\<lparr>cs_Storage := db, cs_Raft := r\<rparr>) m)"
proof -
  have i: "unat i < length (mg_shards m)" "mg_shards m ! unat i = Some sh" using assms(2) by (auto simp: theShard_def split: if_splits)
  have "withMeta meta (s\<lparr>cs_Storage := db, cs_Raft := r\<rparr>) = s\<lparr>cs_Storage := db, cs_Raft := r\<rparr> \<longleftrightarrow> withMeta meta s = s" for meta s
    by (cases s) (simp add: withMeta_def)
  with i assms(1) have "manager_ok (setShard i (sh\<lparr>cs_Storage := db, cs_Raft := r\<rparr>) m)"
    by (auto simp: serving_def manager_ok_def setShard_def own_ids_def shards_follow_def nth_list_update split: if_splits)
  moreover have "None \<notin> set (mg_shards (setShard i (sh\<lparr>cs_Storage := db, cs_Raft := r\<rparr>) m))"
    using assms(1) set_update_subset_insert by (fastforce simp: serving_def setShard_def)
  ultimately show ?thesis by (simp add: serving_def)
qed

lemma setStorage_node:
  assumes "serving m" and "theShard m i = Some sh"
  shows "serving (setShard i (sh\<lparr>cs_Storage := db\<rparr>) m)"
  using setShard_node [OF assms, where db = db and r = "cs_Raft sh"] by simp

lemma setSystem_node [node_intros]: "serving m \<Longrightarrow> serving (fst (setSystem key raw m))"
  by (auto simp: setSystem_def setStorage_node split: option.splits prod.splits sum.splits)

lemma SavePlacementFile_node [node_intros]: "serving m \<Longrightarrow> serving (fst (SavePlacementFile E cat m))"
  using SavePlacementFile_rest [of E cat m] by (cases "SavePlacementFile E cat m") (simp add: serving_def manager_ok_def)

lemma onShard_node [node_intros]: "serving m \<Longrightarrow> serving (fst (onShard i f m))"
  by (auto simp: onShard_def setStorage_node split: option.splits prod.splits sum.splits)

lemma fromShard_node [node_intros]:
  "serving m \<Longrightarrow> (\<And>db. serving (fst (f db m))) \<Longrightarrow> serving (fst (fromShard i f m))"
  by (auto simp: fromShard_def split: option.splits)

lemma openLoop_open: "None \<notin> set (mg_shards m) \<Longrightarrow> None \<notin> set (mg_shards (fst (openLoop E cat n m)))"
  by (induction n arbitrary: m) (auto simp: Let_def split: sum.splits)

lemma install_open: "None \<notin> set shards \<Longrightarrow> None \<notin> set (fold installMeta metas shards)"
proof (induction metas arbitrary: shards)
  case (Cons meta metas)
  have "x \<noteq> None" if "x \<in> set (installMeta meta shards)" for x
  proof (cases "unat (sh_ID meta) < length shards")
    case True
    with Cons.prems have "shards ! unat (sh_ID meta) \<noteq> None" by (metis nth_mem)
    moreover from that True have "x \<in> insert (map_option (withMeta meta) (shards ! unat (sh_ID meta))) (set shards)"
      using set_update_subset_insert by (fastforce simp: installMeta_def)
    ultimately show ?thesis using Cons.prems by (cases x) auto
  next
    case False
    with that Cons.prems show ?thesis by (metis installMeta_def)
  qed
  with Cons.IH show ?case by auto
qed simp

lemma openMissing_node [node_intros]: "serving m \<Longrightarrow> serving (fst (openMissingShardsForPlacement E cat m))"
proof -
  assume ok: "serving m"
  then have "manager_ok (fst (openMissingShardsForPlacement E cat m))"
    using openMissing_keeps [of E cat m] by (cases "openMissingShardsForPlacement E cat m") (simp add: serving_def)
  moreover have "None \<notin> set (mg_shards (fst (openMissingShardsForPlacement E cat m)))"
    using ok openLoop_open by (simp add: serving_def openMissingShardsForPlacement_def Let_def split: sum.splits)
  ultimately show ?thesis by (simp add: serving_def)
qed


lemma applyPlacement_node [node_intros]: "serving m \<Longrightarrow> serving (fst (applyPlacement E cat save m))"
proof -
  assume ok: "serving m"
  have "manager_ok (fst (applyPlacement E cat save m))"
    using ok applyPlacement_spec [of E cat save m] by (cases "applyPlacement E cat save m") (simp add: serving_def)
  moreover have saved: "mg_shards (fst (SavePlacementFile E c y)) = mg_shards y" for c y
    using SavePlacementFile_rest [of E c y] by (cases "SavePlacementFile E c y") simp
  moreover obtain m1 x where opened:
    "(if length (mg_shards m) < length (cat_Shards cat) then openMissingShardsForPlacement E cat m else (m, Inr ())) = (m1, x)" by fastforce
  then have "None \<notin> set (mg_shards m1)" using ok openMissing_node [OF ok, of E cat] by (auto simp: serving_def split: if_splits)
  then have "None \<notin> set (mg_shards (fst (applyPlacement E cat save m)))"
    using opened install_open by (auto simp: applyPlacement_def saved split: sum.splits prod.splits if_splits)
  ultimately show ?thesis by (simp add: serving_def)
qed

lemma RefreshPlacement_node [node_intros]:
  assumes "serving m"
  shows "serving (fst (RefreshPlacement E m))"
proof -
  have "serving (fst (case openMissingShardsForPlacement E cat m of (m1, Inl err) \<Rightarrow> (m1, Inl err) | (m1, Inr _) \<Rightarrow> applyPlacement E cat True m1))" for cat
    using openMissing_node [OF assms, of E cat] applyPlacement_node by (auto split: prod.splits sum.splits)
  with assms show ?thesis by (auto simp: RefreshPlacement_def split: option.splits sum.splits)
qed

lemma PublishPlacement_node: "serving m \<Longrightarrow> serving (fst (PublishPlacement E m))"
  by (auto simp: PublishPlacement_def setSystem_node split: sum.splits)

lemma persistStrict_node [node_intros]: "serving m \<Longrightarrow> serving (fst (persistPlacementSnapshotStrict E cat m))"
proof -
  assume ok: "serving m"
  have "serving m1" if "setSystem placementSystemKey raw m = (m1, r)" for raw m1 r
    using setSystem_node [OF ok, of placementSystemKey raw] that by simp
  with ok show ?thesis using SavePlacementFile_node by (auto simp: persistPlacementSnapshotStrict_def split: sum.splits prod.splits)
qed

lemma persist_node [node_intros]: "serving m \<Longrightarrow> serving (fst (persistPlacementSnapshot E cat m))"
proof -
  assume ok: "serving m"
  obtain m1 x where s: "SavePlacementFile E cat m = (m1, x)" by fastforce
  with SavePlacementFile_node [OF ok, of E cat] have m1: "serving m1" by simp
  have "serving m2" if "setSystem placementSystemKey raw m1 = (m2, r)" for raw m2 r
    using setSystem_node [OF m1, of placementSystemKey raw] that by simp
  with m1 s show ?thesis by (auto simp: persistPlacementSnapshot_def split: sum.splits prod.splits)
qed

subsection \<open>Finalisers\<close>

lemma save_node [node_intros]:
  "serving m \<Longrightarrow> serving (fst (saveSplitFinalizeState S state m))"
  "serving m \<Longrightarrow> serving (fst (saveRangeMoveFinalizeState V mstate m))"
  by (simp_all add: saveSplitFinalizeState_def saveRangeMoveFinalizeState_def setSystem_node)

lemma checkpoint_node [node_intros]:
  "serving m \<Longrightarrow> serving (fst (checkpoint S state m))"
  "serving m \<Longrightarrow> serving (fst (moveCheckpoint V mstate m))"
  by (auto simp: checkpoint_def moveCheckpoint_def intro!: node_intros)

lemma split_phases_node [node_intros]:
  assumes "serving m"
  shows "serving (fst (copyPhase S tables state m))" and "serving (fst (verifyPhase S tables state m))"
    and "serving (fst (publishPhase S after state m))" and "serving (fst (cleanupPhase S p tables n state m))"
  using assms
  by (auto simp: copyPhase_def verifyPhase_def publishPhase_def cleanupPhase_def intro!: node_intros split: prod.splits option.splits)

lemma move_phases_node [node_intros]:
  assumes "serving m"
  shows "serving (fst (moveCopyPhase V tables state m))" and "serving (fst (moveVerifyPhase V tables state m))"
    and "serving (fst (movePublishPhase V after state m))" and "serving (fst (moveCleanupPhase V p tables n state m))"
  using assms
  by (auto simp: moveCopyPhase_def moveVerifyPhase_def movePublishPhase_def moveCleanupPhase_def intro!: node_intros split: prod.splits option.splits)

lemma resume_node [node_intros]:
  assumes "serving m"
  shows "serving (fst (resumePublishedSplit S req m))" and "serving (fst (resumePublishedRangeMove V mreq m))"
  using assms
  by (auto simp: resumePublishedSplit_def resumePublishedRangeMove_def intro!: node_intros split: sum.splits option.splits)

lemma fresh_node [node_intros]:
  assumes "serving m"
  shows "serving (fst (finalizeFresh S req m))" and "serving (fst (moveFresh V mreq m))"
  using assms by (auto simp: finalizeFresh_def moveFresh_def Let_def intro!: node_intros split: sum.splits)

lemma finalisers_node:
  assumes "serving m"
  shows "serving (fst (FinalizeSplit S req m))" and "serving (fst (FinalizeRangeMove V mreq m))" and "serving (fst (RollbackSplit S req m))"
  using assms
  by (auto simp: FinalizeSplit_def FinalizeRangeMove_def RollbackSplit_def intro!: node_intros split: sum.splits option.splits)


subsection \<open>Voters\<close>

text \<open>Validation looks at the identifiers, states and ranges of the shards only, so a change of voters cannot break it.\<close>

definition shape :: "ShardPlacement \<Rightarrow> uint32 \<times> ShardState \<times> TokenRange list" where
  "shape sh = (sh_ID sh, sh_State sh, sh_Ranges sh)"

lemma map_insort_shape: "map shape (insort_key sh_ID x xs) = insort_key fst (shape x) (map shape xs)"
  by (induction xs) (auto simp: shape_def)

lemma map_sort_shape: "map shape (sort_key sh_ID xs) = sort_key fst (map shape xs)"
  by (induction xs) (simp_all add: map_insort_shape)

lemma normalized_shape:
  assumes "map shape a = map shape b"
  shows "map shape (map (normalizeShard e) a) = map shape (map (normalizeShard e') b)"
proof -
  have "shape (normalizeShard e x) = shape (normalizeShard e' y)" if "shape x = shape y" for x y
    using that by (simp add: shape_def normalizeShard_State)
  moreover have "list_all2 (\<lambda>x y. shape x = shape y) a b"
    using assms by (simp add: list_all2_conv_all_nth list_eq_iff_nth_eq)
  ultimately show ?thesis by (simp add: list_all2_conv_all_nth list_eq_iff_nth_eq)
qed

lemma validateShards_shape: "map shape a = map shape b \<Longrightarrow> validateShards s i seen a = validateShards s i seen b"
proof (induction a arbitrary: b i seen)
  case (Cons x a)
  then obtain y b' where b: "b = y # b'" "shape x = shape y" "map shape a = map shape b'" by (cases b) auto
  from b(2) have sel: "sh_ID x = sh_ID y" "sh_State x = sh_State y" "sh_Ranges x = sh_Ranges y" by (simp_all add: shape_def)
  show ?case unfolding b(1) by (simp only: validateShards.simps sel Cons.IH [OF b(3)])
qed simp

lemma coverage_shape:
  assumes "map shape a = map shape b"
  shows "validateTokenCoverage a = validateTokenCoverage b"
proof -
  have "routableSegments shards = concat (map (\<lambda>(i, st, rs). if \<not> Routable st then [] else concat (map tokenRangeSegments rs)) (map shape shards))" for shards
    by (simp add: routableSegments_def shape_def o_def)
  then have "routableSegments a = routableSegments b" using assms by metis
  then show ?thesis by (simp add: validateTokenCoverage_def)
qed

lemma validateNormalized_shape:
  assumes "map shape (cat_Shards a) = map shape (cat_Shards b)" and "cat_Version a = cat_Version b" and "cat_Strategy a = cat_Strategy b"
  shows "validateNormalized a = validateNormalized b"
proof -
  have "cat_Shards a = [] \<longleftrightarrow> cat_Shards b = []" using assms(1) by (metis list.map_disc_iff)
  then show ?thesis
    unfolding validateNormalized_def by (simp only: assms(2,3) validateShards_shape [OF assms(1)] coverage_shape [OF assms(1)])
qed

lemma router_shape:
  assumes "map shape (cat_Shards a) = map shape (cat_Shards b)" and "cat_Version a = cat_Version b" and "cat_Strategy a = cat_Strategy b"
    and "is_ok (NewRouterFromCatalog now a)"
  shows "is_ok (NewRouterFromCatalog now' b)"
proof -
  have step: "map shape (cat_Shards (Normalize n x)) = map shape (cat_Shards (Normalize n' y)) \<and>
      cat_Version (Normalize n x) = cat_Version (Normalize n' y) \<and> cat_Strategy (Normalize n x) = cat_Strategy (Normalize n' y)"
    if "map shape (cat_Shards x) = map shape (cat_Shards y)" "cat_Version x = cat_Version y" "cat_Strategy x = cat_Strategy y" for x y n n'
  proof -
    have "sort_key fst (map shape (map (normalizeShard e) (cat_Shards x))) = sort_key fst (map shape (map (normalizeShard e') (cat_Shards y)))" for e e'
      using normalized_shape [OF that(1)] by metis
    with that show ?thesis by (simp add: Normalize_def Let_def map_sort_shape del: map_map)
  qed
  let ?x = "Normalize now (Normalize now a)" and ?y = "Normalize now' (Normalize now' b)"
  have "map shape (cat_Shards ?x) = map shape (cat_Shards ?y) \<and> cat_Version ?x = cat_Version ?y \<and> cat_Strategy ?x = cat_Strategy ?y"
    using step [of "Normalize now a" "Normalize now' b" now now'] step [OF assms(1-3), of now now'] by blast
  then have "validateNormalized ?y = validateNormalized ?x" using validateNormalized_shape [of ?y ?x] by simp
  moreover have "validateNormalized ?x = Inr ()"
    using assms(4) by (auto simp: NewRouterFromCatalog_def ValidatePlacement_def Let_def is_ok_iff elim!: bindr_InrE)
  ultimately show ?thesis by (simp add: NewRouterFromCatalog_def ValidatePlacement_def Let_def)
qed

lemma voter_step:
  assumes ok: "manager_ok m" "None \<notin> set (mg_shards m)" and r0: "NewRouterFromCatalog now (mg_cat m) = Inr r0"
    and router: "NewRouterFromCatalog now' cat' = Inr router"
    and i: "i < length (cat_Shards (mg_cat m))" "sh = cat_Shards (mg_cat m) ! i" "sh_ID sh = shardID"
    and sel: "sh_ID sh' = shardID" "sh_State sh' = sh_State sh" "sh_Ranges sh' = sh_Ranges sh" "sh_LeaderHint sh' = sh_LeaderHint sh"
    and cat': "cat' = (mg_cat m)\<lparr>cat_Shards := (cat_Shards (mg_cat m))[i := sh'], cat_Epoch := e, cat_UpdatedAtUnix := u\<rparr>"
  shows "serving (m\<lparr>mg_cat := cat', mg_router := Some router, mg_shards := (if unat shardID < length (mg_shards m)
     then (mg_shards m)[unat shardID := map_option (\<lambda>s. s\<lparr>cs_Voters := sh_Voters sh', cs_NonVoters := sh_NonVoters sh', cs_Epoch := sh_Epoch sh'\<rparr>)
       (mg_shards m ! unat shardID)] else mg_shards m)\<rparr>)" (is "serving ?m1")
proof -
  let ?xs = "cat_Shards (mg_cat m)" and ?f = "\<lambda>s. s\<lparr>cs_Voters := sh_Voters sh', cs_NonVoters := sh_NonVoters sh', cs_Epoch := sh_Epoch sh'\<rparr>"
  have mem: "sh \<in> set ?xs" using i by simp
  have pos: "unat shardID < length ?xs" using meta_position [OF r0 mem] i(3) by simp
  with ok(1) have len: "unat shardID < length (mg_shards m)" by (simp add: manager_ok_def)
  with ok(2) obtain s0 where s0: "mg_shards m ! unat shardID = Some s0" by (metis not_None_eq nth_mem)
  then have "theShard m shardID = Some s0" using len by (simp add: theShard_def)
  from follows_meta [OF ok(1) this mem i(3)] have s0_meta: "withMeta sh s0 = s0" "cs_ID s0 = shardID" by auto
  have shards: "mg_shards ?m1 = (mg_shards m)[unat shardID := Some (?f s0)]" using len s0 by simp
  have follow: "withMeta sh' (?f s0) = ?f s0"
    using s0_meta(1) sel by (cases s0) (simp add: withMeta_def)
  have "\<exists>meta\<in>set (cat_Shards cat'). sh_ID meta = of_nat k \<and> withMeta meta s = s"
    if k: "k < length ?xs" "mg_shards ?m1 ! k = Some s" for k s
  proof (cases "k = unat shardID")
    case True
    then have "s = ?f s0" using k(2) unfolding shards using len by simp
    moreover have "sh' \<in> set (cat_Shards cat')" using i(1) by (simp add: cat' set_update_memI)
    ultimately show ?thesis using True follow sel(1) by (auto intro!: bexI [of _ sh'])
  next
    case False
    with k(2) have "mg_shards m ! k = Some s" unfolding shards by simp
    with ok(1) k(1) obtain meta where meta: "meta \<in> set ?xs" "sh_ID meta = of_nat k" "withMeta meta s = s" by (auto simp: manager_ok_def shards_follow_def)
    have "k < 2 ^ 32" using k(1) normalized_ids(3) [OF r0] by simp
    then have "unat (of_nat k :: uint32) = k" by (simp add: unat_of_nat)
    with False have "of_nat k \<noteq> shardID" by metis
    with meta(1,2) i obtain j where "j < length ?xs" "?xs ! j = meta" "j \<noteq> i" by (metis in_set_conv_nth)
    then have "meta \<in> set (?xs[i := sh'])" by (metis length_list_update nth_list_update_neq nth_mem)
    with meta show ?thesis by (auto simp: cat')
  qed
  moreover have "own_ids (mg_shards ?m1)"
    unfolding shards using ok(1) len s0_meta(2) by (auto simp: manager_ok_def own_ids_def nth_list_update)
  moreover have "None \<notin> set (mg_shards ?m1)"
    unfolding shards using ok(2) set_update_subset_insert [of "mg_shards m" "unat shardID" "Some (?f s0)"] by auto
  moreover have "length (cat_Shards cat') = length ?xs" by (simp add: cat')
  ultimately show ?thesis using ok(1) router shards by (auto simp: serving_def manager_ok_def shards_follow_def)
qed

lemma recordShardVoter_node [node_intros]:
  assumes "serving m"
  shows "serving (fst (recordShardVoter E shardID nodeID add m))"
proof (cases "findShardFrom 0 (cat_Shards (mg_cat m)) shardID")
  case (Inl err)
  with assms show ?thesis by (simp add: recordShardVoter_def)
next
  case (Inr p)
  then obtain i sh where f: "findShardFrom 0 (cat_Shards (mg_cat m)) shardID = Inr (i, sh)" by (cases p) auto
  have ok: "manager_ok m" "None \<notin> set (mg_shards m)" using assms by (auto simp: serving_def)
  from findShardFrom_Inr [OF f] have i: "i < length (cat_Shards (mg_cat m))" "sh = cat_Shards (mg_cat m) ! i" "sh_ID sh = shardID" by auto
  define sh' where "sh' = (if add then sh\<lparr>sh_Voters := appendUnique (sh_Voters sh) nodeID\<rparr>
      else sh\<lparr>sh_Voters := RemoveString (sh_Voters sh) nodeID, sh_NonVoters := RemoveString (sh_NonVoters sh) nodeID\<rparr>)
        \<lparr>sh_Epoch := cat_Epoch (mg_cat m) + 1\<rparr>"
  define cat' where "cat' = (mg_cat m)\<lparr>cat_Shards := (cat_Shards (mg_cat m))[i := sh'], cat_Epoch := cat_Epoch (mg_cat m) + 1, cat_UpdatedAtUnix := ce_now E\<rparr>"
  have sel: "sh_ID sh' = shardID" "sh_State sh' = sh_State sh" "sh_Ranges sh' = sh_Ranges sh" "sh_LeaderHint sh' = sh_LeaderHint sh"
    using i(3) by (simp_all add: sh'_def)
  have "shape sh' = map shape (cat_Shards (mg_cat m)) ! i" using i sel by (simp add: shape_def)
  then have "map shape (cat_Shards (mg_cat m)) = map shape (cat_Shards cat')" by (simp add: cat'_def map_update)
  moreover from ok(1) obtain now r0 where r0: "NewRouterFromCatalog now (mg_cat m) = Inr r0" by (auto simp: manager_ok_def)
  ultimately have "is_ok (NewRouterFromCatalog (ce_now E) cat')" by (intro router_shape [of "mg_cat m" cat' now]) (simp_all add: cat'_def is_ok_iff)
  then obtain router where router: "NewRouterFromCatalog (ce_now E) cat' = Inr router" by (auto simp: is_ok_iff)
  let ?f = "\<lambda>s. s\<lparr>cs_Voters := sh_Voters sh', cs_NonVoters := sh_NonVoters sh', cs_Epoch := sh_Epoch sh'\<rparr>"
  let ?m1 = "m\<lparr>mg_cat := cat', mg_router := Some router, mg_shards := (if unat shardID < length (mg_shards m)
     then (mg_shards m)[unat shardID := map_option ?f (mg_shards m ! unat shardID)] else mg_shards m)\<rparr>"
  have run: "recordShardVoter E shardID nodeID add m = persistPlacementSnapshot E cat' ?m1"
    using f router by (simp add: recordShardVoter_def sh'_def [symmetric] cat'_def [symmetric])
  show ?thesis unfolding run by (rule persist_node) (rule voter_step [OF ok r0 router i sel cat'_def])
qed


lemma voters_node:
  assumes "serving m"
  shows "serving (fst (AddShardVoter N i nodeID m))" and "serving (fst (RemoveShardServer N i nodeID m))"
    and "serving (fst (AddVoterAllShards N nodeID m))" and "serving (fst (RemoveServerAllShards N nodeID m))"
proof -
  have change: "serving (fst (changeVoter N add i nodeID y))" if "serving y" for add i y
    using that by (auto simp: changeVoter_def recordShardVoter_node split: option.splits)
  then show "serving (fst (AddShardVoter N i nodeID m))" "serving (fst (RemoveShardServer N i nodeID m))"
    using assms by (simp_all add: AddShardVoter_def RemoveShardServer_def)
  have "serving (fst (allShards f shs y))" if "\<And>i y. serving y \<Longrightarrow> serving (fst (f i y))" "serving y" for f shs y
    using that(2)
  proof (induction shs arbitrary: y)
    case (Cons x shs)
    then show ?case using that(1) by (cases x) (auto intro!: node_bind)
  qed simp
  with change assms show "serving (fst (AddVoterAllShards N nodeID m))" "serving (fst (RemoveServerAllShards N nodeID m))"
    by (simp_all add: AddVoterAllShards_def RemoveServerAllShards_def AddShardVoter_def RemoveShardServer_def)
qed

subsection \<open>Start\<close>

lemma openAll_spec:
  assumes "openAll E cat ids m = (m', Inr ())"
  shows "\<exists>new. mg_shards m' = mg_shards m @ map Some new \<and>
    list_all2 (\<lambda>i sh. cs_ID sh = i \<and> withMeta (shardPlacement cat i) sh = sh) ids new \<and> mg_cat m' = mg_cat m \<and> mg_router m' = mg_router m"
  using assms
proof (induction ids arbitrary: m)
  case Nil
  then show ?case by (intro exI [of _ "[]"]) simp
next
  case (Cons i ids)
  then obtain sh where sh: "openShardWithPlacement E (mg_SelfID m) i (shardPlacement cat i) = Inr sh"
    and rest: "openAll E cat ids (m\<lparr>mg_shards := mg_shards m @ [Some sh]\<rparr>) = (m', Inr ())" by (auto split: sum.splits)
  from Cons.IH [OF rest] obtain new where "mg_shards m' = mg_shards m @ Some sh # map Some new"
    "list_all2 (\<lambda>i sh. cs_ID sh = i \<and> withMeta (shardPlacement cat i) sh = sh) ids new" "mg_cat m' = mg_cat m" "mg_router m' = mg_router m" by auto
  then show ?case using opened_shard [OF sh] by (intro exI [of _ "sh # new"]) simp
qed

lemma openAll_serving:
  assumes "openAll E cat (map of_nat [0 ..< Count (Some router)]) m = (m', Inr ())" and "mg_shards m = []" and "mg_cat m = cat"
    and "mg_router m = Some router" and router: "NewRouterFromCatalog now cat = Inr router"
  shows "serving m'"
proof -
  let ?n = "length (cat_Shards cat)"
  have count: "Count (Some router) = ?n" using NewRouter_catalog(1) [OF router] by (simp add: Count_def Normalize_def Let_def)
  from openAll_spec [OF assms(1)] assms(2-4) obtain new where new: "mg_shards m' = map Some new" "mg_cat m' = cat" "mg_router m' = Some router"
    and all2: "list_all2 (\<lambda>i sh. cs_ID sh = i \<and> withMeta (shardPlacement cat i) sh = sh) (map of_nat [0 ..< ?n]) new" by (auto simp: count)
  have len: "length new = ?n" using list_all2_lengthD [OF all2] by simp
  have each: "cs_ID (new ! k) = of_nat k \<and> withMeta (shardPlacement cat (of_nat k)) (new ! k) = new ! k" if "k < ?n" for k
    using list_all2_nthD2 [OF all2, of k] that len by simp
  have "\<exists>meta\<in>set (cat_Shards cat). sh_ID meta = of_nat k \<and> withMeta meta (new ! k) = new ! k" if k: "k < ?n" for k
  proof -
    from normalized_ids(2) [OF router k] obtain meta where "meta \<in> set (cat_Shards cat)" "sh_ID meta = of_nat k" by blast
    then obtain sh where f: "find (\<lambda>sh. sh_ID sh = of_nat k) (cat_Shards cat) = Some sh"
      by (cases "find (\<lambda>sh. sh_ID sh = of_nat k) (cat_Shards cat)") (auto simp: find_None_iff)
    then have "shardPlacement cat (of_nat k) = sh" by (simp add: shardPlacement_def)
    moreover from f have "sh \<in> set (cat_Shards cat)" "sh_ID sh = of_nat k" by (auto simp: find_Some_iff)
    ultimately show ?thesis using each [OF k] by auto
  qed
  then show ?thesis
    using new len each router by (auto simp: serving_def manager_ok_def own_ids_def shards_follow_def)
qed

lemma Open_node:
  assumes "Open N cfg file = (m, Inr ())"
  shows "serving m"
proof -
  let ?E = "ne_cluster N"
  from assms obtain cfg' m1 cat where load: "loadOrCreatePlacement N cfg' (newManager cfg' file) = (m1, Inr cat)"
    and rest: "(case NewRouterFromCatalog (ce_now ?E) cat of
       Inl err \<Rightarrow> (m1, Inl (BadPlacement err))
     | Inr router \<Rightarrow>
         if \<not> ne_muxOk N then (m1, Inl MuxErr)
         else bindS (openAll ?E cat (map of_nat [0 ..< Count (Some router)]) (m1\<lparr>mg_cat := cat, mg_router := Some router\<rparr>)) (\<lambda>m2 _.
           (fst (RefreshPlacement ?E m2), Inr ()))) = (m, Inr ())"
    unfolding Open_def Let_def by (auto split: if_splits elim!: bindS_ok)
  have "mg_shards m1 = []"
    using load SavePlacementFile_rest [of ?E] by (auto simp: loadOrCreatePlacement_def newManager_def Let_def split: sum.splits option.splits elim!: bindS_ok)
  with rest obtain router m2 where router: "NewRouterFromCatalog (ce_now ?E) cat = Inr router"
    and all: "openAll ?E cat (map of_nat [0 ..< Count (Some router)]) (m1\<lparr>mg_cat := cat, mg_router := Some router\<rparr>) = (m2, Inr ())"
    and m: "m = fst (RefreshPlacement ?E m2)" by (auto split: sum.splits if_splits elim!: bindS_ok)
  have "serving m2" by (rule openAll_serving [OF all _ _ _ router]) (use \<open>mg_shards m1 = []\<close> in simp_all)
  then show ?thesis unfolding m by (rule RefreshPlacement_node)
qed

lemma reachable_serving: "reachable_manager m \<Longrightarrow> serving m"
  by (induction rule: reachable_manager.induct)
    (simp_all add: Open_node RefreshPlacement_node PublishPlacement_node voters_node finalisers_node setShard_node)

text \<open>
  C4. A running node serves every key: whatever it did since its start, in whatever order, and whichever of these
  operations failed half way, with a token-range placement each partition key has an open, routable shard
  with a range that contains its token, requests go to it, and it shows the state the placement gives it.
\<close>

theorem running_node_serves_every_key:
  assumes "reachable_manager m" and "cat_Strategy (mg_cat m) = PlacementStrategyTokenRange"
  shows "\<exists>sh. RouteForPK H m pk 0 = Inr sh \<and> theShard m (cs_ID sh) = Some sh \<and> Routable (cs_State sh) \<and>
    (\<exists>meta\<in>set (cat_Shards (mg_cat m)). sh_ID meta = cs_ID sh \<and> sh_State meta = cs_State sh \<and> sh_Ranges meta = cs_Ranges sh) \<and>
    (\<exists>rng\<in>set (cs_Ranges sh). Contains rng (TokenForPK H pk))"
proof -
  have ok: "manager_ok m" "None \<notin> set (mg_shards m)" using reachable_serving [OF assms(1)] by (auto simp: serving_def)
  from ok(1) obtain now r where r: "mg_router m = Some r" "NewRouterFromCatalog now (mg_cat m) = Inr r"
    and len: "length (cat_Shards (mg_cat m)) \<le> length (mg_shards m)" by (auto simp: manager_ok_def)
  from route_exists [OF r(2), of "TokenForPK H pk"] r(1) obtain i where i: "ShardForUint64 (mg_router m) (TokenForPK H pk) = Inr i" by auto
  with route_iff [OF ok(1) assms(2)] obtain meta rng where meta: "meta \<in> set (cat_Shards (mg_cat m))" "sh_ID meta = i" "Routable (sh_State meta)"
    "rng \<in> set (sh_Ranges meta)" "Contains rng (TokenForPK H pk)" by blast
  have "unat i < length (mg_shards m)" using meta_position [OF r(2) meta(1)] meta(2) len by simp
  with ok(2) obtain sh where sh: "theShard m i = Some sh" by (metis theShard_def not_None_eq nth_mem)
  note f = follows_meta [OF ok(1) sh meta(1,2)]
  have "RouteForPK H m pk 0 = Inr sh" by (rule routes_to [OF ok(1) assms(2) meta(1,3,4,5)]) (use sh meta(2) in simp)
  with sh f(2) meta follows_sel [OF f(1)] show ?thesis by (intro exI [of _ sh]) auto
qed


definition demo_node :: node_env where
  "demo_node = \<lparr>ne_cluster = demo_cluster\<lparr>ce_open := (\<lambda>_ _. Some (empty_shard, Some True))\<rparr>, ne_readable = True, ne_existing = False,
     ne_muxOk = True, ne_raft = (\<lambda>_ _ _. True)\<rparr>"

definition demo_config :: Config where
  "demo_config = \<lparr>cf_Root = ''/data'', cf_Shards = 1, cf_SelfID = ''n1'', cf_Peers = [], cf_PeerHTTPAddrs = [],
     cf_NodeCapacity = zeroCapacity, cf_ReplicationFactor = 1\<rparr>"

definition started_manager :: Manager where
  "started_manager = fst (Open demo_node demo_config None)"

theorem running_node_serves_every_key_witness:
  "\<exists>sh. RouteForPK length_hasher started_manager [0x37] 0 = Inr sh \<and> Routable (cs_State sh) \<and>
     (\<exists>rng\<in>set (cs_Ranges sh). Contains rng (TokenForPK length_hasher [0x37]))"
proof -
  have "map_prod (\<lambda>m. cat_Strategy (mg_cat m)) id (Open demo_node demo_config None) = (PlacementStrategyTokenRange, Inr ())" by code_simp
  then have run: "snd (Open demo_node demo_config None) = Inr ()" "cat_Strategy (mg_cat started_manager) = PlacementStrategyTokenRange"
    by (auto simp: started_manager_def map_prod_def split: prod.splits)
  then have "reachable_manager started_manager" unfolding started_manager_def by (intro opened [of demo_node demo_config None]) (simp add: prod_eq_iff)
  from running_node_serves_every_key [OF this run(2), of length_hasher "[0x37]"] show ?thesis by blast
qed

end
