(* ===== verification/IdentityLease.thy ===== *)
theory IdentityLease
  imports GoStrings "HOL-Library.Signed_Division"
begin

text \<open>
  The raft identity lease (\<^verbatim>\<open>internal/identitylease/lease.go\<close>): a process may serve a raft identity only
  while it holds a lease, kept in a locked file or in a Kubernetes \<^verbatim>\<open>Lease\<close> object.

  The operations of the Kubernetes backend exchange one request and one reply at a time with the API
  server. Each is a state machine whose phase says which reply it waits for; the handlers \<open>onGet\<close> and
  \<open>onWrite\<close> are the code between two requests. The API server is a parameter: \<open>optimistic\<close> states what
  its documentation promises about resource versions. The system of many processes, one server and
  one clock is a step relation; replies may be delayed, fail or get lost after the server has acted.
  Times are nanoseconds since Go's zero time, so 0 is the time that \<^verbatim>\<open>IsZero\<close> accepts.
\<close>

section \<open>Records and options\<close>

type_synonym go_time = int

abbreviation (input) second :: int where
  "second \<equiv> 1000000000"

definition defaultTTL :: int where
  "defaultTTL = 30 * second"

definition defaultRenewInterval :: int where
  "defaultRenewInterval = 10 * second"

record LeaseRecord =
  lr_NodeID :: string
  lr_HolderID :: string
  lr_Epoch :: uint64
  lr_Backend :: string
  lr_Resource :: string
  lr_RenewedAt :: go_time
  lr_ExpiresAt :: go_time

datatype lease_error =
    NodeIDRequired | RenewNotLessThanTTL int int | BackendOffErr | UnsupportedBackend string
  | LeaseHeld LeaseRecord | FileErr string | FileNotHeld
  | Transport | BadBodyErr | ReadBodyErr | ApiStatus nat | StatusError nat | GetStatus nat
  | LeaseDisappeared | ConflictedAfterRetries

text \<open>The part of the options that decides which backend runs, after the defaults of \<^verbatim>\<open>Acquire\<close>.\<close>

datatype Backend = FileBackend | KubernetesBackend

definition newBackend :: "bool \<Rightarrow> string \<Rightarrow> lease_error + Backend" where
  "newBackend inKubernetes backend =
     (let name = TrimSpace backend;
          name = (if name = '''' then ''file'' else name);
          name = (if name = ''auto'' then if inKubernetes then ''kubernetes'' else ''file'' else name)
      in if name = ''off'' then Inl BackendOffErr
         else if name = ''file'' then Inr FileBackend
         else if name = ''kubernetes'' then Inr KubernetesBackend
         else Inl (UnsupportedBackend backend))"

definition acquireOptions :: "string \<Rightarrow> int \<Rightarrow> int \<Rightarrow> lease_error + (int \<times> int)" where
  "acquireOptions nodeID ttl renew =
     (if TrimSpace nodeID = '''' then Inl NodeIDRequired
      else
        let ttl = (if ttl \<le> 0 then defaultTTL else ttl);
            renew = (if renew \<le> 0 then defaultRenewInterval else renew)
        in if renew \<ge> ttl then Inl (RenewNotLessThanTTL renew ttl) else Inr (ttl, renew))"

section \<open>Names\<close>

text \<open>\<^verbatim>\<open>strings.Trim\<close> with a set of characters, and the lower-case hexadecimal form of bytes.\<close>

definition Trim :: "string \<Rightarrow> string \<Rightarrow> string" where
  "Trim s cutset = rev (dropWhile (\<lambda>c. c \<in> set cutset) (rev (dropWhile (\<lambda>c. c \<in> set cutset) s)))"

definition hexDigit :: "nat \<Rightarrow> char" where
  "hexDigit n = (if n < 10 then char_of (48 + n) else char_of (87 + n))"

definition hexEncode :: "bytes \<Rightarrow> string" where
  "hexEncode b = concat (map (\<lambda>x. [hexDigit (unat x div 16), hexDigit (unat x mod 16)]) b)"

definition labelChar :: "char \<Rightarrow> bool" where
  "labelChar c \<longleftrightarrow> (97 \<le> (of_char c :: nat) \<and> of_char c \<le> (122 :: nat)) \<or> isDecimal c"

text \<open>
  The loop runs over runes; every rune outside ASCII is one run of bytes that are no label characters,
  and such a run leaves a single dash, so the loop over bytes has the same result.
\<close>

fun labelLoop :: "bool \<Rightarrow> string \<Rightarrow> string" where
  "labelLoop lastDash [] = []"
| "labelLoop lastDash (r # s) =
     (if labelChar r then r # labelLoop False s
      else if \<not> lastDash then CHR ''-'' # labelLoop True s
      else labelLoop True s)"

definition dnsLabel :: "(string \<Rightarrow> bytes) \<Rightarrow> string \<Rightarrow> string" where
  "dnsLabel sha1 s =
     (let out = Trim (labelLoop False (ToLowerStr s)) ''-'';
          out = (if out = '''' then ''node'' else out)
      in if length out \<le> 63 then out
         else
           let suffix = CHR ''-'' # hexEncode (take 4 (sha1 out))
           in Trim (take (63 - length suffix) out) ''-'' @ suffix)"

definition fileNameForNode :: "(string \<Rightarrow> bytes) \<Rightarrow> string \<Rightarrow> string" where
  "fileNameForNode sha1 nodeID =
     (let name = Trim (map (\<lambda>c. if c \<in> {CHR ''/'', CHR 0x5C, CHR '':''} then CHR ''_'' else c) nodeID) ''._- '';
          name = (if name = '''' then ''node'' else name);
          name = (if length name > 48 then take 48 name else name)
      in name @ ''-'' @ hexEncode (take 4 (sha1 nodeID)))"

section \<open>The file backend\<close>

text \<open>
  The directory as the backend sees it: who holds the lock on the lock file, and the record file
  (\<open>None\<close> when it is missing or does not parse). The outcome of the other system calls is an argument.
\<close>

record LeaseDir =
  ld_lock :: "string option"
  ld_record :: "LeaseRecord option"

record FileIO =
  io_mkdir :: bool
  io_open :: bool
  io_flockErr :: bool
  io_write :: bool

record FileBackendState =
  fb_nodeID :: string
  fb_dir :: string
  fb_ttl :: int
  fb_file :: bool

definition readRecord :: "FileBackendState \<Rightarrow> LeaseDir \<Rightarrow> go_time \<Rightarrow> LeaseRecord" where
  "readRecord b d now =
     (case ld_record d of
        Some rec \<Rightarrow> rec
      | None \<Rightarrow> \<lparr>lr_NodeID = fb_nodeID b, lr_HolderID = '''', lr_Epoch = 0, lr_Backend = ''file'',
          lr_Resource = fb_dir b, lr_RenewedAt = now, lr_ExpiresAt = now\<rparr>)"

definition stampFile :: "FileBackendState \<Rightarrow> string \<Rightarrow> go_time \<Rightarrow> uint64 \<Rightarrow> LeaseRecord \<Rightarrow> LeaseRecord" where
  "stampFile b holder now epoch rec = rec\<lparr>lr_NodeID := fb_nodeID b, lr_HolderID := holder, lr_Epoch := epoch,
     lr_Backend := ''file'', lr_Resource := fb_dir b, lr_RenewedAt := now, lr_ExpiresAt := now + fb_ttl b\<rparr>"

definition fileAcquire :: "FileIO \<Rightarrow> string \<Rightarrow> go_time \<Rightarrow> FileBackendState \<times> LeaseDir \<Rightarrow>
    (FileBackendState \<times> LeaseDir) \<times> (lease_error + LeaseRecord)" where
  "fileAcquire io holder now = (\<lambda>(b, d).
     if \<not> io_mkdir io then ((b, d), Inl (FileErr ''mkdir''))
     else if \<not> io_open io then ((b, d), Inl (FileErr ''open''))
     else if io_flockErr io then ((b, d), Inl (FileErr ''lock''))
     else if ld_lock d \<noteq> None then ((b, d), Inl (LeaseHeld (readRecord b d now)))
     else
       let old = readRecord b d now;
           epoch = (if lr_Epoch old + 1 = 0 then 1 else lr_Epoch old + 1);
           rec = stampFile b holder now epoch old
       in if \<not> io_write io then ((b, d), Inl (FileErr ''write''))
          else ((b\<lparr>fb_file := True\<rparr>, d\<lparr>ld_lock := Some holder, ld_record := Some rec\<rparr>), Inr rec))"

definition fileRenew :: "FileIO \<Rightarrow> string \<Rightarrow> LeaseRecord \<Rightarrow> go_time \<Rightarrow> FileBackendState \<times> LeaseDir \<Rightarrow>
    (FileBackendState \<times> LeaseDir) \<times> (lease_error + LeaseRecord)" where
  "fileRenew io holder prev now = (\<lambda>(b, d).
     if \<not> fb_file b then ((b, d), Inl FileNotHeld)
     else
       let rec = stampFile b holder now (lr_Epoch prev) prev
       in if \<not> io_write io then ((b, d), Inl (FileErr ''write''))
          else ((b, d\<lparr>ld_record := Some rec\<rparr>), Inr rec))"

text \<open>Unlocking and closing the file both drop the lock; an error of either is reported.\<close>

definition fileRelease :: "bool \<Rightarrow> FileBackendState \<times> LeaseDir \<Rightarrow> (FileBackendState \<times> LeaseDir) \<times> (lease_error + unit)" where
  "fileRelease closeErr = (\<lambda>(b, d).
     if \<not> fb_file b then ((b, d), Inr ())
     else ((b\<lparr>fb_file := False\<rparr>, d\<lparr>ld_lock := None\<rparr>), if closeErr then Inl (FileErr ''close'') else Inr ()))"

section \<open>The Kubernetes lease object\<close>

text \<open>
  \<^verbatim>\<open>int32\<close> fields are integers in range. A nil map and an empty one read and serialise alike, so
  labels and annotations are maps.
\<close>

record k8sLease =
  kl_APIVersion :: string
  kl_Kind :: string
  kl_Name :: string
  kl_Namespace :: string
  kl_ResourceVersion :: string
  kl_Labels :: "string \<rightharpoonup> string"
  kl_Annotations :: "string \<rightharpoonup> string"
  kl_HolderIdentity :: "string option"
  kl_LeaseDurationSeconds :: "int option"
  kl_AcquireTime :: "go_time option"
  kl_RenewTime :: "go_time option"
  kl_LeaseTransitions :: "int option"

definition zeroLease :: k8sLease where
  "zeroLease = \<lparr>kl_APIVersion = '''', kl_Kind = '''', kl_Name = '''', kl_Namespace = '''', kl_ResourceVersion = '''',
     kl_Labels = Map.empty, kl_Annotations = Map.empty, kl_HolderIdentity = None, kl_LeaseDurationSeconds = None,
     kl_AcquireTime = None, kl_RenewTime = None, kl_LeaseTransitions = None\<rparr>"

definition int32 :: "int \<Rightarrow> int" where
  "int32 i = signed_take_bit 31 i"

definition annotationRaftID :: string where
  "annotationRaftID = ''cefasdb.io/raft-id''"

definition annotationEpoch :: string where
  "annotationEpoch = ''cefasdb.io/identity-epoch''"

definition leaseHolder :: "k8sLease \<Rightarrow> string" where
  "leaseHolder lease = (case kl_HolderIdentity lease of None \<Rightarrow> '''' | Some h \<Rightarrow> h)"

definition leaseRenewedAt :: "k8sLease \<Rightarrow> go_time" where
  "leaseRenewedAt lease = (case kl_RenewTime lease of None \<Rightarrow> 0 | Some t \<Rightarrow> t)"

definition leaseDurationSeconds :: "k8sLease \<Rightarrow> int" where
  "leaseDurationSeconds lease = (case kl_LeaseDurationSeconds lease of None \<Rightarrow> 0 | Some s \<Rightarrow> s)"

definition leaseEpoch :: "k8sLease \<Rightarrow> uint64" where
  "leaseEpoch lease =
     (let fallback = (case kl_LeaseTransitions lease of Some t \<Rightarrow> if t > 0 then word_of_int t else 0 | None \<Rightarrow> 0)
      in case kl_Annotations lease annotationEpoch of
           None \<Rightarrow> fallback
         | Some v \<Rightarrow> if v = '''' then fallback
             else (case ParseUint v of Some parsed \<Rightarrow> parsed | None \<Rightarrow> fallback))"

definition annotation :: "k8sLease \<Rightarrow> string \<Rightarrow> string \<Rightarrow> string" where
  "annotation lease key fallback =
     (case kl_Annotations lease key of Some v \<Rightarrow> if v = '''' then fallback else v | None \<Rightarrow> fallback)"

definition stringPtr :: "string \<Rightarrow> string option" where
  "stringPtr s = (if s = '''' then None else Some s)"

definition leaseSeconds :: "int \<Rightarrow> int" where
  "leaseSeconds ttl = (let seconds = int32 (ttl sdiv second) in if seconds \<le> 0 then int32 (defaultTTL sdiv second) else seconds)"

definition applyLeaseUpdate :: "k8sLease \<Rightarrow> string \<Rightarrow> string \<Rightarrow> go_time \<Rightarrow> int \<Rightarrow> uint64 \<Rightarrow> k8sLease" where
  "applyLeaseUpdate lease nodeID holderID now ttl epoch =
     (let oldHolder = leaseHolder lease;
          lease = lease\<lparr>kl_Annotations := (kl_Annotations lease)(annotationRaftID \<mapsto> nodeID, annotationEpoch \<mapsto> FormatUint epoch),
                        kl_HolderIdentity := stringPtr holderID,
                        kl_LeaseDurationSeconds := Some (leaseSeconds ttl)\<rparr>
      in if holderID = '''' then lease\<lparr>kl_HolderIdentity := None, kl_RenewTime := None\<rparr>
         else lease\<lparr>kl_AcquireTime := (if kl_AcquireTime lease = None \<or> oldHolder \<noteq> holderID then Some now else kl_AcquireTime lease),
                    kl_RenewTime := Some now,
                    kl_LeaseTransitions := Some (int32 (uint epoch))\<rparr>)"

text \<open>The fixed part of a Kubernetes backend; \<open>kb_sha1\<close> is the digest function.\<close>

record kubernetesBackend =
  kb_nodeID :: string
  kb_name :: string
  kb_namespace :: string
  kb_ttl :: int
  kb_sha1 :: "string \<Rightarrow> bytes"

definition newLease :: "kubernetesBackend \<Rightarrow> string \<Rightarrow> go_time \<Rightarrow> uint64 \<Rightarrow> k8sLease" where
  "newLease b holderID now epoch =
     applyLeaseUpdate
       (zeroLease\<lparr>kl_APIVersion := ''coordination.k8s.io/v1'', kl_Kind := ''Lease'', kl_Name := kb_name b,
          kl_Namespace := kb_namespace b,
          kl_Labels := [''app.kubernetes.io/name'' \<mapsto> ''cefas'', ''cefasdb.io/raft-id'' \<mapsto> dnsLabel (kb_sha1 b) (kb_nodeID b)]\<rparr>)
       (kb_nodeID b) holderID now (kb_ttl b) epoch"

definition leaseTTL :: "kubernetesBackend \<Rightarrow> k8sLease \<Rightarrow> int" where
  "leaseTTL b lease = (let ttl = leaseDurationSeconds lease * second in if ttl \<le> 0 then kb_ttl b else ttl)"

definition activeHeldByOther :: "kubernetesBackend \<Rightarrow> k8sLease \<Rightarrow> string \<Rightarrow> go_time \<Rightarrow> bool" where
  "activeHeldByOther b lease holderID now =
     (let holder = leaseHolder lease; renewed = leaseRenewedAt lease
      in if holder = '''' \<or> holder = holderID then False
         else if renewed = 0 then True
         else now < renewed + leaseTTL b lease)"

definition recordFromLease :: "kubernetesBackend \<Rightarrow> k8sLease \<Rightarrow> go_time \<Rightarrow> LeaseRecord" where
  "recordFromLease b lease now =
     (let renewed = (if leaseRenewedAt lease = 0 then now else leaseRenewedAt lease)
      in \<lparr>lr_NodeID = annotation lease annotationRaftID (kb_nodeID b), lr_HolderID = leaseHolder lease,
          lr_Epoch = leaseEpoch lease, lr_Backend = ''kubernetes'', lr_Resource = kb_namespace b @ ''/'' @ kb_name b,
          lr_RenewedAt = renewed, lr_ExpiresAt = renewed + leaseTTL b lease\<rparr>)"

section \<open>Requests and replies\<close>

text \<open>
  What the HTTP client returns: no response at all, or a status, a body and whether reading the body
  failed. \<open>LeaseBody l\<close> is a body that decodes to \<open>l\<close>.
\<close>

datatype body = EmptyBody | LeaseBody k8sLease | BadBody

datatype response = NoResponse | Response nat body bool

fun badBody :: "body \<Rightarrow> bool" where
  "badBody BadBody = True"
| "badBody _ = False"

definition doReply :: "k8sLease \<Rightarrow> response \<Rightarrow> nat \<times> lease_error option \<times> k8sLease" where
  "doReply out resp =
     (case resp of
        NoResponse \<Rightarrow> (0, Some Transport, out)
      | Response status body readErr \<Rightarrow>
          let success = 200 \<le> status \<and> status < 300
          in if success \<and> badBody body then (status, Some BadBodyErr, out)
             else
               let out = (if success then (case body of LeaseBody l \<Rightarrow> l | _ \<Rightarrow> out) else out)
               in if readErr then (status, Some ReadBodyErr, out)
                  else if 400 \<le> status \<and> status \<noteq> 404 \<and> status \<noteq> 409 then (status, Some (ApiStatus status), out)
                  else (status, None, out))"

text \<open>\<^verbatim>\<open>get\<close>: no lease for a 404, otherwise the lease and the status.\<close>

definition getLease :: "response \<Rightarrow> lease_error + (k8sLease \<times> nat) option" where
  "getLease resp =
     (case doReply zeroLease resp of (status, err, lease) \<Rightarrow>
        if status = 404 then Inr None
        else case err of Some e \<Rightarrow> Inl e | None \<Rightarrow> Inr (Some (lease, status)))"

definition writeReply :: "kubernetesBackend \<Rightarrow> bool \<Rightarrow> k8sLease \<Rightarrow> go_time \<Rightarrow> response \<Rightarrow> lease_error + LeaseRecord" where
  "writeReply b create lease now resp =
     (case doReply lease resp of (status, err, lease') \<Rightarrow>
        case err of
          Some e \<Rightarrow> Inl e
        | None \<Rightarrow> if status = 200 \<or> (create \<and> status = 201) then Inr (recordFromLease b lease' now)
                  else Inl (StatusError status))"

fun isConflict :: "lease_error \<Rightarrow> bool" where
  "isConflict (StatusError st) = (st = 409)"
| "isConflict _ = False"

section \<open>Acquire, renew and release\<close>

datatype LeaseOp = OpAcquire | OpRenew | OpRelease

datatype phase =
    Getting nat
  | Writing nat bool k8sLease go_time
  | Finished "lease_error + LeaseRecord option"

definition updateCall :: "kubernetesBackend \<Rightarrow> nat \<Rightarrow> k8sLease \<Rightarrow> string \<Rightarrow> go_time \<Rightarrow> uint64 \<Rightarrow> phase" where
  "updateCall b n lease holderID now epoch =
     Writing n False (applyLeaseUpdate lease (kb_nodeID b) holderID now (kb_ttl b) epoch) now"

text \<open>The code between the reply to a GET and the next request; \<open>now\<close> is the clock when it runs.\<close>

definition onGet :: "kubernetesBackend \<Rightarrow> string \<Rightarrow> LeaseOp \<Rightarrow> nat \<Rightarrow> go_time \<Rightarrow> response \<Rightarrow> phase" where
  "onGet b holderID op n now resp =
     (case getLease resp of
        Inl e \<Rightarrow> Finished (Inl e)
      | Inr None \<Rightarrow>
          (case op of
             OpAcquire \<Rightarrow> Writing n True (newLease b holderID now 1) now
           | OpRenew \<Rightarrow> Finished (Inl LeaseDisappeared)
           | OpRelease \<Rightarrow> Finished (Inr None))
      | Inr (Some (lease, status)) \<Rightarrow>
          if status \<noteq> 200 then Finished (Inl (GetStatus status))
          else
            (case op of
               OpAcquire \<Rightarrow>
                 if activeHeldByOther b lease holderID now then Finished (Inl (LeaseHeld (recordFromLease b lease now)))
                 else updateCall b n lease holderID now (leaseEpoch lease + 1)
             | OpRenew \<Rightarrow>
                 if leaseHolder lease \<noteq> holderID then Finished (Inl (LeaseHeld (recordFromLease b lease now)))
                 else updateCall b n lease holderID now (leaseEpoch lease)
             | OpRelease \<Rightarrow>
                 if leaseHolder lease \<noteq> holderID then Finished (Inr None)
                 else updateCall b n lease '''' now (leaseEpoch lease)))"

text \<open>The code after the reply to a write: acquire and renew start over on a conflict, three times in all.\<close>

definition onWrite :: "kubernetesBackend \<Rightarrow> LeaseOp \<Rightarrow> nat \<Rightarrow> bool \<Rightarrow> k8sLease \<Rightarrow> go_time \<Rightarrow> response \<Rightarrow> phase" where
  "onWrite b op n create lease now resp =
     (case writeReply b create lease now resp of
        Inr rec \<Rightarrow> Finished (Inr (if op = OpRelease then None else Some rec))
      | Inl err \<Rightarrow>
          if op \<noteq> OpRelease \<and> isConflict err
          then if n + 1 < 3 then Getting (n + 1) else Finished (Inl ConflictedAfterRetries)
          else Finished (Inl err))"

fun onReply :: "kubernetesBackend \<Rightarrow> string \<Rightarrow> LeaseOp \<Rightarrow> phase \<Rightarrow> go_time \<Rightarrow> response \<Rightarrow> phase" where
  "onReply b holderID op (Getting n) now resp = onGet b holderID op n now resp"
| "onReply b holderID op (Writing n create lease t) now resp = onWrite b op n create lease t resp"
| "onReply b holderID op (Finished r) now resp = Finished r"

text \<open>One operation against a given sequence of replies.\<close>

fun runOp :: "kubernetesBackend \<Rightarrow> string \<Rightarrow> LeaseOp \<Rightarrow> phase \<Rightarrow> (go_time \<times> response) list \<Rightarrow> phase" where
  "runOp b holderID op ph [] = ph"
| "runOp b holderID op ph ((now, resp) # rs) = runOp b holderID op (onReply b holderID op ph now resp) rs"


section \<open>Many processes and one server\<close>

text \<open>
  The API server: reading the lease, and creating (\<open>True\<close>) or replacing it. A write that does not go
  through is a conflict. The documented contract: creating succeeds only when there is no lease;
  replacing succeeds only when the resource version sent is the stored one; every successful write
  stores the object sent under a version that was not used before (versions have a rank that grows),
  with its times cut to the server's resolution of at most a microsecond.
\<close>

record 's lease_api =
  api_get :: "'s \<Rightarrow> k8sLease option"
  api_write :: "bool \<Rightarrow> k8sLease \<Rightarrow> 's \<Rightarrow> ('s \<times> k8sLease) option"

definition stored :: "(go_time \<Rightarrow> go_time) \<Rightarrow> string \<Rightarrow> k8sLease \<Rightarrow> k8sLease" where
  "stored floor_t v l = l\<lparr>kl_ResourceVersion := v, kl_AcquireTime := map_option floor_t (kl_AcquireTime l),
     kl_RenewTime := map_option floor_t (kl_RenewTime l)\<rparr>"

definition resolution :: "(go_time \<Rightarrow> go_time) \<Rightarrow> bool" where
  "resolution floor_t \<longleftrightarrow> mono floor_t \<and> (\<forall>t. floor_t (floor_t t) = floor_t t \<and> t - 1000 < floor_t t \<and> floor_t t \<le> t)"

definition optimistic :: "'s lease_api \<Rightarrow> (go_time \<Rightarrow> go_time) \<Rightarrow> (string \<Rightarrow> nat) \<Rightarrow> bool" where
  "optimistic api floor_t rank \<longleftrightarrow> resolution floor_t \<and>
     (\<forall>create l s s' l'. api_write api create l s = Some (s', l') \<longrightarrow>
        api_get api s' = Some l' \<and> (\<exists>v. l' = stored floor_t v l) \<and>
        (if create then api_get api s = None
         else \<exists>cur. api_get api s = Some cur \<and> kl_ResourceVersion cur = kl_ResourceVersion l \<and>
           rank (kl_ResourceVersion cur) < rank (kl_ResourceVersion l')))"

text \<open>
  The state of the system. A process is named by its holder identity. For each operation that is under
  way it has a phase and, once the server has answered, the reply that has not been handled yet.
  \<open>sy_serving\<close> is the record of a process that serves under its lease; \<open>sy_started\<close> are the processes that
  have called \<^verbatim>\<open>Acquire\<close>, which each does once. \<open>sy_grants\<close> counts the writes of acquire that went through.
\<close>

record 's lease_system =
  sy_srv :: 's
  sy_clock :: go_time
  sy_ops :: "string \<Rightarrow> LeaseOp \<Rightarrow> (phase \<times> response option) option"
  sy_serving :: "string \<Rightarrow> LeaseRecord option"
  sy_started :: "string set"
  sy_grants :: nat

definition setOp :: "string \<Rightarrow> LeaseOp \<Rightarrow> (phase \<times> response option) option \<Rightarrow> 's lease_system \<Rightarrow> 's lease_system" where
  "setOp p op x s = s\<lparr>sy_ops := (sy_ops s)(p := (sy_ops s p)(op := x))\<rparr>"

text \<open>A reply that reports a failure, whether or not the server has acted.\<close>

fun failure :: "response \<Rightarrow> bool" where
  "failure NoResponse = True"
| "failure (Response st body readErr) = (st \<noteq> 404 \<and> (readErr \<or> badBody body \<or> \<not> (200 \<le> st \<and> st < 300)))"

definition getReply :: "'s lease_api \<Rightarrow> 's \<Rightarrow> response" where
  "getReply api srv =
     (case api_get api srv of None \<Rightarrow> Response 404 EmptyBody False | Some l \<Rightarrow> Response 200 (LeaseBody l) False)"

text \<open>
  A process handles a reply. \<^verbatim>\<open>Acquire\<close> and the renewal loop store the record they get; a renewal that
  fails makes the process stop serving (\<^verbatim>\<open>onLost\<close>).
\<close>

fun settled :: "LeaseOp \<Rightarrow> lease_error + LeaseRecord option \<Rightarrow> LeaseRecord option \<Rightarrow> LeaseRecord option" where
  "settled OpAcquire (Inr rec) serving = rec"
| "settled OpAcquire (Inl _) serving = serving"
| "settled OpRenew (Inr rec) serving = (if serving = None then None else rec)"
| "settled OpRenew (Inl _) serving = None"
| "settled OpRelease _ serving = serving"

fun settle :: "string \<Rightarrow> LeaseOp \<Rightarrow> phase \<Rightarrow> 's lease_system \<Rightarrow> 's lease_system" where
  "settle p op (Finished r) s =
     (setOp p op None s)\<lparr>sy_serving := (sy_serving s)(p := settled op r (sy_serving s p))\<rparr>"
| "settle p op ph s = setOp p op (Some (ph, None)) s"

inductive lease_step :: "'s lease_api \<Rightarrow> (string \<Rightarrow> kubernetesBackend) \<Rightarrow> 's lease_system \<Rightarrow> 's lease_system \<Rightarrow> bool"
  for api B where
  tick: "0 \<le> d \<Longrightarrow> lease_step api B s (s\<lparr>sy_clock := sy_clock s + d\<rparr>)"
| acquire: "p \<noteq> '''' \<Longrightarrow> p \<notin> sy_started s \<Longrightarrow>
    lease_step api B s ((setOp p OpAcquire (Some (Getting 0, None)) s)\<lparr>sy_started := insert p (sy_started s)\<rparr>)"
| renew: "sy_serving s p \<noteq> None \<Longrightarrow> sy_ops s p OpRenew = None \<Longrightarrow>
    lease_step api B s (setOp p OpRenew (Some (Getting 0, None)) s)"
| release: "p \<in> sy_started s \<Longrightarrow> sy_ops s p OpAcquire = None \<Longrightarrow> sy_ops s p OpRelease = None \<Longrightarrow>
    lease_step api B s ((setOp p OpRelease (Some (Getting 0, None)) s)\<lparr>sy_serving := (sy_serving s)(p := None)\<rparr>)"
| serve_get: "sy_ops s p op = Some (Getting n, None) \<Longrightarrow>
    lease_step api B s (setOp p op (Some (Getting n, Some (getReply api (sy_srv s)))) s)"
| serve_write: "sy_ops s p op = Some (Writing n create l t, None) \<Longrightarrow> api_write api create l (sy_srv s) = Some (srv', l') \<Longrightarrow>
    resp = Response (if create then 201 else 200) (LeaseBody l') False \<or> failure resp \<Longrightarrow>
    lease_step api B s ((setOp p op (Some (Writing n create l t, Some resp)) s)
      \<lparr>sy_srv := srv', sy_grants := sy_grants s + (if op = OpAcquire then 1 else 0)\<rparr>)"
| serve_conflict: "sy_ops s p op = Some (Writing n create l t, None) \<Longrightarrow> api_write api create l (sy_srv s) = None \<Longrightarrow>
    lease_step api B s (setOp p op (Some (Writing n create l t, Some (Response 409 EmptyBody False))) s)"
| fail: "sy_ops s p op = Some (ph, None) \<Longrightarrow> failure resp \<Longrightarrow>
    lease_step api B s (setOp p op (Some (ph, Some resp)) s)"
| handle: "sy_ops s p op = Some (ph, Some resp) \<Longrightarrow>
    lease_step api B s (settle p op (onReply (B p) p op ph (sy_clock s) resp) s)"

inductive reachable_leases :: "'s lease_api \<Rightarrow> (string \<Rightarrow> kubernetesBackend) \<Rightarrow> 's lease_system \<Rightarrow> bool" for api B where
  init: "api_get api (sy_srv s) = None \<Longrightarrow> 1000 < sy_clock s \<Longrightarrow> sy_ops s = (\<lambda>_ _. None) \<Longrightarrow> sy_serving s = (\<lambda>_. None) \<Longrightarrow>
    sy_started s = {} \<Longrightarrow> sy_grants s = 0 \<Longrightarrow> reachable_leases api B s"
| step: "reachable_leases api B s \<Longrightarrow> lease_step api B s s' \<Longrightarrow> reachable_leases api B s'"

section \<open>Facts about the handlers\<close>

lemma leaseSeconds_pos: "0 < leaseSeconds ttl"
  by (simp add: leaseSeconds_def Let_def defaultTTL_def int32_def signed_divide_int_def signed_take_bit_int_eq_self)

lemma leaseEpoch_update [simp]: "leaseEpoch (applyLeaseUpdate l node h t ttl e) = e"
proof -
  have "FormatUint e \<noteq> ''''" using formatNat_props [of "unat e"] by (simp add: FormatUint_def)
  then show ?thesis by (simp add: leaseEpoch_def applyLeaseUpdate_def Let_def ParseUint_FormatUint annotationEpoch_def annotationRaftID_def)
qed

lemma applyLeaseUpdate_fields [simp]:
  "kl_ResourceVersion (applyLeaseUpdate l node h t ttl e) = kl_ResourceVersion l"
  "leaseHolder (applyLeaseUpdate l node h t ttl e) = h"
  "kl_LeaseDurationSeconds (applyLeaseUpdate l node h t ttl e) = Some (leaseSeconds ttl)"
  "h \<noteq> '''' \<Longrightarrow> kl_RenewTime (applyLeaseUpdate l node h t ttl e) = Some t"
  by (simp_all add: applyLeaseUpdate_def Let_def leaseHolder_def stringPtr_def)

lemma stored_fields [simp]:
  "leaseHolder (stored floor_t v l) = leaseHolder l" "leaseEpoch (stored floor_t v l) = leaseEpoch l"
  "kl_LeaseDurationSeconds (stored floor_t v l) = kl_LeaseDurationSeconds l" "kl_ResourceVersion (stored floor_t v l) = v"
  "kl_RenewTime (stored floor_t v l) = map_option floor_t (kl_RenewTime l)"
  by (simp_all add: stored_def leaseHolder_def leaseEpoch_def)

text \<open>Every operation ends after at most three rounds of a read and a write.\<close>

fun rounds_left :: "phase \<Rightarrow> nat" where
  "rounds_left (Getting n) = 2 * (3 - n)"
| "rounds_left (Writing n _ _ _) = 2 * (3 - n) - 1"
| "rounds_left (Finished _) = 0"

fun phase_ok :: "phase \<Rightarrow> bool" where
  "phase_ok (Getting n) = (n < 3)"
| "phase_ok (Writing n _ _ _) = (n < 3)"
| "phase_ok (Finished _) = True"

lemma onReply_progress:
  assumes "phase_ok ph"
  shows "phase_ok (onReply b h op ph now resp)"
    and "rounds_left ph \<noteq> 0 \<Longrightarrow> rounds_left (onReply b h op ph now resp) < rounds_left ph"
  using assms
  by (cases ph; auto simp: onGet_def onWrite_def updateCall_def split: sum.split option.split LeaseOp.split)+


lemma writeReply_failure: "failure resp \<Longrightarrow> writeReply b c l t resp \<noteq> Inr r"
  by (cases resp) (auto simp: writeReply_def doReply_def Let_def split: if_splits option.splits)

lemma writeReply_conflict [simp]: "writeReply b c l t (Response 409 EmptyBody False) = Inl (StatusError 409)"
  by (simp add: writeReply_def doReply_def)

lemma writeReply_success [simp]:
  "writeReply b c l t (Response (if c then 201 else 200) (LeaseBody l') False) = Inr (recordFromLease b l' t)"
  by (simp add: writeReply_def doReply_def)

lemma onWrite_Finished:
  "onWrite b op n c l t resp = Finished (Inr (Some r)) \<longleftrightarrow> op \<noteq> OpRelease \<and> writeReply b c l t resp = Inr r"
  by (auto simp: onWrite_def split: sum.split)

lemma onWrite_not_Writing: "onWrite b op n c l t resp \<noteq> Writing n' c' l' t'"
  by (auto simp: onWrite_def split: sum.split)

lemma getLease_failure: "failure resp \<Longrightarrow> getLease resp \<noteq> Inr None \<and> getLease resp \<noteq> Inr (Some (l, 200))"
  by (cases resp) (auto simp: getLease_def doReply_def Let_def split: if_splits option.splits)

lemma getLease_getReply [simp]: "getLease (getReply api srv) = Inr (map_option (\<lambda>l. (l, 200)) (api_get api srv))"
  by (auto simp: getLease_def getReply_def doReply_def split: option.split)

section \<open>The invariant\<close>

definition seen :: "'s lease_api \<Rightarrow> (string \<Rightarrow> nat) \<Rightarrow> 's \<Rightarrow> k8sLease \<Rightarrow> bool" where
  "seen api rank srv l \<longleftrightarrow> (\<exists>cur. api_get api srv = Some cur \<and>
     (kl_ResourceVersion l = kl_ResourceVersion cur \<longrightarrow> l = cur) \<and> rank (kl_ResourceVersion l) \<le> rank (kl_ResourceVersion cur))"

definition lease_ok :: "(string \<Rightarrow> kubernetesBackend) \<Rightarrow> (go_time \<Rightarrow> go_time) \<Rightarrow> go_time \<Rightarrow> k8sLease \<Rightarrow> bool" where
  "lease_ok B floor_t now l \<longleftrightarrow> (leaseHolder l \<noteq> '''' \<longrightarrow>
     (\<exists>t. kl_RenewTime l = Some t \<and> 0 < t \<and> t \<le> now \<and> floor_t t = t) \<and>
     kl_LeaseDurationSeconds l = Some (leaseSeconds (kb_ttl (B (leaseHolder l)))))"

text \<open>A write that waits for the server was computed from a lease that the server has shown.\<close>

definition write_ok :: "'s lease_api \<Rightarrow> (string \<Rightarrow> kubernetesBackend) \<Rightarrow> (go_time \<Rightarrow> go_time) \<Rightarrow> (string \<Rightarrow> nat) \<Rightarrow> 's \<Rightarrow>
    string \<Rightarrow> LeaseOp \<Rightarrow> bool \<Rightarrow> k8sLease \<Rightarrow> go_time \<Rightarrow> bool" where
  "write_ok api B floor_t rank srv p op create l t \<longleftrightarrow>
     (if create then op = OpAcquire \<and> l = newLease (B p) p t 1
      else \<exists>old. seen api rank srv old \<and> lease_ok B floor_t t old \<and>
        l = applyLeaseUpdate old (kb_nodeID (B p)) (if op = OpRelease then '''' else p) t (kb_ttl (B p))
              (leaseEpoch old + (if op = OpAcquire then 1 else 0)) \<and>
        (if op = OpAcquire then \<not> activeHeldByOther (B p) old p t else leaseHolder old = p))"

fun op_ok :: "'s lease_api \<Rightarrow> (string \<Rightarrow> kubernetesBackend) \<Rightarrow> (go_time \<Rightarrow> go_time) \<Rightarrow> (string \<Rightarrow> nat) \<Rightarrow> 's lease_system \<Rightarrow>
    string \<Rightarrow> LeaseOp \<Rightarrow> phase \<times> response option \<Rightarrow> bool" where
  "op_ok api B floor_t rank s p op (Getting n, mail) \<longleftrightarrow>
     (\<forall>resp l. mail = Some resp \<longrightarrow> getLease resp = Inr (Some (l, 200)) \<longrightarrow>
        seen api rank (sy_srv s) l \<and> lease_ok B floor_t (sy_clock s) l)"
| "op_ok api B floor_t rank s p op (Writing n create l t, mail) \<longleftrightarrow>
     1000 < t \<and> t \<le> sy_clock s \<and> (mail = None \<longrightarrow> write_ok api B floor_t rank (sy_srv s) p op create l t)"
| "op_ok api B floor_t rank s p op (Finished r, mail) \<longleftrightarrow> False"

text \<open>A process claims the lease when it serves, or when a reply that grants it the lease is on its way.\<close>

definition pending :: "(string \<Rightarrow> kubernetesBackend) \<Rightarrow> 's lease_system \<Rightarrow> string \<Rightarrow> LeaseOp \<Rightarrow> LeaseRecord \<Rightarrow> bool" where
  "pending B s p op r \<longleftrightarrow>
     (\<exists>n c l t resp. sy_ops s p op = Some (Writing n c l t, Some resp) \<and> writeReply (B p) c l t resp = Inr r)"

definition claim :: "(string \<Rightarrow> kubernetesBackend) \<Rightarrow> 's lease_system \<Rightarrow> string \<Rightarrow> LeaseRecord \<Rightarrow> bool" where
  "claim B s p r \<longleftrightarrow> sy_serving s p = Some r \<or> pending B s p OpAcquire r \<or> (pending B s p OpRenew r \<and> sy_serving s p \<noteq> None)"

definition claim_ok :: "(string \<Rightarrow> kubernetesBackend) \<Rightarrow> go_time \<Rightarrow> nat \<Rightarrow> k8sLease \<Rightarrow> string \<Rightarrow> LeaseRecord \<Rightarrow> bool" where
  "claim_ok B now grants l p r \<longleftrightarrow>
     (now < lr_ExpiresAt r \<longrightarrow> leaseHolder l = p \<and> lr_ExpiresAt r \<le> leaseRenewedAt l + leaseSeconds (kb_ttl (B p)) * second) \<and>
     (grants < 2 ^ 64 \<longrightarrow> lr_Epoch r \<le> leaseEpoch l \<and> (lr_Epoch r = leaseEpoch l \<longleftrightarrow> leaseHolder l = p))"

definition server_ok :: "'s lease_api \<Rightarrow> (string \<Rightarrow> kubernetesBackend) \<Rightarrow> (go_time \<Rightarrow> go_time) \<Rightarrow> 's lease_system \<Rightarrow> bool" where
  "server_ok api B floor_t s \<longleftrightarrow>
     (case api_get api (sy_srv s) of
        None \<Rightarrow> sy_grants s = 0
      | Some l \<Rightarrow> lease_ok B floor_t (sy_clock s) l \<and> leaseEpoch l = of_nat (sy_grants s) \<and>
          (\<forall>p r. claim B s p r \<longrightarrow> claim_ok B (sy_clock s) (sy_grants s) l p r)) \<and>
     (api_get api (sy_srv s) = None \<longrightarrow> (\<forall>p r. \<not> claim B s p r))"

definition roles_ok :: "'s lease_system \<Rightarrow> string \<Rightarrow> bool" where
  "roles_ok s p \<longleftrightarrow>
     (p \<in> sy_started s \<longrightarrow> p \<noteq> '''') \<and>
     (sy_serving s p \<noteq> None \<or> (\<exists>op. sy_ops s p op \<noteq> None) \<longrightarrow> p \<in> sy_started s) \<and>
     (sy_ops s p OpAcquire = None \<or> sy_serving s p = None \<and> sy_ops s p OpRenew = None \<and> sy_ops s p OpRelease = None) \<and>
     (sy_ops s p OpRelease = None \<or> sy_serving s p = None)"

definition lease_inv :: "'s lease_api \<Rightarrow> (string \<Rightarrow> kubernetesBackend) \<Rightarrow> (go_time \<Rightarrow> go_time) \<Rightarrow> (string \<Rightarrow> nat) \<Rightarrow> 's lease_system \<Rightarrow> bool" where
  "lease_inv api B floor_t rank s \<longleftrightarrow> 1000 < sy_clock s \<and> server_ok api B floor_t s \<and> (\<forall>p. roles_ok s p) \<and>
     (\<forall>p op x. sy_ops s p op = Some x \<longrightarrow> op_ok api B floor_t rank s p op x)"

lemma setOp_simps [simp]:
  "sy_srv (setOp p op x s) = sy_srv s" "sy_clock (setOp p op x s) = sy_clock s" "sy_serving (setOp p op x s) = sy_serving s"
  "sy_started (setOp p op x s) = sy_started s" "sy_grants (setOp p op x s) = sy_grants s"
  "sy_ops (setOp p op x s) q op' = (if q = p \<and> op' = op then x else sy_ops s q op')"
  by (simp_all add: setOp_def)


lemma lease_ok_mono: "lease_ok B floor_t now l \<Longrightarrow> now \<le> now' \<Longrightarrow> lease_ok B floor_t now' l"
  unfolding lease_ok_def by force

lemma claim_ok_mono: "claim_ok B now g l p r \<Longrightarrow> now \<le> now' \<Longrightarrow> claim_ok B now' g l p r"
  by (simp add: claim_ok_def)

lemma op_ok_mono:
  assumes "op_ok api B floor_t rank s p op x" and "sy_srv s' = sy_srv s" and "sy_clock s \<le> sy_clock s'"
  shows "op_ok api B floor_t rank s' p op x"
proof (cases x)
  case (Pair ph mail)
  with assms show ?thesis using lease_ok_mono by (cases ph) fastforce+
qed

text \<open>A step that leaves the server alone keeps the invariant when it makes no new claim.\<close>

lemma inv_same_server:
  assumes inv: "lease_inv api B floor_t rank s"
    and same: "sy_srv s' = sy_srv s" "sy_grants s' = sy_grants s" "sy_clock s \<le> sy_clock s'"
    and claims: "\<And>p r. claim B s' p r \<Longrightarrow> claim B s p r"
    and roles: "\<And>p. roles_ok s' p"
    and ops: "\<And>p op x. sy_ops s' p op = Some x \<Longrightarrow> sy_ops s p op = Some x \<or> op_ok api B floor_t rank s' p op x"
  shows "lease_inv api B floor_t rank s'"
proof -
  have "server_ok api B floor_t s'"
  proof (cases "api_get api (sy_srv s)")
    case None
    with inv claims show ?thesis by (auto simp: lease_inv_def server_ok_def same)
  next
    case (Some l)
    with inv have "lease_ok B floor_t (sy_clock s) l" "leaseEpoch l = of_nat (sy_grants s)"
      "\<And>p r. claim B s p r \<Longrightarrow> claim_ok B (sy_clock s) (sy_grants s) l p r" by (auto simp: lease_inv_def server_ok_def)
    moreover have "claim_ok B (sy_clock s') (sy_grants s) l p r" if "claim B s' p r" for p r
      using claim_ok_mono [OF calculation(3) [OF claims [OF that]] same(3)] .
    ultimately show ?thesis using Some lease_ok_mono same(3) by (simp add: server_ok_def same)
  qed
  moreover have "op_ok api B floor_t rank s' p op x" if "sy_ops s' p op = Some x" for p op x
    using ops [OF that] inv op_ok_mono [OF _ same(1,3)] unfolding lease_inv_def by blast
  ultimately show ?thesis using inv same(3) roles by (auto simp: lease_inv_def)
qed

lemma pending_setOp:
  "pending B (setOp p op x s) q op' r \<longleftrightarrow>
     (if q = p \<and> op' = op
      then \<exists>n c l t resp. x = Some (Writing n c l t, Some resp) \<and> writeReply (B p) c l t resp = Inr r
      else pending B s q op' r)"
  by (simp add: pending_def)

lemma pending_cong: "sy_ops s = sy_ops s' \<Longrightarrow> pending B s = pending B s'"
  by (simp add: pending_def fun_eq_iff)

lemma roles_okD:
  assumes "lease_inv api B floor_t rank s"
  shows "p \<in> sy_started s \<Longrightarrow> p \<noteq> ''''"
    and "sy_ops s p op \<noteq> None \<Longrightarrow> p \<in> sy_started s" and "sy_serving s p \<noteq> None \<Longrightarrow> p \<in> sy_started s"
    and "sy_ops s p OpAcquire = None \<or> sy_serving s p = None \<and> sy_ops s p OpRenew = None \<and> sy_ops s p OpRelease = None"
    and "sy_ops s p OpRelease = None \<or> sy_serving s p = None"
proof -
  have r: "roles_ok s p" using assms by (simp add: lease_inv_def)
  show "p \<in> sy_started s \<Longrightarrow> p \<noteq> ''''" using r by (simp add: roles_ok_def)
  show "sy_ops s p op \<noteq> None \<Longrightarrow> p \<in> sy_started s" using r unfolding roles_ok_def by blast
  show "sy_serving s p \<noteq> None \<Longrightarrow> p \<in> sy_started s" using r unfolding roles_ok_def by blast
  show "sy_ops s p OpAcquire = None \<or> sy_serving s p = None \<and> sy_ops s p OpRenew = None \<and> sy_ops s p OpRelease = None"
    using r unfolding roles_ok_def by blast
  show "sy_ops s p OpRelease = None \<or> sy_serving s p = None" using r unfolding roles_ok_def by simp
qed

lemma roles_ok_cong:
  assumes "roles_ok s p" and "sy_started s' = sy_started s" and "sy_serving s' p = None \<longleftrightarrow> sy_serving s p = None"
    and "\<And>op. sy_ops s' p op = None \<longleftrightarrow> sy_ops s p op = None"
  shows "roles_ok s' p"
  using assms(1) unfolding roles_ok_def assms(2-4) .

text \<open>The steps that put an operation into a phase without a granting reply.\<close>

lemma inv_setOp:
  assumes inv: "lease_inv api B floor_t rank s" and op: "sy_ops s p op \<noteq> None"
    and ok: "op_ok api B floor_t rank s p op (ph, mail)"
    and quiet: "\<And>n c l t resp r. ph = Writing n c l t \<Longrightarrow> mail = Some resp \<Longrightarrow> writeReply (B p) c l t resp \<noteq> Inr r"
  shows "lease_inv api B floor_t rank (setOp p op (Some (ph, mail)) s)"
proof (rule inv_same_server [OF inv])
  fix q r assume "claim B (setOp p op (Some (ph, mail)) s) q r"
  then show "claim B s q r" using quiet by (auto simp: claim_def pending_setOp split: if_splits)
next
  fix q show "roles_ok (setOp p op (Some (ph, mail)) s) q"
    by (rule roles_ok_cong [of s]) (use inv op in \<open>simp_all add: lease_inv_def\<close>)
next
  fix q op' x assume "sy_ops (setOp p op (Some (ph, mail)) s) q op' = Some x"
  then show "sy_ops s q op' = Some x \<or> op_ok api B floor_t rank (setOp p op (Some (ph, mail)) s) q op' x"
    using op_ok_mono [OF ok, of "setOp p op (Some (ph, mail)) s"] by (auto split: if_splits)
qed simp_all


lemma inv_start:
  assumes inv: "lease_inv api B floor_t rank s"
    and s': "s' = (setOp p op (Some (Getting 0, None)) s)\<lparr>sy_started := st, sy_serving := sv\<rparr>"
    and sv: "\<And>q. sv q = sy_serving s q \<or> sv q = None"
    and roles: "\<And>q. roles_ok s' q"
  shows "lease_inv api B floor_t rank s'"
proof (rule inv_same_server [OF inv _ _ _ _ roles])
  have "pending B s q o' r" if "pending B s' q o' r" for q o' r
    using that by (auto simp: pending_def s' split: if_splits)
  moreover have "sy_serving s' q = sv q" for q by (simp add: s')
  ultimately show "claim B s q r" if "claim B s' q r" for q r
    using that sv [of q] by (cases "sy_serving s q") (auto simp: claim_def)
next
  fix q op' x assume "sy_ops s' q op' = Some x"
  then show "sy_ops s q op' = Some x \<or> op_ok api B floor_t rank s' q op' x"
    by (auto simp: s' split: if_splits)
qed (simp_all add: s')


lemma inv_finish:
  assumes inv: "lease_inv api B floor_t rank s" and op: "sy_ops s p op \<noteq> None"
    and s': "s' = (setOp p op None s)\<lparr>sy_serving := (sy_serving s)(p := x)\<rparr>"
    and x: "x = sy_serving s p \<or> x = None \<or> (\<exists>r. x = Some r \<and> claim B s p r \<and> op \<noteq> OpRelease)"
    and renew: "op = OpRenew \<Longrightarrow> x \<noteq> None \<Longrightarrow> sy_serving s p \<noteq> None"
  shows "lease_inv api B floor_t rank s'"
proof -
  note roles = roles_okD [OF inv]
  have rel: "x \<noteq> None \<Longrightarrow> sy_ops s' p OpRelease = None"
  proof -
    assume "x \<noteq> None"
    show "sy_ops s' p OpRelease = None"
    proof (cases "op = OpAcquire")
      case True
      with op roles(4) [of p] show ?thesis by (auto simp: s')
    next
      case False
      then have "op = OpRenew \<and> sy_serving s p \<noteq> None \<or> op = OpRelease"
        using renew \<open>x \<noteq> None\<close> by (cases op) auto
      then show ?thesis using roles(5) [of p] by (auto simp: s')
    qed
  qed
  have acq: "sy_ops s' p OpAcquire = None"
  proof (cases "op = OpAcquire")
    case False
    then have "sy_ops s p OpAcquire = None" using op roles(4) [of p] by (cases op) auto
    then show ?thesis by (simp add: s')
  qed (simp add: s')
  show ?thesis
  proof (rule inv_same_server [OF inv])
    fix q r assume c: "claim B s' q r"
    have pend: "pending B s q o' r" "q \<noteq> p \<or> o' \<noteq> op" if "pending B s' q o' r" for o'
      using that by (auto simp: pending_def s' split: if_splits)
    from c consider "sy_serving s' q = Some r" | "pending B s' q OpAcquire r" | "pending B s' q OpRenew r" "sy_serving s' q \<noteq> None"
      unfolding claim_def by blast
    then show "claim B s q r"
    proof cases
      case 1
      show ?thesis
      proof (cases "q = p")
        case True
        with 1 have "x = Some r" by (simp add: s')
        with x have "sy_serving s p = Some r \<or> claim B s p r" by auto
        then show ?thesis unfolding True claim_def by blast
      next
        case False
        with 1 show ?thesis by (simp add: s' claim_def)
      qed
    next
      case 2
      with pend show ?thesis by (simp add: claim_def)
    next
      case 3
      have "sy_serving s q \<noteq> None"
      proof (cases "q = p")
        case True
        with 3 have "op \<noteq> OpRenew" "sy_ops s p OpRenew \<noteq> None" using pend [OF 3(1)] by (auto simp: pending_def)
        then have "op \<noteq> OpAcquire" using op roles(4) [of p] by auto
        with \<open>op \<noteq> OpRenew\<close> have "op = OpRelease" by (cases op) auto
        then show ?thesis using 3(2) x True by (cases "sy_serving s p") (auto simp: s')
      qed (use 3(2) in \<open>simp add: s'\<close>)
      with pend(1) [OF 3(1)] show ?thesis by (simp add: claim_def)
    qed
  next
    fix q show "roles_ok s' q"
    proof (cases "q = p")
      case False
      show ?thesis by (rule roles_ok_cong [of s]) (use inv False in \<open>simp_all add: lease_inv_def s'\<close>)
    next
      case True
      have "p \<in> sy_started s'" "sy_serving s' p = x" using roles(2) [OF op] by (simp_all add: s')
      moreover from this(1) have "p \<noteq> ''''" using roles(1) by (simp add: s')
      ultimately show ?thesis using rel acq unfolding roles_ok_def True by (cases x) simp_all
    qed
  next
    fix q op' y assume "sy_ops s' q op' = Some y"
    then show "sy_ops s q op' = Some y \<or> op_ok api B floor_t rank s' q op' y"
      by (simp add: s' split: if_splits)
  qed (simp_all add: s')
qed


lemma onGet_Writing:
  assumes "onGet b p op n now resp = Writing m c l t"
  shows "t = now \<and> (if c then op = OpAcquire \<and> l = newLease b p now 1 \<and> getLease resp = Inr None
     else \<exists>old. getLease resp = Inr (Some (old, 200)) \<and>
       l = applyLeaseUpdate old (kb_nodeID b) (if op = OpRelease then '''' else p) now (kb_ttl b)
             (leaseEpoch old + (if op = OpAcquire then 1 else 0)) \<and>
       (if op = OpAcquire then \<not> activeHeldByOther b old p now else leaseHolder old = p))"
  using assms by (auto simp: onGet_def updateCall_def split: sum.splits option.splits LeaseOp.splits if_splits)

lemma onGet_not_granting: "onGet b p op n now resp \<noteq> Finished (Inr (Some r)) \<and> onGet b p op n now resp \<noteq> Getting m"
  by (auto simp: onGet_def updateCall_def split: sum.splits option.splits LeaseOp.splits if_splits)

lemma onWrite_release: "onWrite b op n c l t resp = Finished (Inr None) \<Longrightarrow> op = OpRelease"
  by (auto simp: onWrite_def split: sum.splits if_splits)

lemma onGet_None: "onGet b p op n now resp = Finished (Inr None) \<Longrightarrow> op = OpRelease"
  by (auto simp: onGet_def updateCall_def split: sum.splits option.splits LeaseOp.splits if_splits)

lemma inv_handle:
  assumes inv: "lease_inv api B floor_t rank s" and op: "sy_ops s p op = Some (ph, Some resp)"
  shows "lease_inv api B floor_t rank (settle p op (onReply (B p) p op ph (sy_clock s) resp) s)"
proof -
  let ?ph = "onReply (B p) p op ph (sy_clock s) resp"
  have some: "sy_ops s p op \<noteq> None" using op by simp
  have ok: "op_ok api B floor_t rank s p op (ph, Some resp)" using inv op unfolding lease_inv_def by blast
  have clock: "1000 < sy_clock s" using inv by (simp add: lease_inv_def)
  show ?thesis
  proof (cases ?ph)
    case (Getting m)
    then show ?thesis using inv_setOp [OF inv some, of "Getting m" None] by simp
  next
    case (Writing m c l t)
    then obtain n where "ph = Getting n" using onWrite_not_Writing by (cases ph) auto
    with Writing onGet_Writing have w: "t = sy_clock s" "write_ok api B floor_t rank (sy_srv s) p op c l t"
      using ok by (fastforce simp: write_ok_def)+
    then show ?thesis using inv_setOp [OF inv some, of ?ph None] clock by (simp add: Writing)
  next
    case (Finished r)
    let ?x = "settled op r (sy_serving s p)"
    have s': "settle p op ?ph s = (setOp p op None s)\<lparr>sy_serving := (sy_serving s)(p := ?x)\<rparr>" by (simp add: Finished)
    have grant: "claim B s p rec" if "r = Inr (Some rec)" "op = OpAcquire \<or> op = OpRenew \<and> sy_serving s p \<noteq> None" for rec
    proof -
      from that Finished obtain n c l t where "ph = Writing n c l t"
        using onGet_not_granting by (cases ph) (use ok in auto)
      with that Finished have "pending B s p op rec" using op by (auto simp: pending_def onWrite_Finished)
      with that show ?thesis by (auto simp: claim_def)
    qed
    have rel: "op = OpRelease" if "r = Inr None"
      using that Finished onWrite_release onGet_None ok by (cases ph) auto
    have x: "?x = sy_serving s p \<or> ?x = None \<or> (\<exists>r. ?x = Some r \<and> claim B s p r \<and> op \<noteq> OpRelease)"
    proof (cases r)
      case (Inl err)
      then show ?thesis by (cases op) auto
    next
      case (Inr rec)
      then show ?thesis using grant rel by (cases op; cases rec) auto
    qed
    show ?thesis unfolding s' by (rule inv_finish [OF inv some refl x]) (cases r; simp split: if_splits)
  qed
qed


section \<open>A write that goes through\<close>

lemma optimisticD:
  assumes "optimistic api floor_t rank" and "api_write api create l srv = Some (srv', l')"
  shows "api_get api srv' = Some l' \<and> (\<exists>v. l' = stored floor_t v l) \<and>
    (if create then api_get api srv = None
     else \<exists>cur. api_get api srv = Some cur \<and> kl_ResourceVersion cur = kl_ResourceVersion l \<and>
       rank (kl_ResourceVersion cur) < rank (kl_ResourceVersion l'))"
  using assms unfolding optimistic_def by blast

lemma resolutionD:
  assumes "resolution floor_t"
  shows "floor_t (floor_t t) = floor_t t" and "t - 1000 < floor_t t" and "floor_t t \<le> t" and "a \<le> b \<Longrightarrow> floor_t a \<le> floor_t b"
  using assms by (auto simp: resolution_def mono_def)

lemma seen_write:
  assumes "optimistic api floor_t rank" and "api_write api create l srv = Some (srv', l')" and "seen api rank srv old"
  shows "seen api rank srv' old"
proof -
  from assms(3) obtain cur where cur: "api_get api srv = Some cur" "rank (kl_ResourceVersion old) \<le> rank (kl_ResourceVersion cur)"
    by (auto simp: seen_def)
  with optimisticD [OF assms(1,2)] have "api_get api srv' = Some l'" "rank (kl_ResourceVersion cur) < rank (kl_ResourceVersion l')"
    by (auto split: if_splits)
  with cur show ?thesis by (auto simp: seen_def)
qed

text \<open>The lease that a write of \<open>p\<close> stores, and what the lease before it was.\<close>

lemma write_served:
  assumes opt: "optimistic api floor_t rank" and inv: "lease_inv api B floor_t rank s"
    and op: "sy_ops s p op = Some (Writing n c l t, None)" and w: "api_write api c l (sy_srv s) = Some (srv', l')"
  defines "h \<equiv> if op = OpRelease then '''' else p"
  shows "api_get api srv' = Some l'" and "leaseHolder l' = h" and "lease_ok B floor_t (sy_clock s) l'"
    and "h \<noteq> '''' \<Longrightarrow> leaseRenewedAt l' = floor_t t \<and> 0 < floor_t t"
    and "kl_LeaseDurationSeconds l' = Some (leaseSeconds (kb_ttl (B p)))"
    and "leaseEpoch l' = of_nat (sy_grants s + (if op = OpAcquire then 1 else 0))"
    and "case api_get api (sy_srv s) of None \<Rightarrow> c \<and> op = OpAcquire
      | Some cur \<Rightarrow> lease_ok B floor_t t cur \<and> (if op = OpAcquire then \<not> activeHeldByOther (B p) cur p t else leaseHolder cur = p)"
proof -
  have res: "resolution floor_t" using opt by (simp add: optimistic_def)
  from optimisticD [OF opt w] obtain v where get: "api_get api srv' = Some l'" and l': "l' = stored floor_t v l"
    and old: "if c then api_get api (sy_srv s) = None else \<exists>cur. api_get api (sy_srv s) = Some cur \<and> kl_ResourceVersion cur = kl_ResourceVersion l"
    by (auto split: if_splits)
  from inv op have "op_ok api B floor_t rank s p op (Writing n c l t, None)" unfolding lease_inv_def by blast
  then have t: "1000 < t" "t \<le> sy_clock s" and wok: "write_ok api B floor_t rank (sy_srv s) p op c l t" by auto
  have ft: "0 < floor_t t" "floor_t t \<le> t" "floor_t (floor_t t) = floor_t t"
    using resolutionD(1-3) [OF res, of t] t(1) by auto
  show "api_get api srv' = Some l'" by (rule get)
  have "\<exists>old e. l = applyLeaseUpdate old (kb_nodeID (B p)) h t (kb_ttl (B p)) e"
    using wok by (auto simp: write_ok_def newLease_def h_def split: if_splits)
  then obtain o1 e where l: "l = applyLeaseUpdate o1 (kb_nodeID (B p)) h t (kb_ttl (B p)) e" by blast
  show hold: "leaseHolder l' = h" by (simp add: l' l)
  show dur: "kl_LeaseDurationSeconds l' = Some (leaseSeconds (kb_ttl (B p)))" by (simp add: l' l)
  have ren: "kl_RenewTime l' = Some (floor_t t)" if "h \<noteq> ''''" using that by (simp add: l' l)
  show "h \<noteq> '''' \<Longrightarrow> leaseRenewedAt l' = floor_t t \<and> 0 < floor_t t" using ren ft(1) by (simp add: leaseRenewedAt_def)
  show "lease_ok B floor_t (sy_clock s) l'"
    unfolding lease_ok_def hold using ren dur ft t(2) by (auto simp: h_def split: if_splits)
  have "server_ok api B floor_t s" using inv by (simp add: lease_inv_def)
  show "leaseEpoch l' = of_nat (sy_grants s + (if op = OpAcquire then 1 else 0))"
    using wok old \<open>server_ok api B floor_t s\<close>
    by (auto simp: l' write_ok_def newLease_def server_ok_def seen_def split: if_splits option.splits)
  show "case api_get api (sy_srv s) of None \<Rightarrow> c \<and> op = OpAcquire
      | Some cur \<Rightarrow> lease_ok B floor_t t cur \<and> (if op = OpAcquire then \<not> activeHeldByOther (B p) cur p t else leaseHolder cur = p)"
    using wok old by (auto simp: write_ok_def seen_def split: if_splits option.splits)
qed


lemma op_ok_write:
  assumes "optimistic api floor_t rank" and "api_write api create l (sy_srv s) = Some (srv', l')"
    and "op_ok api B floor_t rank s q op x" and "sy_srv s' = srv'" and "sy_clock s' = sy_clock s"
  shows "op_ok api B floor_t rank s' q op x"
proof -
  have seen: "seen api rank (sy_srv s) old \<Longrightarrow> seen api rank (sy_srv s') old" for old
    using seen_write [OF assms(1,2)] assms(4) by simp
  obtain ph mail where x: "x = (ph, mail)" by (cases x)
  show ?thesis
  proof (cases ph)
    case (Writing n c m t)
    have "write_ok api B floor_t rank (sy_srv s') q op c m t" if "write_ok api B floor_t rank (sy_srv s) q op c m t"
      using that seen unfolding write_ok_def by (auto split: if_splits)
    then show ?thesis using assms(3,5) by (auto simp: x Writing)
  qed (use assms(3,5) seen in \<open>auto simp: x\<close>)
qed

lemma leaseTTL_known: "kl_LeaseDurationSeconds l = Some (leaseSeconds ttl) \<Longrightarrow> leaseTTL b l = leaseSeconds ttl * second"
  using leaseSeconds_pos [of ttl] by (simp add: leaseTTL_def leaseDurationSeconds_def)

text \<open>While the lease of a process has not expired, no other process can write it.\<close>

lemma others_expired:
  assumes inv: "lease_inv api B floor_t rank s" and c: "claim B s q r" "q \<noteq> p" and cur: "api_get api (sy_srv s) = Some cur"
    and was: "lease_ok B floor_t t cur" "if acq then \<not> activeHeldByOther (B p) cur p t else leaseHolder cur = p"
    and t: "t \<le> sy_clock s"
  shows "lr_ExpiresAt r \<le> sy_clock s"
proof (rule ccontr)
  assume "\<not> ?thesis"
  moreover have "claim_ok B (sy_clock s) (sy_grants s) cur q r" using inv c(1) cur by (simp add: lease_inv_def server_ok_def)
  ultimately have q: "leaseHolder cur = q" "lr_ExpiresAt r \<le> leaseRenewedAt cur + leaseSeconds (kb_ttl (B q)) * second"
    by (auto simp: claim_ok_def)
  have "sy_serving s q \<noteq> None \<or> (\<exists>op. sy_ops s q op \<noteq> None)" using c(1) by (auto simp: claim_def pending_def)
  then have "q \<noteq> ''''" using roles_okD(1-3) [OF inv] by blast
  with was(1) q(1) obtain u where u: "kl_RenewTime cur = Some u" "0 < u" "kl_LeaseDurationSeconds cur = Some (leaseSeconds (kb_ttl (B q)))"
    by (auto simp: lease_ok_def)
  with was(2) q(1) c(2) \<open>q \<noteq> ''''\<close> have "leaseRenewedAt cur + leaseSeconds (kb_ttl (B q)) * second \<le> t"
    by (auto simp: activeHeldByOther_def leaseRenewedAt_def leaseTTL_known split: if_splits)
  with q(2) t \<open>\<not> ?thesis\<close> show False by simp
qed

lemma of_nat_mono_uint64:
  assumes "a < b" and "b < 2 ^ 64"
  shows "(of_nat a :: uint64) < of_nat b"
  using assms by (simp add: word_less_nat_alt unat_of_nat take_bit_nat_eq_self)


lemma claim_after_write:
  assumes opt: "optimistic api floor_t rank" and inv: "lease_inv api B floor_t rank s"
    and op: "sy_ops s p op = Some (Writing n c l t, None)" and w: "api_write api c l (sy_srv s) = Some (srv', l')"
    and g: "g = sy_grants s + (if op = OpAcquire then 1 else 0)"
    and old: "claim B s q r" and stale: "q = p \<Longrightarrow> op = OpRenew"
  shows "claim_ok B (sy_clock s) g l' q r"
proof -
  note ws = write_served [OF opt inv op w]
  from inv op have "op_ok api B floor_t rank s p op (Writing n c l t, None)" unfolding lease_inv_def by blast
  then have t: "t \<le> sy_clock s" by auto
  have srv: "server_ok api B floor_t s" using inv by (simp add: lease_inv_def)
  with old obtain cur where cur: "api_get api (sy_srv s) = Some cur"
    unfolding server_ok_def by fastforce
  with srv old have ok: "claim_ok B (sy_clock s) (sy_grants s) cur q r" and e: "leaseEpoch cur = of_nat (sy_grants s)"
    by (auto simp: server_ok_def)
  from ws(7) cur have was: "lease_ok B floor_t t cur" "if op = OpAcquire then \<not> activeHeldByOther (B p) cur p t else leaseHolder cur = p"
    by auto
  show ?thesis
  proof (cases "q = p")
    case False
    have "lr_ExpiresAt r \<le> sy_clock s" by (rule others_expired [OF inv old False cur was t])
    moreover have "lr_Epoch r < leaseEpoch l'" if "g < 2 ^ 64"
    proof -
      from that ok g have le: "lr_Epoch r \<le> leaseEpoch cur" "lr_Epoch r = leaseEpoch cur \<longleftrightarrow> leaseHolder cur = q"
        by (auto simp: claim_ok_def)
      show ?thesis
      proof (cases "op = OpAcquire")
        case True
        with le(1) e of_nat_mono_uint64 [of "sy_grants s" g] that g ws(6) show ?thesis by simp
      next
        case False
        with le e was(2) \<open>q \<noteq> p\<close> ws(6) show ?thesis by (auto simp: order_less_le)
      qed
    qed
    moreover have "leaseHolder l' \<noteq> q" using ws(2) False roles_okD(1-3) [OF inv, of q] old
      by (auto simp: claim_def pending_def split: if_splits)
    ultimately show ?thesis by (auto simp: claim_ok_def)
  next
    case True
    with stale was have p: "op = OpRenew" "leaseHolder cur = p" by auto
    have "p \<noteq> ''''" using roles_okD(1,2) [OF inv] op by (metis option.distinct(1))
    with p was(1) obtain u where u: "kl_RenewTime cur = Some u" "u \<le> t" "floor_t u = u" by (auto simp: lease_ok_def)
    then have "leaseRenewedAt cur \<le> leaseRenewedAt l'"
      using resolutionD(4) [of floor_t u t] opt ws(4) p \<open>p \<noteq> ''''\<close> by (simp add: optimistic_def leaseRenewedAt_def)
    with ok True p ws(2,6) e g show ?thesis by (auto simp: claim_ok_def)
  qed
qed

lemma granted_record_ok:
  assumes opt: "optimistic api floor_t rank" and inv: "lease_inv api B floor_t rank s"
    and op: "sy_ops s p op = Some (Writing n c l t, None)" and w: "api_write api c l (sy_srv s) = Some (srv', l')"
    and "op \<noteq> OpRelease"
  shows "claim_ok B now g l' p (recordFromLease (B p) l' t)"
proof -
  note ws = write_served [OF opt inv op w]
  have "p \<noteq> ''''" using roles_okD(1,2) [OF inv] op by (metis option.distinct(1))
  with ws(2,4,5) assms(5) show ?thesis
    by (auto simp: claim_ok_def recordFromLease_def leaseTTL_known Let_def)
qed


lemma inv_write:
  assumes opt: "optimistic api floor_t rank" and inv: "lease_inv api B floor_t rank s"
    and op: "sy_ops s p op = Some (Writing n c l t, None)" and w: "api_write api c l (sy_srv s) = Some (srv', l')"
    and resp: "resp = Response (if c then 201 else 200) (LeaseBody l') False \<or> failure resp"
    and s': "s' = (setOp p op (Some (Writing n c l t, Some resp)) s)
      \<lparr>sy_srv := srv', sy_grants := sy_grants s + (if op = OpAcquire then 1 else 0)\<rparr>"
  shows "lease_inv api B floor_t rank s'"
proof -
  note ws = write_served [OF opt inv op w] and roles = roles_okD [OF inv]
  let ?g = "sy_grants s + (if op = OpAcquire then 1 else 0)"
  have fields: "sy_srv s' = srv'" "sy_clock s' = sy_clock s" "sy_serving s' = sy_serving s" "sy_grants s' = ?g" "sy_started s' = sy_started s"
    and ops: "sy_ops s' q o' = (if q = p \<and> o' = op then Some (Writing n c l t, Some resp) else sy_ops s q o')" for q o'
    by (simp_all add: s')
  have grant: "r = recordFromLease (B p) l' t" if "pending B s' p op r" for r
    using that resp writeReply_failure [of resp "B p" c l t r] by (auto simp: pending_def ops)
  have pend: "pending B s q o' r" if "pending B s' q o' r" "q \<noteq> p \<or> o' \<noteq> op" for q o' r
    using that by (auto simp: pending_def ops split: if_splits)
  have claims: "claim_ok B (sy_clock s) ?g l' q r" if cl: "claim B s' q r" for q r
  proof (cases "q = p \<and> pending B s' p op r \<and> op \<noteq> OpRelease")
    case True
    with grant granted_record_ok [OF opt inv op w] show ?thesis by blast
  next
    case False
    have "\<not> pending B s p op r" using op by (simp add: pending_def)
    from cl consider "sy_serving s q = Some r" | "pending B s' q OpAcquire r" | "pending B s' q OpRenew r" "sy_serving s q \<noteq> None"
      by (auto simp: claim_def fields)
    then have "claim B s q r \<and> (q = p \<longrightarrow> op = OpRenew)"
    proof cases
      case 1
      then have "q = p \<Longrightarrow> op = OpRenew" using roles(4,5) [of p] op by (cases op) auto
      with 1 show ?thesis by (simp add: claim_def)
    next
      case 2
      then have ne: "q \<noteq> p \<or> OpAcquire \<noteq> op" using False by auto
      then have "q = p \<Longrightarrow> sy_ops s p OpAcquire = None" using roles(4) [of p] op by (cases op) auto
      with pend [OF 2 ne] show ?thesis by (auto simp: claim_def pending_def)
    next
      case 3
      then have ne: "q \<noteq> p \<or> OpRenew \<noteq> op" using False by auto
      have "q = p \<Longrightarrow> op = OpRenew" using roles(4,5) [of p] op 3(2) by (cases op) auto
      with pend [OF 3(1) ne] 3(2) show ?thesis by (auto simp: claim_def)
    qed
    then show ?thesis using claim_after_write [OF opt inv op w refl] by blast
  qed
  have "server_ok api B floor_t s'" using ws(1,3,6) claims by (simp add: server_ok_def fields)
  moreover have "roles_ok s' q" for q
    by (rule roles_ok_cong [of s]) (use inv op in \<open>simp_all add: lease_inv_def fields ops\<close>)
  moreover have "op_ok api B floor_t rank s' q o' x" if x: "sy_ops s' q o' = Some x" for q o' x
  proof (cases "q = p \<and> o' = op")
    case True
    from inv op have "op_ok api B floor_t rank s p op (Writing n c l t, None)" unfolding lease_inv_def by blast
    with True x show ?thesis by (auto simp: ops fields)
  next
    case False
    with x have "sy_ops s q o' = Some x" unfolding ops by (simp only: if_not_P if_False)
    with inv have "op_ok api B floor_t rank s q o' x" unfolding lease_inv_def by blast
    from op_ok_write [OF opt w this fields(1,2)] show ?thesis .
  qed
  ultimately show ?thesis using inv by (simp add: lease_inv_def fields)
qed

lemma lease_inv_step:
  assumes opt: "optimistic api floor_t rank" and inv: "lease_inv api B floor_t rank s" and "lease_step api B s s'"
  shows "lease_inv api B floor_t rank s'"
  using assms(3)
proof cases
  case (tick d)
  show ?thesis
  proof (rule inv_same_server [OF inv])
    fix p show "roles_ok s' p" by (rule roles_ok_cong [of s]) (use inv tick in \<open>simp_all add: lease_inv_def\<close>)
  qed (use tick in \<open>simp_all add: claim_def pending_def\<close>)
next
  case (acquire p)
  have s': "s' = (setOp p OpAcquire (Some (Getting 0, None)) s)\<lparr>sy_started := insert p (sy_started s), sy_serving := sy_serving s\<rparr>"
    using acquire by (cases s) (simp add: setOp_def)
  show ?thesis
  proof (rule inv_start [OF inv s'])
    fix q show "roles_ok s' q"
    proof (cases "q = p")
      case True
      have "sy_serving s p = None" "sy_ops s p o' = None" for o'
        using roles_okD(2,3) [OF inv, of p] acquire(3) by blast+
      with True acquire show ?thesis by (simp add: roles_ok_def)
    next
      case False
      have "roles_ok s q" using inv by (simp add: lease_inv_def)
      with False acquire show ?thesis unfolding roles_ok_def by simp
    qed
  qed simp
next
  case (renew p)
  have s': "s' = (setOp p OpRenew (Some (Getting 0, None)) s)\<lparr>sy_started := sy_started s, sy_serving := sy_serving s\<rparr>"
    using renew by (cases s) (simp add: setOp_def)
  show ?thesis
  proof (rule inv_start [OF inv s'])
    fix q show "roles_ok s' q"
    proof (cases "q = p")
      case True
      have "p \<in> sy_started s" "sy_ops s p OpAcquire = None" "sy_ops s p OpRelease = None" "p \<noteq> ''''"
        using roles_okD [OF inv, of p] renew(2) by auto
      with True renew show ?thesis by (simp add: roles_ok_def)
    next
      case False
      have "roles_ok s q" using inv by (simp add: lease_inv_def)
      with False renew show ?thesis unfolding roles_ok_def by simp
    qed
  qed simp
next
  case (release p)
  have s': "s' = (setOp p OpRelease (Some (Getting 0, None)) s)\<lparr>sy_started := sy_started s, sy_serving := (sy_serving s)(p := None)\<rparr>"
    using release by (cases s) (simp add: setOp_def)
  show ?thesis
  proof (rule inv_start [OF inv s'])
    fix q show "roles_ok s' q"
    proof (cases "q = p")
      case True
      with release roles_okD(1) [OF inv, of p] show ?thesis by (simp add: roles_ok_def)
    next
      case False
      have "roles_ok s q" using inv by (simp add: lease_inv_def)
      with False release show ?thesis unfolding roles_ok_def by simp
    qed
  qed simp
next
  case (serve_get p op n)
  have "server_ok api B floor_t s" using inv by (simp add: lease_inv_def)
  then have "op_ok api B floor_t rank s p op (Getting n, Some (getReply api (sy_srv s)))"
    by (auto simp: server_ok_def seen_def split: option.splits)
  then show ?thesis unfolding serve_get(1) using serve_get(2) by (intro inv_setOp [OF inv]) auto
next
  case (serve_write p op n c l t srv' l' resp)
  show ?thesis by (rule inv_write [OF opt inv serve_write(2-4,1)])
next
  case (serve_conflict p op n c l t)
  from inv serve_conflict(2) have "op_ok api B floor_t rank s p op (Writing n c l t, None)" unfolding lease_inv_def by blast
  then show ?thesis unfolding serve_conflict(1) using serve_conflict(2) by (intro inv_setOp [OF inv]) auto
next
  case (fail p op ph resp)
  from inv fail(2) have ok: "op_ok api B floor_t rank s p op (ph, None)" unfolding lease_inv_def by blast
  then have "op_ok api B floor_t rank s p op (ph, Some resp)" using getLease_failure [OF fail(3)] by (cases ph) auto
  then show ?thesis unfolding fail(1) using fail(2) writeReply_failure [OF fail(3)] by (intro inv_setOp [OF inv]) auto
next
  case (handle p op ph resp)
  show ?thesis unfolding handle(1) by (rule inv_handle [OF inv handle(2)])
qed


lemma reachable_lease_inv:
  assumes "reachable_leases api B s" and "optimistic api floor_t rank"
  shows "lease_inv api B floor_t rank s"
  using assms
proof induction
  case (init s)
  then show ?case by (simp add: lease_inv_def server_ok_def claim_def pending_def roles_ok_def)
next
  case (step s s')
  then show ?case using lease_inv_step by blast
qed

section \<open>Properties\<close>


text \<open>
  C17. The epoch is a fencing token: processes that serve at the same time, one of them possibly
  under a lease that has expired without its noticing, have different epochs, and the epoch of the
  one that still holds the lease is the larger one.
\<close>

theorem lease_epochs_fence:
  assumes "reachable_leases api B s" and "optimistic api floor_t rank" and "sy_grants s < 2 ^ 64"
    and "sy_serving s p = Some r" and "sy_serving s q = Some r'" and "p \<noteq> q" and "sy_clock s < lr_ExpiresAt r"
  shows "lr_Epoch r' < lr_Epoch r"
proof -
  note inv = reachable_lease_inv [OF assms(1,2)]
  have "server_ok api B floor_t s" using inv by (simp add: lease_inv_def)
  moreover have "claim B s p r" "claim B s q r'" using assms(4,5) by (simp_all add: claim_def)
  ultimately obtain l where l: "claim_ok B (sy_clock s) (sy_grants s) l p r" "claim_ok B (sy_clock s) (sy_grants s) l q r'"
    unfolding server_ok_def by (auto split: option.splits)
  with assms(3,6,7) show ?thesis by (auto simp: claim_ok_def order_less_le)
qed


text \<open>
  C21. Acquire, renew and release all end: whatever the server answers, six replies are enough.
\<close>

theorem lease_operation_terminates:
  assumes "6 \<le> length replies"
  shows "\<exists>r. runOp b holder op (Getting 0) replies = Finished r"
proof -
  have "\<exists>r. runOp b holder op ph rs = Finished r" if "phase_ok ph" "rounds_left ph \<le> length rs" for ph rs
    using that
  proof (induction rs arbitrary: ph)
    case Nil
    then show ?case by (cases ph) auto
  next
    case (Cons x rs)
    obtain now resp where x: "x = (now, resp)" by (cases x)
    show ?case
    proof (cases "rounds_left ph = 0")
      case True
      then have "rounds_left (onReply b holder op ph now resp) \<le> length rs" using Cons.prems by (cases ph) auto
      with Cons.IH onReply_progress(1) [OF Cons.prems(1)] show ?thesis by (simp add: x)
    next
      case False
      from onReply_progress(2) [OF Cons.prems(1) False, of b holder op now resp] Cons.prems(2)
      have "rounds_left (onReply b holder op ph now resp) \<le> length rs" by simp
      with Cons.IH onReply_progress(1) [OF Cons.prems(1)] show ?thesis by (simp add: x)
    qed
  qed
  from this [of "Getting 0" replies] assms show ?thesis by simp
qed

text \<open>A label for the names of Kubernetes objects.\<close>

definition valid_label :: "string \<Rightarrow> bool" where
  "valid_label s \<longleftrightarrow> s \<noteq> [] \<and> length s \<le> 63 \<and> list_all (\<lambda>c. labelChar c \<or> c = CHR ''-'') s \<and>
     labelChar (hd s) \<and> labelChar (last s)"

lemma labelChar_dash: "\<not> labelChar (CHR ''-'')"
  by (simp add: labelChar_def isDecimal_def)

lemma labelLoop_chars: "list_all (\<lambda>c. labelChar c \<or> c = CHR ''-'') (labelLoop d s)"
  by (induction d s rule: labelLoop.induct) auto

lemma Trim_ends:
  assumes "Trim s cs \<noteq> []"
  shows "hd (Trim s cs) \<notin> set cs \<and> last (Trim s cs) \<notin> set cs"
proof -
  let ?d = "dropWhile (\<lambda>c. c \<in> set cs)"
  have ne1: "?d (rev (?d s)) \<noteq> []" using assms by (simp only: Trim_def rev_is_Nil_conv not_False_eq_True)
  then have ne2: "?d s \<noteq> []" by force
  have "last (Trim s cs) = hd (?d (rev (?d s)))" unfolding Trim_def by (rule last_rev)
  then have last: "last (Trim s cs) \<notin> set cs" using hd_dropWhile [OF ne1] by simp
  obtain z where z: "rev (?d s) = z @ ?d (rev (?d s))"
    using suffix_dropWhile [of "\<lambda>c. c \<in> set cs" "rev (?d s)"] unfolding suffix_def by blast
  have "hd (Trim s cs) = last (?d (rev (?d s)))" unfolding Trim_def by (rule hd_rev)
  also have "\<dots> = last (z @ ?d (rev (?d s)))" by (rule last_appendR [OF ne1, symmetric])
  also have "\<dots> = last (rev (?d s))" by (rule arg_cong [OF z [symmetric]])
  also have "\<dots> = hd (?d s)" by (rule last_rev)
  finally have "hd (Trim s cs) \<notin> set cs" using hd_dropWhile [OF ne2] by simp
  with last show ?thesis by simp
qed

lemma Trim_sub: "set (Trim s cs) \<subseteq> set s"
  unfolding Trim_def set_rev by (metis set_mono_suffix set_rev subset_trans suffix_dropWhile)

lemma Trim_length: "length (Trim s cs) \<le> length s"
  unfolding Trim_def length_rev by (metis length_dropWhile_le le_trans length_rev)

lemma Trim_Nil: "Trim s cs = [] \<Longrightarrow> set s \<subseteq> set cs"
proof -
  let ?d = "dropWhile (\<lambda>c. c \<in> set cs)"
  assume "Trim s cs = []"
  then have "\<forall>x\<in>set (?d s). x \<in> set cs" unfolding Trim_def rev_is_Nil_conv dropWhile_eq_Nil_conv set_rev .
  moreover have "hd (?d s) \<notin> set cs \<and> hd (?d s) \<in> set (?d s)" if "?d s \<noteq> []"
    using hd_dropWhile [OF that] hd_in_set [OF that] by blast
  ultimately have "?d s = []" by blast
  then show ?thesis unfolding dropWhile_eq_Nil_conv subset_iff by blast
qed

lemma Trim_label:
  assumes "\<And>c. c \<in> set s \<Longrightarrow> labelChar c \<or> c = CHR ''-''" and "Trim s ''-'' \<noteq> []"
  shows "(\<forall>c\<in>set (Trim s ''-''). labelChar c \<or> c = CHR ''-'') \<and> labelChar (hd (Trim s ''-'')) \<and> labelChar (last (Trim s ''-''))"
proof -
  have "hd (Trim s ''-'') \<in> set s" "last (Trim s ''-'') \<in> set s"
    using Trim_sub assms(2) hd_in_set last_in_set by blast+
  moreover have "hd (Trim s ''-'') \<noteq> CHR ''-''" "last (Trim s ''-'') \<noteq> CHR ''-''" using Trim_ends [OF assms(2)] by auto
  ultimately show ?thesis using Trim_sub assms(1) by blast
qed

lemma hexEncode_label: "c \<in> set (hexEncode b) \<Longrightarrow> labelChar c"
proof -
  have "labelChar (hexDigit n)" if "n < 16" for n
    using that by (auto simp: hexDigit_def labelChar_def isDecimal_def)
  moreover have "unat x div 16 < 16" "unat x mod 16 < 16" for x :: byte
    using unsigned_less [of x, where ?'a = nat] by (auto simp: less_mult_imp_div_less)
  moreover assume "c \<in> set (hexEncode b)"
  ultimately show ?thesis by (auto simp: hexEncode_def)
qed

lemma length_hexEncode: "length (hexEncode b) = 2 * length b"
  by (induction b) (auto simp: hexEncode_def)

text \<open>
  C22. Whatever the node identity is (empty, non-ASCII, too long), \<open>dnsLabel\<close> returns a valid DNS label:
  1 to 63 characters among lower-case letters, digits and dashes, with no dash at either end.
\<close>

theorem dns_label_valid:
  assumes "\<And>x. length (sha1 x) = 20"
  shows "valid_label (dnsLabel sha1 s)"
proof -
  define out where "out = (let t = Trim (labelLoop False (ToLowerStr s)) ''-'' in if t = '''' then ''node'' else t)"
  have chars: "c \<in> set (labelLoop False (ToLowerStr s)) \<Longrightarrow> labelChar c \<or> c = CHR ''-''" for c
    using labelLoop_chars [of False "ToLowerStr s"] by (auto simp: list_all_iff)
  have node: "list_all labelChar ''node''" by (simp add: labelChar_def)
  have out: "out \<noteq> []" "\<forall>c\<in>set out. labelChar c \<or> c = CHR ''-''" "labelChar (hd out)" "labelChar (last out)"
    using Trim_label [OF chars] node by (auto simp: out_def Let_def)
  show ?thesis
  proof (cases "length out \<le> 63")
    case True
    then have "dnsLabel sha1 s = out" by (simp add: dnsLabel_def out_def Let_def)
    with out True show ?thesis by (simp add: valid_label_def list_all_iff)
  next
    case False
    let ?suf = "CHR ''-'' # hexEncode (take 4 (sha1 out))" and ?cut = "take 54 out"
    have len: "length ?suf = 9" using assms by (simp add: length_hexEncode)
    then have eq: "dnsLabel sha1 s = Trim ?cut ''-'' @ ?suf" using False by (simp add: dnsLabel_def out_def Let_def)
    have "hd ?cut = hd out" using out(1) by (cases out) auto
    then have "hd ?cut \<noteq> CHR ''-''" using out(3) labelChar_dash by auto
    then have ne: "Trim ?cut ''-'' \<noteq> []" using Trim_Nil [of ?cut "''-''"] hd_in_set [of ?cut] out(1) by auto
    have sub: "c \<in> set ?cut \<Longrightarrow> labelChar c \<or> c = CHR ''-''" for c using out(2) set_take_subset [of 54 out] by auto
    have "hexEncode (take 4 (sha1 out)) \<noteq> []" using len by auto
    then have "labelChar (last ?suf)" using hexEncode_label last_in_set by fastforce
    with Trim_label [OF sub ne] ne Trim_length [of ?cut "''-''"] len hexEncode_label show ?thesis
      unfolding eq valid_label_def by (auto simp: list_all_iff)
  qed
qed

text \<open>The file backend: the lock admits one holder, and every grant has a new epoch, never 0.\<close>

lemma file_lease_exclusive:
  assumes "fileAcquire io h now (b, d) = ((b', d'), Inr rec)"
  shows "snd (fileAcquire io' h' now' (c, d')) \<noteq> Inr rec'"
  using assms by (auto simp: fileAcquire_def Let_def split: if_splits)

lemma file_lease_epoch:
  assumes "fileAcquire io h now (b, d) = ((b', d'), Inr rec)"
  shows "lr_Epoch rec \<noteq> 0"
    and "ld_record d' = Some rec" and "lr_HolderID rec = h"
  using assms by (auto simp: fileAcquire_def stampFile_def Let_def split: if_splits)

lemma file_release_frees:
  assumes "fileAcquire io h now (b, d) = ((b', d'), Inr rec)" and "io_mkdir io'" "io_open io'" "\<not> io_flockErr io'" "io_write io'"
  shows "\<exists>rec' s. fileAcquire io' h' now' (c, snd (fst (fileRelease err (b', d')))) = (s, Inr rec') \<and>
    (lr_Epoch rec \<noteq> - 1 \<longrightarrow> lr_Epoch rec' = lr_Epoch rec + 1)"
proof -
  from assms(1) have d': "fb_file b'" "ld_record d' = Some rec"
    by (auto simp: fileAcquire_def Let_def split: if_splits)
  then have rel: "snd (fst (fileRelease err (b', d'))) = d'\<lparr>ld_lock := None\<rparr>" by (simp add: fileRelease_def)
  have read: "readRecord c (d'\<lparr>ld_lock := None\<rparr>) now' = rec" using d' by (simp add: readRecord_def)
  have "lr_Epoch rec + 1 \<noteq> 0" if "lr_Epoch rec \<noteq> - 1" using that by (metis add_eq_0_iff2)
  then show ?thesis unfolding rel using assms(2-) by (simp add: fileAcquire_def read Let_def stampFile_def)
qed

section \<open>Examples\<close>

text \<open>
  A server that keeps one lease and counts its versions in unary, and an executable form of the steps,
  so that runs can be computed.
\<close>

definition demo_api :: "k8sLease option lease_api" where
  "demo_api = \<lparr>api_get = (\<lambda>s. s),
     api_write = (\<lambda>create l s.
       (case s of
          None \<Rightarrow> if create then Some (Some (stored id ''x'' l), stored id ''x'' l) else None
        | Some cur \<Rightarrow>
            if \<not> create \<and> kl_ResourceVersion cur = kl_ResourceVersion l
            then Some (Some (stored id (CHR ''x'' # kl_ResourceVersion cur) l), stored id (CHR ''x'' # kl_ResourceVersion cur) l)
            else None))\<rparr>"

lemma demo_optimistic: "optimistic demo_api id length"
  unfolding optimistic_def resolution_def demo_api_def by (auto simp: mono_def split: option.splits if_splits)

datatype lease_event = Tick int | Begin string LeaseOp | Serve string LeaseOp | Handle string LeaseOp

fun lease_exec :: "'s lease_api \<Rightarrow> (string \<Rightarrow> kubernetesBackend) \<Rightarrow> 's lease_system \<Rightarrow> lease_event \<Rightarrow> 's lease_system" where
  "lease_exec api B s (Tick d) = (if 0 \<le> d then s\<lparr>sy_clock := sy_clock s + d\<rparr> else s)"
| "lease_exec api B s (Begin p OpAcquire) =
     (if p \<noteq> '''' \<and> p \<notin> sy_started s
      then (setOp p OpAcquire (Some (Getting 0, None)) s)\<lparr>sy_started := insert p (sy_started s)\<rparr> else s)"
| "lease_exec api B s (Begin p OpRenew) =
     (if sy_serving s p \<noteq> None \<and> sy_ops s p OpRenew = None then setOp p OpRenew (Some (Getting 0, None)) s else s)"
| "lease_exec api B s (Begin p OpRelease) =
     (if p \<in> sy_started s \<and> sy_ops s p OpAcquire = None \<and> sy_ops s p OpRelease = None
      then (setOp p OpRelease (Some (Getting 0, None)) s)\<lparr>sy_serving := (sy_serving s)(p := None)\<rparr> else s)"
| "lease_exec api B s (Serve p op) =
     (case sy_ops s p op of
        Some (Getting n, None) \<Rightarrow> setOp p op (Some (Getting n, Some (getReply api (sy_srv s)))) s
      | Some (Writing n create l t, None) \<Rightarrow>
          (case api_write api create l (sy_srv s) of
             Some (srv', l') \<Rightarrow>
               (setOp p op (Some (Writing n create l t, Some (Response (if create then 201 else 200) (LeaseBody l') False))) s)
                 \<lparr>sy_srv := srv', sy_grants := sy_grants s + (if op = OpAcquire then 1 else 0)\<rparr>
           | None \<Rightarrow> setOp p op (Some (Writing n create l t, Some (Response 409 EmptyBody False))) s)
      | _ \<Rightarrow> s)"
| "lease_exec api B s (Handle p op) =
     (case sy_ops s p op of
        Some (ph, Some resp) \<Rightarrow> settle p op (onReply (B p) p op ph (sy_clock s) resp) s
      | _ \<Rightarrow> s)"

lemma lease_exec_step: "lease_exec api B s ev = s \<or> lease_step api B s (lease_exec api B s ev)"
proof (cases ev)
  case (Tick d)
  then show ?thesis by (simp add: lease_step.tick)
next
  case (Begin p op)
  then show ?thesis by (cases op) (simp_all add: lease_step.acquire lease_step.renew lease_step.release)
next
  case (Serve p op)
  show ?thesis
  proof (cases "sy_ops s p op")
    case (Some x)
    then obtain ph mail where x: "sy_ops s p op = Some (ph, mail)" by (cases x) auto
    show ?thesis
    proof (cases "mail = None")
      case True
      show ?thesis
      proof (cases ph)
        case (Getting n)
        then show ?thesis using x True Serve lease_step.serve_get [of s p op n] by simp
      next
        case (Writing n create l t)
        with x True have w: "sy_ops s p op = Some (Writing n create l t, None)" by simp
        show ?thesis
          using lease_step.serve_write [OF w] lease_step.serve_conflict [OF w] w Serve
          by (cases "api_write api create l (sy_srv s)") auto
      qed (use x True Serve in simp)
    qed (use x Serve in \<open>auto split: phase.split\<close>)
  qed (use Serve in simp)
next
  case (Handle p op)
  show ?thesis
  proof (cases "sy_ops s p op")
    case (Some x)
    then show ?thesis using Handle lease_step.handle [of s p op "fst x"] by (cases x; cases "snd x") auto
  qed (use Handle in simp)
qed

lemma lease_run_reachable: "reachable_leases api B s \<Longrightarrow> reachable_leases api B (foldl (lease_exec api B) s evs)"
proof (induction evs arbitrary: s)
  case (Cons ev evs)
  from Cons.prems lease_exec_step [of api B s ev] have "reachable_leases api B (lease_exec api B s ev)"
    by (auto intro: reachable_leases.step)
  with Cons.IH show ?case by simp
qed simp

definition demo_backend :: "string \<Rightarrow> kubernetesBackend" where
  "demo_backend p = \<lparr>kb_nodeID = ''n1'', kb_name = ''lease'', kb_namespace = ''ns'', kb_ttl = 2 * second, kb_sha1 = (\<lambda>_. replicate 20 0)\<rparr>"

definition acquireEvents :: "string \<Rightarrow> lease_event list" where
  "acquireEvents p = [Begin p OpAcquire, Serve p OpAcquire, Handle p OpAcquire, Serve p OpAcquire, Handle p OpAcquire]"

definition demo_lease_start :: "k8sLease option lease_system" where
  "demo_lease_start = \<lparr>sy_srv = None, sy_clock = 5000000000, sy_ops = (\<lambda>_ _. None), sy_serving = (\<lambda>_. None), sy_started = {}, sy_grants = 0\<rparr>"

text \<open>Process a acquires the lease and lets it expire; then b acquires it while a still serves.\<close>

definition demo_lease_run :: "k8sLease option lease_system" where
  "demo_lease_run = foldl (lease_exec demo_api demo_backend) demo_lease_start
     (acquireEvents ''a'' @ [Tick 2000000000] @ acquireEvents ''b'')"

lemma demo_lease_reachable: "reachable_leases demo_api demo_backend demo_lease_run"
  unfolding demo_lease_run_def
  by (rule lease_run_reachable, rule reachable_leases.init) (simp_all add: demo_lease_start_def demo_api_def)


lemma demo_lease_records:
  "map_option (\<lambda>r. (lr_Epoch r, lr_ExpiresAt r)) (sy_serving demo_lease_run ''a'') = Some (1, 7000000000)"
  "map_option (\<lambda>r. (lr_Epoch r, lr_ExpiresAt r)) (sy_serving demo_lease_run ''b'') = Some (2, 9000000000)"
  "sy_clock demo_lease_run = 7000000000" "sy_grants demo_lease_run = 2"
  by code_simp+


theorem lease_epochs_fence_witness:
  "\<exists>r r'. sy_serving demo_lease_run ''b'' = Some r \<and> sy_serving demo_lease_run ''a'' = Some r' \<and> lr_Epoch r' < lr_Epoch r"
proof -
  obtain r where r: "sy_serving demo_lease_run ''b'' = Some r" "lr_ExpiresAt r = 9000000000"
    using demo_lease_records(2) by auto
  obtain r' where r': "sy_serving demo_lease_run ''a'' = Some r'" using demo_lease_records(1) by auto
  have "sy_clock demo_lease_run < lr_ExpiresAt r" unfolding demo_lease_records(3) r(2) by simp
  with lease_epochs_fence [OF demo_lease_reachable demo_optimistic _ r(1) r'] have "lr_Epoch r' < lr_Epoch r"
    unfolding demo_lease_records(4) by simp
  with r(1) r' show ?thesis by blast
qed

theorem lease_operation_terminates_witness:
  "\<exists>r. runOp (demo_backend ''a'') ''a'' OpAcquire (Getting 0) (replicate 6 (0, Response 409 EmptyBody False)) = Finished r"
  by (rule lease_operation_terminates) simp

theorem dns_label_valid_witness: "valid_label (dnsLabel (\<lambda>_. replicate 20 0) ''Node_1/'')"
  by (rule dns_label_valid) simp

end
