(* ===== verification/Spec2Isabelle.thy ===== *)
theory Spec2Isabelle
  imports AtomicUpdate ClusterRuns IdentityLease
begin

text \<open>
  CefasDB: a partitioned, replicated item store with a DynamoDB-like data model. This library
  models its core: how an item becomes bytes, which key it is stored under, what the indexes hold,
  how a write is decided, committed and logged on one shard, how the token ring is divided among
  shards and routed, how an operator changes that division, and how the rows follow.

  \<^bold>\<open>How the parts interact.\<close> A write carries an item (\<^verbatim>\<open>pkg/types\<close>). The cluster manager
  (\<^verbatim>\<open>internal/cluster/manager.go\<close>) asks the router (\<^verbatim>\<open>internal/routing\<close>) which shard owns the token of its
  partition key in the placement catalog (\<^verbatim>\<open>internal/placement\<close>), and adds the shards under construction
  that will own it. On a shard the engine (\<^verbatim>\<open>internal/storage/adapter/pebble\<close>) reads the prior row,
  evaluates the condition (\<^verbatim>\<open>condition.go\<close>), plans the index mutations (\<^verbatim>\<open>gsi.go\<close>, \<^verbatim>\<open>lsi.go\<close>, \<^verbatim>\<open>spatial.go\<close>,
  \<^verbatim>\<open>ttl.go\<close>), appends a change record (\<^verbatim>\<open>changelog.go\<close>) and commits the batch. Plans
  (\<^verbatim>\<open>internal/placement/plan_*.go\<close>) put a catalog into a transition; the finalisers
  (\<^verbatim>\<open>split_finalize.go\<close>, \<^verbatim>\<open>range_move_finalize.go\<close>) copy the rows, verify them, publish the catalog that ends
  the transition and delete the moved rows. A process serves a raft identity only while it holds
  its lease (\<^verbatim>\<open>internal/identitylease\<close>).

  \<^bold>\<open>Theories: foundations.\<close>
  \<^item> \<open>Prelude\<close>: byte strings, results (\<open>Inl\<close> an error), Go maps as association lists, shared lemmas.
  \<^item> \<open>GoBinary\<close>, \<open>GoStrings\<close>: what the code uses of Go's \<^verbatim>\<open>encoding/binary\<close>, \<^verbatim>\<open>strings\<close>, \<^verbatim>\<open>strconv\<close> and
    \<^verbatim>\<open>net/url\<close>; the interfaces \<open>stream_codec\<close> (a decoder that inverts an encoder and leaves the rest of the
    input) and \<open>ordered_key\<close> (fixed-width keys that sort as their numbers).

  \<^bold>\<open>Theories: storage.\<close>
  \<^item> \<open>DataModel\<close>: \<^verbatim>\<open>pkg/types/types.go\<close>. \<open>ItemCodec\<close>: \<^verbatim>\<open>item_codec.go\<close>, a deterministic codec with a round
    trip for every well-formed item; its parts are instances of \<open>stream_codec\<close>.
  \<^item> \<open>Keys\<close>, \<open>KeyRanges\<close>: \<^verbatim>\<open>keys.go\<close>. Each scan range is compared with the set of keys it is meant to
    cover, each parser with its builder.
  \<^item> \<open>SecondaryIndex\<close>: \<^verbatim>\<open>gsi.go\<close>, \<^verbatim>\<open>lsi.go\<close>. The planned mutations refine the abstract index, the map from
    the entry of the old item to that of the new one; interface \<open>secondary_index\<close>, with instances for
    both kinds here and for spatial indexes and TTL pointers in \<open>RowPlan\<close>.
  \<^item> \<open>Morton\<close>: \<^verbatim>\<open>internal/spatial/zorder.go\<close>. \<open>RowPlan\<close>: \<^verbatim>\<open>spatial.go\<close>, \<^verbatim>\<open>ttl.go\<close> and the plan of all index
    entries of a row.
  \<^item> \<open>Condition\<close>: \<^verbatim>\<open>condition.go\<close>. Parsing inverts printing, comparison is a total order per type,
    evaluation never meets an operator it does not know.
  \<^item> \<open>ChangeRecords\<close>: the records of the change log and their binary format.
  \<^item> \<open>Engine\<close>: the state of one shard (\<open>DB\<close>) and its operations, from \<^verbatim>\<open>writer.go\<close>, \<^verbatim>\<open>memory.go\<close>, \<^verbatim>\<open>db.go\<close>,
    \<^verbatim>\<open>pressure.go\<close> and \<^verbatim>\<open>changelog.go\<close>. \<open>EngineProps\<close>: a write is read back, a failed write leaves no trace,
    memory tables agree with the store. \<open>EngineIndexes\<close>: in every reachable state an index holds
    exactly the entries of the stored rows; and how two interleaved conditional puts both succeed.
  \<^item> \<open>AtomicExpr\<close>, \<open>AtomicUpdate\<close>: \<^verbatim>\<open>atomic.go\<close>. The evaluator of APPLY expressions agrees with the
    meaning of the printed syntax tree; a repeated request is applied once; indexes stay exact.

  \<^bold>\<open>Theories: placement.\<close>
  \<^item> \<open>TokenRing\<close>, \<open>Placement\<close>: \<^verbatim>\<open>tokens.go\<close>, \<^verbatim>\<open>placement.go\<close>, \<^verbatim>\<open>helpers.go\<close>. Validation accepts exactly the
    catalogs whose routable ranges own every token once.
  \<^item> \<open>Routing\<close>: \<^verbatim>\<open>router.go\<close> over the interface \<open>ring_partition\<close>, which validation provides.
  \<^item> \<open>PlacementPolicy\<close>, \<open>PlacementPlans\<close>: \<^verbatim>\<open>placement_policy.go\<close>, \<^verbatim>\<open>planner.go\<close> and the five plan strategies.
    Every plan ends in a valid catalog of the next epoch; splits and range moves keep routing;
    a drain makes decommissioning possible.

  \<^bold>\<open>Theories: cluster.\<close>
  \<^item> \<open>ShardCopy\<close>: the lower half of \<^verbatim>\<open>split_finalize.go\<close>. Copying and deleting a token range is exact on the
    rows and keeps the indexes of both shards exact; what was copied passes verification.
  \<^item> \<open>ClusterManager\<close>: routing, mirrors, opening and installing placements of \<^verbatim>\<open>manager.go\<close>. The invariant
    \<open>manager_ok\<close> says that the router is that of the catalog and every open shard shows the catalog's
    state; under it a request reaches the owner of its key.
  \<^item> \<open>ShardMove\<close>: the interface \<open>saved_phases\<close> of a finaliser's state (saving it changes a system key only)
    and the effect of the phases between two saves, proved once.
  \<^item> \<open>SplitFinalize\<close>, \<open>RangeMoveFinalize\<close>: \<^verbatim>\<open>FinalizeSplit\<close>, \<^verbatim>\<open>RollbackSplit\<close>, \<^verbatim>\<open>FinalizeRangeMove\<close>, each an
    instance of \<open>saved_phases\<close>. A finished transition loses no row: the row is on the shard that
    requests for its key reach.
  \<^item> \<open>ClusterRuns\<close>: starting a node, changing voters, and the managers that any sequence of operations,
    failed ones included, can reach: they satisfy the invariant and serve every key.
  \<^item> \<open>IdentityLease\<close>: both lease backends, and many processes against one API server as a step relation:
    no two processes hold an identity at once, epochs fence the older holder.
  \<^item> This theory: the agreement of the storage layer with the router.

  \<^bold>\<open>Conventions.\<close> A definition has the name of the Go function it translates; a loop of that
  function is a recursive function named after it, and a long function is cut into named parts in
  the order of the code. Go's fixed-width integers are words, so arithmetic wraps as in Go;
  \<^verbatim>\<open>big.Int\<close> is \<^typ>\<open>int\<close>; strings and byte slices are lists. Errors are constructors of a datatype per
  component and carry what the code puts in the message where it matters. A stateful operation
  returns the new state also when it fails. All functions are total: the recursions are structural
  or have a termination proof, and no fuel is used. An operation under a mutex is one step; where
  the code takes no lock (conditional puts, lease requests) the steps are separate.

  \<^bold>\<open>Parameters.\<close> Code that is not in the repository is an argument: the hash functions (third-party
  \<^verbatim>\<open>xxhash\<close>, record \<open>hasher\<close>), Unicode tables (\<open>unicode\<close>), floating-point arithmetic (\<open>float_env\<close>,
  \<open>arith\<close>), the Kubernetes API server (\<open>lease_api\<close>), JSON texts, opening a store with its Raft group, the
  group's answers, the table catalog and the success of file operations (\<open>cluster_env\<close>, \<open>node_env\<close>,
  \<open>split_env\<close>, \<open>move_env\<close>), the context and the
  clock (\<open>world\<close>, \<open>now\<close>). Theorems that speak of more than one row assume that the hashes of the keys
  in use do not collide (\<open>collision_free\<close>), since the code does not compare keys after hashing; those
  on leases assume the API server's optimistic locking (\<open>optimistic\<close>). Nothing else is assumed.

  \<^bold>\<open>Not modelled.\<close> Operator-facing warning and detail texts; JSON encodings; closing a node,
  storage tuning and leader hints in \<^verbatim>\<open>manager.go\<close>; reading the change log, its
  retention cleaner and the TTL reaper; backup and restore; goroutine scheduling (lanes, service
  levels, group commit); SQL, plugins, the servers and clients, the command line tools, metrics,
  tracing and authentication, which are glue around the modelled operations or third-party code;
  the Pebble store and the Raft library themselves.
\<close>

section \<open>Storage keys and routing agree\<close>

text \<open>
  C1. The storage layer and the router agree on where a row lives. The token that is read back
  from a stored primary key routes, with the router of any accepted catalog, to the shard the
  client was sent to when it wrote the row, and that shard exists. So the copy of a split or a
  range move, which selects the rows by the token in their keys, takes the rows the router sends
  there (table names without a slash).
\<close>

theorem stored_row_routes_to_its_shard:
  assumes "CHR ''/'' \<notin> set table" and "NewRouterFromCatalog now cat = Inr r"
  shows "\<exists>token s. PrimaryTokenFromKey (KeyPrimary H table pk sk) = Some token \<and>
    ShardForUint64 (Some r) token = Inr s \<and> ShardForPK H (Some r) pk = Inr s \<and> s \<in> set (ShardIDs (Some r))"
  using primary_token_from_key [OF assms(1), of H pk sk] route_exists [OF assms(2), of "Sum64 H pk"]
  by (auto simp: ShardForPK_def TokenForPK_def)

theorem stored_row_routes_to_its_shard_witness:
  "\<exists>r token s. NewRouterFromCatalog 5 demo_catalog = Inr r \<and>
     PrimaryTokenFromKey (KeyPrimary demo_hasher ''users'' [1] [2]) = Some token \<and>
     ShardForUint64 (Some r) token = Inr s \<and> ShardForPK demo_hasher (Some r) [1] = Inr s"
proof -
  obtain r where r: "NewRouterFromCatalog 5 demo_catalog = Inr r" using demo_plans(3) by (auto simp: is_ok_iff)
  with stored_row_routes_to_its_shard [OF _ r, of "''users''" demo_hasher "[1]" "[2]"] show ?thesis by auto
qed

end
